(* ===== verification/Prelude.thy ===== *)
theory Prelude
  imports Complex_Main "HOL-Library.Monad_Syntax"
begin

text \<open>
  Shared vocabulary of the development: JavaScript numbers with \<open>undefined\<close> and
  \<open>NaN\<close>, the strings the deck engine reads and writes (decimal numerals,
  \<open>parseInt\<close>, \<open>split\<close>, \<open>join\<close>), list lemmas, and the simplification
  collections the component theories extend.
\<close>

named_theorems js_simps "equations of the JavaScript number and string operations"
named_theorems dom_simps "frame equations of the document operations"
named_theorems deck_defs "definitions of small deck operations, unfolded on demand"

section \<open>JavaScript numbers\<close>

text \<open>
  The indices the engine passes around are integers, \<open>undefined\<close> (an argument left
  out, a variable not assigned yet) or \<open>NaN\<close> (a failed \<open>parseInt\<close>, arithmetic
  on \<open>undefined\<close>). Comparisons with the last two are false, arithmetic gives \<open>NaN\<close>.
\<close>

datatype jsnum = Undef | NaN | Num int

fun js_lt :: "jsnum \<Rightarrow> jsnum \<Rightarrow> bool" where
  "js_lt (Num x) (Num y) = (x < y)"
| "js_lt _ _ = False"

definition js_gt :: "jsnum \<Rightarrow> jsnum \<Rightarrow> bool" where
  "js_gt a b = js_lt b a"

fun js_le :: "jsnum \<Rightarrow> jsnum \<Rightarrow> bool" where
  "js_le (Num x) (Num y) = (x \<le> y)"
| "js_le _ _ = False"

definition js_ge :: "jsnum \<Rightarrow> jsnum \<Rightarrow> bool" where
  "js_ge a b = js_le b a"

text \<open>Strict equality: \<open>NaN\<close> differs from everything.\<close>

fun js_seq :: "jsnum \<Rightarrow> jsnum \<Rightarrow> bool" where
  "js_seq (Num x) (Num y) = (x = y)"
| "js_seq Undef Undef = True"
| "js_seq _ _ = False"

fun js_add :: "jsnum \<Rightarrow> jsnum \<Rightarrow> jsnum" where
  "js_add (Num x) (Num y) = Num (x + y)"
| "js_add _ _ = NaN"

fun js_sub :: "jsnum \<Rightarrow> jsnum \<Rightarrow> jsnum" where
  "js_sub (Num x) (Num y) = Num (x - y)"
| "js_sub _ _ = NaN"

fun js_min :: "jsnum \<Rightarrow> jsnum \<Rightarrow> jsnum" where
  "js_min (Num x) (Num y) = Num (min x y)"
| "js_min _ _ = NaN"

fun js_max :: "jsnum \<Rightarrow> jsnum \<Rightarrow> jsnum" where
  "js_max (Num x) (Num y) = Num (max x y)"
| "js_max _ _ = NaN"

text \<open>The remainder operator takes the sign of its left operand.\<close>

definition trunc_rem :: "int \<Rightarrow> int \<Rightarrow> int" where
  "trunc_rem a b = sgn a * (\<bar>a\<bar> mod \<bar>b\<bar>)"

fun js_rem :: "jsnum \<Rightarrow> jsnum \<Rightarrow> jsnum" where
  "js_rem (Num x) (Num y) = (if y = 0 then NaN else Num (trunc_rem x y))"
| "js_rem _ _ = NaN"

text \<open>\<open>x || 0\<close>: \<open>undefined\<close>, \<open>NaN\<close> and zero are falsy.\<close>

fun or_zero :: "jsnum \<Rightarrow> jsnum" where
  "or_zero (Num x) = Num x"
| "or_zero _ = Num 0"

text \<open>\<open>typeof x === 'number'\<close> holds for \<open>NaN\<close> too.\<close>

definition is_number :: "jsnum \<Rightarrow> bool" where
  "is_number a = (a \<noteq> Undef)"

definition the_num :: "jsnum \<Rightarrow> int" where
  "the_num a = (case a of Num x \<Rightarrow> x | _ \<Rightarrow> 0)"

lemma the_num_Num [simp]: "the_num (Num x) = x"
  by (simp add: the_num_def)

lemma js_gt_Num [simp]: "js_gt (Num x) (Num y) = (y < x)"
  by (simp add: js_gt_def)

lemma js_ge_Num [simp]: "js_ge (Num x) (Num y) = (y \<le> x)"
  by (simp add: js_ge_def)

lemma js_undef_simps [simp]:
  "\<not> js_lt Undef b" "\<not> js_lt a Undef" "\<not> js_lt NaN b" "\<not> js_lt a NaN"
  "\<not> js_le Undef b" "\<not> js_le a Undef" "\<not> js_le NaN b" "\<not> js_le a NaN"
  "\<not> js_gt Undef b" "\<not> js_gt a Undef" "\<not> js_gt NaN b" "\<not> js_gt a NaN"
  "\<not> js_ge Undef b" "\<not> js_ge a Undef" "\<not> js_ge NaN b" "\<not> js_ge a NaN"
  by (cases a; cases b; simp add: js_gt_def js_ge_def)+

lemma js_seq_Num [simp]: "js_seq a (Num x) \<longleftrightarrow> a = Num x"
  by (cases a) auto

lemma js_lt_Num_iff: "js_lt a (Num n) \<longleftrightarrow> (\<exists>k. a = Num k \<and> k < n)"
  by (cases a) auto

lemma js_gt_Num_iff: "js_gt a (Num n) \<longleftrightarrow> (\<exists>k. a = Num k \<and> n < k)"
  by (cases a) auto

lemma js_ge_Num_iff: "js_ge a (Num n) \<longleftrightarrow> (\<exists>k. a = Num k \<and> n \<le> k)"
  by (cases a) auto

lemma trunc_rem_bounds: "0 < n \<Longrightarrow> - n < trunc_rem a n \<and> trunc_rem a n < n"
proof -
  assume n: "0 < n"
  then have "0 \<le> \<bar>a\<bar> mod n" and "\<bar>a\<bar> mod n < n" by auto
  with n show ?thesis by (cases "a = 0"; cases "0 < a") (auto simp: trunc_rem_def sgn_if)
qed

lemma trunc_rem_small [simp]: "0 \<le> a \<Longrightarrow> a < n \<Longrightarrow> trunc_rem a n = a"
  by (cases "a = 0") (auto simp: trunc_rem_def sgn_if)

lemma trunc_rem_self [simp]: "0 < n \<Longrightarrow> trunc_rem n n = 0"
  by (simp add: trunc_rem_def)

lemma trunc_rem_minus_one [simp]: "1 < n \<Longrightarrow> trunc_rem (-1) n = -1"
  by (simp add: trunc_rem_def)

section \<open>Decimal numerals and strings\<close>

definition is_digit :: "char \<Rightarrow> bool" where
  "is_digit c = (48 \<le> (of_char c :: nat) \<and> (of_char c :: nat) \<le> 57)"

definition digit_val :: "char \<Rightarrow> nat" where
  "digit_val c = of_char c - 48"

definition digit_char :: "nat \<Rightarrow> char" where
  "digit_char n = char_of (48 + n)"

fun show_nat :: "nat \<Rightarrow> string" where
  "show_nat n = (if n < 10 then [digit_char n] else show_nat (n div 10) @ [digit_char (n mod 10)])"

declare show_nat.simps [simp del]

definition show_int :: "int \<Rightarrow> string" where
  "show_int i = (if i < 0 then CHR ''-'' # show_nat (nat (- i)) else show_nat (nat i))"

fun show_num :: "jsnum \<Rightarrow> string" where
  "show_num Undef = ''undefined''"
| "show_num NaN = ''NaN''"
| "show_num (Num i) = show_int i"

definition digits_val :: "string \<Rightarrow> nat" where
  "digits_val ds = foldl (\<lambda>a c. 10 * a + digit_val c) 0 ds"

definition is_space :: "char \<Rightarrow> bool" where
  "is_space c = ((of_char c :: nat) \<in> {9, 10, 11, 12, 13, 32, 160})"

text \<open>
  \<open>parseInt(s, 10)\<close>: white space is skipped, an optional sign read, then the longest
  run of digits; no digit gives \<open>NaN\<close>.
\<close>

definition parse_digits :: "string \<Rightarrow> jsnum" where
  "parse_digits s = (let ds = takeWhile is_digit s in
     if ds = [] then NaN else Num (int (digits_val ds)))"

definition parseInt :: "string \<Rightarrow> jsnum" where
  "parseInt s = (case dropWhile is_space s of
       [] \<Rightarrow> NaN
     | c # cs \<Rightarrow>
         if c = CHR ''-'' then (case parse_digits cs of Num n \<Rightarrow> Num (- n) | e \<Rightarrow> e)
         else if c = CHR ''+'' then parse_digits cs
         else parse_digits (c # cs))"

lemma of_char_digit_char: "n < 10 \<Longrightarrow> (of_char (digit_char n) :: nat) = 48 + n"
  by (simp add: digit_char_def)

lemma is_digit_digit_char [simp]: "n < 10 \<Longrightarrow> is_digit (digit_char n)"
  by (simp add: is_digit_def of_char_digit_char)

lemma digit_val_digit_char [simp]: "n < 10 \<Longrightarrow> digit_val (digit_char n) = n"
  by (simp add: digit_val_def of_char_digit_char)

lemma show_nat_nonempty [simp]: "show_nat n \<noteq> []"
  by (subst show_nat.simps) simp

lemma show_nat_digits: "c \<in> set (show_nat n) \<Longrightarrow> is_digit c"
proof (induction n rule: show_nat.induct)
  case (1 n)
  then show ?case by (cases "n < 10") (auto simp: show_nat.simps [of n])
qed

lemma show_nat_cases:
  obtains c cs where "show_nat n = c # cs" and "is_digit c" and "list_all is_digit cs"
proof (cases "show_nat n")
  case Nil
  then show ?thesis by simp
next
  case (Cons c cs)
  then show ?thesis using show_nat_digits [of _ n] that by (auto simp: list_all_iff)
qed

lemma digits_val_append: "digits_val (xs @ [c]) = 10 * digits_val xs + digit_val c"
  by (simp add: digits_val_def)

lemma digits_val_show_nat [simp]: "digits_val (show_nat n) = n"
proof (induction n rule: show_nat.induct)
  case (1 n)
  show ?case
  proof (cases "n < 10")
    case True
    then show ?thesis by (simp add: show_nat.simps [of n]) (simp add: digits_val_def)
  next
    case False
    with 1 have "digits_val (show_nat (n div 10)) = n div 10" by simp
    with False show ?thesis by (simp add: show_nat.simps [of n] digits_val_append)
  qed
qed

lemma takeWhile_digits_show_nat:
  "takeWhile is_digit (show_nat n @ rest) = show_nat n @ takeWhile is_digit rest"
  by (rule takeWhile_append2) (rule show_nat_digits)

lemma parse_digits_show_nat [simp]: "parse_digits (show_nat n) = Num (int n)"
proof -
  have "takeWhile is_digit (show_nat n) = show_nat n"
    using takeWhile_digits_show_nat [of n "[]"] by simp
  then show ?thesis unfolding parse_digits_def Let_def by (simp only: show_nat_nonempty if_False digits_val_show_nat)
qed

lemma digit_not_special:
  assumes "is_digit c"
  shows "\<not> is_space c" and "c \<noteq> CHR ''-''" and "c \<noteq> CHR ''+''" and "c \<noteq> CHR ''/''" and "c \<noteq> CHR ''#''"
  using assms by (auto simp: is_digit_def is_space_def)

lemma minus_not_space [simp]: "\<not> is_space (CHR ''-'')"
  by (simp add: is_space_def)

lemma parseInt_show_nat [simp]: "parseInt (show_nat n) = Num (int n)"
proof -
  obtain c cs where eq: "show_nat n = c # cs" by (cases "show_nat n") auto
  then have d: "is_digit c" using show_nat_digits [of c n] by simp
  have "dropWhile is_space (show_nat n) = show_nat n"
    using d by (simp add: eq digit_not_special)
  then show ?thesis
    using d parse_digits_show_nat [of n] by (simp add: parseInt_def eq digit_not_special)
qed

lemma parseInt_show_int [simp]: "parseInt (show_int i) = Num i"
  by (cases "i < 0") (simp_all add: show_int_def parseInt_def [of "CHR ''-'' # _"])

lemma parseInt_Nil [simp]: "parseInt [] = NaN"
  by (simp add: parseInt_def)

subsection \<open>split and join\<close>

fun split_on :: "char \<Rightarrow> string \<Rightarrow> string list" where
  "split_on c [] = [[]]"
| "split_on c (x # xs) =
     (if x = c then [] # split_on c xs
      else (case split_on c xs of [] \<Rightarrow> [[x]] | p # ps \<Rightarrow> (x # p) # ps))"

fun join_with :: "string \<Rightarrow> string list \<Rightarrow> string" where
  "join_with sep [] = []"
| "join_with sep [x] = x"
| "join_with sep (x # y # ys) = x @ sep @ join_with sep (y # ys)"

lemma split_on_nonempty [simp]: "split_on c s \<noteq> []"
  by (induction s) (auto split: list.splits)

lemma split_on_notin [simp]: "c \<notin> set s \<Longrightarrow> split_on c s = [s]"
  by (induction s) auto

lemma split_on_append:
  "c \<notin> set s \<Longrightarrow> split_on c (s @ c # t) = s # split_on c t"
  by (induction s) auto

lemma split_on_join: "join_with [c] (split_on c s) = s"
proof (induction s)
  case Nil
  then show ?case by simp
next
  case (Cons x xs)
  then obtain p ps where "split_on c xs = p # ps" by (cases "split_on c xs") auto
  with Cons show ?case by (cases ps) auto
qed

lemma slash_notin_show_nat [simp]: "CHR ''/'' \<notin> set (show_nat n)"
  using show_nat_digits digit_not_special(4) by blast

section \<open>Lists\<close>

fun index_of :: "'a \<Rightarrow> 'a list \<Rightarrow> int" where
  "index_of x [] = -1"
| "index_of x (y # ys) = (if x = y then 0 else (let i = index_of x ys in if i < 0 then -1 else i + 1))"

text \<open>Reading an array at a number: out of range, \<open>NaN\<close> and \<open>undefined\<close> give \<open>undefined\<close>.\<close>

definition arr_get :: "'a list \<Rightarrow> jsnum \<Rightarrow> 'a option" where
  "arr_get xs a = (case a of
       Num i \<Rightarrow> if 0 \<le> i \<and> i < int (length xs) then Some (xs ! nat i) else None
     | _ \<Rightarrow> None)"

lemma index_of_notin [simp]: "x \<notin> set xs \<Longrightarrow> index_of x xs = -1"
  by (induction xs) auto

lemma index_of_ge: "-1 \<le> index_of x xs"
  by (induction xs) (auto simp: Let_def)

lemma index_of_in: "x \<in> set xs \<Longrightarrow> 0 \<le> index_of x xs \<and> index_of x xs < int (length xs) \<and> xs ! nat (index_of x xs) = x"
  by (induction xs) (auto simp: Let_def nat_add_distrib)

lemma index_of_nth: "distinct xs \<Longrightarrow> i < length xs \<Longrightarrow> index_of (xs ! i) xs = int i"
proof -
  assume d: "distinct xs" and i: "i < length xs"
  let ?k = "index_of (xs ! i) xs"
  have k: "0 \<le> ?k" "?k < int (length xs)" "xs ! nat ?k = xs ! i"
    using index_of_in [of "xs ! i" xs] i by auto
  then have "nat ?k = i" using d i by (simp add: nth_eq_iff_index_eq)
  with k show ?thesis by simp
qed

lemma arr_get_Num [simp]:
  "arr_get xs (Num i) = (if 0 \<le> i \<and> i < int (length xs) then Some (xs ! nat i) else None)"
  "arr_get xs NaN = None" "arr_get xs Undef = None"
  by (simp_all add: arr_get_def)

lemma arr_get_Some: "arr_get xs a = Some x \<Longrightarrow> \<exists>i. a = Num (int i) \<and> i < length xs \<and> x = xs ! i"
  by (cases a) (auto split: if_splits intro: exI [of _ "nat (the_num a)"])

lemma arr_get_in_set: "arr_get xs a = Some x \<Longrightarrow> x \<in> set xs"
  by (auto dest!: arr_get_Some)

definition last_opt :: "'a list \<Rightarrow> 'a option" where
  "last_opt xs = (if xs = [] then None else Some (last xs))"

definition first_opt :: "'a list \<Rightarrow> 'a option" where
  "first_opt xs = (case xs of [] \<Rightarrow> None | x # _ \<Rightarrow> Some x)"

lemma last_opt_simps [simp]: "last_opt [] = None" "last_opt (xs @ [x]) = Some x"
  "last_opt xs = None \<longleftrightarrow> xs = []"
  by (simp_all add: last_opt_def)

lemma last_opt_Some: "last_opt xs = Some x \<longleftrightarrow> xs \<noteq> [] \<and> last xs = x"
  by (auto simp: last_opt_def)

lemma first_opt_simps [simp]: "first_opt [] = None" "first_opt (x # xs) = Some x"
  "first_opt xs = None \<longleftrightarrow> xs = []"
  by (auto simp: first_opt_def split: list.splits)

end
