(* ===== verification/Dom.thy ===== *)
theory Dom
  imports Prelude
begin

text \<open>
  The part of the browser's document the deck engine works on: a forest of elements with
  tag names, class lists, attributes, inline styles and content, and the operations of the
  platform the engine calls on it. The document order is a list of all nodes; every node
  carries the chain of its ancestors, nearest first, so that \<open>parentNode\<close>,
  \<open>closest\<close> and "is a descendant of" are lookups. Tag names are written in lower case.

  Values written to inline styles keep their structure (a length, a list of transform
  functions) instead of being printed, since the engine never reads the printed form back.
\<close>

type_synonym node = nat

datatype tfun = TCenter | TScale real | TScaleX real | TTranslateX real | TTranslateY real
  | TTranslate3d real real | TWord string

datatype css = Css string | Px real | Tr "tfun list" | CNum real | Pos "real option" "real option"

record dom =
  order :: "node list"
  path :: "node \<Rightarrow> node list"
  tag :: "node \<Rightarrow> string"
  cls :: "node \<Rightarrow> string set"
  attr :: "node \<Rightarrow> string \<Rightarrow> string option"
  sty :: "node \<Rightarrow> string \<Rightarrow> css option"
  html :: "node \<Rightarrow> string"
  bgOf :: "node \<Rightarrow> node option"
  bgContentOf :: "node \<Rightarrow> node option"
  nextNode :: node

section \<open>Reading\<close>

definition parentNode :: "dom \<Rightarrow> node \<Rightarrow> node option" where
  "parentNode d x = first_opt (path d x)"

definition is_desc :: "dom \<Rightarrow> node \<Rightarrow> node \<Rightarrow> bool" where
  "is_desc d r x = (r \<in> set (path d x))"

definition queryAll :: "dom \<Rightarrow> node \<Rightarrow> (node \<Rightarrow> bool) \<Rightarrow> node list" where
  "queryAll d r p = filter (\<lambda>x. is_desc d r x \<and> p x) (order d)"

definition querySel :: "dom \<Rightarrow> node \<Rightarrow> (node \<Rightarrow> bool) \<Rightarrow> node option" where
  "querySel d r p = first_opt (queryAll d r p)"

text \<open>
  Text nodes carry the tag \<open>#text\<close> and their text as content; comments are tagged
  \<open>#comment\<close>. Neither has classes, attributes or children, so no selector finds them.
\<close>

definition is_element :: "dom \<Rightarrow> node \<Rightarrow> bool" where
  "is_element d x = (take 1 (tag d x) \<noteq> ''#'')"

definition childNodes :: "dom \<Rightarrow> node \<Rightarrow> node list" where
  "childNodes d r = filter (\<lambda>x. path d x = r # path d r) (order d)"

definition closest :: "dom \<Rightarrow> node \<Rightarrow> (node \<Rightarrow> bool) \<Rightarrow> node option" where
  "closest d x p = first_opt (filter p (x # path d x))"

definition nextElementSibling :: "dom \<Rightarrow> node \<Rightarrow> node option" where
  "nextElementSibling d x =
     first_opt (filter (is_element d)
       (tl (dropWhile (\<lambda>y. y \<noteq> x) (filter (\<lambda>y. path d y = path d x) (order d)))))"

definition has_class :: "string \<Rightarrow> dom \<Rightarrow> node \<Rightarrow> bool" where
  "has_class c d x = (c \<in> cls d x)"

definition get_attr :: "string \<Rightarrow> dom \<Rightarrow> node \<Rightarrow> string option" where
  "get_attr a d x = attr d x a"

definition has_attr :: "string \<Rightarrow> dom \<Rightarrow> node \<Rightarrow> bool" where
  "has_attr a d x = (attr d x a \<noteq> None)"

definition get_style :: "string \<Rightarrow> dom \<Rightarrow> node \<Rightarrow> css option" where
  "get_style k d x = sty d x k"

definition is_section :: "dom \<Rightarrow> node \<Rightarrow> bool" where
  "is_section d x = (tag d x = ''section'')"

section \<open>Writing\<close>

definition add_class :: "string \<Rightarrow> node \<Rightarrow> dom \<Rightarrow> dom" where
  "add_class c x d = d\<lparr>cls := (cls d)(x := insert c (cls d x))\<rparr>"

definition remove_class :: "string \<Rightarrow> node \<Rightarrow> dom \<Rightarrow> dom" where
  "remove_class c x d = d\<lparr>cls := (cls d)(x := cls d x - {c})\<rparr>"

definition set_attr :: "string \<Rightarrow> string \<Rightarrow> node \<Rightarrow> dom \<Rightarrow> dom" where
  "set_attr a v x d = d\<lparr>attr := (attr d)(x := (attr d x)(a := Some v))\<rparr>"

definition remove_attr :: "string \<Rightarrow> node \<Rightarrow> dom \<Rightarrow> dom" where
  "remove_attr a x d = d\<lparr>attr := (attr d)(x := (attr d x)(a := None))\<rparr>"

definition set_style :: "string \<Rightarrow> css \<Rightarrow> node \<Rightarrow> dom \<Rightarrow> dom" where
  "set_style k v x d = d\<lparr>sty := (sty d)(x := (sty d x)(k := Some v))\<rparr>"

definition remove_style :: "string \<Rightarrow> node \<Rightarrow> dom \<Rightarrow> dom" where
  "remove_style k x d = d\<lparr>sty := (sty d)(x := (sty d x)(k := None))\<rparr>"

definition set_html :: "string \<Rightarrow> node \<Rightarrow> dom \<Rightarrow> dom" where
  "set_html v x d = d\<lparr>html := (html d)(x := v)\<rparr>"

section \<open>Structure: creating, inserting and removing elements\<close>

text \<open>
  A new element is detached: it is in the document order, since its own descendants have
  one, but it has no ancestor, so that no query from an attached root finds it.
\<close>

definition createElement :: "string \<Rightarrow> dom \<Rightarrow> node \<times> dom" where
  "createElement t d = (let n = nextNode d in
     (n, d\<lparr>order := order d @ [n], path := (path d)(n := []), tag := (tag d)(n := t),
           cls := (cls d)(n := {}), attr := (attr d)(n := (\<lambda>_. None)),
           sty := (sty d)(n := (\<lambda>_. None)), html := (html d)(n := []),
           bgOf := (bgOf d)(n := None), bgContentOf := (bgContentOf d)(n := None),
           nextNode := Suc n\<rparr>))"

definition in_subtree :: "dom \<Rightarrow> node \<Rightarrow> node \<Rightarrow> bool" where
  "in_subtree d c x = (x = c \<or> c \<in> set (path d x))"

definition subtree :: "dom \<Rightarrow> node \<Rightarrow> node list" where
  "subtree d c = filter (in_subtree d c) (order d)"

text \<open>The ancestors of the moved nodes: up to the moved root as before, then the new chain.\<close>

definition repath :: "dom \<Rightarrow> node \<Rightarrow> node list \<Rightarrow> node \<Rightarrow> node list" where
  "repath d c up x =
     (if x = c then up
      else if c \<in> set (path d x) then takeWhile (\<lambda>y. y \<noteq> c) (path d x) @ c # up
      else path d x)"

definition removeNode :: "node \<Rightarrow> dom \<Rightarrow> dom" where
  "removeNode c d = d\<lparr>path := repath d c []\<rparr>"

fun insert_after_last :: "('a \<Rightarrow> bool) \<Rightarrow> 'a list \<Rightarrow> 'a list \<Rightarrow> 'a list" where
  "insert_after_last p ys [] = ys"
| "insert_after_last p ys (x # xs) =
     (if (\<exists>z\<in>set (x # xs). p z) then x # insert_after_last p ys xs else ys @ x # xs)"

definition appendChild :: "node \<Rightarrow> node \<Rightarrow> dom \<Rightarrow> dom" where
  "appendChild p c d =
     d\<lparr>order := insert_after_last (in_subtree d p) (subtree d c)
                 (filter (\<lambda>x. \<not> in_subtree d c x) (order d)),
       path := repath d c (p # path d p)\<rparr>"

definition insertBefore :: "node \<Rightarrow> node \<Rightarrow> node \<Rightarrow> dom \<Rightarrow> dom" where
  "insertBefore p c r d =
     (if r = c then d
      else let rest = filter (\<lambda>x. \<not> in_subtree d c x) (order d) in
        d\<lparr>order := takeWhile (\<lambda>x. x \<noteq> r) rest @ subtree d c @ dropWhile (\<lambda>x. x \<noteq> r) rest,
          path := repath d c (p # path d p)\<rparr>)"

section \<open>Frame equations\<close>

lemma add_class_frame [simp]:
  "order (add_class c x d) = order d" "path (add_class c x d) = path d"
  "tag (add_class c x d) = tag d" "attr (add_class c x d) = attr d"
  "sty (add_class c x d) = sty d" "html (add_class c x d) = html d"
  "bgOf (add_class c x d) = bgOf d" "bgContentOf (add_class c x d) = bgContentOf d"
  "nextNode (add_class c x d) = nextNode d"
  by (simp_all add: add_class_def)

lemma remove_class_frame [simp]:
  "order (remove_class c x d) = order d" "path (remove_class c x d) = path d"
  "tag (remove_class c x d) = tag d" "attr (remove_class c x d) = attr d"
  "sty (remove_class c x d) = sty d" "html (remove_class c x d) = html d"
  "bgOf (remove_class c x d) = bgOf d" "bgContentOf (remove_class c x d) = bgContentOf d"
  "nextNode (remove_class c x d) = nextNode d"
  by (simp_all add: remove_class_def)

lemma set_attr_frame [simp]:
  "order (set_attr a v x d) = order d" "path (set_attr a v x d) = path d"
  "tag (set_attr a v x d) = tag d" "cls (set_attr a v x d) = cls d"
  "sty (set_attr a v x d) = sty d" "html (set_attr a v x d) = html d"
  "bgOf (set_attr a v x d) = bgOf d" "bgContentOf (set_attr a v x d) = bgContentOf d"
  "nextNode (set_attr a v x d) = nextNode d"
  by (simp_all add: set_attr_def)

lemma remove_attr_frame [simp]:
  "order (remove_attr a x d) = order d" "path (remove_attr a x d) = path d"
  "tag (remove_attr a x d) = tag d" "cls (remove_attr a x d) = cls d"
  "sty (remove_attr a x d) = sty d" "html (remove_attr a x d) = html d"
  "bgOf (remove_attr a x d) = bgOf d" "bgContentOf (remove_attr a x d) = bgContentOf d"
  "nextNode (remove_attr a x d) = nextNode d"
  by (simp_all add: remove_attr_def)

lemma set_style_frame [simp]:
  "order (set_style k v x d) = order d" "path (set_style k v x d) = path d"
  "tag (set_style k v x d) = tag d" "cls (set_style k v x d) = cls d"
  "attr (set_style k v x d) = attr d" "html (set_style k v x d) = html d"
  "bgOf (set_style k v x d) = bgOf d" "bgContentOf (set_style k v x d) = bgContentOf d"
  "nextNode (set_style k v x d) = nextNode d"
  by (simp_all add: set_style_def)

lemma remove_style_frame [simp]:
  "order (remove_style k x d) = order d" "path (remove_style k x d) = path d"
  "tag (remove_style k x d) = tag d" "cls (remove_style k x d) = cls d"
  "attr (remove_style k x d) = attr d" "html (remove_style k x d) = html d"
  "bgOf (remove_style k x d) = bgOf d" "bgContentOf (remove_style k x d) = bgContentOf d"
  "nextNode (remove_style k x d) = nextNode d"
  by (simp_all add: remove_style_def)

lemma set_html_frame [simp]:
  "order (set_html v x d) = order d" "path (set_html v x d) = path d"
  "tag (set_html v x d) = tag d" "cls (set_html v x d) = cls d"
  "attr (set_html v x d) = attr d" "sty (set_html v x d) = sty d"
  "bgOf (set_html v x d) = bgOf d" "bgContentOf (set_html v x d) = bgContentOf d"
  "nextNode (set_html v x d) = nextNode d"
  by (simp_all add: set_html_def)

lemma has_class_add [simp]:
  "has_class c (add_class c' x d) y \<longleftrightarrow> (c = c' \<and> y = x) \<or> has_class c d y"
  by (auto simp: has_class_def add_class_def)

lemma has_class_remove [simp]:
  "has_class c (remove_class c' x d) y \<longleftrightarrow> has_class c d y \<and> \<not> (c = c' \<and> y = x)"
  by (auto simp: has_class_def remove_class_def)

lemma has_class_cong: "cls d' = cls d \<Longrightarrow> has_class c d' = has_class c d"
  by (simp add: has_class_def fun_eq_iff)

lemma get_attr_set [simp]:
  "get_attr a (set_attr a' v x d) y = (if a = a' \<and> y = x then Some v else get_attr a d y)"
  by (simp add: get_attr_def set_attr_def)

lemma get_attr_remove [simp]:
  "get_attr a (remove_attr a' x d) y = (if a = a' \<and> y = x then None else get_attr a d y)"
  by (simp add: get_attr_def remove_attr_def)

lemma get_attr_other [simp]:
  "a \<noteq> a' \<Longrightarrow> get_attr a (set_attr a' v x d) = get_attr a d"
  "a \<noteq> a' \<Longrightarrow> get_attr a (remove_attr a' x d) = get_attr a d"
  by (simp_all add: fun_eq_iff)

lemma get_attr_cong: "attr d' = attr d \<Longrightarrow> get_attr a d' = get_attr a d"
  by (simp add: get_attr_def fun_eq_iff)

lemma has_attr_iff: "has_attr a d x \<longleftrightarrow> get_attr a d x \<noteq> None"
  by (simp add: has_attr_def get_attr_def)

lemma get_style_set [simp]:
  "get_style k (set_style k' v x d) y = (if k = k' \<and> y = x then Some v else get_style k d y)"
  by (simp add: get_style_def set_style_def)

lemma class_frame [simp]:
  "has_class c (set_attr a v x d) = has_class c d"
  "has_class c (remove_attr a x d) = has_class c d"
  "has_class c (set_style k w x d) = has_class c d"
  "has_class c (remove_style k x d) = has_class c d"
  "has_class c (set_html v x d) = has_class c d"
  by (rule has_class_cong, simp)+

lemma attr_frame [simp]:
  "get_attr a (add_class c x d) = get_attr a d"
  "get_attr a (remove_class c x d) = get_attr a d"
  "get_attr a (set_style k w x d) = get_attr a d"
  "get_attr a (remove_style k x d) = get_attr a d"
  "get_attr a (set_html v x d) = get_attr a d"
  by (rule get_attr_cong, simp)+

section \<open>Loops over elements\<close>

text \<open>\<open>forEach\<close> with a body that only writes the document is a fold.\<close>

definition for_each :: "(node \<Rightarrow> dom \<Rightarrow> dom) \<Rightarrow> node list \<Rightarrow> dom \<Rightarrow> dom" where
  "for_each f xs d = fold f xs d"

lemma for_each_simps [simp]:
  "for_each f [] d = d" "for_each f (x # xs) d = for_each f xs (f x d)"
  "for_each f (xs @ ys) d = for_each f ys (for_each f xs d)"
  by (simp_all add: for_each_def)

lemma for_each_frame:
  assumes "\<And>x d. g (f x d) = g d"
  shows "g (for_each f xs d) = g d"
  by (induction xs arbitrary: d) (auto simp: assms)

text \<open>
  A loop whose body changes one observation of the element it is at, and no other
  element's: the observation after the loop.
\<close>

lemma for_each_obs:
  assumes same: "\<And>x d. obs (f x d) x = v x (obs d x)"
    and other: "\<And>x y d. y \<noteq> x \<Longrightarrow> obs (f x d) y = obs d y"
    and idem: "\<And>x a. v x (v x a) = v x a"
  shows "obs (for_each f xs d) y = (if y \<in> set xs then v y (obs d y) else obs d y)"
proof (induction xs arbitrary: d)
  case Nil
  then show ?case by simp
next
  case (Cons x xs)
  then show ?case by (cases "y = x") (auto simp: same other idem)
qed

section \<open>Sections of the deck\<close>

definition slides_sel :: "dom \<Rightarrow> node \<Rightarrow> bool" where
  "slides_sel d x = (is_section d x \<and> (\<exists>y\<in>set (path d x). has_class ''slides'' d y))"

definition horizontal_sel :: "dom \<Rightarrow> node \<Rightarrow> bool" where
  "horizontal_sel d x = (is_section d x \<and>
     (case path d x of p # _ \<Rightarrow> has_class ''slides'' d p | [] \<Rightarrow> False))"

definition nested_sel :: "dom \<Rightarrow> node \<Rightarrow> bool" where
  "nested_sel d x = (is_section d x \<and>
     (case path d x of p # q # _ \<Rightarrow> is_section d p \<and> has_class ''slides'' d q | _ \<Rightarrow> False))"

definition vertical_sel :: "dom \<Rightarrow> node \<Rightarrow> bool" where
  "vertical_sel d x = (nested_sel d x \<and>
     (case path d x of p # _ \<Rightarrow> has_class ''present'' d p | [] \<Rightarrow> False))"

text \<open>
  What every operation of the engine leaves alone once the deck is set up: the sections,
  their order and their place in the document, and which elements are marked as slide
  containers.
\<close>

definition sections :: "dom \<Rightarrow> node list" where
  "sections d = filter (is_section d) (order d)"

definition keeps :: "dom \<Rightarrow> dom \<Rightarrow> bool" where
  "keeps d d' = (sections d' = sections d \<and>
     (\<forall>x\<in>set (sections d). path d' x = path d x \<and>
        (\<forall>y\<in>set (path d x). is_section d' y = is_section d y \<and>
           has_class ''slides'' d' y = has_class ''slides'' d y)))"

lemma keeps_refl [simp]: "keeps d d"
  by (simp add: keeps_def)

lemma keeps_trans [trans]: "keeps a b \<Longrightarrow> keeps b c \<Longrightarrow> keeps a c"
  by (simp add: keeps_def)

lemma keeps_for_each: "(\<And>x d. keeps d (f x d)) \<Longrightarrow> keeps d (for_each f xs d)"
  by (induction xs arbitrary: d) (auto intro: keeps_trans)

lemma keepsI:
  assumes "order d' = order d" "path d' = path d" "tag d' = tag d"
    and "\<And>y. has_class ''slides'' d' y = has_class ''slides'' d y"
  shows "keeps d d'"
proof -
  have "is_section d' = is_section d" using assms(3) by (simp add: is_section_def fun_eq_iff)
  with assms show ?thesis by (simp add: keeps_def sections_def)
qed

lemma keeps_ops [simp, intro]:
  "c \<noteq> ''slides'' \<Longrightarrow> keeps d (add_class c x d)"
  "c \<noteq> ''slides'' \<Longrightarrow> keeps d (remove_class c x d)"
  "keeps d (set_attr a v x d)" "keeps d (remove_attr a x d)"
  "keeps d (set_style k w x d)" "keeps d (remove_style k x d)" "keeps d (set_html h x d)"
  by (rule keepsI; simp)+

lemma queryAll_section_filter:
  "(\<And>x. p x \<Longrightarrow> is_section d x) \<Longrightarrow>
   queryAll d r p = filter (\<lambda>x. is_desc d r x \<and> p x) (sections d)"
  unfolding queryAll_def sections_def filter_filter by (rule filter_cong) auto

lemma keeps_query:
  assumes k: "keeps d d'" and p: "\<And>x. p x \<Longrightarrow> is_section d x" and p': "\<And>x. p' x \<Longrightarrow> is_section d' x"
    and same: "\<And>x. x \<in> set (sections d) \<Longrightarrow> p' x = p x"
  shows "queryAll d' r p' = queryAll d r p"
proof -
  have "sections d' = sections d" using k by (simp add: keeps_def)
  then have "queryAll d' r p' = filter (\<lambda>x. is_desc d' r x \<and> p' x) (sections d)"
    using queryAll_section_filter [OF p'] by simp
  also have "\<dots> = filter (\<lambda>x. is_desc d r x \<and> p x) (sections d)"
    using k same by (intro filter_cong) (auto simp: keeps_def is_desc_def)
  finally show ?thesis using queryAll_section_filter [OF p] by simp
qed

lemma sections_in [simp]: "x \<in> set (sections d) \<longleftrightarrow> x \<in> set (order d) \<and> is_section d x"
  by (auto simp: sections_def)

lemma keeps_is_section:
  assumes "keeps d d'" "x \<in> set (sections d)"
  shows "is_section d' x"
proof -
  have "x \<in> set (sections d')" using assms by (simp add: keeps_def)
  then show ?thesis by simp
qed

lemma keepsD:
  assumes "keeps d d'" "x \<in> set (sections d)"
  shows "path d' x = path d x" and "is_section d' x"
    and "y \<in> set (path d x) \<Longrightarrow> is_section d' y = is_section d y"
    and "y \<in> set (path d x) \<Longrightarrow> has_class ''slides'' d' y = has_class ''slides'' d y"
  using assms keeps_is_section [OF assms] by (auto simp: keeps_def)

lemma keeps_horizontal_sel:
  assumes "keeps d d'" "x \<in> set (sections d)"
  shows "horizontal_sel d' x = horizontal_sel d x"
  using keepsD [OF assms] assms(2) by (auto simp: horizontal_sel_def split: list.splits)

lemma keeps_nested_sel:
  assumes "keeps d d'" "x \<in> set (sections d)"
  shows "nested_sel d' x = nested_sel d x"
  using keepsD [OF assms] assms(2) by (auto simp: nested_sel_def split: list.splits)

lemma keeps_horizontal:
  assumes "keeps d d'"
  shows "queryAll d' r (horizontal_sel d') = queryAll d r (horizontal_sel d)"
  by (rule keeps_query [OF assms])
    (simp_all add: horizontal_sel_def keeps_horizontal_sel [OF assms, unfolded horizontal_sel_def])

lemma keeps_nested:
  assumes "keeps d d'"
  shows "queryAll d' r (nested_sel d') = queryAll d r (nested_sel d)"
  by (rule keeps_query [OF assms])
    (simp_all add: nested_sel_def keeps_nested_sel [OF assms, unfolded nested_sel_def])

lemma keeps_sections:
  assumes "keeps d d'"
  shows "queryAll d' r (is_section d') = queryAll d r (is_section d)"
  by (rule keeps_query [OF assms]) (simp_all add: keeps_is_section [OF assms])

section \<open>Well-formed documents\<close>

text \<open>
  Nodes are numbered below \<open>nextNode\<close>; the document order lists each once; ancestors and
  background elements are nodes; the ancestors of a node are its parent and the parent's
  ancestors; background elements are not sections.
\<close>

definition bg_node :: "dom \<Rightarrow> node \<Rightarrow> bool" where
  "bg_node d y = (y < nextNode d \<and> \<not> is_section d y)"

definition wf_dom :: "dom \<Rightarrow> bool" where
  "wf_dom d = (distinct (order d) \<and> (\<forall>x\<in>set (order d). x < nextNode d) \<and>
     (\<forall>x < nextNode d. \<forall>y\<in>set (path d x). y < nextNode d) \<and>
     (\<forall>x < nextNode d. \<forall>p ps. path d x = p # ps \<longrightarrow> path d p = ps) \<and>
     (\<forall>x y. bgOf d x = Some y \<or> bgContentOf d x = Some y \<longrightarrow> bg_node d y))"

lemma wf_domD:
  assumes "wf_dom d"
  shows "distinct (order d)" and "x \<in> set (order d) \<Longrightarrow> x < nextNode d"
    and "x < nextNode d \<Longrightarrow> y \<in> set (path d x) \<Longrightarrow> y < nextNode d"
    and "x < nextNode d \<Longrightarrow> path d x = p # ps \<Longrightarrow> path d p = ps"
    and "bgOf d x = Some y \<Longrightarrow> bg_node d y" and "bgContentOf d x = Some y \<Longrightarrow> bg_node d y"
  using assms unfolding wf_dom_def by blast+

lemma wf_dom_cong:
  assumes "order d' = order d" "path d' = path d" "tag d' = tag d" "nextNode d' = nextNode d"
    "bgOf d' = bgOf d" "bgContentOf d' = bgContentOf d"
  shows "wf_dom d' = wf_dom d"
  using assms by (simp add: wf_dom_def bg_node_def is_section_def)

lemma wf_dom_ops [simp]:
  "wf_dom (add_class c x d) = wf_dom d" "wf_dom (remove_class c x d) = wf_dom d"
  "wf_dom (set_attr a v x d) = wf_dom d" "wf_dom (remove_attr a x d) = wf_dom d"
  "wf_dom (set_style k w x d) = wf_dom d" "wf_dom (remove_style k x d) = wf_dom d"
  "wf_dom (set_html h x d) = wf_dom d"
  by (rule wf_dom_cong; simp)+

lemma set_insert_after_last: "set (insert_after_last p ys xs) = set ys \<union> set xs"
  by (induction p ys xs rule: insert_after_last.induct) auto

lemma distinct_insert_after_last:
  "distinct ys \<Longrightarrow> distinct xs \<Longrightarrow> set ys \<inter> set xs = {} \<Longrightarrow> distinct (insert_after_last p ys xs)"
  by (induction p ys xs rule: insert_after_last.induct) (auto simp: set_insert_after_last)

lemma filter_insert_after_last:
  "(\<And>y. y \<in> set ys \<Longrightarrow> \<not> q y) \<Longrightarrow> filter q (insert_after_last p ys xs) = filter q xs"
  by (induction p ys xs rule: insert_after_last.induct) (auto simp: filter_empty_conv)

lemma createElement_simps:
  assumes "createElement t d = (n, d')"
  shows "n = nextNode d" "order d' = order d @ [n]" "path d' = (path d)(n := [])"
    "tag d' = (tag d)(n := t)" "cls d' = (cls d)(n := {})" "nextNode d' = Suc (nextNode d)"
    "bgOf d' = (bgOf d)(n := None)" "bgContentOf d' = (bgContentOf d)(n := None)"
  using assms by (auto simp: createElement_def Let_def)

lemma wf_dom_create:
  assumes wf: "wf_dom d" and c: "createElement t d = (n, d')"
  shows "wf_dom d'"
proof -
  note e = createElement_simps [OF c]
  have bg: "bg_node d' y" if "bg_node d y" for y
    using that by (auto simp: bg_node_def is_section_def e)
  have "distinct (order d')" using wf_domD(1,2) [OF wf] by (auto simp: e)
  moreover have "\<forall>x\<in>set (order d'). x < nextNode d'"
    using wf_domD(2) [OF wf] by (auto simp: e less_Suc_eq)
  moreover have "\<forall>x < nextNode d'. \<forall>y\<in>set (path d' x). y < nextNode d'"
    using wf_domD(3) [OF wf] by (auto simp: e less_Suc_eq)
  moreover have "\<forall>x y. bgOf d' x = Some y \<or> bgContentOf d' x = Some y \<longrightarrow> bg_node d' y"
  proof (intro allI impI)
    fix x y
    assume "bgOf d' x = Some y \<or> bgContentOf d' x = Some y"
    then have "bgOf d x = Some y \<or> bgContentOf d x = Some y"
      unfolding e by (simp only: fun_upd_apply split: if_splits) blast
    then have "bg_node d y" using wf_domD(5,6) [OF wf] by blast
    then show "bg_node d' y" by (rule bg)
  qed
  moreover have "path d' p = ps" if "x < nextNode d'" "path d' x = p # ps" for x p ps
  proof -
    have x: "x < nextNode d" "path d x = p # ps" using that by (auto simp: e split: if_splits)
    then have "p < nextNode d" using wf_domD(3) [OF wf x(1)] by simp
    then show ?thesis using wf_domD(4) [OF wf x] by (simp add: e(1,3))
  qed
  ultimately show ?thesis unfolding wf_dom_def by blast
qed

lemma keeps_create:
  assumes wf: "wf_dom d" and c: "createElement t d = (n, d')" and t: "t \<noteq> ''section''"
  shows "keeps d d'"
proof -
  note e = createElement_simps [OF c]
  have old: "x \<noteq> n" if "x \<in> set (order d)" for x using wf_domD(2) [OF wf that] e by auto
  have oldp: "y \<noteq> n" if "x \<in> set (order d)" "y \<in> set (path d x)" for x y
    using wf_domD(3) [OF wf wf_domD(2) [OF wf that(1)] that(2)] e by auto
  have "is_section d' x = is_section d x" if "x \<noteq> n" for x using that e by (simp add: is_section_def)
  moreover have "\<not> is_section d' n" using e t by (simp add: is_section_def)
  ultimately have "sections d' = sections d"
    using old by (simp add: sections_def e cong: filter_cong)
  moreover have "path d' x = path d x" if "x \<in> set (order d)" for x
    using old [OF that] by (simp add: e(3))
  moreover have "is_section d' y = is_section d y" "has_class k d' y = has_class k d y"
    if "x \<in> set (order d)" "y \<in> set (path d x)" for x y k
    using oldp [OF that] by (simp_all add: e(4,5) is_section_def has_class_def)
  ultimately show ?thesis unfolding keeps_def Ball_def sections_in by blast
qed

lemma wf_dom_append:
  assumes wf: "wf_dom d" and p: "p < nextNode d" and c: "c < nextNode d" and acyclic: "\<not> in_subtree d c p"
  shows "wf_dom (appendChild p c d)"
proof -
  let ?d = "appendChild p c d"
  have same: "nextNode ?d = nextNode d" "path ?d = repath d c (p # path d p)"
    "bgOf ?d = bgOf d" "bgContentOf ?d = bgContentOf d" "bg_node ?d = bg_node d"
    by (simp_all add: appendChild_def bg_node_def is_section_def fun_eq_iff)
  have o: "set (order ?d) = set (order d)"
    by (auto simp: appendChild_def set_insert_after_last subtree_def)
  have "distinct (order ?d)"
    using wf_domD(1) [OF wf]
    by (auto simp: appendChild_def subtree_def intro!: distinct_insert_after_last)
  moreover have "y < nextNode d" if x: "x < nextNode d" and y: "y \<in> set (repath d c (p # path d p) x)" for x y
  proof -
    have "y = p \<or> y = c \<or> y \<in> set (path d p) \<or> y \<in> set (path d x)"
      using y by (auto simp: repath_def dest!: set_takeWhileD split: if_splits)
    then show ?thesis using wf_domD(3) [OF wf] p c x by blast
  qed
  moreover have "repath d c (p # path d p) q = ps"
    if x: "x < nextNode d" and e: "repath d c (p # path d p) x = q # ps" for x q ps
  proof -
    have up: "repath d c (p # path d p) p = path d p" using acyclic by (auto simp: repath_def in_subtree_def)
    consider "x = c" | "x \<noteq> c" "c \<in> set (path d x)" | "x \<noteq> c" "c \<notin> set (path d x)" by blast
    then show ?thesis
    proof cases
      case 1
      then have "p # path d p = q # ps" using e by (simp only: repath_def if_True refl)
      then have "p = q" and ps: "path d p = ps" by blast+
      from this(1) up have "repath d c (p # path d p) q = path d p" by blast
      then show ?thesis unfolding ps .
    next
      case 2
      then obtain q' ps' where q': "path d x = q' # ps'" by (cases "path d x") auto
      then have "path d q' = ps'" by (rule wf_domD(4) [OF wf x])
      then show ?thesis using 2 q' e by (auto simp: repath_def split: if_splits)
    next
      case 3
      then have q: "path d x = q # ps" using e by (simp add: repath_def)
      then have "path d q = ps" by (rule wf_domD(4) [OF wf x])
      then show ?thesis using 3 q by (auto simp: repath_def)
    qed
  qed
  ultimately show ?thesis
    using wf_domD(2,5,6) [OF wf] unfolding wf_dom_def same o by blast
qed

text \<open>Ancestors of ancestors are ancestors.\<close>

lemma path_trans:
  assumes wf: "wf_dom d" and "x < nextNode d" "y \<in> set (path d x)" "b \<in> set (path d y)"
  shows "b \<in> set (path d x)"
proof -
  have "\<forall>x < nextNode d. path d x = ps \<longrightarrow> y \<in> set ps \<longrightarrow> set (path d y) \<subseteq> set ps" for ps
  proof (induction ps)
    case (Cons q ps)
    show ?case
    proof (intro allI impI)
      fix x
      assume x: "x < nextNode d" "path d x = q # ps" "y \<in> set (q # ps)"
      then have q: "path d q = ps" "q < nextNode d" using wf_domD(4) [OF wf x(1,2)] wf_domD(3) [OF wf x(1)] by auto
      show "set (path d y) \<subseteq> set (q # ps)" using Cons.IH q x(3) by auto
    qed
  qed simp
  then show ?thesis using assms(2-4) by blast
qed

lemma keeps_append:
  assumes leaf: "\<And>x. x \<in> set (order d) \<Longrightarrow> in_subtree d c x \<Longrightarrow> \<not> is_section d x"
  shows "keeps d (appendChild p c d)"
proof -
  let ?d = "appendChild p c d"
  have sec: "is_section ?d = is_section d" and sl: "has_class k ?d = has_class k d" for k
    by (simp_all add: fun_eq_iff is_section_def has_class_def appendChild_def)
  have "sections ?d = filter (is_section d) (filter (\<lambda>x. \<not> in_subtree d c x) (order d))"
    unfolding sections_def sec using leaf
    by (simp add: appendChild_def del: filter_filter)
      (subst filter_insert_after_last, auto simp: subtree_def)
  also have "\<dots> = sections d"
    unfolding sections_def filter_filter using leaf by (intro filter_cong) auto
  finally have "sections ?d = sections d" .
  moreover have "path ?d x = path d x" if "x \<in> set (sections d)" for x
    using that leaf [of x] by (auto simp: appendChild_def repath_def in_subtree_def)
  ultimately show ?thesis by (simp add: keeps_def sec sl)
qed

end
