(* ===== verification/State.thy ===== *)
theory State
  imports Dom
begin

text \<open>
  The state of a deck: its configuration (\<open>config.js\<close> names the options), the parts of
  the browser it reads, the document, the world it writes to (dispatched events, timers,
  listeners, the URL) and the variables of the constructor function in \<open>reveal.js\<close>.
\<close>

section \<open>Configuration\<close>

record key_event =
  keyCode :: int
  shiftKey :: bool
  altKey :: bool
  ctrlKey :: bool
  metaKey :: bool
  preventable :: bool

text \<open>Options that may be a boolean or a string.\<close>

datatype boolstr = BVal bool | SVal string

fun truthy_bs :: "boolstr \<Rightarrow> bool" where
  "truthy_bs (BVal b) = b"
| "truthy_bs (SVal s) = (s \<noteq> [])"

text \<open>A slide number is a number or a piece of text; the option may hold a function.\<close>

datatype snval = SnNum jsnum | SnText string

datatype sncfg = SnBool bool | SnString string | SnFun "node option \<Rightarrow> snval list"

fun truthy_sn :: "sncfg \<Rightarrow> bool" where
  "truthy_sn (SnBool b) = b"
| "truthy_sn (SnString s) = (s \<noteq> [])"
| "truthy_sn (SnFun f) = True"

text \<open>
  Width and height are numbers or percentages of the space available. (Any other string turns
  the computed scale into \<open>NaN\<close>; such configurations are outside the model.)
\<close>

datatype dimension = DNum real | DPercent int

datatype kb_action = KbCallback nat | KbMethod string

text \<open>A key binding added at run time: what it does, and how the help names it.\<close>

record binding =
  bd_action :: kb_action
  bd_key :: "string option"
  bd_description :: "string option"

datatype kb_config = KbBool bool | KbMap "(string \<times> kb_action) list"

datatype kb_condition = KcNone | KcString string | KcFun "key_event \<Rightarrow> bool"

record config =
  cfg_width :: dimension
  cfg_height :: dimension
  cfg_margin :: real
  cfg_minScale :: real
  cfg_maxScale :: real
  cfg_controls :: bool
  cfg_controlsTutorial :: bool
  cfg_controlsLayout :: string
  cfg_controlsBackArrows :: string
  cfg_progress :: bool
  cfg_slideNumber :: sncfg
  cfg_showSlideNumber :: string
  cfg_hashOneBasedIndex :: bool
  cfg_hash :: bool
  cfg_respondToHashChanges :: bool
  cfg_history :: bool
  cfg_keyboard :: kb_config
  cfg_keyboardCondition :: kb_condition
  cfg_disableLayout :: bool
  cfg_overview :: bool
  cfg_center :: bool
  cfg_touch :: bool
  cfg_loop :: bool
  cfg_rtl :: bool
  cfg_navigationMode :: string
  cfg_shuffle :: bool
  cfg_fragments :: bool
  cfg_fragmentInURL :: bool
  cfg_embedded :: bool
  cfg_help :: bool
  cfg_pause :: bool
  cfg_showNotes :: boolstr
  cfg_showHiddenSlides :: bool
  cfg_autoPlayMedia :: "bool option"
  cfg_preloadIframes :: "bool option"
  cfg_autoAnimate :: bool
  cfg_autoSlide :: "int option"
  cfg_autoSlideStoppable :: bool
  cfg_autoSlideMethod :: "nat option"
  cfg_mouseWheel :: bool
  cfg_previewLinks :: bool
  cfg_postMessage :: bool
  cfg_postMessageEvents :: bool
  cfg_focusBodyOnPageVisibilityChange :: bool
  cfg_transition :: string
  cfg_transitionSpeed :: string
  cfg_backgroundTransition :: string
  cfg_parallaxBackgroundImage :: string
  cfg_parallaxBackgroundSize :: string
  cfg_parallaxBackgroundRepeat :: string
  cfg_parallaxBackgroundPosition :: string
  cfg_parallaxBackgroundHorizontal :: "real option"
  cfg_parallaxBackgroundVertical :: "real option"
  cfg_viewDistance :: int
  cfg_mobileViewDistance :: int
  cfg_display :: string
  cfg_hideInactiveCursor :: bool
  cfg_hideCursorTime :: int

text \<open>The defaults. \<open>None\<close> for \<open>cfg_autoSlide\<close> is the value \<open>false\<close>, for the others \<open>null\<close>.\<close>

definition default_config :: config where
  "default_config = \<lparr>
     cfg_width = DNum 960, cfg_height = DNum 700, cfg_margin = 4 / 100,
     cfg_minScale = 2 / 10, cfg_maxScale = 2,
     cfg_controls = True, cfg_controlsTutorial = True, cfg_controlsLayout = ''bottom-right'',
     cfg_controlsBackArrows = ''faded'', cfg_progress = True,
     cfg_slideNumber = SnBool False, cfg_showSlideNumber = ''all'',
     cfg_hashOneBasedIndex = False, cfg_hash = False, cfg_respondToHashChanges = True,
     cfg_history = False, cfg_keyboard = KbBool True, cfg_keyboardCondition = KcNone,
     cfg_disableLayout = False, cfg_overview = True, cfg_center = True, cfg_touch = True,
     cfg_loop = False, cfg_rtl = False, cfg_navigationMode = ''default'', cfg_shuffle = False,
     cfg_fragments = True, cfg_fragmentInURL = True, cfg_embedded = False, cfg_help = True,
     cfg_pause = True, cfg_showNotes = BVal False, cfg_showHiddenSlides = False,
     cfg_autoPlayMedia = None, cfg_preloadIframes = None, cfg_autoAnimate = True,
     cfg_autoSlide = Some 0, cfg_autoSlideStoppable = True, cfg_autoSlideMethod = None,
     cfg_mouseWheel = False, cfg_previewLinks = False, cfg_postMessage = True,
     cfg_postMessageEvents = False, cfg_focusBodyOnPageVisibilityChange = True,
     cfg_transition = ''slide'', cfg_transitionSpeed = ''default'',
     cfg_backgroundTransition = ''fade'', cfg_parallaxBackgroundImage = [],
     cfg_parallaxBackgroundSize = [], cfg_parallaxBackgroundRepeat = [],
     cfg_parallaxBackgroundPosition = [], cfg_parallaxBackgroundHorizontal = None,
     cfg_parallaxBackgroundVertical = None,
     cfg_viewDistance = 3, cfg_mobileViewDistance = 2, cfg_display = ''block'',
     cfg_hideInactiveCursor = True, cfg_hideCursorTime = 5000 \<rparr>"

section \<open>What the deck reads of the browser\<close>

text \<open>
  Constants of a run: the two elements the deck lives in, what \<open>device.js\<close> and the query
  string say, sizes the layout engine of the browser computes (the intrinsic size of media
  and its duration are not known before it has loaded), and whether the page's own listeners
  cancel an event (\<open>vetoes\<close>). The durations are divided by the playback rate, which
  is not zero.
\<close>

record host =
  wrapper :: node
  slidesEl :: node
  viewport :: node
  isMobile :: bool
  isAndroid :: bool
  isPrintingPDF :: bool
  isSpeakerNotes :: bool
  inFrame :: bool
  offsetWidth :: real
  offsetHeight :: real
  innerWidth :: real
  innerHeight :: real
  scrollHeight :: "dom \<Rightarrow> node \<Rightarrow> real"
  elementHeight :: "dom \<Rightarrow> node \<Rightarrow> real"
  naturalSize :: "node \<Rightarrow> (real \<times> real) option"
  mediaDuration :: "node \<Rightarrow> real option"
  playbackRate :: "node \<Rightarrow> real"
  mediaReady :: "node \<Rightarrow> bool"
  displayNone :: "node \<Rightarrow> bool"
  bgWidth :: real
  bgHeight :: real
  computedBackground :: "dom \<Rightarrow> node \<Rightarrow> string"
  vetoes :: "string \<Rightarrow> jsnum \<Rightarrow> jsnum \<Rightarrow> bool"

text \<open>Elements the controllers create or look up when they render.\<close>

record refs =
  statusElement :: node
  controlsEl :: node
  controlsLeft :: "node list"
  controlsRight :: "node list"
  controlsUp :: "node list"
  controlsDown :: "node list"
  controlsPrev :: "node list"
  controlsNext :: "node list"
  controlsLeftArrow :: node
  controlsRightArrow :: node
  controlsDownArrow :: node
  progressEl :: node
  progressBar :: "node option"
  slideNumberEl :: "node option"
  notesEl :: "node option"
  backgroundsEl :: node
  pauseOverlay :: node

section \<open>What the deck writes to\<close>

datatype event =
    Ev string node
  | EvSlide string jsnum jsnum "node option" "node option" jsnum
  | EvFragments string "node list"
  | EvOverview string jsnum jsnum "node option"
  | EvResize real real

datatype tcall = TAutoSlide | TReplaceState string | TWriteURL | THideCursor | TResetStacks
  | TAnnounce | TRemoveClass string node | TAddClass string node | TReady | TFullscreen

record timer =
  tid :: int
  tcallback :: tcall
  tdue :: int

datatype ltarget = LWindow | LDocument | LNode node

type_synonym listener = "ltarget \<times> string \<times> string"

datatype effect = MediaPlay node | MediaPause node | MediaLoad node | MediaRewind node
  | PostTo node string | Fullscreen node | PageCallback nat | PreventDefault
  | FocusBody | BlurActive | Fit node | AutoAnimateRun "node option" "node option"

text \<open>The object returned by \<open>getState\<close>, as posted to a parent window.\<close>

record pstate =
  st_indexh :: jsnum
  st_indexv :: jsnum
  st_indexf :: jsnum
  st_paused :: bool
  st_overview :: bool

record world =
  events :: "event list"
  posted :: "(string \<times> pstate) list"
  timers :: "timer list"
  nextTimer :: int
  now :: int
  listeners :: "listener set"
  effects :: "effect list"
  hash :: string
  pathsearch :: string
  historyLen :: nat

section \<open>The deck\<close>

text \<open>
  The variables of the controllers that take input: \<open>keyboard.js\<close> (properties of a
  JavaScript object are an association list), \<open>touch.js\<close>, \<open>pointer.js\<close> and
  \<open>focus.js\<close> (whose state is not set until the deck is configured).
\<close>

record keyboard =
  shortcuts :: "(string \<times> string) list"
  bindings :: "(string \<times> binding) list"

record touch =
  touchStartX :: real
  touchStartY :: real
  touchStartCount :: nat
  touchCaptured :: bool

record pointer =
  lastMouseWheelStep :: int
  cursorHidden :: bool

datatype focus = FocusUnset | FocusFocus | FocusBlur

text \<open>
  The variables of \<open>reveal.js\<close> and of its controllers. The player of the auto-slide
  controls is there or not; of its state only whether it shows the deck as playing is kept here.
\<close>

record reveal =
  cfg :: config
  host :: host
  refs :: refs
  doc :: dom
  world :: world
  ready :: bool
  indexh :: jsnum
  indexv :: jsnum
  previousSlide :: "node option"
  currentSlide :: "node option"
  hasNavigatedHorizontally :: bool
  hasNavigatedVertically :: bool
  stateArr :: "string list"
  rscale :: real
  trLayout :: "tfun list"
  trOverview :: "tfun list"
  eventsAreBound :: bool
  transitionRunning :: bool
  autoSlide :: real
  autoSlidePlayer :: bool
  autoSlidePlaying :: bool
  autoSlideTimeout :: int
  autoSlideStartTime :: int
  autoSlidePaused :: bool
  overviewActive :: bool
  overviewSlideWidth :: real
  overviewSlideHeight :: real
  overlay :: "node option"
  previousBackground :: "node option"
  writeURLTimeout :: int
  replaceStateTimeout :: int
  replaceStateTimestamp :: int
  keyboard_state :: keyboard
  touch_state :: touch
  pointer_state :: pointer
  cursorInactiveTimeout :: int
  focus_state :: focus

text \<open>What only the controllers of input write.\<close>

definition inputs :: "reveal \<Rightarrow> keyboard \<times> touch \<times> pointer \<times> focus" where
  [simp]: "inputs s = (keyboard_state s, touch_state s, pointer_state s, focus_state s)"

section \<open>World operations\<close>

definition log_event :: "event \<Rightarrow> world \<Rightarrow> world" where
  "log_event e wd = wd\<lparr>events := events wd @ [e]\<rparr>"

definition log_effect :: "effect \<Rightarrow> world \<Rightarrow> world" where
  "log_effect e wd = wd\<lparr>effects := effects wd @ [e]\<rparr>"

definition setTimeout :: "tcall \<Rightarrow> int \<Rightarrow> world \<Rightarrow> int \<times> world" where
  "setTimeout c delay wd =
     (nextTimer wd,
      wd\<lparr>timers := timers wd @ [\<lparr>tid = nextTimer wd, tcallback = c, tdue = now wd + delay\<rparr>],
         nextTimer := nextTimer wd + 1\<rparr>)"

definition clearTimeout :: "int \<Rightarrow> world \<Rightarrow> world" where
  "clearTimeout i wd = wd\<lparr>timers := filter (\<lambda>t. tid t \<noteq> i) (timers wd)\<rparr>"

text \<open>A listener registered twice is registered once; removing an absent one does nothing.\<close>

definition addEventListener :: "ltarget \<Rightarrow> string \<Rightarrow> string \<Rightarrow> world \<Rightarrow> world" where
  "addEventListener t ty h wd = wd\<lparr>listeners := insert (t, ty, h) (listeners wd)\<rparr>"

definition removeEventListener :: "ltarget \<Rightarrow> string \<Rightarrow> string \<Rightarrow> world \<Rightarrow> world" where
  "removeEventListener t ty h wd = wd\<lparr>listeners := listeners wd - {(t, ty, h)}\<rparr>"

definition timers_of :: "tcall \<Rightarrow> world \<Rightarrow> timer list" where
  "timers_of c wd = filter (\<lambda>t. tcallback t = c) (timers wd)"

text \<open>Timer identifiers are handed out in increasing order, starting above zero.\<close>

definition wf_timers :: "world \<Rightarrow> bool" where
  "wf_timers wd = (0 < nextTimer wd \<and> distinct (map tid (timers wd)) \<and>
     (\<forall>t\<in>set (timers wd). 0 < tid t \<and> tid t < nextTimer wd))"

lemma wf_timers_clear [simp]: "wf_timers wd \<Longrightarrow> wf_timers (clearTimeout i wd)"
  by (auto simp: wf_timers_def clearTimeout_def distinct_map intro: inj_on_subset)

lemma wf_timers_set: "wf_timers wd \<Longrightarrow> wf_timers (snd (setTimeout c dl wd))"
  by (auto simp: wf_timers_def setTimeout_def)

lemma wf_timers_log [simp]:
  "wf_timers (log_event e wd) = wf_timers wd" "wf_timers (log_effect f wd) = wf_timers wd"
  "wf_timers (addEventListener t ty h wd) = wf_timers wd"
  "wf_timers (removeEventListener t ty h wd) = wf_timers wd"
  by (simp_all add: wf_timers_def log_event_def log_effect_def addEventListener_def
      removeEventListener_def)

lemma timers_of_log [simp]:
  "timers_of c (log_event e wd) = timers_of c wd"
  "timers_of c (log_effect f wd) = timers_of c wd"
  by (simp_all add: timers_of_def log_event_def log_effect_def)

lemma timers_of_clear: "timers_of c (clearTimeout i wd) = filter (\<lambda>t. tid t \<noteq> i) (timers_of c wd)"
  by (simp add: timers_of_def clearTimeout_def conj_commute)

lemma timers_of_set:
  "timers_of c (snd (setTimeout c' dl wd)) =
     timers_of c wd @ (if c = c' then [\<lparr>tid = nextTimer wd, tcallback = c', tdue = now wd + dl\<rparr>] else [])"
  by (simp add: timers_of_def setTimeout_def)

end
