(* ===== verification/Util.thy ===== *)
theory Util
  imports State
begin

text \<open>
  The helpers of \<open>utils/util.js\<close> and \<open>utils/color.js\<close>: reading values out of strings,
  the query string of the page, singleton nodes, colours and their brightness.
\<close>

section \<open>Objects and classes\<close>

text \<open>Objects are partial maps; copying every key of \<open>b\<close> into \<open>a\<close>.\<close>

definition extend :: "('k \<rightharpoonup> 'v) \<Rightarrow> ('k \<rightharpoonup> 'v) \<Rightarrow> ('k \<rightharpoonup> 'v)" where
  "extend a b = (\<lambda>k. case b k of Some v \<Rightarrow> Some v | None \<Rightarrow> a k)"

definition toggleClass :: "node \<Rightarrow> string \<Rightarrow> bool \<Rightarrow> dom \<Rightarrow> dom" where
  "toggleClass el c v d = (if v then add_class c el d else remove_class c el d)"

definition transformElement :: "node \<Rightarrow> tfun list \<Rightarrow> dom \<Rightarrow> dom" where
  "transformElement el t d = set_style ''transform'' (if t = [] then Css [] else Tr t) el d"

lemma keeps_transformElement [simp, intro]: "keeps d (transformElement el t d)"
  by (simp add: transformElement_def)

lemma keeps_toggleClass [simp, intro]: "c \<noteq> ''slides'' \<Longrightarrow> keeps d (toggleClass el c v d)"
  by (simp add: toggleClass_def)

definition enterFullscreen :: "node \<Rightarrow> world \<Rightarrow> world" where
  "enterFullscreen el wd = log_effect (Fullscreen el) wd"

section \<open>Reading values\<close>

datatype jsval = JUndefined | JNull | JBool bool | JNumber "real option" | JString string

definition is_num_char :: "char \<Rightarrow> bool" where
  "is_num_char c = (is_digit c \<or> c = CHR ''.'')"

definition frac_val :: "string \<Rightarrow> real" where
  "frac_val ds = real (digits_val ds) / 10 ^ length ds"

text \<open>
  \<open>parseFloat\<close> on an unsigned numeral without exponent: digits, then possibly a point and
  more digits; the rest is ignored. No digit on either side gives \<open>NaN\<close> (\<open>None\<close>).
\<close>

definition parse_decimal :: "string \<Rightarrow> real option" where
  "parse_decimal s =
     (let i = takeWhile is_digit s; r = dropWhile is_digit s;
          f = (case r of c # cs \<Rightarrow> if c = CHR ''.'' then takeWhile is_digit cs else [] | [] \<Rightarrow> [])
      in if i = [] \<and> f = [] then None else Some (real (digits_val i) + frac_val f))"

definition parseFloat :: "string \<Rightarrow> real option" where
  "parseFloat s = (case s of
       c # cs \<Rightarrow> if c = CHR ''-'' then map_option uminus (parse_decimal cs) else parse_decimal s
     | [] \<Rightarrow> None)"

text \<open>The test \<open>/^-?[\d.]+$/\<close>.\<close>

definition looks_numeric :: "string \<Rightarrow> bool" where
  "looks_numeric s = (let t = (case s of c # cs \<Rightarrow> if c = CHR ''-'' then cs else s | [] \<Rightarrow> [])
     in t \<noteq> [] \<and> list_all is_num_char t)"

definition deserialize :: "jsval \<Rightarrow> jsval" where
  "deserialize v = (case v of
       JString s \<Rightarrow>
         if s = ''null'' then JNull
         else if s = ''true'' then JBool True
         else if s = ''false'' then JBool False
         else if looks_numeric s then JNumber (parseFloat s)
         else v
     | _ \<Rightarrow> v)"

lemma deserialize_idem: "deserialize (deserialize v) = deserialize v"
  by (cases v) (auto simp: deserialize_def)

lemma show_nat_all_digits: "list_all is_digit (show_nat n)"
  using show_nat_digits by (auto simp: list_all_iff)

lemma takeWhile_all: "list_all p xs \<Longrightarrow> takeWhile p xs = xs \<and> dropWhile p xs = []"
  by (induction xs) auto

lemma parse_decimal_show_nat: "parse_decimal (show_nat n) = Some (real n)"
proof -
  have t: "takeWhile is_digit (show_nat n) = show_nat n" and d: "dropWhile is_digit (show_nat n) = []"
    using takeWhile_all [OF show_nat_all_digits [of n]] by blast+
  show ?thesis
    unfolding parse_decimal_def Let_def t d by (simp add: frac_val_def digits_val_def [of "[]"])
qed

lemma show_int_cases:
  obtains n where "show_int i = CHR ''-'' # show_nat n" and "i = - int n"
  | n where "show_int i = show_nat n" and "i = int n"
  by (cases "i < 0") (auto simp: show_int_def intro: that [of "nat \<bar>i\<bar>"])

lemma show_int_not_word: "show_int i \<noteq> ''null'' \<and> show_int i \<noteq> ''true'' \<and> show_int i \<noteq> ''false''"
proof (cases i rule: show_int_cases)
  case (1 n)
  then show ?thesis by simp
next
  case (2 n)
  then show ?thesis by (cases n rule: show_nat_cases) (auto simp: is_digit_def)
qed

lemma looks_numeric_show_int: "looks_numeric (show_int i)"
proof -
  have digits: "list_all is_digit ds \<Longrightarrow> list_all is_num_char ds" for ds
    by (auto simp: list_all_iff is_num_char_def)
  show ?thesis
  proof (cases i rule: show_int_cases)
    case (1 n)
    then show ?thesis using digits [OF show_nat_all_digits] by (simp add: looks_numeric_def)
  next
    case (2 n)
    obtain c cs where cs: "show_nat n = c # cs" "is_digit c" "list_all is_digit cs"
      by (rule show_nat_cases)
    then have "c \<noteq> CHR ''-''" by (auto simp: is_digit_def)
    with 2 cs digits [OF cs(3)] show ?thesis by (simp add: looks_numeric_def is_num_char_def)
  qed
qed

lemma parseFloat_show_int: "parseFloat (show_int i) = Some (of_int i)"
proof (cases i rule: show_int_cases)
  case (1 n)
  then show ?thesis by (simp add: parseFloat_def parse_decimal_show_nat)
next
  case (2 n)
  obtain c cs where cs: "show_nat n = c # cs" "is_digit c" by (rule show_nat_cases)
  then have "c \<noteq> CHR ''-''" by (auto simp: is_digit_def)
  with 2 cs parse_decimal_show_nat [of n] show ?thesis by (simp add: parseFloat_def)
qed

section \<open>The query string\<close>

definition is_alnum :: "char \<Rightarrow> bool" where
  "is_alnum c = (let n = (of_char c :: nat) in
     is_digit c \<or> (65 \<le> n \<and> n \<le> 90) \<or> (97 \<le> n \<and> n \<le> 122))"

definition is_query_char :: "char \<Rightarrow> bool" where
  "is_query_char c = (is_alnum c \<or> c \<in> {CHR ''_'', CHR ''.'', CHR ''%'', CHR ''-''})"

definition to_lower :: "char \<Rightarrow> char" where
  "to_lower c = (let n = (of_char c :: nat) in if 65 \<le> n \<and> n \<le> 90 then char_of (n + 32) else c)"

definition hex_val :: "char \<Rightarrow> nat option" where
  "hex_val c = (let n = (of_char c :: nat) in
     if is_digit c then Some (n - 48)
     else if 97 \<le> n \<and> n \<le> 102 then Some (n - 87)
     else if 65 \<le> n \<and> n \<le> 70 then Some (n - 55)
     else None)"

text \<open>\<open>unescape\<close>: two hex digits after a percent sign are one character, anything else stays.\<close>

fun unescape :: "string \<Rightarrow> string" where
  "unescape (c # a # b # cs) =
     (if c = CHR ''%'' then
        (case (hex_val a, hex_val b) of
           (Some x, Some y) \<Rightarrow> char_of (16 * x + y) # unescape cs
         | _ \<Rightarrow> c # unescape (a # b # cs))
      else c # unescape (a # b # cs))"
| "unescape s = s"

text \<open>
  The matches of \<open>/[A-Z0-9]+?=([\w.%-]*)/gi\<close> from left to right: a run of letters and
  digits that ends at an equals sign, then the longest run of value characters.
\<close>

function query_pairs :: "string \<Rightarrow> (string \<times> string) list" where
  "query_pairs s = (case s of [] \<Rightarrow> [] | c # cs \<Rightarrow>
     (let k = takeWhile is_alnum s; r = dropWhile is_alnum s in
      if k = [] then query_pairs cs
      else (case r of [] \<Rightarrow> [] | e # v \<Rightarrow>
        if e = CHR ''='' then (k, takeWhile is_query_char v) # query_pairs (dropWhile is_query_char v)
        else query_pairs r)))"
  by pat_completeness auto

lemma length_dropWhile_less: "takeWhile p s \<noteq> [] \<Longrightarrow> length (dropWhile p s) < length s"
  by (cases s) (auto simp: length_dropWhile_le le_imp_less_Suc split: if_splits)

termination query_pairs
proof (relation "measure length", goal_cases)
  case 1
  then show ?case by simp
next
  case (2 s c cs)
  then show ?case by simp
next
  case (3 s c cs k r e v)
  note \<open>r = e # v\<close>
  from 3 have "length r < length s" using length_dropWhile_less [of is_alnum s] by blast
  moreover have "length (dropWhile is_query_char v) \<le> length v" by (rule length_dropWhile_le)
  moreover have "length v < length r" using \<open>r = e # v\<close> by (simp only: length_Cons lessI)
  ultimately show ?case by simp
next
  case (4 s c cs k r e v)
  then have "length r < length s" using length_dropWhile_less [of is_alnum s] by blast
  then show ?case by simp
qed

declare query_pairs.simps [simp del]

definition getQueryHash :: "string \<Rightarrow> (string \<rightharpoonup> jsval)" where
  "getQueryHash search =
     (let q = fold (\<lambda>(k, v) m. m(k \<mapsto> deserialize (JString (unescape v)))) (query_pairs search) Map.empty
      in q(''dependencies'' := None))"

section \<open>Singleton nodes and MIME types\<close>

definition createSingletonNode :: "node \<Rightarrow> string \<Rightarrow> string \<Rightarrow> string \<Rightarrow> dom \<Rightarrow> node \<times> dom" where
  "createSingletonNode container tagname classname innerHTML d =
     (case filter (\<lambda>x. parentNode d x = Some container)
             (queryAll d container (has_class classname d)) of
        n # _ \<Rightarrow> (n, d)
      | [] \<Rightarrow> (let (n, d1) = createElement tagname d
               in (n, appendChild container n (set_html innerHTML n (add_class classname n d1)))))"

definition getMimeTypeFromFile :: "string \<Rightarrow> string option" where
  "getMimeTypeFromFile filename =
     map_of [(''mp4'', ''video/mp4''), (''m4a'', ''video/mp4''), (''ogv'', ''video/ogg''),
             (''mpeg'', ''video/mpeg''), (''webm'', ''video/webm'')]
       (last (split_on (CHR ''.'') filename))"

end
