(* ===== verification/Color.thy ===== *)
theory Color
  imports Util
begin

text \<open>
  \<open>utils/color.js\<close>: the four accepted colour notations, read by hand-written matchers of
  the regular expressions, and the brightness of a colour.
\<close>

record rgb =
  red :: nat
  green :: nat
  blue :: nat
  alpha :: "real option option"

text \<open>
  \<open>alpha\<close> is \<open>None\<close> where the object has no \<open>a\<close> key; \<open>Some None\<close> is \<open>NaN\<close>.
\<close>

definition hex2 :: "nat \<Rightarrow> nat \<Rightarrow> nat" where
  "hex2 a b = 16 * a + b"

text \<open>All characters of a string as hexadecimal digits, or \<open>None\<close>.\<close>

fun hex_vals :: "string \<Rightarrow> nat list option" where
  "hex_vals [] = Some []"
| "hex_vals (c # cs) = (case hex_val c of None \<Rightarrow> None | Some x \<Rightarrow> map_option ((#) x) (hex_vals cs))"

definition hex_rgb :: "nat list \<Rightarrow> rgb option" where
  "hex_rgb xs = (case xs of
       [r, g, b] \<Rightarrow> Some \<lparr>red = 17 * r, green = 17 * g, blue = 17 * b, alpha = None\<rparr>
     | [r1, r2, g1, g2, b1, b2] \<Rightarrow>
         Some \<lparr>red = hex2 r1 r2, green = hex2 g1 g2, blue = hex2 b1 b2, alpha = None\<rparr>
     | _ \<Rightarrow> None)"

definition skip :: "string \<Rightarrow> string" where
  "skip s = dropWhile is_space s"

text \<open>A literal without regard to case, a single character, a run of digits.\<close>

fun eat_word :: "string \<Rightarrow> string \<Rightarrow> string option" where
  "eat_word [] s = Some s"
| "eat_word (w # ws) (c # cs) = (if to_lower c = w then eat_word ws cs else None)"
| "eat_word (w # ws) [] = None"

definition eat_digits :: "string \<Rightarrow> (nat \<times> string) option" where
  "eat_digits s = (let ds = takeWhile is_digit s in
     if ds = [] then None else Some (digits_val ds, dropWhile is_digit s))"

text \<open>\<open>\s*(\d+)\s*\<close> followed by the character \<open>c\<close>.\<close>

definition eat_component :: "char \<Rightarrow> string \<Rightarrow> (nat \<times> string) option" where
  "eat_component c s = do {
     (n, r) \<leftarrow> eat_digits (skip s);
     r' \<leftarrow> eat_word [c] (skip r);
     Some (n, r') }"

definition match_rgb :: "string \<Rightarrow> rgb option" where
  "match_rgb s = do {
     s1 \<leftarrow> eat_word ''rgb'' s;
     s2 \<leftarrow> eat_word ''('' (skip s1);
     (r, s3) \<leftarrow> eat_component (CHR '','') s2;
     (g, s4) \<leftarrow> eat_component (CHR '','') s3;
     (b, s5) \<leftarrow> eat_component (CHR '')'') s4;
     (if s5 = [] then Some \<lparr>red = r, green = g, blue = b, alpha = None\<rparr> else None) }"

text \<open>
  The alpha component \<open>([\d]+|[\d]*.[\d]+)\s*\)$\<close>. The point of the second alternative is
  not escaped in the source, so any character but a line break separates the two runs.
\<close>

definition closes :: "string \<Rightarrow> bool" where
  "closes s = (eat_word '')'' (skip s) = Some [])"

definition match_alpha :: "string \<Rightarrow> real option option" where
  "match_alpha s =
     (let i = takeWhile is_digit s; r = dropWhile is_digit s in
      if i \<noteq> [] \<and> closes r then Some (parse_decimal i)
      else (case r of
          [] \<Rightarrow> None
        | c # cs \<Rightarrow>
            (let f = takeWhile is_digit cs in
             if (of_char c :: nat) \<notin> {10, 13} \<and> f \<noteq> [] \<and> closes (dropWhile is_digit cs)
             then Some (parse_decimal (i @ c # f)) else None)))"

definition match_rgba :: "string \<Rightarrow> rgb option" where
  "match_rgba s = do {
     s1 \<leftarrow> eat_word ''rgba'' s;
     s2 \<leftarrow> eat_word ''('' (skip s1);
     (r, s3) \<leftarrow> eat_component (CHR '','') s2;
     (g, s4) \<leftarrow> eat_component (CHR '','') s3;
     (b, s5) \<leftarrow> eat_component (CHR '','') s4;
     a \<leftarrow> match_alpha (skip s5);
     Some \<lparr>red = r, green = g, blue = b, alpha = Some a\<rparr> }"

definition colorToRgb :: "string \<Rightarrow> rgb option" where
  "colorToRgb color =
     (case (case color of c # h \<Rightarrow> if c = CHR ''#'' then Option.bind (hex_vals h) hex_rgb else None | [] \<Rightarrow> None) of
        Some c \<Rightarrow> Some c
      | None \<Rightarrow> (case match_rgb color of
          Some c \<Rightarrow> Some c
        | None \<Rightarrow> match_rgba color))"

definition colorBrightness :: "rgb option \<Rightarrow> real option" where
  "colorBrightness color = (case color of
       Some c \<Rightarrow> Some (real (red c * 299 + green c * 587 + blue c * 114) / 1000)
     | None \<Rightarrow> None)"

section \<open>Hexadecimal colours\<close>

lemma hex_val_bound: "hex_val c = Some x \<Longrightarrow> x < 16"
  by (auto simp: hex_val_def is_digit_def Let_def split: if_splits)

lemma hex_vals_bound: "hex_vals s = Some xs \<Longrightarrow> x \<in> set xs \<Longrightarrow> x < 16"
  by (induction s arbitrary: xs) (auto simp: hex_val_bound split: option.splits)

lemma length_hex_vals: "hex_vals s = Some xs \<Longrightarrow> length xs = length s"
  by (induction s arbitrary: xs) (auto split: option.splits)

lemma hex_rgb_cases:
  assumes "hex_rgb xs = Some c"
  obtains r g b where "xs = [r, g, b]" and "c = \<lparr>red = 17 * r, green = 17 * g, blue = 17 * b, alpha = None\<rparr>"
  | r1 r2 g1 g2 b1 b2 where "xs = [r1, r2, g1, g2, b1, b2]"
      and "c = \<lparr>red = hex2 r1 r2, green = hex2 g1 g2, blue = hex2 b1 b2, alpha = None\<rparr>"
  using assms by (auto simp: hex_rgb_def split: list.splits)

lemma colorToRgb_hex: "colorToRgb (CHR ''#'' # h) = Option.bind (hex_vals h) hex_rgb"
proof -
  have "match_rgb (CHR ''#'' # h) = None" "match_rgba (CHR ''#'' # h) = None"
    by (simp_all add: match_rgb_def match_rgba_def to_lower_def)
  then show ?thesis by (simp add: colorToRgb_def split: option.splits)
qed

lemma hex_rgb_bound:
  assumes c: "hex_rgb xs = Some c" and small: "\<And>x. x \<in> set xs \<Longrightarrow> x < 16"
  shows "red c \<le> 255 \<and> green c \<le> 255 \<and> blue c \<le> 255"
  using c
proof (cases rule: hex_rgb_cases)
  case (1 r g b)
  then show ?thesis using small [of r] small [of g] small [of b] by simp
next
  case (2 r1 r2 g1 g2 b1 b2)
  then show ?thesis
    using small [of r1] small [of r2] small [of g1] small [of g2] small [of b1] small [of b2]
    by (simp add: hex2_def)
qed

lemma hex_component_bound:
  assumes "colorToRgb (CHR ''#'' # h) = Some c"
  shows "red c \<le> 255 \<and> green c \<le> 255 \<and> blue c \<le> 255"
proof -
  obtain xs where "hex_vals h = Some xs" and "hex_rgb xs = Some c"
    using assms by (auto simp: colorToRgb_hex Option.bind_eq_Some_conv)
  then show ?thesis using hex_rgb_bound hex_vals_bound by blast
qed

lemma brightness_bound:
  assumes "red c \<le> 255" "green c \<le> 255" "blue c \<le> 255"
  shows "\<exists>y. colorBrightness (Some c) = Some y \<and> 0 \<le> y \<and> y \<le> 255"
proof -
  let ?n = "red c * 299 + green c * 587 + blue c * 114"
  have "?n \<le> 255000" using assms by linarith
  then have "real ?n \<le> 255000" by (metis of_nat_le_iff of_nat_numeral)
  moreover have "colorBrightness (Some c) = Some (real ?n / 1000)" by (simp add: colorBrightness_def)
  ultimately show ?thesis by (intro exI [of _ "real ?n / 1000"]) (simp only: simp_thms, simp)
qed

end
