(* ===== verification/Uri.thy ===== *)
theory Uri
  imports Util
begin

text \<open>
  The URI functions of the language as the engine uses them, on strings taken as the
  sequence of their UTF-8 bytes, and substring tests. Decoding fails (\<open>None\<close>) where the
  language throws a \<open>URIError\<close> for a percent sign without two hex digits.
\<close>

definition unreserved :: "char \<Rightarrow> bool" where
  "unreserved c = (is_alnum c \<or> c \<in> set ''-_.!~*()'' \<or> c = CHR 0x27)"

definition hex_char :: "nat \<Rightarrow> char" where
  "hex_char n = (if n < 10 then digit_char n else char_of (55 + n))"

definition percent :: "char \<Rightarrow> string" where
  "percent c = (let n = (of_char c :: nat) in [CHR ''%'', hex_char (n div 16), hex_char (n mod 16)])"

definition encode_with :: "(char \<Rightarrow> bool) \<Rightarrow> string \<Rightarrow> string" where
  "encode_with keep s = concat (map (\<lambda>c. if keep c then [c] else percent c) s)"

definition encodeURIComponent :: "string \<Rightarrow> string" where
  "encodeURIComponent s = encode_with unreserved s"

definition encodeURI :: "string \<Rightarrow> string" where
  "encodeURI s = encode_with (\<lambda>c. unreserved c \<or> c \<in> set '';/?:@&=+$,#'') s"

fun decodeURIComponent :: "string \<Rightarrow> string option" where
  "decodeURIComponent [] = Some []"
| "decodeURIComponent (c # cs) =
     (if c = CHR ''%'' then
        (case cs of
           a # b # rest \<Rightarrow>
             (case (hex_val a, hex_val b) of
                (Some x, Some y) \<Rightarrow> map_option ((#) (char_of (16 * x + y))) (decodeURIComponent rest)
              | _ \<Rightarrow> None)
         | _ \<Rightarrow> None)
      else map_option ((#) c) (decodeURIComponent cs))"

lemma hex_val_hex_char [simp]: "n < 16 \<Longrightarrow> hex_val (hex_char n) = Some n"
proof (cases "n < 10")
  case True
  then show ?thesis by (simp add: hex_char_def hex_val_def is_digit_def digit_char_def)
next
  case False
  moreover assume "n < 16"
  ultimately have "n \<in> {10, 11, 12, 13, 14, 15}" by auto
  then show ?thesis by (auto simp: hex_char_def hex_val_def is_digit_def)
qed

lemma of_char_div_16: "(of_char c :: nat) div 16 < 16"
proof -
  have "(of_char c :: nat) < 256" by (rule nat_of_char_less_256)
  then show ?thesis by (simp add: less_mult_imp_div_less)
qed

lemma decode_percent: "decodeURIComponent (percent c @ s) = map_option ((#) c) (decodeURIComponent s)"
proof -
  note of_char_div_16 [of c]
  moreover have "char_of (16 * ((of_char c :: nat) div 16) + of_char c mod 16) = c" by simp
  ultimately show ?thesis by (simp add: percent_def Let_def)
qed

lemma unreserved_not_percent: "unreserved c \<Longrightarrow> c \<noteq> CHR ''%''"
  by (auto simp: unreserved_def is_alnum_def is_digit_def)

lemma decode_encode: "decodeURIComponent (encodeURIComponent s) = Some s"
proof (induction s)
  case Nil
  then show ?case by (simp add: encodeURIComponent_def encode_with_def)
next
  case (Cons c s)
  then show ?case
    using unreserved_not_percent [of c]
    by (simp add: encodeURIComponent_def encode_with_def decode_percent)
qed

text \<open>An encoded component has no separator of the hash syntax.\<close>

lemma hex_char_not_slash:
  assumes "n < 16"
  shows "hex_char n \<noteq> CHR ''/'' \<and> hex_char n \<noteq> CHR ''#''"
proof -
  have "hex_val (CHR ''/'') = None" "hex_val (CHR ''#'') = None"
    by (simp_all add: hex_val_def is_digit_def)
  then show ?thesis using hex_val_hex_char [OF assms] by (metis option.distinct(1))
qed

lemma encode_no_slash: "CHR ''/'' \<notin> set (encodeURIComponent s)"
proof -
  have "CHR ''/'' \<notin> set (percent c)" for c
    using hex_char_not_slash [of "of_char c div 16"] hex_char_not_slash [of "of_char c mod 16"]
      of_char_div_16 [of c] by (auto simp: percent_def Let_def)
  moreover have "\<not> unreserved (CHR ''/'')"
    by (simp add: unreserved_def is_alnum_def is_digit_def)
  ultimately show ?thesis by (auto simp: encodeURIComponent_def encode_with_def split: if_splits)
qed

section \<open>Substrings\<close>

fun contains_str :: "string \<Rightarrow> string \<Rightarrow> bool" where
  "contains_str pat [] = (pat = [])"
| "contains_str pat (c # cs) = (take (length pat) (c # cs) = pat \<or> contains_str pat cs)"

definition starts_with :: "string \<Rightarrow> string \<Rightarrow> bool" where
  "starts_with pre s = (take (length pre) s = pre)"

definition ends_with :: "string \<Rightarrow> string \<Rightarrow> bool" where
  "ends_with suf s = (length suf \<le> length s \<and> drop (length s - length suf) s = suf)"

definition trim :: "string \<Rightarrow> string" where
  "trim s = rev (dropWhile is_space (rev (dropWhile is_space s)))"

text \<open>The first place from which a pattern matches, where the match starts and where it ends; \<open>m\<close> gives the
  length of a match at the beginning.\<close>

fun search_from :: "(string \<Rightarrow> nat option) \<Rightarrow> nat \<Rightarrow> string \<Rightarrow> (nat \<times> nat) option" where
  "search_from m i [] = map_option (\<lambda>k. (i, i + k)) (m [])"
| "search_from m i (c # cs) =
     (case m (c # cs) of Some k \<Rightarrow> Some (i, i + k) | None \<Rightarrow> search_from m (Suc i) cs)"

end
