(* ===== verification/Deck.thy ===== *)
theory Deck
  imports Util Uri
begin

text \<open>
  The read-only part of \<open>reveal.js\<close>: which slides there are, where the deck is, which
  moves are available, how far the presentation has progressed, and the state object posted
  to other windows; with it the fragment selectors and \<open>Fragments.availableRoutes\<close>.
\<close>

section \<open>Slides\<close>

definition getHorizontalSlides :: "reveal \<Rightarrow> node list" where
  "getHorizontalSlides s = queryAll (doc s) (wrapper (host s)) (horizontal_sel (doc s))"

definition getVerticalSlides :: "reveal \<Rightarrow> node list" where
  "getVerticalSlides s = queryAll (doc s) (wrapper (host s)) (nested_sel (doc s))"

definition presentVerticalSlides :: "reveal \<Rightarrow> node list" where
  "presentVerticalSlides s = queryAll (doc s) (wrapper (host s)) (vertical_sel (doc s))"

definition getVerticalStacks :: "reveal \<Rightarrow> node list" where
  "getVerticalStacks s =
     queryAll (doc s) (wrapper (host s)) (\<lambda>x. horizontal_sel (doc s) x \<and> has_class ''stack'' (doc s) x)"

definition verticals :: "dom \<Rightarrow> node \<Rightarrow> node list" where
  "verticals d x = queryAll d x (is_section d)"

definition uncounted :: "dom \<Rightarrow> node \<Rightarrow> bool" where
  "uncounted d x = (get_attr ''data-visibility'' d x = Some ''uncounted'')"

definition getSlides :: "reveal \<Rightarrow> node list" where
  "getSlides s = queryAll (doc s) (wrapper (host s))
     (\<lambda>x. slides_sel (doc s) x \<and> \<not> has_class ''stack'' (doc s) x \<and> \<not> uncounted (doc s) x)"

definition getTotalSlides :: "reveal \<Rightarrow> int" where
  "getTotalSlides s = int (length (getSlides s))"

definition hasHorizontalSlides :: "reveal \<Rightarrow> bool" where
  "hasHorizontalSlides s = (1 < length (getHorizontalSlides s))"

definition hasVerticalSlides :: "reveal \<Rightarrow> bool" where
  "hasVerticalSlides s = (1 < length (getVerticalSlides s))"

definition getSlide :: "reveal \<Rightarrow> jsnum \<Rightarrow> jsnum \<Rightarrow> node option" where
  "getSlide s x y = (case arr_get (getHorizontalSlides s) x of
       None \<Rightarrow> None
     | Some h \<Rightarrow>
         (let vs = verticals (doc s) h in
          if vs \<noteq> [] \<and> is_number y then arr_get vs y else Some h))"

definition getSlideBackground :: "reveal \<Rightarrow> node option \<Rightarrow> node option" where
  "getSlideBackground s x = (case x of Some n \<Rightarrow> bgOf (doc s) n | None \<Rightarrow> None)"

definition isVerticalSlide :: "dom \<Rightarrow> node option \<Rightarrow> bool" where
  "isVerticalSlide d x = (case x of
       Some n \<Rightarrow> (case parentNode d n of Some p \<Rightarrow> is_section d p | None \<Rightarrow> False)
     | None \<Rightarrow> False)"

definition isLastVerticalSlide :: "reveal \<Rightarrow> bool" where
  "isLastVerticalSlide s = (case currentSlide s of
       Some n \<Rightarrow> isVerticalSlide (doc s) (Some n) \<and> nextElementSibling (doc s) n = None
     | None \<Rightarrow> False)"

definition isFirstSlide :: "reveal \<Rightarrow> bool" where
  "isFirstSlide s = (indexh s = Num 0 \<and> indexv s = Num 0)"

definition isLastSlide :: "reveal \<Rightarrow> bool" where
  "isLastSlide s = (case currentSlide s of
       Some n \<Rightarrow>
         nextElementSibling (doc s) n = None \<and>
         \<not> (isVerticalSlide (doc s) (Some n) \<and>
            (case parentNode (doc s) n of
               Some p \<Rightarrow> nextElementSibling (doc s) p \<noteq> None | None \<Rightarrow> False))
     | None \<Rightarrow> False)"

section \<open>Vertical index of a stack\<close>

definition setPreviousVerticalIndex :: "node \<Rightarrow> jsnum \<Rightarrow> dom \<Rightarrow> dom" where
  "setPreviousVerticalIndex stack v d =
     set_attr ''data-previous-indexv'' (show_num (or_zero v)) stack d"

definition getPreviousVerticalIndex :: "dom \<Rightarrow> node option \<Rightarrow> jsnum" where
  "getPreviousVerticalIndex d stack = (case stack of
       None \<Rightarrow> Num 0
     | Some n \<Rightarrow>
         if has_class ''stack'' d n then
           (let a = (if has_attr ''data-start-indexv'' d n then ''data-start-indexv''
                     else ''data-previous-indexv'')
            in case get_attr a d n of
                 None \<Rightarrow> Num 0
               | Some v \<Rightarrow> if v = [] then Num 0 else parseInt v)
         else Num 0)"

section \<open>Fragments of a slide\<close>

definition fragment_sel :: "dom \<Rightarrow> node \<Rightarrow> bool" where
  "fragment_sel d x = has_class ''fragment'' d x"

definition enabled_fragment :: "dom \<Rightarrow> node \<Rightarrow> bool" where
  "enabled_fragment d x = (has_class ''fragment'' d x \<and> \<not> has_class ''disabled'' d x)"

definition visible_fragment :: "dom \<Rightarrow> node \<Rightarrow> bool" where
  "visible_fragment d x = (has_class ''fragment'' d x \<and> has_class ''visible'' d x)"

definition fragments_of :: "dom \<Rightarrow> node \<Rightarrow> node list" where
  "fragments_of d x = queryAll d x (fragment_sel d)"

record froutes =
  fr_prev :: bool
  fr_next :: bool

definition fragments_availableRoutes :: "reveal \<Rightarrow> froutes" where
  "fragments_availableRoutes s = (case currentSlide s of
       Some c \<Rightarrow>
         if cfg_fragments (cfg s) then
           (let d = doc s;
                fragments = queryAll d c (enabled_fragment d);
                hidden = queryAll d c (\<lambda>x. enabled_fragment d x \<and> \<not> has_class ''visible'' d x)
            in \<lparr>fr_prev = (0 < int (length fragments) - int (length hidden)),
                fr_next = (length hidden \<noteq> 0)\<rparr>)
         else \<lparr>fr_prev = False, fr_next = False\<rparr>
     | None \<Rightarrow> \<lparr>fr_prev = False, fr_next = False\<rparr>)"

section \<open>Routes\<close>

record routes =
  r_left :: bool
  r_right :: bool
  r_up :: bool
  r_down :: bool

definition availableRoutes :: "bool \<Rightarrow> reveal \<Rightarrow> routes" where
  "availableRoutes includeFragments s =
     (let hs = getHorizontalSlides s; vs = presentVerticalSlides s;
          nh = int (length hs); nv = int (length vs);
          r0 = \<lparr>r_left = js_gt (indexh s) (Num 0), r_right = js_lt (indexh s) (Num (nh - 1)),
                r_up = js_gt (indexv s) (Num 0), r_down = js_lt (indexv s) (Num (nv - 1))\<rparr>;
          r1 = (if cfg_loop (cfg s) then
                  (let ra = (if 1 < nh then r0\<lparr>r_left := True, r_right := True\<rparr> else r0)
                   in if 1 < nv then ra\<lparr>r_up := True, r_down := True\<rparr> else ra)
                else r0);
          r2 = (if 1 < nh \<and> cfg_navigationMode (cfg s) = ''linear'' then
                  r1\<lparr>r_right := r_right r1 \<or> r_down r1, r_left := r_left r1 \<or> r_up r1\<rparr>
                else r1);
          r3 = (if includeFragments then
                  (let f = fragments_availableRoutes s in
                   \<lparr>r_left = r_left r2 \<or> fr_prev f, r_right = r_right r2 \<or> fr_next f,
                    r_up = r_up r2 \<or> fr_prev f, r_down = r_down r2 \<or> fr_next f\<rparr>)
                else r2)
      in if cfg_rtl (cfg s) then r3\<lparr>r_left := r_right r3, r_right := r_left r3\<rparr> else r3)"

section \<open>Counting slides\<close>

text \<open>The inner loop: whether it met the slide, and the count so far.\<close>

fun past_verticals :: "dom \<Rightarrow> node option \<Rightarrow> node list \<Rightarrow> int \<Rightarrow> bool \<times> int" where
  "past_verticals d sl [] n = (False, n)"
| "past_verticals d sl (v # vs) n =
     (if Some v = sl then (True, n)
      else past_verticals d sl vs (if uncounted d v then n else n + 1))"

fun past_loop :: "dom \<Rightarrow> node option \<Rightarrow> node list \<Rightarrow> int \<Rightarrow> int" where
  "past_loop d sl [] n = n"
| "past_loop d sl (h # hs) n =
     (case past_verticals d sl (verticals d h) n of
        (True, m) \<Rightarrow> m
      | (False, m) \<Rightarrow>
          if Some h = sl then m
          else past_loop d sl hs
                 (if \<not> has_class ''stack'' d h \<and> \<not> uncounted d h then m + 1 else m))"

definition getSlidePastCount :: "reveal \<Rightarrow> node option \<Rightarrow> int" where
  "getSlidePastCount s sl = past_loop (doc s) sl (getHorizontalSlides s) 0"

text \<open>
  The quotient is \<open>NaN\<close> (\<open>None\<close>) for \<open>0 / 0\<close>; a positive count over zero is infinite,
  and its minimum with 1 is 1.
\<close>

definition getProgress :: "reveal \<Rightarrow> real option" where
  "getProgress s =
     (let total = getTotalSlides s;
          past = real_of_int (getSlidePastCount s (currentSlide s));
          past' = (case currentSlide s of
             None \<Rightarrow> past
           | Some c \<Rightarrow>
               (let allf = fragments_of (doc s) c in
                if 0 < length allf then
                  past + (real (length (queryAll (doc s) c (visible_fragment (doc s)))) / real (length allf)) * (9 / 10)
                else past))
      in if total - 1 = 0 then (if past' = 0 then None else Some 1)
         else Some (min (past' / real_of_int (total - 1)) 1))"

section \<open>Indices\<close>

record indices =
  ix_h :: jsnum
  ix_v :: jsnum
  ix_f :: jsnum

definition current_f :: "reveal \<Rightarrow> node \<Rightarrow> jsnum" where
  "current_f s c =
     (if fragments_of (doc s) c = [] then Undef
      else (case querySel (doc s) c (has_class ''current-fragment'' (doc s)) of
          Some cf \<Rightarrow>
            (case get_attr ''data-fragment-index'' (doc s) cf of
               Some v \<Rightarrow> parseInt v
             | None \<Rightarrow> Num (int (length (queryAll (doc s) c (visible_fragment (doc s)))) - 1))
        | None \<Rightarrow> Num (int (length (queryAll (doc s) c (visible_fragment (doc s)))) - 1)))"

definition getIndices :: "reveal \<Rightarrow> node option \<Rightarrow> indices" where
  "getIndices s sl = (case sl of
       Some n \<Rightarrow>
         (let vert = isVerticalSlide (doc s) (Some n);
              slideh = (if vert then the (parentNode (doc s) n) else n);
              h = Num (max (index_of slideh (getHorizontalSlides s)) 0);
              v = (if vert then
                     Num (max (index_of n (verticals (doc s) (the (parentNode (doc s) n)))) 0)
                   else Undef)
          in \<lparr>ix_h = h, ix_v = v, ix_f = Undef\<rparr>)
     | None \<Rightarrow>
         \<lparr>ix_h = indexh s, ix_v = indexv s,
          ix_f = (case currentSlide s of Some c \<Rightarrow> current_f s c | None \<Rightarrow> Undef)\<rparr>)"

section \<open>Text for screen readers\<close>

text \<open>
  The text of a node: its own if it is a text node, else that of its children unless it is
  hidden. Descending makes the chain of ancestors longer, and no chain is longer than the
  longest one in the document.
\<close>

definition depth_bound :: "dom \<Rightarrow> nat" where
  "depth_bound d = Max (insert 0 ((\<lambda>x. length (path d x)) ` set (order d)))"

lemma childNodes_depth:
  assumes "c \<in> set (childNodes d x)"
  shows "depth_bound d - length (path d c) < depth_bound d - length (path d x)"
proof -
  have "path d c = x # path d x" and "c \<in> set (order d)" using assms by (auto simp: childNodes_def)
  moreover from this(2) have "length (path d c) \<le> depth_bound d"
    unfolding depth_bound_def by (intro Max_ge insertI2 imageI) auto
  ultimately show ?thesis by simp
qed

function getStatusText :: "host \<Rightarrow> dom \<Rightarrow> node \<Rightarrow> string" where
  "getStatusText h d x =
     (let text = (if tag d x = ''#text'' then html d x
                  else if is_element d x \<and> get_attr ''aria-hidden'' d x \<noteq> Some ''true'' \<and> \<not> displayNone h x
                  then concat (map (getStatusText h d) (childNodes d x))
                  else []);
          trimmed = trim text
      in if trimmed = [] then [] else trimmed @ '' '')"
  by pat_completeness auto
termination
  by (relation "measure (\<lambda>(h, d, x). depth_bound d - length (path d x))") (simp_all add: childNodes_depth)

declare getStatusText.simps [simp del]

definition announceStatus :: "string \<Rightarrow> reveal \<Rightarrow> reveal" where
  "announceStatus v s = s\<lparr>doc := set_html v (statusElement (refs s)) (doc s)\<rparr>"

section \<open>State objects and events\<close>

definition isPaused :: "reveal \<Rightarrow> bool" where
  "isPaused s = has_class ''paused'' (doc s) (wrapper (host s))"

definition isAutoSliding :: "reveal \<Rightarrow> bool" where
  "isAutoSliding s = (autoSlide s \<noteq> 0 \<and> \<not> autoSlidePaused s)"

definition getState :: "reveal \<Rightarrow> pstate" where
  "getState s = (let i = getIndices s None in
     \<lparr>st_indexh = ix_h i, st_indexv = ix_v i, st_indexf = ix_f i,
      st_paused = isPaused s, st_overview = overviewActive s\<rparr>)"

fun event_type :: "event \<Rightarrow> string" where
  "event_type (Ev ty n) = ty"
| "event_type (EvSlide ty h v p c org) = ty"
| "event_type (EvFragments ty fs) = ty"
| "event_type (EvOverview ty h v c) = ty"
| "event_type (EvResize a b) = ''resize''"

text \<open>Events not aimed at an element of the deck are dispatched on the wrapper.\<close>

fun event_target :: "reveal \<Rightarrow> event \<Rightarrow> node" where
  "event_target s (Ev ty n) = n"
| "event_target s _ = wrapper (host s)"

definition dispatchPostMessage :: "string \<Rightarrow> reveal \<Rightarrow> world" where
  "dispatchPostMessage ty s =
     (if cfg_postMessageEvents (cfg s) \<and> inFrame (host s)
      then (world s)\<lparr>posted := posted (world s) @ [(ty, getState s)]\<rparr> else world s)"

definition dispatchEvent :: "event \<Rightarrow> reveal \<Rightarrow> reveal" where
  "dispatchEvent e s =
     (let s1 = s\<lparr>world := log_event e (world s)\<rparr> in
      if event_target s e = wrapper (host s) then s1\<lparr>world := dispatchPostMessage (event_type e) s1\<rparr>
      else s1)"

lemma dispatchEvent_world: "\<exists>wd. dispatchEvent e s = s\<lparr>world := wd\<rparr>"
  by (auto simp: dispatchEvent_def Let_def)

end
