(* ===== verification/Frame.thy ===== *)
theory Frame
  imports Deck
begin

text \<open>
  The contract between the deck and its page controllers. An operation is quiet when it may
  write to the page (classes of helper elements, attributes, styles, new helper elements,
  events, listeners, effects) but leaves alone what the navigation of the deck reads: its
  own variables, the sections and their position classes, whether it is paused, and the
  auto-slide timers. The locale \<open>page_op\<close> is the interface a controller provides; every
  controller update interprets it, and navigation uses only its lemmas.
\<close>

definition position_classes :: "string set" where
  "position_classes = {''past'', ''present'', ''future'', ''stack''}"

definition same_nav :: "reveal \<Rightarrow> reveal \<Rightarrow> bool" where
  "same_nav s s' = (cfg s' = cfg s \<and> host s' = host s \<and> refs s' = refs s \<and>
     indexh s' = indexh s \<and> indexv s' = indexv s \<and>
     previousSlide s' = previousSlide s \<and> currentSlide s' = currentSlide s \<and>
     stateArr s' = stateArr s \<and> autoSlide s' = autoSlide s \<and>
     autoSlidePaused s' = autoSlidePaused s \<and> autoSlideTimeout s' = autoSlideTimeout s \<and>
     autoSlidePlayer s' = autoSlidePlayer s \<and> overviewActive s' = overviewActive s \<and>
     overlay s' = overlay s \<and> inputs s' = inputs s \<and> ready s' = ready s)"

text \<open>Attributes of a slide that navigation reads and no controller writes.\<close>

definition kept_attr :: "string \<Rightarrow> bool" where
  [simp]: "kept_attr a = (a = ''data-state'' \<or> a = ''data-start-indexv'' \<or> a = ''data-previous-indexv'')"

definition wf_page :: "node \<Rightarrow> dom \<Rightarrow> bool" where
  "wf_page w d = (wf_dom d \<and> w < nextNode d)"

definition same_sections :: "node \<Rightarrow> dom \<Rightarrow> dom \<Rightarrow> bool" where
  "same_sections w d d' = (wf_page w d \<longrightarrow> wf_page w d' \<and> keeps d d' \<and> nextNode d \<le> nextNode d' \<and>
     (\<forall>x < nextNode d. tag d' x = tag d x) \<and>
     (\<forall>x c. is_section d x \<and> x \<in> set (order d) \<and> c \<in> position_classes \<longrightarrow> has_class c d' x = has_class c d x) \<and>
     (\<forall>x a. is_section d x \<and> x \<in> set (order d) \<and> kept_attr a \<longrightarrow> get_attr a d' x = get_attr a d x) \<and>
     has_class ''paused'' d' w = has_class ''paused'' d w)"

text \<open>
  What the pending calls of the page may do besides sliding on: a call that writes a class writes
  one that no slide depends on. The delayed URL writer, which is never asked for, is none of them.
\<close>

definition page_class :: "string \<Rightarrow> bool" where
  "page_class c = (c \<notin> position_classes \<and> c \<noteq> ''slides'' \<and> c \<noteq> ''paused'')"

fun page_call :: "tcall \<Rightarrow> bool" where
  "page_call TAutoSlide = False"
| "page_call TWriteURL = False"
| "page_call (TRemoveClass c x) = page_class c"
| "page_call (TAddClass c x) = page_class c"
| "page_call _ = True"

definition calls_ok :: "world \<Rightarrow> bool" where
  "calls_ok wd = list_all (\<lambda>t. tcallback t = TAutoSlide \<or> page_call (tcallback t)) (timers wd)"

lemma calls_ok_set: "calls_ok wd \<Longrightarrow> c = TAutoSlide \<or> page_call c \<Longrightarrow> calls_ok (snd (setTimeout c dl wd))"
  by (simp add: calls_ok_def setTimeout_def)

lemma calls_ok_clear: "calls_ok wd \<Longrightarrow> calls_ok (clearTimeout i wd)"
  by (simp add: calls_ok_def clearTimeout_def list_all_iff)

definition same_timers :: "world \<Rightarrow> world \<Rightarrow> bool" where
  "same_timers wd wd' = (timers_of TAutoSlide wd' = timers_of TAutoSlide wd \<and>
     (wf_timers wd \<longrightarrow> wf_timers wd') \<and> (calls_ok wd \<longrightarrow> calls_ok wd') \<and> nextTimer wd \<le> nextTimer wd')"

text \<open>
  The identifiers kept for the URL writer and the cursor are handed out already and are not
  those of an auto-slide timer, so that cancelling them does not touch auto-sliding.
\<close>

definition timers_ok :: "reveal \<Rightarrow> bool" where
  "timers_ok s = (wf_timers (world s) \<and> calls_ok (world s) \<and>
     writeURLTimeout s < nextTimer (world s) \<and> replaceStateTimeout s < nextTimer (world s) \<and>
     cursorInactiveTimeout s < nextTimer (world s) \<and>
     (\<forall>t\<in>set (timers_of TAutoSlide (world s)). tid t \<noteq> writeURLTimeout s \<and> tid t \<noteq> replaceStateTimeout s \<and>
        tid t \<noteq> cursorInactiveTimeout s))"

definition quiet_timer :: "reveal \<Rightarrow> reveal \<Rightarrow> bool" where
  "quiet_timer s s' = (timers_ok s \<longrightarrow> timers_ok s' \<and>
     timers_of TAutoSlide (world s') = timers_of TAutoSlide (world s) \<and>
     nextTimer (world s) \<le> nextTimer (world s'))"

text \<open>
  The element that holds the backgrounds and the open overlay hold no slide: that is why classes
  like \<open>past\<close> written below the one, and removing the other, are no business of the slides.
  They and \<open>.slides\<close> are nodes.
\<close>

definition helpers :: "reveal \<Rightarrow> node list" where
  "helpers s = backgroundsEl (refs s) # (case overlay s of None \<Rightarrow> [] | Some x \<Rightarrow> [x])"

definition bg_ok :: "reveal \<Rightarrow> bool" where
  "bg_ok s = (slidesEl (host s) < nextNode (doc s) \<and> (\<forall>e\<in>set (helpers s). e < nextNode (doc s) \<and>
     (\<forall>x\<in>set (sections (doc s)). \<not> in_subtree (doc s) e x)))"

lemma bg_okD:
  assumes "bg_ok s"
  shows "backgroundsEl (refs s) < nextNode (doc s)" "slidesEl (host s) < nextNode (doc s)"
    "x \<in> set (sections (doc s)) \<Longrightarrow> \<not> in_subtree (doc s) (backgroundsEl (refs s)) x"
    "overlay s = Some y \<Longrightarrow> y < nextNode (doc s)"
    "overlay s = Some y \<Longrightarrow> x \<in> set (sections (doc s)) \<Longrightarrow> \<not> in_subtree (doc s) y x"
  using assms unfolding bg_ok_def helpers_def by auto

definition quiet_page_of :: "reveal \<Rightarrow> reveal \<Rightarrow> bool" where
  "quiet_page_of s s' = (bg_ok s \<longrightarrow> same_sections (wrapper (host s)) (doc s) (doc s'))"

definition quiet :: "reveal \<Rightarrow> reveal \<Rightarrow> bool" where
  "quiet s s' = (same_nav s s' \<and> quiet_page_of s s' \<and> quiet_timer s s')"

definition page_wf :: "reveal \<Rightarrow> bool" where
  "page_wf s = (wf_page (wrapper (host s)) (doc s) \<and> bg_ok s)"

lemma wf_page_ops [simp]:
  "wf_page w (add_class c x d) = wf_page w d" "wf_page w (remove_class c x d) = wf_page w d"
  "wf_page w (set_attr a v x d) = wf_page w d" "wf_page w (remove_attr a x d) = wf_page w d"
  "wf_page w (set_style k u x d) = wf_page w d" "wf_page w (remove_style k x d) = wf_page w d"
  "wf_page w (set_html h x d) = wf_page w d"
  by (simp_all add: wf_page_def)

lemma same_nav_refl [simp]: "same_nav s s" by (simp add: same_nav_def)
lemma same_sections_refl [simp]: "same_sections w d d" by (simp add: same_sections_def)
lemma same_timers_refl [simp]: "same_timers wd wd" by (simp add: same_timers_def)
lemma quiet_timer_refl [simp]: "quiet_timer s s" by (simp add: quiet_timer_def)
lemma quiet_page_of_refl [simp]: "quiet_page_of s s" by (simp add: quiet_page_of_def)
lemma quiet_refl [simp]: "quiet s s" by (simp add: quiet_def)

lemma same_nav_trans: "same_nav a b \<Longrightarrow> same_nav b c \<Longrightarrow> same_nav a c"
  by (simp add: same_nav_def)

lemma same_sections_trans: "same_sections w a b \<Longrightarrow> same_sections w b c \<Longrightarrow> same_sections w a c"
proof -
  assume ab: "same_sections w a b" and bc: "same_sections w b c"
  have in_b: "is_section b x \<and> x \<in> set (order b)"
    if "wf_page w a" "is_section a x" "x \<in> set (order a)" for x
  proof -
    have "x \<in> set (sections b)" using ab that by (simp add: same_sections_def keeps_def)
    then show ?thesis by simp
  qed
  show ?thesis
    unfolding same_sections_def
  proof (intro impI conjI allI)
    assume wa: "wf_page w a"
    with ab have wb: "wf_page w b" by (simp add: same_sections_def)
    with bc show "wf_page w c" by (simp add: same_sections_def)
    show "keeps a c" using ab bc wa wb by (auto simp: same_sections_def intro: keeps_trans)
    show "nextNode a \<le> nextNode c" using ab bc wa wb by (auto simp: same_sections_def)
    show "tag c x = tag a x" if "x < nextNode a" for x
      using ab bc wa wb that by (simp add: same_sections_def)
    show "has_class k c x = has_class k a x"
      if "is_section a x \<and> x \<in> set (order a) \<and> k \<in> position_classes" for x k
      using ab bc wa wb that in_b [of x] by (simp add: same_sections_def)
    show "get_attr k c x = get_attr k a x"
      if "is_section a x \<and> x \<in> set (order a) \<and> kept_attr k" for x k
      using ab bc wa wb that in_b [of x] by (simp add: same_sections_def)
    show "has_class ''paused'' c w = has_class ''paused'' a w"
      using ab bc wa wb by (simp add: same_sections_def)
  qed
qed

lemma same_timers_trans: "same_timers a b \<Longrightarrow> same_timers b c \<Longrightarrow> same_timers a c"
  by (auto simp: same_timers_def)

lemma quiet_timer_trans: "quiet_timer a b \<Longrightarrow> quiet_timer b c \<Longrightarrow> quiet_timer a c"
  unfolding quiet_timer_def by (metis order_trans)

lemma quiet_timer_world:
  assumes "same_timers (world s) (world s')" "writeURLTimeout s' = writeURLTimeout s"
    "replaceStateTimeout s' = replaceStateTimeout s" "cursorInactiveTimeout s' = cursorInactiveTimeout s"
  shows "quiet_timer s s'"
  using assms by (auto simp: quiet_timer_def timers_ok_def same_timers_def)

lemma bg_ok_keeps:
  assumes "bg_ok s" "keeps (doc s) (doc s')" "nextNode (doc s) \<le> nextNode (doc s')"
    "refs s' = refs s" "host s' = host s" "overlay s' = overlay s"
  shows "bg_ok s'"
proof -
  have sec: "sections (doc s') = sections (doc s)" using assms(2) by (simp add: keeps_def)
  have h: "helpers s' = helpers s" using assms(4,6) by (simp add: helpers_def)
  have "\<not> in_subtree (doc s') e x" if "x \<in> set (sections (doc s))" "e \<in> set (helpers s)" for x e
    using assms(1) keepsD(1) [OF assms(2) that(1)] that unfolding bg_ok_def in_subtree_def by auto
  then show ?thesis using assms(1,3) unfolding bg_ok_def sec h assms(5) by (meson less_le_trans)
qed

lemma quiet_page_trans:
  assumes "same_nav a b" "quiet_page_of a b" "quiet_page_of b c"
  shows "quiet_page_of a c"
  unfolding quiet_page_of_def
proof
  assume ok: "bg_ok a"
  let ?w = "wrapper (host a)"
  from assms(2) ok have ab: "same_sections ?w (doc a) (doc b)" by (simp add: quiet_page_of_def)
  have h: "host b = host a" "refs b = refs a" "overlay b = overlay a" using assms(1) by (simp_all add: same_nav_def)
  show "same_sections ?w (doc a) (doc c)"
  proof (cases "wf_page ?w (doc a)")
    case True
    then have "keeps (doc a) (doc b)" "nextNode (doc a) \<le> nextNode (doc b)"
      using ab by (simp_all add: same_sections_def)
    then have "bg_ok b" using ok h by (intro bg_ok_keeps [OF ok]) simp_all
    then have "same_sections ?w (doc b) (doc c)" using assms(3) h by (simp add: quiet_page_of_def)
    with ab show ?thesis by (rule same_sections_trans)
  next
    case False
    then show ?thesis by (simp add: same_sections_def)
  qed
qed

lemma quiet_trans [trans]: "quiet a b \<Longrightarrow> quiet b c \<Longrightarrow> quiet a c"
  unfolding quiet_def using same_nav_trans quiet_page_trans quiet_timer_trans by blast

lemma same_sections_quiet: "same_sections (wrapper (host s)) (doc s) (doc s') \<Longrightarrow> quiet_page_of s s'"
  by (simp add: quiet_page_of_def)

lemma same_nav_page [simp]:
  "same_nav s (s\<lparr>doc := d\<rparr>)" "same_nav s (s\<lparr>world := wd\<rparr>)" "same_nav s (s\<lparr>doc := d, world := wd\<rparr>)"
  by (simp_all add: same_nav_def)

lemma quiet_doc: "same_sections (wrapper (host s)) (doc s) d \<Longrightarrow> quiet s (s\<lparr>doc := d\<rparr>)"
  by (simp add: quiet_def quiet_timer_world same_sections_quiet)

lemma quiet_world: "same_timers (world s) wd \<Longrightarrow> quiet s (s\<lparr>world := wd\<rparr>)"
  by (simp add: quiet_def quiet_timer_world same_sections_quiet)

lemma quiet_page:
  "same_sections (wrapper (host s)) (doc s) d \<Longrightarrow> same_timers (world s) wd \<Longrightarrow>
   quiet s (s\<lparr>doc := d, world := wd\<rparr>)"
  by (simp add: quiet_def quiet_timer_world same_sections_quiet)

section \<open>Basic quiet writes\<close>

lemma same_sections_for_each:
  "(\<And>x d. x \<in> set xs \<Longrightarrow> same_sections w d (f x d)) \<Longrightarrow> same_sections w d (for_each f xs d)"
  by (induction xs arbitrary: d) (auto intro: same_sections_trans)

lemma same_sections_attr [simp, intro]:
  "\<not> kept_attr a \<Longrightarrow> same_sections w d (set_attr a v x d)"
  "\<not> kept_attr a \<Longrightarrow> same_sections w d (remove_attr a x d)"
  "same_sections w d (set_style k c x d)" "same_sections w d (remove_style k x d)"
  "same_sections w d (set_html h x d)"
  by (simp_all add: same_sections_def)

lemma same_sections_cong:
  assumes "order d' = order d" "path d' = path d" "tag d' = tag d" "nextNode d' = nextNode d"
    "cls d' = cls d" "bgOf d' = bgOf d" "bgContentOf d' = bgContentOf d"
    "get_attr ''data-state'' d' = get_attr ''data-state'' d"
    "get_attr ''data-start-indexv'' d' = get_attr ''data-start-indexv'' d"
    "get_attr ''data-previous-indexv'' d' = get_attr ''data-previous-indexv'' d"
  shows "same_sections w d d'"
proof -
  have "has_class c d' = has_class c d" for c using assms(5) by (rule has_class_cong)
  moreover have "keeps d d'" using calculation assms by (intro keepsI) simp_all
  moreover have "wf_page w d' = wf_page w d" using wf_dom_cong [OF assms(1-4,6,7)] assms(4) by (simp add: wf_page_def)
  moreover have "get_attr a d' x = get_attr a d x" if "kept_attr a" for a x using that assms(8-10) by auto
  ultimately show ?thesis using assms by (simp add: same_sections_def)
qed

lemma same_sections_class:
  "page_class c \<Longrightarrow> same_sections w d (add_class c x d)"
  "page_class c \<Longrightarrow> same_sections w d (remove_class c x d)"
  by (auto simp: same_sections_def page_class_def)

lemma page_class_literals [simp]:
  "page_class ''visible''" "page_class ''current-fragment''" "page_class ''enabled''"
  "page_class ''fragmented''" "page_class ''highlight''" "page_class ''disabled''"
  "page_class ''no-transition''" "page_class ''show-notes''" "page_class ''overview''"
  "page_class ''overview-deactivating''" "page_class ''has-light-background''"
  "page_class ''has-dark-background''" "page_class ''has-vertical-slides''"
  "page_class ''has-horizontal-slides''" "page_class ''disable-slide-transitions''"
  "page_class ''focused''" "page_class ''ready''" "page_class ''has-parallax-background''"
  by (simp_all add: page_class_def position_classes_def)

text \<open>A node that is not a section may take any class but those of the containers.\<close>

lemma same_sections_nonsection:
  assumes "\<not> is_section d x" "c \<noteq> ''slides''" "c \<noteq> ''paused''"
  shows "same_sections w d (add_class c x d)" and "same_sections w d (remove_class c x d)"
  using assms by (auto simp: same_sections_def)

lemma same_timers_basic [simp, intro]:
  "same_timers wd (log_event e wd)" "same_timers wd (log_effect f wd)"
  "same_timers wd (addEventListener t ty h wd)" "same_timers wd (removeEventListener t ty h wd)"
  "same_timers wd (wd\<lparr>posted := ps\<rparr>)" "same_timers wd (wd\<lparr>hash := h\<rparr>)"
  "same_timers wd (wd\<lparr>historyLen := n\<rparr>)"
  by (simp_all add: same_timers_def timers_of_def wf_timers_def calls_ok_def log_event_def log_effect_def
      addEventListener_def removeEventListener_def)

lemma world_frame [simp]:
  "timers (log_event e wd) = timers wd" "nextTimer (log_event e wd) = nextTimer wd"
  "timers (log_effect f wd) = timers wd" "nextTimer (log_effect f wd) = nextTimer wd"
  "timers (addEventListener t ty h wd) = timers wd" "nextTimer (addEventListener t ty h wd) = nextTimer wd"
  "timers (removeEventListener t ty h wd) = timers wd"
  "nextTimer (removeEventListener t ty h wd) = nextTimer wd"
  by (simp_all add: log_event_def log_effect_def addEventListener_def removeEventListener_def)

lemma same_timers_cong: "timers wd' = timers wd \<Longrightarrow> nextTimer wd' = nextTimer wd \<Longrightarrow> same_timers wd wd'"
  by (simp add: same_timers_def timers_of_def wf_timers_def calls_ok_def)

lemma same_timers_set:
  "page_call c \<Longrightarrow> same_timers wd (snd (setTimeout c dl wd))"
  by (auto simp: same_timers_def timers_of_set wf_timers_set calls_ok_set) (simp add: setTimeout_def)

text \<open>
  Cancelling a timer is quiet when the identifier is not the auto-slide timer's.
\<close>

lemma same_timers_clear:
  assumes "\<forall>t\<in>set (timers_of TAutoSlide wd). tid t \<noteq> i"
  shows "same_timers wd (clearTimeout i wd)"
proof -
  have "filter (\<lambda>t. tid t \<noteq> i) (timers_of TAutoSlide wd) = timers_of TAutoSlide wd"
    using assms by (intro filter_True) blast
  then show ?thesis by (auto simp: same_timers_def timers_of_clear calls_ok_clear) (simp add: clearTimeout_def)
qed

lemma quiet_dispatch [simp, intro]: "quiet s (dispatchEvent e s)"
proof -
  have "same_timers (world s) (dispatchPostMessage ty (s\<lparr>world := log_event e (world s)\<rparr>))" for ty
    by (auto simp: dispatchPostMessage_def intro: same_timers_trans)
  then show ?thesis by (auto simp: dispatchEvent_def Let_def intro!: quiet_world)
qed

text \<open>Creating helper elements and putting them into the page.\<close>

lemma same_sections_create:
  assumes c: "createElement t d = (n, d')" and t: "t \<noteq> ''section''"
  shows "same_sections w d d'"
  unfolding same_sections_def
proof (intro impI conjI allI)
  assume wf: "wf_page w d"
  note e = createElement_simps [OF c]
  show "wf_page w d'" using wf wf_dom_create [OF _ c] e by (simp add: wf_page_def)
  show "keeps d d'" using wf keeps_create [OF _ c t] by (simp add: wf_page_def)
  show "nextNode d \<le> nextNode d'" by (simp add: e)
  show "tag d' x = tag d x" if "x < nextNode d" for x using that by (simp add: e)
  show "has_class k d' x = has_class k d x"
    if "is_section d x \<and> x \<in> set (order d) \<and> k \<in> position_classes" for x k
  proof -
    have "x < nextNode d" using that wf wf_domD(2) unfolding wf_page_def by blast
    then have "x \<noteq> n" unfolding e(1) by simp
    then show ?thesis by (simp add: has_class_def e(5))
  qed
  show "get_attr k d' x = get_attr k d x"
    if "is_section d x \<and> x \<in> set (order d) \<and> kept_attr k" for x k
  proof -
    have "x < nextNode d" using that wf wf_domD(2) unfolding wf_page_def by blast
    then have "x \<noteq> n" unfolding e(1) by simp
    then show ?thesis using c by (auto simp: get_attr_def createElement_def Let_def)
  qed
  show "has_class ''paused'' d' w = has_class ''paused'' d w"
    using wf by (auto simp: has_class_def e(1,5) wf_page_def)
qed

lemma same_sections_append:
  assumes "wf_page w d \<Longrightarrow> p < nextNode d \<and> c < nextNode d \<and> \<not> in_subtree d c p \<and>
     (\<forall>x\<in>set (order d). in_subtree d c x \<longrightarrow> \<not> is_section d x)"
  shows "same_sections w d (appendChild p c d)"
  unfolding same_sections_def
proof (intro impI conjI allI)
  assume wf: "wf_page w d"
  from assms [OF this] have p: "p < nextNode d" "c < nextNode d" "\<not> in_subtree d c p"
    and leaf: "\<And>x. x \<in> set (order d) \<Longrightarrow> in_subtree d c x \<Longrightarrow> \<not> is_section d x" by auto
  show "wf_page w (appendChild p c d)"
    using wf wf_dom_append [OF _ p] by (simp add: wf_page_def appendChild_def)
  show "keeps d (appendChild p c d)" using leaf by (rule keeps_append)
qed (simp_all add: appendChild_def has_class_def get_attr_def)

text \<open>A new element, dressed up and put below an existing one.\<close>

lemma same_sections_new_child:
  assumes c: "createElement t d = (n, d1)" and t: "t \<noteq> ''section''"
    and dress: "order d2 = order d1" "path d2 = path d1" "tag d2 = tag d1" "nextNode d2 = nextNode d1"
    and d2: "same_sections w d1 d2" and p: "wf_page w d \<Longrightarrow> p < nextNode d"
  shows "same_sections w d (appendChild p n d2)"
proof -
  note e = createElement_simps [OF c]
  have d02: "same_sections w d d2" using same_sections_create [OF c t] d2 by (rule same_sections_trans)
  have leaf: "p < nextNode d2 \<and> n < nextNode d2 \<and> \<not> in_subtree d2 n p \<and>
     (\<forall>x\<in>set (order d2). in_subtree d2 n x \<longrightarrow> \<not> is_section d2 x)" if wf: "wf_page w d"
  proof -
    have "n \<notin> set (path d x)" if "x \<in> set (order d)" for x
    proof
      assume "n \<in> set (path d x)"
      then have "n < nextNode d" using wf that wf_domD(2,3) unfolding wf_page_def by blast
      then show False unfolding e(1) by simp
    qed
    moreover have "n \<notin> set (path d p)"
    proof
      assume "n \<in> set (path d p)"
      then have "n < nextNode d" using wf p [OF wf] wf_domD(3) unfolding wf_page_def by blast
      then show False unfolding e(1) by simp
    qed
    ultimately show ?thesis using p [OF wf] t by (auto simp: dress e in_subtree_def is_section_def)
  qed
  show ?thesis
  proof (cases "wf_page w d")
    case True
    then have "same_sections w d2 (appendChild p n d2)" using leaf by (intro same_sections_append) blast
    with d02 show ?thesis by (rule same_sections_trans)
  next
    case False
    then show ?thesis by (simp add: same_sections_def)
  qed
qed

section \<open>Pages\<close>

text \<open>The document and the world together: what a page controller may write to.\<close>

type_synonym page = "dom \<times> world"

definition page_ok :: "node \<Rightarrow> page \<Rightarrow> page \<Rightarrow> bool" where
  "page_ok w p p' = (same_sections w (fst p) (fst p') \<and> same_timers (snd p) (snd p'))"

definition on_page :: "(page \<Rightarrow> page) \<Rightarrow> reveal \<Rightarrow> reveal" where
  "on_page f s = (let p = f (doc s, world s) in s\<lparr>doc := fst p, world := snd p\<rparr>)"

definition for_page :: "(node \<Rightarrow> page \<Rightarrow> page) \<Rightarrow> node list \<Rightarrow> page \<Rightarrow> page" where
  "for_page f xs p = fold f xs p"

definition page_dom :: "(dom \<Rightarrow> dom) \<Rightarrow> page \<Rightarrow> page" where
  "page_dom f p = (f (fst p), snd p)"

definition page_world :: "(world \<Rightarrow> world) \<Rightarrow> page \<Rightarrow> page" where
  "page_world f p = (fst p, f (snd p))"

lemma page_ok_refl [simp]: "page_ok w p p"
  by (simp add: page_ok_def)

lemma page_ok_trans: "page_ok w p q \<Longrightarrow> page_ok w q r \<Longrightarrow> page_ok w p r"
  by (auto simp: page_ok_def intro: same_sections_trans same_timers_trans)

lemma page_ok_dom: "same_sections w (fst p) (f (fst p)) \<Longrightarrow> page_ok w p (page_dom f p)"
  by (simp add: page_ok_def page_dom_def)

lemma page_ok_world: "same_timers (snd p) (f (snd p)) \<Longrightarrow> page_ok w p (page_world f p)"
  by (simp add: page_ok_def page_world_def)

lemma page_ok_for:
  "(\<And>x p. x \<in> set xs \<Longrightarrow> page_ok w p (f x p)) \<Longrightarrow> page_ok w p (for_page f xs p)"
proof (induction xs arbitrary: p)
  case Nil
  show ?case by (simp add: for_page_def)
next
  case (Cons x xs)
  have "page_ok w p (f x p)" by (rule Cons.prems) simp
  moreover have "page_ok w (f x p) (for_page f xs (f x p))"
    by (rule Cons.IH) (rule Cons.prems, simp)
  ultimately have "page_ok w p (for_page f xs (f x p))" by (rule page_ok_trans)
  then show ?case by (simp add: for_page_def)
qed

lemma quiet_on_page: "(\<And>p. page_ok (wrapper (host s)) p (f p)) \<Longrightarrow> quiet s (on_page f s)"
  by (auto simp: on_page_def Let_def page_ok_def intro!: quiet_page)

text \<open>One more write after a quiet step.\<close>

lemma quiet_then:
  "quiet s t \<Longrightarrow> same_sections (wrapper (host t)) (doc t) d \<Longrightarrow> quiet s (t\<lparr>doc := d\<rparr>)"
  "quiet s t \<Longrightarrow> same_timers (world t) w \<Longrightarrow> quiet s (t\<lparr>world := w\<rparr>)"
  "quiet s t \<Longrightarrow> (\<And>p. page_ok (wrapper (host t)) p (f p)) \<Longrightarrow> quiet s (on_page f t)"
  "quiet s t \<Longrightarrow> quiet s (dispatchEvent e t)"
  by (erule quiet_trans, rule quiet_doc quiet_world quiet_on_page quiet_dispatch, assumption?)+

section \<open>Reading through quiet steps\<close>

lemma quietD:
  assumes "quiet s s'"
  shows "cfg s' = cfg s" "host s' = host s" "refs s' = refs s" "indexh s' = indexh s" "indexv s' = indexv s"
    "previousSlide s' = previousSlide s" "currentSlide s' = currentSlide s"
    "stateArr s' = stateArr s" "autoSlide s' = autoSlide s"
    "autoSlidePaused s' = autoSlidePaused s" "autoSlideTimeout s' = autoSlideTimeout s"
    "autoSlidePlayer s' = autoSlidePlayer s" "overviewActive s' = overviewActive s" "ready s' = ready s"
    "overlay s' = overlay s" "inputs s' = inputs s"
  using assms by (simp_all add: quiet_def same_nav_def)

lemma quiet_sections: "quiet s s' \<Longrightarrow> page_wf s \<Longrightarrow> same_sections (wrapper (host s)) (doc s) (doc s')"
  by (simp add: quiet_def quiet_page_of_def page_wf_def)

lemma quiet_wf_page:
  assumes "quiet s s'" "page_wf s"
  shows "page_wf s'"
proof -
  have q: "same_sections (wrapper (host s)) (doc s) (doc s')" by (rule quiet_sections [OF assms])
  have wf: "wf_page (wrapper (host s)) (doc s)" "bg_ok s" using assms(2) by (simp_all add: page_wf_def)
  have "bg_ok s'" using wf q quietD(2,3,15) [OF assms(1)] by (intro bg_ok_keeps [OF wf(2)]) (simp_all add: same_sections_def)
  then show ?thesis using wf q quietD(2) [OF assms(1)] by (simp add: page_wf_def same_sections_def)
qed

lemma quiet_keeps: "quiet s s' \<Longrightarrow> page_wf s \<Longrightarrow> keeps (doc s) (doc s')"
  using quiet_sections [of s s'] by (simp add: same_sections_def page_wf_def)

lemma quiet_slides:
  assumes "quiet s s'" and "page_wf s"
  shows "getHorizontalSlides s' = getHorizontalSlides s"
    and "getVerticalSlides s' = getVerticalSlides s"
    and "verticals (doc s') x = verticals (doc s) x"
  using quiet_keeps [OF assms] quietD(2) [OF assms(1)]
  by (simp_all add: getHorizontalSlides_def getVerticalSlides_def verticals_def keeps_horizontal
      keeps_nested keeps_sections)

lemma quiet_paused: "quiet s s' \<Longrightarrow> page_wf s \<Longrightarrow> isPaused s' = isPaused s"
  using quiet_sections [of s s'] quietD(2) [of s s'] by (simp add: same_sections_def isPaused_def page_wf_def)

lemma quiet_timers:
  assumes "quiet s s'" "timers_ok s"
  shows "timers_of TAutoSlide (world s') = timers_of TAutoSlide (world s)" and "timers_ok s'"
    and "nextTimer (world s) \<le> nextTimer (world s')"
  using assms by (simp_all add: quiet_def quiet_timer_def)

lemma quiet_position:
  assumes "quiet s s'" "page_wf s" "x \<in> set (sections (doc s))" "c \<in> position_classes"
  shows "has_class c (doc s') x = has_class c (doc s) x"
  using quiet_sections [OF assms(1,2)] assms(2-4) by (auto simp: same_sections_def page_wf_def)

locale page_op =
  fixes op :: "reveal \<Rightarrow> reveal"
  assumes quiet: "quiet s (op s)"
begin

lemma position: "indexh (op s) = indexh s" "indexv (op s) = indexv s" "currentSlide (op s) = currentSlide s"
  using quietD [OF quiet] by simp_all

lemma config: "cfg (op s) = cfg s" "host (op s) = host s"
  using quietD [OF quiet] by simp_all

lemma slides:
  assumes "page_wf s"
  shows "getHorizontalSlides (op s) = getHorizontalSlides s" and "verticals (doc (op s)) x = verticals (doc s) x"
  using quiet_slides [OF quiet assms] by simp_all

lemma after: "quiet s0 s \<Longrightarrow> quiet s0 (op s)"
  using quiet quiet_trans by blast

end

end
