(* ===== verification/SlideContent.thy ===== *)
theory SlideContent
  imports Frame Uri
begin

text \<open>
  \<open>controllers/slidecontent.js\<close>: lazy loading and unloading of a slide's media and of its
  background, and starting and stopping embedded media and frames. Playing, pausing and
  posting to a frame are effects; so is the third-party text fitting. A property of an
  element that is not an attribute (\<open>muted\<close>) is kept under a name starting with a dot.
\<close>

definition attr_text :: "string \<Rightarrow> dom \<Rightarrow> node \<Rightarrow> string" where
  "attr_text a d x = (case get_attr a d x of Some v \<Rightarrow> v | None \<Rightarrow> [])"

definition is_tag :: "string list \<Rightarrow> dom \<Rightarrow> node \<Rightarrow> bool" where
  "is_tag ts d x = (tag d x \<in> set ts)"

definition shouldPreload :: "config \<Rightarrow> dom \<Rightarrow> node \<Rightarrow> bool" where
  "shouldPreload c d el =
     (case cfg_preloadIframes c of Some b \<Rightarrow> b | None \<Rightarrow> has_attr ''data-preload'' d el)"

section \<open>Loading\<close>

definition load_element :: "config \<Rightarrow> node \<Rightarrow> dom \<Rightarrow> dom" where
  "load_element c el d =
     (if tag d el \<noteq> ''iframe'' \<or> shouldPreload c d el then
        remove_attr ''data-src'' el (set_attr ''data-lazy-loaded'' [] el
          (set_attr ''src'' (attr_text ''data-src'' d el) el d))
      else d)"

definition load_source :: "node \<Rightarrow> dom \<Rightarrow> dom" where
  "load_source el d =
     set_attr ''data-lazy-loaded'' [] el (remove_attr ''data-src'' el
       (set_attr ''src'' (attr_text ''data-src'' d el) el d))"

definition load_media :: "host \<Rightarrow> node \<Rightarrow> page \<Rightarrow> page" where
  "load_media h m p =
     (let d = fst p;
          sources = queryAll d m (\<lambda>x. is_tag [''source''] d x \<and> has_attr ''data-src'' d x);
          d1 = for_each load_source sources d;
          d2 = (if isMobile h \<and> tag d1 m = ''video'' then set_attr ''playsinline'' [] m d1 else d1)
      in (d2, if 0 < length sources then log_effect (MediaLoad m) (snd p) else snd p))"

definition background_url :: "string \<Rightarrow> string" where
  "background_url v =
     (if starts_with ''data:'' (trim v) then ''url('' @ trim v @ '')''
      else join_with '','' (map (\<lambda>b. ''url('' @ encodeURI (trim b) @ '')'') (split_on (CHR '','') v)))"

definition video_source :: "string \<Rightarrow> string" where
  "video_source src = (case getMimeTypeFromFile src of
       Some ty \<Rightarrow> ''<source src=\"'' @ src @ ''\" type=\"'' @ ty @ ''\">''
     | None \<Rightarrow> ''<source src=\"'' @ src @ ''\">'')"

definition dress_video :: "host \<Rightarrow> bool \<Rightarrow> bool \<Rightarrow> string \<Rightarrow> node \<Rightarrow> dom \<Rightarrow> dom" where
  "dress_video h looped muted v n d =
     (let d1 = (if looped then set_attr ''loop'' [] n d else d);
          d2 = (if muted then set_attr ''.muted'' ''true'' n d1 else d1);
          d3 = (if isMobile h then set_attr ''playsinline'' [] n (set_attr ''.muted'' ''true'' n d2) else d2)
      in set_html (concat (map video_source (split_on (CHR '','') v))) n d3)"

definition dress_iframe :: "string \<Rightarrow> node \<Rightarrow> dom \<Rightarrow> dom" where
  "dress_iframe src n d =
     set_style ''maxWidth'' (Css ''100%'') n (set_style ''maxHeight'' (Css ''100%'') n
      (set_style ''height'' (Css ''100%'') n (set_style ''width'' (Css ''100%'') n
       (set_attr ''data-src'' src n (set_attr ''allow'' ''autoplay'' n
        (set_attr ''webkitallowfullscreen'' [] n (set_attr ''mozallowfullscreen'' [] n
         (set_attr ''allowfullscreen'' [] n d))))))))"

definition load_background_media :: "host \<Rightarrow> bool \<Rightarrow> node \<Rightarrow> node \<Rightarrow> node \<Rightarrow> dom \<Rightarrow> dom" where
  "load_background_media h excludeIframes el background content d =
     (if has_attr ''data-loaded'' d background then d
      else
       (let d0 = set_attr ''data-loaded'' ''true'' background d;
            image = attr_text ''data-background-image'' d0 el;
            video = attr_text ''data-background-video'' d0 el;
            iframe = attr_text ''data-background-iframe'' d0 el
        in if image \<noteq> [] then set_style ''backgroundImage'' (Css (background_url image)) content d0
           else if video \<noteq> [] \<and> \<not> isSpeakerNotes h then
             (let (n, d1) = createElement ''video'' d0
              in appendChild content n
                   (dress_video h (has_attr ''data-background-video-loop'' d0 el)
                      (has_attr ''data-background-video-muted'' d0 el) video n d1))
           else if iframe \<noteq> [] \<and> \<not> excludeIframes then
             (let (n, d1) = createElement ''iframe'' d0
              in appendChild content n (dress_iframe iframe n d1))
           else d0))"

definition autoplays :: "string \<Rightarrow> bool" where
  "autoplays v = (let l = map to_lower v in
     contains_str ''autoplay=1'' l \<or> contains_str ''autoplay=true'' l \<or> contains_str ''autoplay=yes'' l)"

text \<open>Where the slide has no such attribute, the source tests and writes the text \<open>null\<close>.\<close>

definition preload_background_iframe :: "config \<Rightarrow> node \<Rightarrow> node \<Rightarrow> node \<Rightarrow> dom \<Rightarrow> dom" where
  "preload_background_iframe c el background content d =
     (case querySel d content (\<lambda>x. is_tag [''iframe''] d x \<and> has_attr ''data-src'' d x) of
        None \<Rightarrow> d
      | Some f \<Rightarrow>
          (let src = get_attr ''data-background-iframe'' d el;
               txt = (case src of Some v \<Rightarrow> v | None \<Rightarrow> ''null'')
           in if shouldPreload c d background \<and> \<not> autoplays txt \<and> get_attr ''src'' d f \<noteq> src
              then set_attr ''src'' txt f d else d))"

definition slideContent_layout :: "node \<Rightarrow> page \<Rightarrow> page" where
  "slideContent_layout scope p =
     for_page (\<lambda>el. page_world (log_effect (Fit el)))
       (queryAll (fst p) scope (has_class ''r-fit-text'' (fst p))) p"

definition load_background :: "config \<Rightarrow> host \<Rightarrow> bool \<Rightarrow> node \<Rightarrow> dom \<Rightarrow> dom" where
  "load_background c h excludeIframes el d =
     (case (bgOf d el, bgContentOf d el) of
        (Some background, Some content) \<Rightarrow>
          preload_background_iframe c el background content
            (load_background_media h excludeIframes el background content
              (set_style ''display'' (Css ''block'') background d))
      | _ \<Rightarrow> d)"

definition slideContent_load :: "config \<Rightarrow> host \<Rightarrow> bool \<Rightarrow> node \<Rightarrow> page \<Rightarrow> page" where
  "slideContent_load c h excludeIframes el p =
     (let d0 = set_style ''display'' (Css (cfg_display c)) el (fst p);
          d1 = for_each (load_element c)
                 (queryAll d0 el (\<lambda>x. is_tag [''img'', ''video'', ''audio'', ''iframe''] d0 x \<and>
                    has_attr ''data-src'' d0 x)) d0;
          p2 = for_page (load_media h) (queryAll d1 el (is_tag [''video'', ''audio''] d1)) (d1, snd p)
      in slideContent_layout el (page_dom (load_background c h excludeIframes el) p2))"

section \<open>Unloading\<close>

definition unload_element :: "node \<Rightarrow> dom \<Rightarrow> dom" where
  "unload_element el d = remove_attr ''src'' el (set_attr ''data-src'' (attr_text ''src'' d el) el d)"

definition slideContent_unload :: "node \<Rightarrow> page \<Rightarrow> page" where
  "slideContent_unload el p =
     (let d0 = set_style ''display'' (Css ''none'') el (fst p);
          d1 = (case bgOf d0 el of
                  None \<Rightarrow> d0
                | Some background \<Rightarrow>
                    (let db = set_style ''display'' (Css ''none'') background d0
                     in for_each (remove_attr ''src'')
                          (queryAll db background (\<lambda>x. is_tag [''iframe''] db x \<and> has_attr ''src'' db x)) db));
          d2 = for_each unload_element
                 (queryAll d1 el (\<lambda>x. is_tag [''video'', ''audio'', ''iframe''] d1 x \<and>
                    has_attr ''data-lazy-loaded'' d1 x \<and> has_attr ''src'' d1 x)) d1;
          d3 = for_each unload_element
                 (queryAll d2 el (\<lambda>x. is_tag [''source''] d2 x \<and> has_attr ''src'' d2 x \<and>
                    (\<exists>a\<in>set (path d2 x). tag d2 a = ''audio'' \<or>
                       (tag d2 a = ''video'' \<and> has_attr ''data-lazy-loaded'' d2 a)))) d2
      in (d3, snd p))"

section \<open>Frame sources\<close>

definition append_param :: "string \<Rightarrow> string \<Rightarrow> node \<Rightarrow> dom \<Rightarrow> dom" where
  "append_param a param el d =
     (let src = attr_text a d el in
      if src \<noteq> [] \<and> \<not> contains_str param src
      then set_attr a (src @ (if CHR ''?'' \<in> set src then ''&'' else ''?'') @ param) el d else d)"

definition append_params :: "node \<Rightarrow> string \<Rightarrow> string \<Rightarrow> string \<Rightarrow> dom \<Rightarrow> dom" where
  "append_params ancestor a url param d =
     for_each (append_param a param)
       (queryAll d ancestor (\<lambda>x. is_tag [''iframe''] d x \<and> has_attr a d x \<and> contains_str url (attr_text a d x))) d"

definition formatEmbeddedContent :: "host \<Rightarrow> dom \<Rightarrow> dom" where
  "formatEmbeddedContent h d =
     append_params (slidesEl h) ''data-src'' ''player.vimeo.com/'' ''api=1''
      (append_params (slidesEl h) ''src'' ''player.vimeo.com/'' ''api=1''
       (append_params (slidesEl h) ''data-src'' ''youtube.com/embed/'' ''enablejsapi=1''
        (append_params (slidesEl h) ''src'' ''youtube.com/embed/'' ''enablejsapi=1'' d)))"

section \<open>Starting and stopping\<close>

definition attached :: "dom \<Rightarrow> node \<Rightarrow> bool" where
  "attached d x = (closest d x (\<lambda>y. tag d y = ''html'') \<noteq> None)"

definition in_present :: "dom \<Rightarrow> node \<Rightarrow> bool" where
  "in_present d x = (closest d x (has_class ''present'' d) \<noteq> None)"

definition in_hidden_fragment :: "dom \<Rightarrow> node \<Rightarrow> bool" where
  "in_hidden_fragment d x = (closest d x (has_class ''fragment'' d) \<noteq> None \<and>
     closest d x (\<lambda>y. has_class ''fragment'' d y \<and> has_class ''visible'' d y) = None)"

definition autoplay_of :: "config \<Rightarrow> dom \<Rightarrow> node \<Rightarrow> bool" where
  "autoplay_of c d el = (case cfg_autoPlayMedia c of
       Some b \<Rightarrow> b
     | None \<Rightarrow> has_attr ''data-autoplay'' d el \<or> closest d el (has_class ''slide-background'' d) \<noteq> None)"

definition startEmbeddedMedia :: "node \<Rightarrow> page \<Rightarrow> page" where
  "startEmbeddedMedia el p =
     (let d = fst p;
          w1 = (if attached d el \<and> in_present d el
                then log_effect (MediaPlay el) (log_effect (MediaRewind el) (snd p)) else snd p)
      in (d, removeEventListener (LNode el) ''loadeddata'' ''startEmbeddedMedia'' w1))"

text \<open>A frame has a window exactly while it is attached to the page.\<close>

definition startEmbeddedIframe :: "config \<Rightarrow> node \<Rightarrow> page \<Rightarrow> page" where
  "startEmbeddedIframe c el p =
     (let d = fst p; src = attr_text ''src'' d el in
      if attached d el \<and> in_present d el then
        (d, log_effect (PostTo el
              (if contains_str ''youtube.com/embed/'' src \<and> autoplay_of c d el
               then ''{\"event\":\"command\",\"func\":\"playVideo\",\"args\":\"\"}''
               else if contains_str ''player.vimeo.com/'' src \<and> autoplay_of c d el
               then ''{\"method\":\"play\"}''
               else ''slide:start'')) (snd p))
      else p)"

definition start_media :: "config \<Rightarrow> host \<Rightarrow> node \<Rightarrow> page \<Rightarrow> page" where
  "start_media c h el p =
     (let d = fst p in
      if in_hidden_fragment d el \<or> \<not> autoplay_of c d el then p
      else if mediaReady h el then startEmbeddedMedia el p
      else if isMobile h then page_world (log_effect (MediaPlay el)) p
      else page_world (\<lambda>w. addEventListener (LNode el) ''loadeddata'' ''startEmbeddedMedia''
             (removeEventListener (LNode el) ''loadeddata'' ''startEmbeddedMedia'' w)) p)"

definition start_iframe :: "config \<Rightarrow> node \<Rightarrow> page \<Rightarrow> page" where
  "start_iframe c el p = (if in_hidden_fragment (fst p) el then p else startEmbeddedIframe c el p)"

definition start_lazy_iframe :: "node \<Rightarrow> page \<Rightarrow> page" where
  "start_lazy_iframe el p =
     (let d = fst p in
      if in_hidden_fragment d el \<or> get_attr ''src'' d el = get_attr ''data-src'' d el then p
      else (set_attr ''src'' (attr_text ''data-src'' d el) el d,
            addEventListener (LNode el) ''load'' ''startEmbeddedIframe''
              (removeEventListener (LNode el) ''load'' ''startEmbeddedIframe'' (snd p))))"

definition restart_gif :: "node \<Rightarrow> dom \<Rightarrow> dom" where
  "restart_gif el d = set_attr ''src'' (attr_text ''src'' d el) el d"

definition startEmbeddedContent :: "config \<Rightarrow> host \<Rightarrow> node option \<Rightarrow> page \<Rightarrow> page" where
  "startEmbeddedContent c h element p = (case element of
       None \<Rightarrow> p
     | Some e \<Rightarrow>
        if isSpeakerNotes h then p
        else
         (let d = fst p;
              p1 = page_dom (for_each restart_gif
                     (queryAll d e (\<lambda>x. is_tag [''img''] d x \<and> has_attr ''src'' d x \<and>
                        ends_with ''.gif'' (attr_text ''src'' d x)))) p;
              p2 = for_page (start_media c h) (queryAll d e (is_tag [''video'', ''audio''] d)) p1;
              p3 = for_page (start_iframe c)
                     (queryAll (fst p2) e (\<lambda>x. is_tag [''iframe''] (fst p2) x \<and> has_attr ''src'' (fst p2) x)) p2
          in for_page start_lazy_iframe
               (queryAll (fst p3) e (\<lambda>x. is_tag [''iframe''] (fst p3) x \<and> has_attr ''data-src'' (fst p3) x)) p3))"

definition stop_media :: "node \<Rightarrow> page \<Rightarrow> page" where
  "stop_media el p =
     (if has_attr ''data-ignore'' (fst p) el then p
      else (set_attr ''data-paused-by-reveal'' [] el (fst p), log_effect (MediaPause el) (snd p)))"

definition stop_iframe :: "node \<Rightarrow> page \<Rightarrow> page" where
  "stop_iframe el p =
     (fst p, removeEventListener (LNode el) ''load'' ''startEmbeddedIframe''
        (if attached (fst p) el then log_effect (PostTo el ''slide:stop'') (snd p) else snd p))"

definition stop_player :: "string \<Rightarrow> node \<Rightarrow> page \<Rightarrow> page" where
  "stop_player msg el p =
     (if \<not> has_attr ''data-ignore'' (fst p) el \<and> attached (fst p) el
      then page_world (log_effect (PostTo el msg)) p else p)"

definition src_contains :: "string \<Rightarrow> dom \<Rightarrow> node \<Rightarrow> bool" where
  "src_contains url d x = (is_tag [''iframe''] d x \<and> contains_str url (attr_text ''src'' d x))"

definition stopEmbeddedContent :: "node option \<Rightarrow> bool \<Rightarrow> page \<Rightarrow> page" where
  "stopEmbeddedContent element unloadIframes p = (case element of
       None \<Rightarrow> p
     | Some e \<Rightarrow>
        if parentNode (fst p) e = None then p
        else
         (let p1 = for_page stop_media (queryAll (fst p) e (is_tag [''video'', ''audio''] (fst p))) p;
              p2 = for_page stop_iframe (queryAll (fst p1) e (is_tag [''iframe''] (fst p1))) p1;
              p3 = for_page (stop_player ''{\"event\":\"command\",\"func\":\"pauseVideo\",\"args\":\"\"}'')
                     (queryAll (fst p2) e (src_contains ''youtube.com/embed/'' (fst p2))) p2;
              p4 = for_page (stop_player ''{\"method\":\"pause\"}'')
                     (queryAll (fst p3) e (src_contains ''player.vimeo.com/'' (fst p3))) p3
          in if unloadIframes then
               page_dom (for_each (\<lambda>el d. remove_attr ''src'' el (set_attr ''src'' ''about:blank'' el d))
                 (queryAll (fst p4) e (\<lambda>x. is_tag [''iframe''] (fst p4) x \<and> has_attr ''data-src'' (fst p4) x))) p4
             else p4))"

section \<open>The media operations are quiet\<close>

lemma page_ok_pair:
  "same_sections w (fst p) d \<Longrightarrow> same_timers (snd p) wd \<Longrightarrow> page_ok w p (d, wd)"
  by (simp add: page_ok_def)

lemma same_sections_load_element: "same_sections w d (load_element c x d)"
  by (rule same_sections_cong; simp add: load_element_def)

lemma same_sections_load_source: "same_sections w d (load_source x d)"
  by (rule same_sections_cong; simp add: load_source_def)

lemma page_ok_load_media: "page_ok w p (load_media h m p)"
proof -
  have src: "same_sections w d (for_each load_source xs d)" for xs d
    by (intro same_sections_for_each same_sections_load_source)
  moreover have "same_sections w d (set_attr a v m (for_each load_source xs d))"
    if "\<not> kept_attr a" for xs d a v
    using src same_sections_attr(1) [OF that] by (rule same_sections_trans)
  ultimately show ?thesis
    unfolding load_media_def Let_def by (intro page_ok_pair) (simp_all add: same_timers_cong)
qed

lemma dress_frames:
  "order (dress_video h l m v n d) = order d" "path (dress_video h l m v n d) = path d"
  "tag (dress_video h l m v n d) = tag d" "nextNode (dress_video h l m v n d) = nextNode d"
  "order (dress_iframe v n d) = order d" "path (dress_iframe v n d) = path d"
  "tag (dress_iframe v n d) = tag d" "nextNode (dress_iframe v n d) = nextNode d"
  by (simp_all add: dress_video_def dress_iframe_def Let_def)

lemma same_sections_dress:
  "same_sections w d (dress_video h l m v n d)" "same_sections w d (dress_iframe s n d)"
  by (rule same_sections_cong; simp add: dress_video_def dress_iframe_def Let_def)+

lemma same_sections_load_background_media:
  assumes "bgContentOf d el = Some content"
  shows "same_sections w d (load_background_media h ex el background content d)"
proof -
  let ?d = "set_attr ''data-loaded'' ''true'' background d"
  have d0: "same_sections w d ?d" by simp
  have c: "content < nextNode ?d" if "wf_page w ?d"
    using that assms wf_domD(6) by (auto simp: wf_page_def bg_node_def)
  have video: "same_sections w d (appendChild content n (dress_video h l m v n d1))"
    if "createElement ''video'' ?d = (n, d1)" for n d1 l m v
    using same_sections_new_child [OF that _ dress_frames(1-4) same_sections_dress(1) c]
    by (intro same_sections_trans [OF d0]) simp
  have iframe: "same_sections w d (appendChild content n (dress_iframe v n d1))"
    if "createElement ''iframe'' ?d = (n, d1)" for n d1 v
    using same_sections_new_child [OF that _ dress_frames(5-8) same_sections_dress(2) c]
    by (intro same_sections_trans [OF d0]) simp
  show ?thesis
    unfolding load_background_media_def Let_def
    using video iframe d0 same_sections_trans [OF d0 same_sections_attr(3)]
    by (auto split: prod.splits)
qed

lemma same_sections_preload: "same_sections w d (preload_background_iframe c el b content d)"
  by (auto simp: preload_background_iframe_def Let_def split: option.splits)

lemma same_sections_load_background: "same_sections w d (load_background c h ex el d)"
proof (cases "bgOf d el")
  case (Some b)
  show ?thesis
  proof (cases "bgContentOf d el")
    case content: (Some ct)
    show ?thesis
      unfolding load_background_def Some content option.case prod.case
      by (intro same_sections_trans [OF _ same_sections_preload]
          same_sections_trans [OF _ same_sections_load_background_media]) (simp_all add: content)
  qed (simp add: load_background_def Some)
qed (simp add: load_background_def)

lemma page_ok_slideContent_layout: "page_ok w p (slideContent_layout x p)"
  by (auto simp: slideContent_layout_def intro!: page_ok_for page_ok_world)

lemma page_ok_slideContent_load: "page_ok w p (slideContent_load c h ex x p)"
proof -
  have "page_ok w p (for_each f xs (set_style ''display'' v x (fst p)), snd p)"
    if "\<And>y d. same_sections w d (f y d)" for f xs v
    using that by (intro page_ok_pair same_sections_trans [OF _ same_sections_for_each]) auto
  then show ?thesis
    unfolding slideContent_load_def Let_def
    by (intro page_ok_trans [OF _ page_ok_slideContent_layout] page_ok_trans [OF _ page_ok_dom]
        page_ok_trans [OF _ page_ok_for] same_sections_load_background page_ok_load_media)
      (simp add: same_sections_load_element)
qed

lemma same_sections_unload_element: "same_sections w d (unload_element x d)"
  by (rule same_sections_cong; simp add: unload_element_def)

lemma page_ok_slideContent_unload: "page_ok w p (slideContent_unload x p)"
  unfolding slideContent_unload_def Let_def
  by (auto simp: same_sections_unload_element split: option.splits
      intro!: page_ok_pair same_sections_trans [OF _ same_sections_for_each]
      intro: same_sections_trans)

lemma page_ok_startEmbeddedMedia: "page_ok w p (startEmbeddedMedia x p)"
  unfolding startEmbeddedMedia_def Let_def by (intro page_ok_pair same_timers_cong) simp_all

lemma page_ok_startEmbeddedIframe: "page_ok w p (startEmbeddedIframe c x p)"
  by (simp add: startEmbeddedIframe_def Let_def page_ok_pair)

lemma page_ok_start_media: "page_ok w p (start_media c h x p)"
  by (simp add: start_media_def Let_def page_ok_startEmbeddedMedia page_ok_world same_timers_cong)

lemma page_ok_start_iframe: "page_ok w p (start_iframe c x p)"
  by (simp add: start_iframe_def page_ok_startEmbeddedIframe)

lemma page_ok_start_lazy_iframe: "page_ok w p (start_lazy_iframe x p)"
  by (simp add: start_lazy_iframe_def Let_def page_ok_pair same_timers_cong)

lemma page_ok_startEmbeddedContent: "page_ok w p (startEmbeddedContent c h e p)"
proof (cases e)
  case (Some x)
  have "page_ok w p (page_dom (for_each restart_gif xs) p)" for xs
    by (intro page_ok_dom same_sections_for_each) (simp add: restart_gif_def)
  then show ?thesis
    unfolding startEmbeddedContent_def Some option.case Let_def
    by (simp add: page_ok_trans [OF _ page_ok_for] page_ok_start_lazy_iframe page_ok_start_iframe
        page_ok_start_media)
qed (simp add: startEmbeddedContent_def)

lemma page_ok_stop:
  "page_ok w p (stop_media x p)" "page_ok w p (stop_iframe x p)" "page_ok w p (stop_player m x p)"
  by (simp_all add: stop_media_def stop_iframe_def stop_player_def page_ok_pair page_ok_world same_timers_cong)

lemma page_ok_stopEmbeddedContent: "page_ok w p (stopEmbeddedContent e u p)"
proof (cases e)
  case (Some x)
  have about: "page_ok w p (page_dom (for_each (\<lambda>el d. remove_attr ''src'' el
      (set_attr ''src'' ''about:blank'' el d)) xs) p)" for xs p
    by (intro page_ok_dom same_sections_for_each same_sections_cong) simp_all
  have stops: "page_ok w p (for_page stop_media xs p)" "page_ok w p (for_page stop_iframe xs p)"
    "page_ok w p (for_page (stop_player m) xs p)" for xs m p
    by (intro page_ok_for page_ok_stop)+
  show ?thesis
    unfolding stopEmbeddedContent_def Some option.case Let_def
    by (simp add: page_ok_trans [OF _ about] page_ok_trans [OF _ stops(1)]
        page_ok_trans [OF _ stops(2)] page_ok_trans [OF _ stops(3)] stops)
qed (simp add: stopEmbeddedContent_def)

lemma same_sections_format: "same_sections w d (formatEmbeddedContent h d)"
proof -
  have p: "same_sections w d (append_params x a u q d)" if "\<not> kept_attr a" for x a u q d
    using that by (auto simp: append_params_def append_param_def Let_def intro!: same_sections_for_each)
  show ?thesis unfolding formatEmbeddedContent_def
    by (rule same_sections_trans [OF same_sections_trans [OF same_sections_trans [OF p p] p] p]) simp_all
qed

end
