(* ===== verification/Sample.thy ===== *)
theory Sample
  imports SlideContent
begin

text \<open>
  A small deck on which the properties of the development are tried: two plain slides around a
  stack of two, the last slide with three fragments. Nodes: 0 \<open>html\<close>, 1 \<open>body\<close>,
  2 the \<open>.reveal\<close> element, 3 the \<open>.slides\<close> element, 4, 5 (stack of 6 and 7) and 8
  the sections, 9 to 11 fragments, 12 to 25 elements of the controllers.
\<close>

definition sample_dom :: dom where
  "sample_dom = \<lparr>
     order = [0, 1, 2, 3, 4, 5, 6, 7, 8, 9, 10, 11, 12, 13, 14, 15, 16, 17, 18, 19, 20, 21, 22, 23, 24, 25],
     path = (\<lambda>x. if x = 0 then [] else if x = 1 then [0] else if x = 2 then [1, 0]
       else if x = 6 \<or> x = 7 then [5, 3, 2, 1, 0]
       else if x \<in> {4, 5, 8} then [3, 2, 1, 0]
       else if x \<in> {9, 10, 11} then [8, 3, 2, 1, 0]
       else if x = 3 \<or> x \<le> 25 then [2, 1, 0] else []),
     tag = (\<lambda>x. if x = 0 then ''html'' else if x = 1 then ''body''
       else if x \<in> {4, 5, 6, 7, 8} then ''section'' else if x \<in> {9, 10, 11} then ''p'' else ''div''),
     cls = (\<lambda>x. if x = 2 then {''reveal''} else if x = 3 then {''slides''}
       else if x = 5 then {''stack''} else if x \<in> {9, 10, 11} then {''fragment''} else {}),
     attr = (\<lambda>x a. if a = ''data-fragment-index'' \<and> x = 9 then Some ''2''
       else if a = ''data-fragment-index'' \<and> x = 11 then Some ''0''
       else if a = ''id'' \<and> x = 8 then Some ''last slide'' else None),
     sty = (\<lambda>x k. None),
     html = (\<lambda>x. []),
     bgOf = (\<lambda>x. None), bgContentOf = (\<lambda>x. None),
     nextNode = 26 \<rparr>"

definition sample_host :: host where
  "sample_host = \<lparr> wrapper = 2, slidesEl = 3, viewport = 1, isMobile = False, isAndroid = False,
     isPrintingPDF = False, isSpeakerNotes = False, inFrame = False,
     offsetWidth = 960, offsetHeight = 700, innerWidth = 960, innerHeight = 700,
     scrollHeight = (\<lambda>d x. 0), elementHeight = (\<lambda>d x. 0),
     naturalSize = (\<lambda>x. None), mediaDuration = (\<lambda>x. None), playbackRate = (\<lambda>x. 1),
     mediaReady = (\<lambda>x. False), displayNone = (\<lambda>x. False),
     bgWidth = 960, bgHeight = 700, computedBackground = (\<lambda>d x. []), vetoes = (\<lambda>ty h v. False) \<rparr>"

definition sample_refs :: refs where
  "sample_refs = \<lparr> statusElement = 12, controlsEl = 25, controlsLeft = [13], controlsRight = [14], controlsUp = [15],
     controlsDown = [16], controlsPrev = [17], controlsNext = [18], controlsLeftArrow = 13,
     controlsRightArrow = 14, controlsDownArrow = 16, progressEl = 19, progressBar = Some 20,
     slideNumberEl = Some 21, notesEl = Some 22, backgroundsEl = 23, pauseOverlay = 24 \<rparr>"

definition sample_world :: world where
  "sample_world = \<lparr> events = [], posted = [], timers = [], nextTimer = 1, now = 0, listeners = {},
     effects = [], hash = [], pathsearch = [], historyLen = 1 \<rparr>"

definition sample :: reveal where
  "sample = \<lparr> cfg = default_config, host = sample_host, refs = sample_refs, doc = sample_dom,
     world = sample_world, ready = True, indexh = Undef, indexv = Undef,
     previousSlide = None, currentSlide = None, hasNavigatedHorizontally = False,
     hasNavigatedVertically = False, stateArr = [], rscale = 1, trLayout = [], trOverview = [],
     eventsAreBound = True, transitionRunning = False, autoSlide = 0, autoSlidePlayer = False,
     autoSlidePlaying = False, autoSlideTimeout = 0, autoSlideStartTime = -1,
     autoSlidePaused = False, overviewActive = False, overviewSlideWidth = 0, overviewSlideHeight = 0,
     overlay = None, previousBackground = None, writeURLTimeout = 0, replaceStateTimeout = 0,
     replaceStateTimestamp = 0, keyboard_state = \<lparr>shortcuts = [], bindings = []\<rparr>,
     touch_state = \<lparr>touchStartX = 0, touchStartY = 0, touchStartCount = 0, touchCaptured = False\<rparr>,
     pointer_state = \<lparr>lastMouseWheelStep = 0, cursorHidden = False\<rparr>, cursorInactiveTimeout = 0,
     focus_state = FocusUnset \<rparr>"

lemmas sample_defs = sample_def sample_dom_def sample_host_def sample_refs_def sample_world_def default_config_def

text \<open>The deck once it shows a slide: its indices and the slide itself.\<close>

definition sample_at :: "int \<Rightarrow> int \<Rightarrow> node \<Rightarrow> reveal" where
  "sample_at h v x = sample\<lparr>indexh := Num h, indexv := Num v, currentSlide := Some x,
     doc := add_class ''present'' x sample_dom\<rparr>"

end
