(* ===== verification/Backgrounds.thy ===== *)
theory Backgrounds
  imports Color Sample
begin

text \<open>
  \<open>controllers/backgrounds.js\<close>: one background element per slide, created below the
  backgrounds element, rendered from the attributes of its slide, and kept in step with the
  position of the deck.
\<close>

section \<open>Rendering one background\<close>

text \<open>
  Adding attribute values with \<open>+\<close>: \<open>null\<close> is 0 next to a number or \<open>null\<close>, and
  the text \<open>null\<close> next to a string.
\<close>

datatype jsprim = PNull | PZero | PStr string

fun js_plus :: "jsprim \<Rightarrow> jsprim \<Rightarrow> jsprim" where
  "js_plus (PStr a) (PStr b) = PStr (a @ b)"
| "js_plus (PStr a) PNull = PStr (a @ ''null'')"
| "js_plus (PStr a) PZero = PStr (a @ ''0'')"
| "js_plus PNull (PStr b) = PStr (''null'' @ b)"
| "js_plus PZero (PStr b) = PStr (''0'' @ b)"
| "js_plus _ _ = PZero"

definition prim :: "string option \<Rightarrow> jsprim" where
  "prim v = (case v of None \<Rightarrow> PNull | Some s \<Rightarrow> PStr s)"

definition show_prim :: "jsprim \<Rightarrow> string" where
  "show_prim v = (case v of PNull \<Rightarrow> ''null'' | PZero \<Rightarrow> ''0'' | PStr s \<Rightarrow> s)"

definition background_hash :: "string option list \<Rightarrow> string" where
  "background_hash vs = (case vs of [] \<Rightarrow> [] | v # rest \<Rightarrow> show_prim (fold (\<lambda>w a. js_plus a (prim w)) rest (prim v)))"

definition truthy :: "string option \<Rightarrow> bool" where
  "truthy v = (v \<noteq> None \<and> v \<noteq> Some [])"

definition image_extensions :: "string list" where
  "image_extensions = [''svg'', ''png'', ''jpg'', ''jpeg'', ''gif'', ''bmp'', ''webp'']"

text \<open>An extension, then the end, white space or the start of a query or fragment.\<close>

definition at_extension :: "string \<Rightarrow> bool" where
  "at_extension s = (case s of
       c # r \<Rightarrow> c = CHR ''.'' \<and> (\<exists>e\<in>set image_extensions. starts_with e r \<and>
         (case drop (length e) r of [] \<Rightarrow> True | x # _ \<Rightarrow> x = CHR ''?'' \<or> x = CHR ''#'' \<or> is_space x))
     | [] \<Rightarrow> False)"

fun has_extension :: "string \<Rightarrow> bool" where
  "has_extension [] = False"
| "has_extension (c # cs) = (at_extension (c # cs) \<or> has_extension cs)"

definition is_image_url :: "string \<Rightarrow> bool" where
  "is_image_url v = (let l = map to_lower v in
     starts_with ''http'' l \<or> starts_with ''file'' l \<or> starts_with ''//'' l \<or> has_extension l)"

definition when_set :: "string option \<Rightarrow> (string \<Rightarrow> dom \<Rightarrow> dom) \<Rightarrow> dom \<Rightarrow> dom" where
  "when_set v f d = (if truthy v then f (the v) d else d)"

text \<open>Emptying an element: what was below it is detached.\<close>

definition clearNode :: "node \<Rightarrow> dom \<Rightarrow> dom" where
  "clearNode x d = (set_html [] x d)\<lparr>path := (\<lambda>y. if x \<in> set (path d y) then takeWhile (\<lambda>z. z \<noteq> x) (path d y) else path d y)\<rparr>"

definition remove_attrs :: "string list \<Rightarrow> node \<Rightarrow> dom \<Rightarrow> dom" where
  "remove_attrs as x d = fold (\<lambda>a. remove_attr a x) as d"

definition clear_styles :: "string list \<Rightarrow> node \<Rightarrow> dom \<Rightarrow> dom" where
  "clear_styles ks x d = fold (\<lambda>k. set_style k (Css []) x) ks d"

definition reset_background :: "node \<Rightarrow> node \<Rightarrow> node \<Rightarrow> dom \<Rightarrow> dom" where
  "reset_background slide element content d =
     clearNode content
      (clear_styles [''backgroundSize'', ''backgroundRepeat'', ''backgroundPosition'', ''backgroundImage'', ''opacity''] content
       (clear_styles [''backgroundColor''] element
        (remove_attrs [''data-loaded'', ''data-background-hash'', ''data-background-size'', ''data-background-transition''] element
         (remove_class ''has-light-background'' slide (remove_class ''has-dark-background'' slide d)))))"

record bgdata =
  bd_background :: "string option"
  bd_size :: "string option"
  bd_image :: "string option"
  bd_video :: "string option"
  bd_iframe :: "string option"
  bd_color :: "string option"
  bd_gradient :: "string option"
  bd_repeat :: "string option"
  bd_position :: "string option"
  bd_transition :: "string option"
  bd_opacity :: "string option"

definition background_data :: "dom \<Rightarrow> node \<Rightarrow> bgdata" where
  "background_data d x = \<lparr>
     bd_background = get_attr ''data-background'' d x, bd_size = get_attr ''data-background-size'' d x,
     bd_image = get_attr ''data-background-image'' d x, bd_video = get_attr ''data-background-video'' d x,
     bd_iframe = get_attr ''data-background-iframe'' d x, bd_color = get_attr ''data-background-color'' d x,
     bd_gradient = get_attr ''data-background-gradient'' d x, bd_repeat = get_attr ''data-background-repeat'' d x,
     bd_position = get_attr ''data-background-position'' d x,
     bd_transition = get_attr ''data-background-transition'' d x,
     bd_opacity = get_attr ''data-background-opacity'' d x \<rparr>"

definition hash_of :: "bgdata \<Rightarrow> string" where
  "hash_of b = background_hash [bd_background b, bd_size b, bd_image b, bd_video b, bd_iframe b, bd_color b,
     bd_gradient b, bd_repeat b, bd_position b, bd_transition b, bd_opacity b]"

definition write_background :: "bgdata \<Rightarrow> bool \<Rightarrow> node \<Rightarrow> node \<Rightarrow> node \<Rightarrow> dom \<Rightarrow> dom" where
  "write_background b preload slide element content d =
     (let d1 = when_set (bd_background b) (\<lambda>v d. if is_image_url v then set_attr ''data-background-image'' v slide d
                 else set_style ''background'' (Css v) element d) d;
          d2 = (if truthy (bd_background b) \<or> truthy (bd_color b) \<or> truthy (bd_gradient b) \<or> truthy (bd_image b) \<or>
                   truthy (bd_video b) \<or> truthy (bd_iframe b)
                then set_attr ''data-background-hash'' (hash_of b) element d1 else d1);
          d3 = when_set (bd_size b) (\<lambda>v. set_attr ''data-background-size'' v element) d2;
          d4 = when_set (bd_color b) (\<lambda>v. set_style ''backgroundColor'' (Css v) element) d3;
          d5 = when_set (bd_gradient b) (\<lambda>v. set_style ''backgroundImage'' (Css v) element) d4;
          d6 = when_set (bd_transition b) (\<lambda>v. set_attr ''data-background-transition'' v element) d5;
          d7 = (if preload then set_attr ''data-preload'' [] element d6 else d6);
          d8 = when_set (bd_size b) (\<lambda>v. set_style ''backgroundSize'' (Css v) content) d7;
          d9 = when_set (bd_repeat b) (\<lambda>v. set_style ''backgroundRepeat'' (Css v) content) d8;
          d10 = when_set (bd_position b) (\<lambda>v. set_style ''backgroundPosition'' (Css v) content) d9
      in when_set (bd_opacity b) (\<lambda>v. set_style ''opacity'' (Css v) content) d10)"

text \<open>The colour the contrast is judged by: the declared one, else the computed one.\<close>

definition contrast_color :: "host \<Rightarrow> bgdata \<Rightarrow> node \<Rightarrow> dom \<Rightarrow> string option" where
  "contrast_color h b element d =
     (if \<not> truthy (bd_color b) \<or> colorToRgb (the (bd_color b)) = None
      then (if computedBackground h d element \<noteq> [] then Some (computedBackground h d element) else bd_color b)
      else bd_color b)"

definition contrast_class :: "string option \<Rightarrow> string option" where
  "contrast_class c =
     (if truthy c then
        (case colorToRgb (the c) of
           None \<Rightarrow> None
         | Some rgb \<Rightarrow>
             if alpha rgb = Some (Some 0) then None
             else (case colorBrightness (Some rgb) of
                 Some b \<Rightarrow> if b < 128 then Some ''has-dark-background'' else Some ''has-light-background''
               | None \<Rightarrow> Some ''has-light-background''))
      else None)"

definition render_background :: "host \<Rightarrow> node \<Rightarrow> node \<Rightarrow> node \<Rightarrow> dom \<Rightarrow> dom" where
  "render_background h slide element content d =
     (let b = background_data d slide;
          d1 = write_background b (has_attr ''data-preload'' d slide) slide element content
                 (reset_background slide element content d)
      in case contrast_class (contrast_color h b element d1) of
           Some k \<Rightarrow> add_class k slide d1
         | None \<Rightarrow> d1)"

text \<open>Synchronising a slide without a background throws (\<open>None\<close>).\<close>

definition backgrounds_sync :: "host \<Rightarrow> node \<Rightarrow> dom \<Rightarrow> dom option" where
  "backgrounds_sync h slide d = (case (bgOf d slide, bgContentOf d slide) of
       (Some el, Some content) \<Rightarrow> Some (render_background h slide el content d)
     | _ \<Rightarrow> None)"

section \<open>Creating the backgrounds\<close>

text \<open>
  The class list of a background is that of its slide without the position. (The source drops
  the first such word of the class text; a slide has at most one.)
\<close>

definition set_classes :: "string set \<Rightarrow> node \<Rightarrow> dom \<Rightarrow> dom" where
  "set_classes c x d = d\<lparr>cls := (cls d)(x := c)\<rparr>"

definition createBackground :: "host \<Rightarrow> node \<Rightarrow> node \<Rightarrow> dom \<Rightarrow> node \<times> dom" where
  "createBackground h slide container d =
     (let (el, d1) = createElement ''div'' d;
          d2 = set_classes (insert ''slide-background'' (cls d slide - {''past'', ''present'', ''future''})) el d1;
          (content, d3) = createElement ''div'' d2;
          d4 = appendChild container el (appendChild el content (set_classes {''slide-background-content''} content d3));
          d5 = d4\<lparr>bgOf := (bgOf d4)(slide := Some el), bgContentOf := (bgContentOf d4)(slide := Some content)\<rparr>
      in (el, render_background h slide el content d5))"

definition create_column :: "host \<Rightarrow> node \<Rightarrow> node \<Rightarrow> dom \<Rightarrow> dom" where
  "create_column h container slideh d =
     (let (stack, d1) = createBackground h slideh container d
      in for_each (\<lambda>v d. add_class ''stack'' stack (snd (createBackground h v stack d))) (verticals d1 slideh) d1)"

definition parallax_styles :: "config \<Rightarrow> node \<Rightarrow> dom \<Rightarrow> dom" where
  "parallax_styles c el d =
     set_style ''backgroundPosition'' (Css (cfg_parallaxBackgroundPosition c)) el
      (set_style ''backgroundRepeat'' (Css (cfg_parallaxBackgroundRepeat c)) el
       (set_style ''backgroundSize'' (Css (cfg_parallaxBackgroundSize c)) el
        (set_style ''backgroundImage'' (Css (''url(\"'' @ cfg_parallaxBackgroundImage c @ ''\")'')) el d)))"

definition backgrounds_create :: "reveal \<Rightarrow> reveal" where
  "backgrounds_create s =
     (let c = cfg s; el = backgroundsEl (refs s); w = wrapper (host s);
          d = for_each (create_column (host s) el) (getHorizontalSlides s)
                (add_class ''no-transition'' el (clearNode el (doc s)))
      in if cfg_parallaxBackgroundImage c \<noteq> [] then
           s\<lparr>doc := parallax_styles c el d,
             world := snd (setTimeout (TAddClass ''has-parallax-background'' w) 1 (world s))\<rparr>
         else
           s\<lparr>doc := remove_class ''has-parallax-background'' w (set_style ''backgroundImage'' (Css []) el d)\<rparr>)"

section \<open>Following the deck\<close>

definition mark_position :: "string \<Rightarrow> node \<Rightarrow> dom \<Rightarrow> dom" where
  "mark_position c x d = add_class c x (remove_class ''future'' x (remove_class ''present'' x (remove_class ''past'' x d)))"

definition relative_class :: "string \<Rightarrow> string \<Rightarrow> nat \<Rightarrow> jsnum \<Rightarrow> string" where
  "relative_class earlier later i n =
     (if js_lt (Num (int i)) n then earlier else if js_gt (Num (int i)) n then later else ''present'')"

text \<open>The nested backgrounds of a column; the second component is the current background.\<close>

definition update_vertical :: "jsnum \<Rightarrow> bool \<Rightarrow> nat \<times> node \<Rightarrow> dom \<times> node option \<Rightarrow> dom \<times> node option" where
  "update_vertical iv here e a =
     (let (v, x) = e; (d, cur) = a; c = relative_class ''past'' ''future'' v iv
      in (mark_position c x d, if c = ''present'' \<and> here then Some x else cur))"

definition update_column :: "bool \<Rightarrow> bool \<Rightarrow> jsnum \<Rightarrow> jsnum \<Rightarrow> nat \<times> node \<Rightarrow> dom \<times> node option \<Rightarrow> dom \<times> node option" where
  "update_column rtl includeAll ih iv e a =
     (let (h, x) = e; (d, cur) = a;
          c = (if rtl then relative_class ''future'' ''past'' h ih else relative_class ''past'' ''future'' h ih);
          a1 = (mark_position c x d, if c = ''present'' then Some x else cur);
          here = js_seq (Num (int h)) ih
      in if includeAll \<or> here
         then fold (update_vertical iv here) (enumerate 0 (queryAll (fst a1) x (has_class ''slide-background'' (fst a1)))) a1
         else a1)"

definition update_columns :: "bool \<Rightarrow> reveal \<Rightarrow> dom \<times> node option" where
  "update_columns includeAll s =
     (let ix = getIndices s None in
      fold (update_column (cfg_rtl (cfg s)) includeAll (ix_h ix) (ix_v ix))
        (enumerate 0 (childNodes (doc s) (backgroundsEl (refs s)))) (doc s, None))"

definition style_text :: "string \<Rightarrow> dom \<Rightarrow> node \<Rightarrow> string" where
  "style_text k d x = (case get_style k d x of Some (Css v) \<Rightarrow> v | _ \<Rightarrow> [])"

definition restart_background :: "node \<Rightarrow> dom \<Rightarrow> dom" where
  "restart_background bg d = (case querySel d bg (has_class ''slide-background-content'' d) of
       None \<Rightarrow> d
     | Some x \<Rightarrow>
         (let url = style_text ''backgroundImage'' d x in
          if contains_str ''.gif'' (map to_lower url)
          then set_style ''backgroundImage'' (Css url) x (set_style ''backgroundImage'' (Css []) x d) else d))"

definition enter_background :: "node \<Rightarrow> reveal \<Rightarrow> reveal" where
  "enter_background bg s =
     (let s1 = on_page (startEmbeddedContent (cfg s) (host s) (Some bg)) s;
          d = restart_background bg (doc s1);
          old = (case previousBackground s1 of Some p \<Rightarrow> get_attr ''data-background-hash'' d p | None \<Rightarrow> None);
          new = get_attr ''data-background-hash'' d bg;
          d1 = (if truthy new \<and> new = old \<and> Some bg \<noteq> previousBackground s1
                then add_class ''no-transition'' (backgroundsEl (refs s1)) d else d)
      in s1\<lparr>doc := d1, previousBackground := Some bg\<rparr>)"

definition bubble_class :: "node \<Rightarrow> node \<Rightarrow> string \<Rightarrow> dom \<Rightarrow> dom" where
  "bubble_class c w k d = (if has_class k d c then add_class k w d else remove_class k w d)"

definition leave_background :: "reveal \<Rightarrow> reveal" where
  "leave_background s = (case previousBackground s of
       None \<Rightarrow> s
     | Some p \<Rightarrow> on_page (\<lambda>q. stopEmbeddedContent (Some p) (\<not> shouldPreload (cfg s) (fst q) p) q) s)"

definition backgrounds_update :: "bool \<Rightarrow> reveal \<Rightarrow> reveal" where
  "backgrounds_update includeAll s =
     (let (d, cur) = update_columns includeAll s;
          s1 = leave_background (s\<lparr>doc := d\<rparr>);
          s2 = (case cur of Some bg \<Rightarrow> enter_background bg s1 | None \<Rightarrow> s1);
          s3 = (case currentSlide s2 of
                  Some c \<Rightarrow> s2\<lparr>doc := bubble_class c (wrapper (host s2)) ''has-dark-background''
                      (bubble_class c (wrapper (host s2)) ''has-light-background'' (doc s2))\<rparr>
                | None \<Rightarrow> s2)
      in s3\<lparr>world := snd (setTimeout (TRemoveClass ''no-transition'' (backgroundsEl (refs s3))) 1 (world s3))\<rparr>)"

section \<open>Parallax\<close>

text \<open>Offsets that are not finite numbers are \<open>None\<close>.\<close>

definition num_real :: "jsnum \<Rightarrow> real option" where
  "num_real a = (case a of Num i \<Rightarrow> Some (real_of_int i) | _ \<Rightarrow> None)"

definition per_step :: "real option \<Rightarrow> real \<Rightarrow> int \<Rightarrow> real option" where
  "per_step extent space n =
     (case extent of Some z \<Rightarrow> if n - 1 = 0 then None else Some ((z - space) / real_of_int (n - 1)) | None \<Rightarrow> None)"

definition opt_times :: "real option \<Rightarrow> real option \<Rightarrow> real option" where
  "opt_times a b = (case (a, b) of (Some x, Some y) \<Rightarrow> Some (x * y) | _ \<Rightarrow> None)"

definition updateParallax :: "reveal \<Rightarrow> reveal" where
  "updateParallax s =
     (let c = cfg s; el = backgroundsEl (refs s); ix = getIndices s None in
      if cfg_parallaxBackgroundImage c = [] then s
      else
       (let sizes = split_on (CHR '' '') (style_text ''backgroundSize'' (doc s) el);
            width = num_real (parseInt (hd sizes));
            height = (if length sizes = 1 then width else num_real (parseInt (sizes ! 1)));
            nh = int (length (getHorizontalSlides s)); nv = int (length (getVerticalSlides s));
            hm = (case cfg_parallaxBackgroundHorizontal c of
                    Some m \<Rightarrow> Some m
                  | None \<Rightarrow> if 1 < nh then per_step width (bgWidth (host s)) nh else Some 0);
            vm = (case cfg_parallaxBackgroundVertical c of
                    Some m \<Rightarrow> Some m
                  | None \<Rightarrow> per_step height (bgHeight (host s)) nv);
            ho = opt_times (opt_times hm (num_real (ix_h ix))) (Some (-1));
            vo = (if 0 < nv then opt_times vm (num_real (ix_v ix)) else Some 0)
        in s\<lparr>doc := set_style ''backgroundPosition'' (Pos ho (opt_times vo (Some (-1)))) el (doc s)\<rparr>))"

section \<open>Following the deck is quiet\<close>

lemma quiet_updateParallax: "quiet s (updateParallax s)"
  by (simp add: updateParallax_def Let_def quiet_doc)

interpretation parallax: page_op updateParallax
  by unfold_locales (rule quiet_updateParallax)

text \<open>Classes of elements below the backgrounds element.\<close>

definition same_tree :: "dom \<Rightarrow> dom \<Rightarrow> bool" where
  "same_tree d d' = (order d' = order d \<and> path d' = path d \<and> tag d' = tag d)"

lemma same_tree_refl [simp]: "same_tree d d" by (simp add: same_tree_def)

lemma same_tree_trans: "same_tree a b \<Longrightarrow> same_tree b c \<Longrightarrow> same_tree a c"
  by (simp add: same_tree_def)

lemma same_tree_section: "same_tree d d' \<Longrightarrow> is_section d' x = is_section d x"
  by (simp add: same_tree_def is_section_def)

lemma mark_position_frame [simp]:
  "order (mark_position c x d) = order d" "path (mark_position c x d) = path d" "tag (mark_position c x d) = tag d"
  "nextNode (mark_position c x d) = nextNode d"
  by (simp_all add: mark_position_def)

lemma same_sections_mark:
  assumes "\<not> is_section d x" "c \<in> {''past'', ''present'', ''future''}"
  shows "same_sections w d (mark_position c x d)"
proof -
  have s: "\<not> is_section d' x" if "tag d' = tag d" for d' using assms(1) that by (simp add: is_section_def)
  have c: "c \<noteq> ''slides''" "c \<noteq> ''paused''" using assms(2) by auto
  have r: "same_sections w d (remove_class ''future'' x (remove_class ''present'' x (remove_class ''past'' x d)))"
    by (intro same_sections_trans [OF same_sections_trans [OF same_sections_nonsection(2) same_sections_nonsection(2)]
          same_sections_nonsection(2)] s) simp_all
  show ?thesis unfolding mark_position_def
    by (rule same_sections_trans [OF r same_sections_nonsection(1) [OF s c]]) simp
qed

lemma relative_class_in: "relative_class ''past'' ''future'' i n \<in> {''past'', ''present'', ''future''}"
  "relative_class ''future'' ''past'' i n \<in> {''past'', ''present'', ''future''}"
  by (simp_all add: relative_class_def)

definition marked :: "node \<Rightarrow> dom \<Rightarrow> dom \<Rightarrow> bool" where
  "marked w d d' = (same_sections w d d' \<and> same_tree d d')"

lemma marked_trans: "marked w a b \<Longrightarrow> marked w b c \<Longrightarrow> marked w a c"
  by (auto simp: marked_def intro: same_sections_trans same_tree_trans)

lemma marked_mark: "\<not> is_section d x \<Longrightarrow> c \<in> {''past'', ''present'', ''future''} \<Longrightarrow> marked w d (mark_position c x d)"
  by (simp add: marked_def same_sections_mark same_tree_def)

text \<open>A loop that marks one element after the other, each in the tree it started from.\<close>

lemma marked_fold:
  assumes "\<And>e a. e \<in> set es \<Longrightarrow> same_tree d (fst a) \<Longrightarrow> marked w (fst a) (fst (f e a))"
    and "same_tree d (fst a)"
  shows "marked w (fst a) (fst (fold f es a))"
  using assms
proof (induction es arbitrary: a)
  case Nil
  then show ?case by (simp add: marked_def)
next
  case (Cons e es)
  have m: "marked w (fst a) (fst (f e a))" using Cons.prems by simp
  then have t: "same_tree d (fst (f e a))" using Cons.prems(2) by (auto simp: marked_def intro: same_tree_trans)
  have "marked w (fst (f e a)) (fst (fold f es (f e a)))" using Cons.prems(1) t by (intro Cons.IH) auto
  with m show ?case by (auto intro: marked_trans)
qed

lemma enumerate_set: "e \<in> set (enumerate n xs) \<Longrightarrow> snd e \<in> set xs"
  by (metis image_eqI map_snd_enumerate set_map)

lemma marked_vertical:
  "\<not> is_section (fst a) (snd e) \<Longrightarrow> marked w (fst a) (fst (update_vertical iv here e a))"
  unfolding update_vertical_def split_beta Let_def fst_conv by (rule marked_mark [OF _ relative_class_in(1)])

lemma marked_column:
  assumes wf: "wf_dom d" and b: "\<And>x. x \<in> set (order d) \<Longrightarrow> b \<in> set (path d x) \<Longrightarrow> \<not> is_section d x"
    and e: "snd e \<in> set (childNodes d b)" and t: "same_tree d (fst a)"
  shows "marked w (fst a) (fst (update_column rtl allv ih iv e a))"
proof -
  let ?c = "if rtl then relative_class ''future'' ''past'' (fst e) ih else relative_class ''past'' ''future'' (fst e) ih"
  let ?a = "(mark_position ?c (snd e) (fst a), if ?c = ''present'' then Some (snd e) else snd a)"
  have x: "snd e \<in> set (order d)" "b \<in> set (path d (snd e))" using e by (auto simp: childNodes_def)
  have m: "marked w (fst a) (fst ?a)"
    unfolding fst_conv using b [OF x] same_tree_section [OF t] by (intro marked_mark) (simp_all del: insert_iff add: relative_class_in)
  have ta: "same_tree d (fst ?a)" using m t by (auto simp: marked_def intro: same_tree_trans)
  have nested: "\<not> is_section d y" if y: "y \<in> set (queryAll (fst ?a) (snd e) q)" for y q
  proof -
    have y': "y \<in> set (order d)" "snd e \<in> set (path d y)"
      using y ta by (auto simp: queryAll_def is_desc_def same_tree_def)
    then have "b \<in> set (path d y)" using path_trans [OF wf wf_domD(2) [OF wf y'(1)] y'(2) x(2)] by simp
    then show ?thesis using b y'(1) by blast
  qed
  let ?f = "\<lambda>here. fold (update_vertical iv here) (enumerate 0 (queryAll (fst ?a) (snd e) (has_class ''slide-background'' (fst ?a)))) ?a"
  have "marked w (fst ?a) (fst (?f here))" for here
  proof (rule marked_fold [OF marked_vertical ta])
    fix e' a'
    assume "e' \<in> set (enumerate 0 (queryAll (fst ?a) (snd e) (has_class ''slide-background'' (fst ?a))))"
      and "same_tree d (fst a')"
    then show "\<not> is_section (fst a') (snd e')" using same_tree_section nested [OF enumerate_set] by blast
  qed
  then have f: "marked w (fst a) (fst (?f here))" for here by (rule marked_trans [OF m])
  have "update_column rtl allv ih iv e a =
      (if allv \<or> js_seq (Num (int (fst e))) ih then ?f (js_seq (Num (int (fst e))) ih) else ?a)"
    unfolding update_column_def split_beta Let_def ..
  then show ?thesis using m f by (simp only: split: if_split) blast
qed

lemma marked_columns:
  assumes "page_wf s"
  shows "marked w (doc s) (fst (update_columns allv s))"
proof -
  have wf: "wf_dom (doc s)" and b: "\<And>x. x \<in> set (order (doc s)) \<Longrightarrow>
      backgroundsEl (refs s) \<in> set (path (doc s) x) \<Longrightarrow> \<not> is_section (doc s) x"
    using assms bg_okD(3) by (auto simp: page_wf_def wf_page_def in_subtree_def)
  show ?thesis unfolding update_columns_def Let_def
    by (rule marked_fold [where d = "doc s" and a = "(doc s, None)", simplified fst_conv])
      (rule marked_column [OF wf b], auto dest: enumerate_set)
qed

lemma quiet_leave_background: "quiet s (leave_background s)"
  by (simp add: leave_background_def quiet_on_page page_ok_stopEmbeddedContent split: option.split)

lemma quiet_previousBackground: "quiet s t \<Longrightarrow> quiet s (t\<lparr>doc := d, previousBackground := p\<rparr>) = quiet s (t\<lparr>doc := d\<rparr>)"
  by (simp add: quiet_def same_nav_def quiet_page_of_def quiet_timer_def timers_ok_def)

lemma same_sections_restart: "same_sections w d (restart_background bg d)"
  by (auto simp: restart_background_def Let_def split: option.split intro!: same_sections_cong)

lemma quiet_enter_background: "quiet s (enter_background bg s)"
proof -
  let ?s1 = "on_page (startEmbeddedContent (cfg s) (host s) (Some bg)) s"
  have q: "quiet s ?s1" by (intro quiet_on_page page_ok_startEmbeddedContent)
  have "same_sections w d (if b then add_class ''no-transition'' x (restart_background bg d) else restart_background bg d)" for w d b x
    by (auto intro: same_sections_restart same_sections_trans [OF same_sections_restart same_sections_class(1)])
  then show ?thesis unfolding enter_background_def Let_def quiet_previousBackground [OF q]
    by (intro quiet_then(1) [OF q])
qed

lemma same_sections_bubble: "page_class k \<Longrightarrow> same_sections w d (bubble_class c w' k d)"
  by (simp add: bubble_class_def same_sections_class)

lemma quiet_backgrounds_update: "quiet s (backgrounds_update allv s)"
proof -
  obtain d cur where u: "update_columns allv s = (d, cur)" by fastforce
  have "quiet_page_of s (s\<lparr>doc := d\<rparr>)"
    using marked_columns [of s "wrapper (host s)" allv] u
    by (auto simp: quiet_page_of_def marked_def page_wf_def same_sections_def)
  then have q0: "quiet s (s\<lparr>doc := d\<rparr>)" by (simp add: quiet_def quiet_timer_def timers_ok_def)
  let ?s1 = "leave_background (s\<lparr>doc := d\<rparr>)"
  have q1: "quiet s ?s1" by (rule quiet_trans [OF q0 quiet_leave_background])
  let ?s2 = "case cur of Some bg \<Rightarrow> enter_background bg ?s1 | None \<Rightarrow> ?s1"
  have q2: "quiet s ?s2" using quiet_trans [OF q1 quiet_enter_background] q1 by (simp split: option.split)
  have q3: "quiet s (?s2\<lparr>doc := bubble_class c w ''has-dark-background'' (bubble_class c w ''has-light-background'' (doc ?s2))\<rparr>)" for c w
    by (intro quiet_then(1) [OF q2] same_sections_trans [OF same_sections_bubble same_sections_bubble]) simp_all
  have "quiet s (case currentSlide ?s2 of
      Some c \<Rightarrow> ?s2\<lparr>doc := bubble_class c (wrapper (host ?s2)) ''has-dark-background''
          (bubble_class c (wrapper (host ?s2)) ''has-light-background'' (doc ?s2))\<rparr>
    | None \<Rightarrow> ?s2)" using q2 q3 by (simp split: option.split)
  then show ?thesis unfolding backgrounds_update_def u Let_def prod.case
    by (rule quiet_then(2)) (simp add: same_timers_set)
qed

interpretation background_follow: page_op "backgrounds_update allv"
  by unfold_locales (rule quiet_backgrounds_update)

end
