(* ===== verification/Progress.thy ===== *)
theory Progress
  imports Sample
begin

text \<open>
  \<open>controllers/progress.js\<close>: the progress bar. The handler of a click on it is in
  \<open>Input\<close>; \<open>getProgress\<close>, which it draws, is in \<open>Deck\<close>.
\<close>

definition progress_configure :: "reveal \<Rightarrow> reveal" where
  "progress_configure s =
     s\<lparr>doc := set_style ''display'' (Css (if cfg_progress (cfg s) then ''block'' else ''none'')) (progressEl (refs s)) (doc s)\<rparr>"

definition progress_bind :: "config \<Rightarrow> refs \<Rightarrow> world \<Rightarrow> world" where
  "progress_bind c r w =
     (if cfg_progress c then addEventListener (LNode (progressEl r)) ''click'' ''onProgressClicked'' w else w)"

definition progress_unbind :: "config \<Rightarrow> refs \<Rightarrow> world \<Rightarrow> world" where
  "progress_unbind c r w =
     (if cfg_progress c then removeEventListener (LNode (progressEl r)) ''click'' ''onProgressClicked'' w else w)"

text \<open>A progress that is no number cannot be drawn; it only arises with one slide.\<close>

definition progress_scale :: "reveal \<Rightarrow> real" where
  "progress_scale s = (if getTotalSlides s < 2 then 0 else (case getProgress s of Some p \<Rightarrow> p | None \<Rightarrow> 0))"

definition progress_update :: "reveal \<Rightarrow> reveal" where
  "progress_update s = (case (cfg_progress (cfg s), progressBar (refs s)) of
       (True, Some bar) \<Rightarrow> s\<lparr>doc := set_style ''transform'' (Tr [TScaleX (progress_scale s)]) bar (doc s)\<rparr>
     | _ \<Rightarrow> s)"

definition getMaxWidth :: "reveal \<Rightarrow> real" where
  "getMaxWidth s = offsetWidth (host s)"

lemma quiet_progress_update: "quiet s (progress_update s)"
  by (simp add: progress_update_def quiet_doc split: bool.split option.split)

interpretation progress: page_op progress_update
  by unfold_locales (rule quiet_progress_update)

lemma getProgress_number: "getTotalSlides s \<noteq> 1 \<Longrightarrow> getProgress s \<noteq> None"
  by (simp add: getProgress_def Let_def)

section \<open>The count behind the bar\<close>

text \<open>
  The loop counts, over the slides in the order \<open>horizontal slide's nested slides, then the
  horizontal slide itself\<close>, those that are counted and come before the one it looks for.
\<close>

definition counted :: "dom \<Rightarrow> node \<Rightarrow> bool" where
  "counted d x = (\<not> uncounted d x)"

definition walk :: "dom \<Rightarrow> node list \<Rightarrow> (node \<times> bool) list" where
  "walk d hs = concat (map (\<lambda>h. map (\<lambda>v. (v, counted d v)) (verticals d h) @
     [(h, \<not> has_class ''stack'' d h \<and> counted d h)]) hs)"

lemma past_verticals_eq:
  "past_verticals d sl vs n =
     (case sl of
        Some x \<Rightarrow> if x \<in> set vs then (True, n + int (length (filter (counted d) (takeWhile (\<lambda>y. y \<noteq> x) vs))))
                  else (False, n + int (length (filter (counted d) vs)))
      | None \<Rightarrow> (False, n + int (length (filter (counted d) vs))))"
  by (induction d sl vs n rule: past_verticals.induct) (auto simp: counted_def [abs_def] split: option.splits)

definition count_before :: "node option \<Rightarrow> (node \<times> bool) list \<Rightarrow> int" where
  "count_before sl ps = int (length (filter snd (takeWhile (\<lambda>p. Some (fst p) \<noteq> sl) ps)))"

lemma count_before_simps [simp]:
  "count_before sl [] = 0"
  "count_before sl (p # ps) = (if Some (fst p) = sl then 0 else (if snd p then 1 else 0) + count_before sl ps)"
  by (auto simp: count_before_def)

lemma count_before_append:
  "count_before sl (ps @ qs) =
     (if \<exists>p\<in>set ps. Some (fst p) = sl then count_before sl ps else int (length (filter snd ps)) + count_before sl qs)"
proof (induction ps)
  case Nil
  show ?case by simp
next
  case (Cons p ps)
  show ?case
  proof (cases "Some (fst p) = sl")
    case False
    then show ?thesis using Cons.IH by (simp add: False)
  qed simp
qed

lemma count_before_verticals:
  "count_before (Some x) (map (\<lambda>v. (v, counted d v)) vs) =
     int (length (filter (counted d) (takeWhile (\<lambda>y. y \<noteq> x) vs)))"
proof (induction vs)
  case Nil
  show ?case by simp
next
  case (Cons v vs)
  then show ?case by (cases "v = x") simp_all
qed

lemma past_loop_eq: "past_loop d sl hs n = n + count_before sl (walk d hs)"
proof (induction hs arbitrary: n)
  case Nil
  then show ?case by (simp add: walk_def)
next
  case (Cons h hs)
  have w: "walk d (h # hs) = map (\<lambda>v. (v, counted d v)) (verticals d h) @
      (h, \<not> has_class ''stack'' d h \<and> counted d h) # walk d hs" by (simp add: walk_def)
  have l: "length (filter snd (map (\<lambda>v. (v, counted d v)) vs)) = length (filter (counted d) vs)" for vs
    by (simp add: filter_map comp_def)
  have i: "(\<exists>p\<in>set (map (\<lambda>v. (v, counted d v)) vs). Some (fst p) = sl) \<longleftrightarrow> (\<exists>v\<in>set vs. Some v = sl)" for vs
    by simp
  show ?case
  proof (cases "\<exists>v\<in>set (verticals d h). Some v = sl")
    case True
    then obtain x where x: "sl = Some x" "x \<in> set (verticals d h)" by auto
    then have "count_before sl (walk d (h # hs)) = count_before sl (map (\<lambda>v. (v, counted d v)) (verticals d h))"
      using True i by (simp only: w count_before_append if_True)
    then show ?thesis using x by (simp add: past_verticals_eq count_before_verticals)
  next
    case False
    then have p: "past_verticals d sl (verticals d h) n = (False, n + int (length (filter (counted d) (verticals d h))))"
      by (cases sl) (auto simp: past_verticals_eq)
    show ?thesis
      using Cons.IH by (simp add: p w count_before_append i False counted_def [symmetric] del: filter_map)
        (simp add: filter_map comp_def)
  qed
qed

lemma count_before_le: "count_before sl ps \<le> int (length (filter snd ps))" and count_before_ge: "0 \<le> count_before sl ps"
  by (induction ps) auto

lemma count_before_in: "(x, True) \<in> set ps \<Longrightarrow> count_before (Some x) ps < int (length (filter snd ps))"
proof (induction ps)
  case (Cons p ps)
  have "filter snd ps \<noteq> []" if "(x, True) \<in> set ps" using that by (force simp: filter_empty_conv)
  then show ?case using Cons count_before_le [of "Some x" ps] by (cases p) auto
qed simp

lemma getSlidePastCount_eq: "getSlidePastCount s sl = count_before sl (walk (doc s) (getHorizontalSlides s))"
  by (simp add: getSlidePastCount_def past_loop_eq)



end
