(* ===== verification/Layout.thy ===== *)
theory Layout
  imports Backgrounds Progress
begin

text \<open>
  Scaling and positioning of the slides: \<open>getComputedSlideSize\<close>, \<open>layoutSlideContents\<close>,
  \<open>transformSlides\<close> and \<open>layout\<close> of \<open>reveal.js\<close>, \<open>getRemainingHeight\<close> of
  \<open>utils/util.js\<close>, and the grid and viewport of \<open>controllers/overview.js\<close>. Slide
  sizes are positive, so that the quotients are numbers.
\<close>

section \<open>Sizes\<close>

record slide_size =
  sz_width :: real
  sz_height :: real
  sz_presentationWidth :: real
  sz_presentationHeight :: real

definition or_else :: "real option \<Rightarrow> real \<Rightarrow> real" where
  "or_else a b = (case a of Some x \<Rightarrow> if x = 0 then b else x | None \<Rightarrow> b)"

fun dimension_size :: "dimension \<Rightarrow> real \<Rightarrow> real" where
  "dimension_size (DNum x) space = x"
| "dimension_size (DPercent p) space = real_of_int p / 100 * space"

definition getComputedSlideSize :: "real option \<Rightarrow> real option \<Rightarrow> reveal \<Rightarrow> slide_size" where
  "getComputedSlideSize presentationWidth presentationHeight s =
     (let c = cfg s;
          pw0 = or_else presentationWidth (offsetWidth (host s));
          ph0 = or_else presentationHeight (offsetHeight (host s));
          pw = pw0 - pw0 * cfg_margin c;
          ph = ph0 - ph0 * cfg_margin c
      in \<lparr>sz_width = dimension_size (cfg_width c) pw, sz_height = dimension_size (cfg_height c) ph,
          sz_presentationWidth = pw, sz_presentationHeight = ph\<rparr>)"

section \<open>Stretched elements\<close>

text \<open>
  The old height is written back with a second unit, which is no valid length: the element
  keeps the height of zero it was measured with. A configured height in percent leaves no
  number, and then the declarations written from it are dropped as well.
\<close>

definition getRemainingHeight :: "host \<Rightarrow> node \<Rightarrow> dimension \<Rightarrow> dom \<Rightarrow> real option \<times> dom" where
  "getRemainingHeight h element height d =
     (case parentNode d element of
        None \<Rightarrow> (None, d)
      | Some p \<Rightarrow>
         (let d1 = set_style ''height'' (Css ''auto'') p (set_style ''height'' (Px 0) element d);
              rest = (case height of DNum x \<Rightarrow> Some (x - elementHeight h d1 p) | DPercent _ \<Rightarrow> None)
          in (rest, remove_style ''height'' p d1)))"

definition set_length :: "string \<Rightarrow> real option \<Rightarrow> node \<Rightarrow> dom \<Rightarrow> dom" where
  "set_length k v x d = (case v of Some r \<Rightarrow> set_style k (Px r) x d | None \<Rightarrow> d)"

definition fixed_size :: "dimension \<Rightarrow> real option" where
  "fixed_size a = (case a of DNum x \<Rightarrow> Some x | DPercent _ \<Rightarrow> None)"

definition media_scale :: "real option \<Rightarrow> real option \<Rightarrow> real \<Rightarrow> real \<Rightarrow> real option" where
  "media_scale width rest nw nh =
     (case (width, rest) of (Some w, Some r) \<Rightarrow> Some (min (w / nw) (r / nh)) | _ \<Rightarrow> None)"

definition stretch_element :: "host \<Rightarrow> dimension \<Rightarrow> dimension \<Rightarrow> node \<Rightarrow> dom \<Rightarrow> dom" where
  "stretch_element h width height element d =
     (let (rest, d1) = getRemainingHeight h element height d; w = fixed_size width in
      if contains_str ''img'' (tag d1 element) \<or> contains_str ''video'' (tag d1 element) then
        (case naturalSize h element of
           Some (nw, nh) \<Rightarrow>
             (let es = media_scale w rest nw nh
              in set_length ''height'' (map_option ((*) nh) es) element
                  (set_length ''width'' (map_option ((*) nw) es) element d1))
         | None \<Rightarrow> d1)
      else set_length ''height'' rest element (set_length ''width'' w element d1))"

definition stretched :: "dom \<Rightarrow> node \<Rightarrow> bool" where
  "stretched d x = ((has_class ''stretch'' d x \<or> has_class ''r-stretch'' d x) \<and>
     (case parentNode d x of Some p \<Rightarrow> is_section d p | None \<Rightarrow> False))"

definition layoutSlideContents :: "dimension \<Rightarrow> dimension \<Rightarrow> reveal \<Rightarrow> reveal" where
  "layoutSlideContents width height s =
     s\<lparr>doc := for_each (stretch_element (host s) width height)
        (queryAll (doc s) (slidesEl (host s)) (stretched (doc s))) (doc s)\<rparr>"

section \<open>Transforms\<close>

definition transformSlides :: "tfun list option \<Rightarrow> tfun list option \<Rightarrow> reveal \<Rightarrow> reveal" where
  "transformSlides lay ov s =
     (let l = (case lay of Some t \<Rightarrow> t | None \<Rightarrow> trLayout s);
          v = (case ov of Some t \<Rightarrow> t | None \<Rightarrow> trOverview s)
      in s\<lparr>trLayout := l, trOverview := v, doc := transformElement (slidesEl (host s)) (l @ v) (doc s)\<rparr>)"

text \<open>A translation by an index that is no number makes the text of the transform invalid.\<close>

definition translate_by :: "(real \<Rightarrow> tfun) \<Rightarrow> jsnum \<Rightarrow> real \<Rightarrow> tfun" where
  "translate_by f n step = (case n of Num i \<Rightarrow> f (- real_of_int i * step) | _ \<Rightarrow> TWord ''translate(NaNpx)'')"

definition overview_scale :: "host \<Rightarrow> real" where
  "overview_scale h = (let vmin = min (innerWidth h) (innerHeight h) in max (vmin / 5) 150 / vmin)"

definition overview_update :: "reveal \<Rightarrow> reveal" where
  "overview_update s =
     (let ix = getIndices s None in
      transformSlides None
        (Some [TScale (overview_scale (host s)),
               translate_by TTranslateX (ix_h ix) (overviewSlideWidth s),
               translate_by TTranslateY (ix_v ix) (overviewSlideHeight s)]) s)"

section \<open>Layout\<close>

definition layout_scale :: "config \<Rightarrow> slide_size \<Rightarrow> real" where
  "layout_scale c z =
     min (max (min (sz_presentationWidth z / sz_width z) (sz_presentationHeight z / sz_height z)) (cfg_minScale c))
       (cfg_maxScale c)"

definition clear_inset :: "string \<Rightarrow> string \<Rightarrow> node \<Rightarrow> dom \<Rightarrow> dom" where
  "clear_inset near far x d =
     set_style ''right'' (Css far) x (set_style ''bottom'' (Css far) x
      (set_style ''top'' (Css near) x (set_style ''left'' (Css near) x (set_style ''zoom'' (Css []) x d))))"

definition apply_scale :: "real \<Rightarrow> reveal \<Rightarrow> reveal" where
  "apply_scale k s =
     (let el = slidesEl (host s) in
      if k = 1 then transformSlides (Some []) None (s\<lparr>rscale := k, doc := clear_inset [] [] el (doc s)\<rparr>)
      else transformSlides (Some [TCenter, TScale k]) None
             (s\<lparr>rscale := k, doc := clear_inset ''50%'' ''auto'' el (doc s)\<rparr>))"

definition place_slide :: "config \<Rightarrow> host \<Rightarrow> real \<Rightarrow> node \<Rightarrow> dom \<Rightarrow> dom" where
  "place_slide c h height x d =
     (if style_text ''display'' d x = ''none'' then d
      else if cfg_center c \<or> has_class ''center'' d x then
        (if has_class ''stack'' d x then set_style ''top'' (Px 0) x d
         else set_style ''top'' (Px (max ((height - scrollHeight h d x) / 2) 0)) x d)
      else set_style ''top'' (Css []) x d)"

definition document_root :: "reveal \<Rightarrow> node option" where
  "document_root s = last_opt (path (doc s) (wrapper (host s)))"

definition set_vh :: "reveal \<Rightarrow> reveal" where
  "set_vh s = (case document_root s of
       Some r \<Rightarrow>
         if isMobile (host s) \<and> \<not> cfg_embedded (cfg s)
         then s\<lparr>doc := set_style ''--vh'' (Px (innerHeight (host s) / 100)) r (doc s)\<rparr> else s
     | None \<Rightarrow> s)"

definition scale_slides :: "reveal \<Rightarrow> reveal" where
  "scale_slides s =
     (let s1 = set_vh s;
          z = getComputedSlideSize None None s1;
          oldScale = rscale s1;
          s2 = layoutSlideContents (cfg_width (cfg s1)) (cfg_height (cfg s1)) s1;
          el = slidesEl (host s2);
          s3 = s2\<lparr>doc := set_style ''height'' (Px (sz_height z)) el (set_style ''width'' (Px (sz_width z)) el (doc s2))\<rparr>;
          k = layout_scale (cfg s3) z;
          s4 = apply_scale k s3;
          s5 = s4\<lparr>doc := for_each (place_slide (cfg s4) (host s4) (sz_height z))
                 (queryAll (doc s4) (wrapper (host s4)) (slides_sel (doc s4))) (doc s4)\<rparr>
      in if oldScale \<noteq> k then dispatchEvent (EvResize oldScale k) s5 else s5)"

definition layout :: "reveal \<Rightarrow> reveal" where
  "layout s =
     (if isPrintingPDF (host s) then s
      else
       (let s1 = (if cfg_disableLayout (cfg s) then s else scale_slides s);
            s2 = s1\<lparr>doc := set_style ''--slide-scale'' (CNum (rscale s1)) (viewport (host s1)) (doc s1)\<rparr>;
            s3 = updateParallax (progress_update s2)
        in if overviewActive s3 then overview_update s3 else s3))"

section \<open>The grid of the overview\<close>

definition place_vertical :: "real \<Rightarrow> nat \<Rightarrow> nat \<times> node \<Rightarrow> dom \<Rightarrow> dom" where
  "place_vertical height h e d =
     (let (v, x) = e in
      transformElement x [TTranslate3d 0 (real v * height)]
       (set_attr ''data-index-v'' (show_nat v) x (set_attr ''data-index-h'' (show_nat h) x d)))"

definition place_column :: "real \<Rightarrow> real \<Rightarrow> nat \<times> node \<Rightarrow> dom \<Rightarrow> dom" where
  "place_column width height e d =
     (let (h, x) = e;
          d1 = transformElement x [TTranslate3d (real h * width) 0] (set_attr ''data-index-h'' (show_nat h) x d)
      in if has_class ''stack'' d1 x then fold (place_vertical height h) (enumerate 0 (verticals d1 x)) d1 else d1)"

definition place_background :: "real \<Rightarrow> real \<Rightarrow> nat \<times> node \<Rightarrow> dom \<Rightarrow> dom" where
  "place_background width height e d =
     (let (h, x) = e; d1 = transformElement x [TTranslate3d (real h * width) 0] d
      in fold (\<lambda>(v, y). transformElement y [TTranslate3d 0 (real v * height)])
           (enumerate 0 (queryAll d1 x (has_class ''slide-background'' d1))) d1)"

definition overview_layout :: "reveal \<Rightarrow> reveal" where
  "overview_layout s =
     (let w = overviewSlideWidth s; h = overviewSlideHeight s;
          d1 = fold (place_column w h) (enumerate 0 (getHorizontalSlides s)) (doc s)
      in s\<lparr>doc := fold (place_background w h) (enumerate 0 (childNodes d1 (backgroundsEl (refs s)))) d1\<rparr>)"

section \<open>Layout is quiet\<close>

lemma quiet_layout_fields:
  "quiet s t \<Longrightarrow> quiet s (t\<lparr>trLayout := a, trOverview := b\<rparr>)" "quiet s t \<Longrightarrow> quiet s (t\<lparr>rscale := k\<rparr>)"
  by (simp_all add: quiet_def same_nav_def quiet_page_of_def quiet_timer_def timers_ok_def)

lemma same_sections_transform [simp, intro]: "same_sections w d (transformElement x t d)"
  by (simp add: transformElement_def)

lemma quiet_transformSlides: "quiet s t \<Longrightarrow> quiet s (transformSlides l v t)"
  unfolding transformSlides_def Let_def by (rule quiet_trans [OF quiet_layout_fields(1)]) (auto intro: quiet_doc)

lemma quiet_overview_update: "quiet s (overview_update s)"
  unfolding overview_update_def Let_def by (rule quiet_transformSlides) simp

lemma same_sections_set_length: "same_sections w d (set_length k v x d)"
  by (simp add: set_length_def split: option.split)

lemma same_sections_remaining: "same_sections w d (snd (getRemainingHeight h el z d))"
proof -
  have "same_sections w d (remove_style ''height'' p (set_style ''height'' a p (set_style ''height'' b el d)))" for p a b
    by (rule same_sections_cong) simp_all
  then show ?thesis by (simp add: getRemainingHeight_def Let_def split: option.split)
qed

lemma same_sections_stretch: "same_sections w d (stretch_element h wd ht el d)"
proof -
  obtain rest d1 where r: "getRemainingHeight h el ht d = (rest, d1)" by fastforce
  have 1: "same_sections w d d1" using same_sections_remaining [of w d h el ht] by (simp add: r)
  have "same_sections w d (set_length a v el (set_length b u el d1))" for a v b u
    by (rule same_sections_trans [OF 1 same_sections_trans [OF same_sections_set_length same_sections_set_length]])
  with 1 show ?thesis by (simp add: stretch_element_def r Let_def split: option.split)
qed

lemma quiet_layoutSlideContents: "quiet s (layoutSlideContents w h s)"
  unfolding layoutSlideContents_def by (intro quiet_doc same_sections_for_each same_sections_stretch)

lemma same_sections_place_slide: "same_sections w d (place_slide c h z x d)"
  by (simp add: place_slide_def)

lemma quiet_set_vh: "quiet s (set_vh s)"
  by (simp add: set_vh_def quiet_doc split: option.split)

lemma same_sections_styles: "same_sections w d (set_style k a x (set_style j b y d))"
  by (rule same_sections_cong) simp_all

lemma same_sections_inset: "same_sections w d (clear_inset near far x d)"
  by (rule same_sections_cong) (simp_all add: clear_inset_def)

lemma quiet_scale_doc: "same_sections (wrapper (host s)) (doc s) d \<Longrightarrow> quiet s (s\<lparr>rscale := k, doc := d\<rparr>)"
  by (simp add: quiet_def same_nav_def quiet_page_of_def quiet_timer_def timers_ok_def)

lemma quiet_apply_scale: "quiet s (apply_scale k s)"
  by (simp add: apply_scale_def Let_def quiet_transformSlides quiet_scale_doc same_sections_inset)

lemma quiet_scale_slides: "quiet s (scale_slides s)"
proof -
  let ?s1 = "set_vh s"
  let ?s2 = "layoutSlideContents (cfg_width (cfg ?s1)) (cfg_height (cfg ?s1)) ?s1"
  have q2: "quiet s ?s2" using quiet_trans [OF quiet_set_vh quiet_layoutSlideContents] .
  let ?z = "getComputedSlideSize None None ?s1"
  let ?s3 = "?s2\<lparr>doc := set_style ''height'' (Px (sz_height ?z)) (slidesEl (host ?s2))
      (set_style ''width'' (Px (sz_width ?z)) (slidesEl (host ?s2)) (doc ?s2))\<rparr>"
  have q3: "quiet s ?s3" by (rule quiet_then(1) [OF q2 same_sections_styles])
  let ?s4 = "apply_scale (layout_scale (cfg ?s3) ?z) ?s3"
  have q4: "quiet s ?s4" using quiet_trans [OF q3 quiet_apply_scale] .
  let ?s5 = "?s4\<lparr>doc := for_each (place_slide (cfg ?s4) (host ?s4) (sz_height ?z))
      (queryAll (doc ?s4) (wrapper (host ?s4)) (slides_sel (doc ?s4))) (doc ?s4)\<rparr>"
  have q5: "quiet s ?s5"
    by (rule quiet_then(1) [OF q4]) (intro same_sections_for_each same_sections_place_slide)
  show ?thesis unfolding scale_slides_def Let_def using q5 quiet_then(4) [OF q5] by (simp only: split: if_split) blast
qed

lemma quiet_layout: "quiet s (layout s)"
proof (cases "isPrintingPDF (host s)")
  case False
  let ?s1 = "if cfg_disableLayout (cfg s) then s else scale_slides s"
  have q1: "quiet s ?s1" using quiet_scale_slides by simp
  let ?s2 = "?s1\<lparr>doc := set_style ''--slide-scale'' (CNum (rscale ?s1)) (viewport (host ?s1)) (doc ?s1)\<rparr>"
  have q2: "quiet s ?s2" by (rule quiet_then(1) [OF q1]) simp
  have q3: "quiet s (updateParallax (progress_update ?s2))"
    using quiet_trans [OF q2 quiet_trans [OF quiet_progress_update quiet_updateParallax]] .
  show ?thesis using False q3 quiet_trans [OF q3 quiet_overview_update]
    unfolding layout_def Let_def by (simp only: split: if_split) blast
qed (simp add: layout_def)

interpretation deck_layout: page_op layout
  by unfold_locales (rule quiet_layout)

interpretation overview_viewport: page_op overview_update
  by unfold_locales (rule quiet_overview_update)

lemma same_sections_fold:
  "(\<And>e d. e \<in> set es \<Longrightarrow> same_sections w d (f e d)) \<Longrightarrow> same_sections w d (fold f es d)"
  by (induction es arbitrary: d) (auto intro: same_sections_trans)

lemma same_sections_place_vertical: "same_sections w d (place_vertical z h e d)"
  by (rule same_sections_cong) (simp_all add: place_vertical_def transformElement_def split_beta)

lemma same_sections_place_column: "same_sections w d (place_column a z e d)"
proof -
  obtain h x where e: "e = (h, x)" by fastforce
  let ?d1 = "transformElement x [TTranslate3d (real h * a) 0] (set_attr ''data-index-h'' (show_nat h) x d)"
  have 1: "same_sections w d ?d1" by (rule same_sections_trans [of w d "set_attr ''data-index-h'' (show_nat h) x d"]) simp_all
  have "same_sections w d (fold (place_vertical z h) es ?d1)" for es
    by (rule same_sections_trans [OF 1]) (intro same_sections_fold same_sections_place_vertical)
  with 1 show ?thesis by (simp add: place_column_def e Let_def)
qed

lemma same_sections_place_background: "same_sections w d (place_background a z e d)"
  by (auto simp: place_background_def Let_def split_beta
      intro!: same_sections_fold same_sections_trans [OF same_sections_transform same_sections_fold])

lemma quiet_overview_layout: "quiet s (overview_layout s)"
  unfolding overview_layout_def Let_def
  by (intro quiet_doc same_sections_trans [OF same_sections_fold same_sections_fold]
      same_sections_place_column same_sections_place_background)

interpretation overview_grid: page_op overview_layout
  by unfold_locales (rule quiet_overview_layout)

section \<open>The scale\<close>

lemma rscale_frame [simp]:
  "rscale (transformSlides l v s) = rscale s" "rscale (apply_scale k s) = k"
  "rscale (overview_update s) = rscale s" "rscale (dispatchEvent e s) = rscale s"
  "rscale (updateParallax s) = rscale s" "rscale (progress_update s) = rscale s"
  by (simp_all add: transformSlides_def apply_scale_def overview_update_def dispatchEvent_def
      updateParallax_def progress_update_def Let_def split: bool.split option.split)

lemma rscale_scale_slides: "rscale (scale_slides s) = layout_scale (cfg s) (getComputedSlideSize None None s)"
  by (simp add: scale_slides_def set_vh_def layoutSlideContents_def getComputedSlideSize_def Let_def
      split: option.split)

lemma rscale_layout:
  "rscale (layout s) = (if isPrintingPDF (host s) \<or> cfg_disableLayout (cfg s) then rscale s
     else layout_scale (cfg s) (getComputedSlideSize None None s))"
  by (simp add: layout_def rscale_scale_slides Let_def)

lemma layout_scale_bounds:
  assumes "cfg_minScale c \<le> cfg_maxScale c"
  shows "cfg_minScale c \<le> layout_scale c z" "layout_scale c z \<le> cfg_maxScale c"
  using assms by (simp_all add: layout_scale_def)

text \<open>C40: After a layout the scale of the slides lies between the configured bounds, and the scaled
  slide fits into the presentation area, less its margins, unless the minimum scale keeps it larger.\<close>

theorem layout_fits:
  assumes "\<not> isPrintingPDF (host s)" "\<not> cfg_disableLayout (cfg s)" "cfg_minScale (cfg s) \<le> cfg_maxScale (cfg s)"
    and "0 < sz_width (getComputedSlideSize None None s)" "0 < sz_height (getComputedSlideSize None None s)"
  shows "cfg_minScale (cfg s) \<le> rscale (layout s) \<and> rscale (layout s) \<le> cfg_maxScale (cfg s) \<and>
    (rscale (layout s) = cfg_minScale (cfg s) \<or>
     rscale (layout s) * sz_width (getComputedSlideSize None None s) \<le> (1 - cfg_margin (cfg s)) * offsetWidth (host s) \<and>
     rscale (layout s) * sz_height (getComputedSlideSize None None s) \<le> (1 - cfg_margin (cfg s)) * offsetHeight (host s))"
proof -
  let ?z = "getComputedSlideSize None None s" and ?k = "rscale (layout s)"
  have k: "?k = layout_scale (cfg s) ?z" using assms(1,2) by (simp add: rscale_layout)
  have z: "sz_presentationWidth ?z = (1 - cfg_margin (cfg s)) * offsetWidth (host s)"
    "sz_presentationHeight ?z = (1 - cfg_margin (cfg s)) * offsetHeight (host s)"
    by (simp_all add: getComputedSlideSize_def or_else_def Let_def algebra_simps)
  note bounds = layout_scale_bounds [OF assms(3), of ?z, folded k]
  show ?thesis
  proof (cases "?k = cfg_minScale (cfg s)")
    case False
    then have "?k \<le> sz_presentationWidth ?z / sz_width ?z" "?k \<le> sz_presentationHeight ?z / sz_height ?z"
      using assms(3) by (auto simp: k layout_scale_def min_def max_def split: if_splits)
    then show ?thesis using assms(4,5) bounds by (simp add: pos_le_divide_eq z)
  qed (use bounds in simp)
qed

theorem layout_fits_witness:
  "rscale (layout sample) \<le> 2 \<and> (rscale (layout sample) = 2 / 10 \<or>
    rscale (layout sample) * 960 \<le> (1 - 4 / 100) * 960 \<and> rscale (layout sample) * 700 \<le> (1 - 4 / 100) * 700)"
  using layout_fits [of sample] by (simp add: getComputedSlideSize_def sample_defs Let_def)

end
