(* ===== verification/FragmentSort.thy ===== *)
theory FragmentSort
  imports Sample "HOL-Library.Multiset"
begin

text \<open>
  \<open>Fragments.sort\<close> of \<open>controllers/fragments.js\<close>: the fragments of a slide are
  grouped by their \<open>data-fragment-index\<close>, the ones without an index following in document
  order, and the groups are numbered from zero. The grouping array is sparse: it is kept as an
  association list in increasing order of the index. An index that is not an array index (a
  negative number, no number, more than \<open>2 ^ 32 - 2\<close>) sets a property that
  \<open>concat\<close> and \<open>forEach\<close> do not visit.
\<close>

definition array_index :: "jsnum \<Rightarrow> nat option" where
  "array_index a = (case a of
       Num k \<Rightarrow> if 0 \<le> k \<and> k < 4294967295 then Some (nat k) else None
     | _ \<Rightarrow> None)"

fun push_group :: "nat \<Rightarrow> node \<Rightarrow> (nat \<times> node list) list \<Rightarrow> (nat \<times> node list) list" where
  "push_group k x [] = [(k, [x])]"
| "push_group k x ((j, g) # gs) =
     (if k = j then (j, g @ [x]) # gs
      else if k < j then (k, [x]) # (j, g) # gs
      else (j, g) # push_group k x gs)"

definition group_step :: "dom \<Rightarrow> node \<Rightarrow> (nat \<times> node list) list \<times> node list list \<Rightarrow>
    (nat \<times> node list) list \<times> node list list" where
  "group_step d x a = (case get_attr ''data-fragment-index'' d x of
       Some v \<Rightarrow>
         (case array_index (parseInt v) of Some k \<Rightarrow> (push_group k x (fst a), snd a) | None \<Rightarrow> a)
     | None \<Rightarrow> (fst a, snd a @ [[x]]))"

definition fragment_groups :: "dom \<Rightarrow> node list \<Rightarrow> node list list" where
  "fragment_groups d fragments =
     (let (ordered, unordered) = fold (group_step d) fragments ([], []) in map snd ordered @ unordered)"

fun number_groups :: "nat \<Rightarrow> node list list \<Rightarrow> dom \<Rightarrow> dom" where
  "number_groups i [] d = d"
| "number_groups i (g # gs) d =
     number_groups (Suc i) gs (for_each (set_attr ''data-fragment-index'' (show_nat i)) g d)"

definition sort_fragments :: "node list \<Rightarrow> dom \<Rightarrow> node list \<times> dom" where
  "sort_fragments fragments d =
     (let groups = fragment_groups d fragments in (concat groups, number_groups 0 groups d))"

section \<open>The groups\<close>

text \<open>
  What the grouping amounts to: one group for every index that occurs, in increasing order,
  each holding its fragments in the order they came, then the fragments without an index.
\<close>

definition fragment_key :: "dom \<Rightarrow> node \<Rightarrow> nat option" where
  "fragment_key d x = (case get_attr ''data-fragment-index'' d x of
       Some v \<Rightarrow> array_index (parseInt v) | None \<Rightarrow> None)"

definition unnumbered :: "dom \<Rightarrow> node \<Rightarrow> bool" where
  "unnumbered d x = (get_attr ''data-fragment-index'' d x = None)"

definition keys_of :: "dom \<Rightarrow> node list \<Rightarrow> nat set" where
  "keys_of d xs = {k. \<exists>x\<in>set xs. fragment_key d x = Some k}"

definition group_for :: "dom \<Rightarrow> node list \<Rightarrow> nat \<Rightarrow> node list" where
  "group_for d xs k = filter (\<lambda>x. fragment_key d x = Some k) xs"

definition sortable :: "dom \<Rightarrow> node \<Rightarrow> bool" where
  "sortable d x = (unnumbered d x \<or> fragment_key d x \<noteq> None)"

lemma group_step_cases:
  "group_step d x a =
     (if unnumbered d x then (fst a, snd a @ [[x]])
      else case fragment_key d x of Some k \<Rightarrow> (push_group k x (fst a), snd a) | None \<Rightarrow> a)"
  by (simp add: group_step_def unnumbered_def fragment_key_def split: option.splits)

lemma finite_keys_of [simp]: "finite (keys_of d xs)"
proof -
  have "keys_of d xs \<subseteq> (\<lambda>x. the (fragment_key d x)) ` set xs"
    by (auto simp: keys_of_def image_iff) (metis option.sel)
  then show ?thesis by (rule finite_subset) simp
qed

lemma keys_of_snoc:
  "keys_of d (xs @ [x]) = (case fragment_key d x of Some k \<Rightarrow> insert k (keys_of d xs) | None \<Rightarrow> keys_of d xs)"
  by (auto simp: keys_of_def split: option.splits)

lemma group_for_snoc:
  "group_for d (xs @ [x]) k = group_for d xs k @ (if fragment_key d x = Some k then [x] else [])"
  by (simp add: group_for_def)

text \<open>Pushing into the sorted association list of the groups of \<open>f\<close>.\<close>

lemma push_group_map:
  assumes "sorted_wrt (<) ks" and new: "k \<notin> set ks \<Longrightarrow> f k = []"
  shows "push_group k x (map (\<lambda>j. (j, f j)) ks) =
    map (\<lambda>j. (j, if j = k then f j @ [x] else f j)) (if k \<in> set ks then ks else insort k ks)"
  using assms
proof (induction ks)
  case Nil
  then show ?case by simp
next
  case (Cons j ks)
  then have j: "\<forall>i\<in>set ks. j < i" and s: "sorted_wrt (<) ks" by auto
  consider "k = j" | "k < j" | "j < k" by linarith
  then show ?case
  proof cases
    case 1
    then show ?thesis using j by (auto intro!: map_cong)
  next
    case 2
    then have "k \<notin> set (j # ks)" using j by auto
    moreover from this 2 have "map (\<lambda>j. (j, if j = k then f j @ [x] else f j)) (j # ks) = map (\<lambda>j. (j, f j)) (j # ks)"
      by (intro map_cong) auto
    ultimately show ?thesis using 2 Cons.prems(2) by simp
  next
    case 3
    then show ?thesis using Cons.IH [OF s] Cons.prems(2) by auto
  qed
qed

lemma sorted_list_insert:
  assumes "finite A"
  shows "sorted_list_of_set (insert k A) =
    (if k \<in> set (sorted_list_of_set A) then sorted_list_of_set A else insort k (sorted_list_of_set A))"
proof (cases "k \<in> A")
  case True
  then have "insert k A = A" by (rule insert_absorb)
  with True assms show ?thesis by (simp only: set_sorted_list_of_set if_True)
next
  case False
  with assms show ?thesis by simp
qed

lemma fold_group_step:
  "fold (group_step d) xs ([], []) =
     (map (\<lambda>k. (k, group_for d xs k)) (sorted_list_of_set (keys_of d xs)), map (\<lambda>x. [x]) (filter (unnumbered d) xs))"
proof (induction xs rule: rev_induct)
  case Nil
  show ?case by (simp add: keys_of_def)
next
  case (snoc x xs)
  let ?ks = "sorted_list_of_set (keys_of d xs)"
  show ?case
  proof (cases "fragment_key d x")
    case None
    then have "keys_of d (xs @ [x]) = keys_of d xs" and "group_for d (xs @ [x]) = group_for d xs"
      by (simp_all add: keys_of_snoc group_for_snoc fun_eq_iff)
    with None snoc show ?thesis by (simp add: group_step_cases)
  next
    case (Some k)
    then have u: "\<not> unnumbered d x" by (simp add: fragment_key_def unnumbered_def split: option.splits)
    have "group_for d xs k = []" if "k \<notin> keys_of d xs"
      using that by (auto simp: group_for_def keys_of_def filter_empty_conv)
    then have "push_group k x (map (\<lambda>j. (j, group_for d xs j)) ?ks) =
      map (\<lambda>j. (j, if j = k then group_for d xs j @ [x] else group_for d xs j))
        (if k \<in> set ?ks then ?ks else insort k ?ks)"
      by (intro push_group_map) simp_all
    also have "\<dots> = map (\<lambda>j. (j, group_for d (xs @ [x]) j)) (sorted_list_of_set (keys_of d (xs @ [x])))"
      using Some by (simp only: sorted_list_insert [symmetric] finite_keys_of keys_of_snoc option.case)
        (rule map_cong, auto simp: group_for_snoc)
    finally show ?thesis using Some u snoc by (simp add: group_step_cases)
  qed
qed

lemma fragment_groups_eq:
  "fragment_groups d xs =
     map (group_for d xs) (sorted_list_of_set (keys_of d xs)) @ map (\<lambda>x. [x]) (filter (unnumbered d) xs)"
  by (simp add: fragment_groups_def fold_group_step)

section \<open>The sorted list\<close>

definition sort_rank :: "dom \<Rightarrow> node \<Rightarrow> nat" where
  "sort_rank d x = (case fragment_key d x of Some k \<Rightarrow> k | None \<Rightarrow> 4294967295)"

lemma fragment_key_bound: "fragment_key d x = Some k \<Longrightarrow> k < 4294967295"
  by (auto simp: fragment_key_def array_index_def split: option.splits jsnum.splits if_splits)

lemma unnumbered_no_key [simp]: "unnumbered d x \<Longrightarrow> fragment_key d x = None"
  by (simp add: unnumbered_def fragment_key_def)

lemma sort_rank_simps:
  "fragment_key d x = Some k \<Longrightarrow> sort_rank d x = k" "unnumbered d x \<Longrightarrow> sort_rank d x = 4294967295"
  by (simp_all add: sort_rank_def)

lemma group_for_in: "x \<in> set (group_for d xs k) \<longleftrightarrow> x \<in> set xs \<and> fragment_key d x = Some k"
  by (auto simp: group_for_def)

lemma rank_sortable:
  "sort_rank d x = r \<and> sortable d x \<longleftrightarrow> (if r = 4294967295 then unnumbered d x else fragment_key d x = Some r)"
proof (cases "fragment_key d x")
  case None
  then show ?thesis by (auto simp: sort_rank_def sortable_def)
next
  case (Some k)
  then have "k \<noteq> 4294967295" using fragment_key_bound by fastforce
  moreover have "\<not> unnumbered d x" using Some by auto
  ultimately show ?thesis using Some by (auto simp: sort_rank_def sortable_def)
qed

lemma concat_select: "distinct ks \<Longrightarrow> concat (map (\<lambda>k. if k = r then g else []) ks) = (if r \<in> set ks then g else [])"
  by (induction ks) auto

lemma filter_rank_groups:
  "filter (\<lambda>y. sort_rank d y = r) (concat (fragment_groups d xs)) =
   filter (\<lambda>y. sort_rank d y = r) (filter (sortable d) xs)"
proof -
  let ?ks = "sorted_list_of_set (keys_of d xs)"
  let ?P = "\<lambda>y. sort_rank d y = r"
  have one: "filter ?P (group_for d xs k) = (if k = r then group_for d xs r else [])" if "k \<in> keys_of d xs" for k
    by (auto simp: group_for_def filter_empty_conv sort_rank_simps intro!: filter_cong)
  have "map (\<lambda>k. filter ?P (group_for d xs k)) ?ks = map (\<lambda>k. if k = r then group_for d xs r else []) ?ks"
    by (rule map_cong [OF refl]) (simp add: one)
  then have "concat (map (\<lambda>k. filter ?P (group_for d xs k)) ?ks) = (if r \<in> keys_of d xs then group_for d xs r else [])"
    using concat_select [of ?ks r "group_for d xs r"]
    by (simp only: distinct_sorted_list_of_set set_sorted_list_of_set finite_keys_of)
  also have "\<dots> = group_for d xs r"
    by (auto simp: group_for_def keys_of_def filter_empty_conv)
  finally have numbered: "filter ?P (concat (map (group_for d xs) ?ks)) = group_for d xs r"
    by (simp add: filter_concat comp_def)
  have rest: "filter ?P (filter (unnumbered d) xs) = (if r = 4294967295 then filter (unnumbered d) xs else [])"
    by (auto simp: sort_rank_simps filter_empty_conv intro!: filter_cong)
  have "group_for d xs 4294967295 = []"
    using fragment_key_bound by (fastforce simp: group_for_def filter_empty_conv)
  then have "filter ?P (concat (fragment_groups d xs)) =
      (if r = 4294967295 then filter (unnumbered d) xs else group_for d xs r)"
    using numbered rest by (simp add: fragment_groups_eq del: filter_filter)
  also have "\<dots> = filter (\<lambda>y. ?P y \<and> sortable d y) xs"
    unfolding rank_sortable by (simp add: group_for_def)
  finally show ?thesis by (simp add: conj_commute)
qed

lemma mset_from_ranks:
  assumes "\<And>r. filter (\<lambda>y. f y = r) ys = filter (\<lambda>y. f y = r) xs"
  shows "mset ys = mset xs"
proof (rule multiset_eqI)
  fix x
  have "count (mset zs) x = count (mset (filter (\<lambda>y. f y = f x) zs)) x" for zs by simp
  then show "count (mset ys) x = count (mset xs) x" using assms [of "f x"] by metis
qed

lemma sorted_groups: "sorted (map (sort_rank d) (concat (fragment_groups d xs)))"
proof -
  have ranks: "map (sort_rank d) (group_for d xs k) = replicate (length (group_for d xs k)) k" for k
    unfolding map_replicate_const [symmetric] by (rule map_cong) (simp_all add: group_for_in sort_rank_simps)
  have "sorted (map (sort_rank d) (concat (map (group_for d xs) ks)))" if "sorted ks" for ks
    using that
  proof (induction ks)
    case (Cons k ks)
    moreover have "k \<le> sort_rank d y" if "y \<in> set (group_for d xs j)" "j \<in> set ks" for y j
      using that Cons.prems by (simp add: group_for_in sort_rank_simps)
    ultimately show ?case by (auto simp: sorted_append ranks)
  qed simp
  moreover have "map (sort_rank d) (filter (unnumbered d) xs) = replicate (length (filter (unnumbered d) xs)) 4294967295"
    by (induction xs) (simp_all add: sort_rank_simps)
  moreover have "sort_rank d y \<le> 4294967295" if "y \<in> set (group_for d xs k)" for y k
    using that fragment_key_bound [of d y k] by (simp add: group_for_in sort_rank_simps)
  ultimately show ?thesis by (auto simp: fragment_groups_eq sorted_append)
qed

lemma fragment_groups_sorted:
  "concat (fragment_groups d xs) = sort_key (sort_rank d) (filter (sortable d) xs)"
proof (rule properties_for_sort_key [symmetric])
  note r = filter_rank_groups [of d _ xs]
  show "mset (concat (fragment_groups d xs)) = mset (filter (sortable d) xs)" using r by (rule mset_from_ranks)
  show "filter (\<lambda>x. sort_rank d k = sort_rank d x) (concat (fragment_groups d xs)) =
    filter (\<lambda>x. sort_rank d k = sort_rank d x) (filter (sortable d) xs)" for k
    using r [of "sort_rank d k"] by (simp only: eq_commute [of "sort_rank d k"])
qed (rule sorted_groups)

text \<open>C7: The order in which fragments are shown is the library's stable sort of the
  sortable ones by their index, those without an index last.\<close>

theorem sort_fragments_stable:
  "fst (sort_fragments xs d) = sort_key (sort_rank d) (filter (sortable d) xs)"
  by (simp add: sort_fragments_def Let_def fragment_groups_sorted)

section \<open>Numbering\<close>

lemma number_groups_other:
  "x \<notin> set (concat gs) \<Longrightarrow> get_attr a (number_groups i gs d) x = get_attr a d x"
proof (induction i gs d rule: number_groups.induct)
  case (2 i g gs d)
  have "get_attr a (for_each (set_attr b v) g d) x = get_attr a d x" for b v
    using "2.prems" by (induction g arbitrary: d) auto
  with 2 show ?case by simp
qed simp

lemma get_attr_number_group:
  "get_attr a (for_each (set_attr a v) g d) x = (if x \<in> set g then Some v else get_attr a d x)"
  by (induction g arbitrary: d) auto

lemma number_groups_at:
  "distinct (concat gs) \<Longrightarrow> j < length gs \<Longrightarrow> x \<in> set (gs ! j) \<Longrightarrow>
   get_attr ''data-fragment-index'' (number_groups i gs d) x = Some (show_nat (i + j))"
proof (induction i gs d arbitrary: j rule: number_groups.induct)
  case (2 i g gs d)
  show ?case
  proof (cases j)
    case 0
    then have "x \<in> set g" "x \<notin> set (concat gs)" using "2.prems" by auto
    then show ?thesis using 0 by (simp add: number_groups_other get_attr_number_group)
  next
    case (Suc k)
    then show ?thesis using 2 by simp
  qed
qed simp

lemma number_groups_frame:
  "path (number_groups i gs d) = path d" "order (number_groups i gs d) = order d"
  "tag (number_groups i gs d) = tag d" "cls (number_groups i gs d) = cls d"
  "nextNode (number_groups i gs d) = nextNode d" "bgOf (number_groups i gs d) = bgOf d"
  "bgContentOf (number_groups i gs d) = bgContentOf d"
  by (induction i gs d rule: number_groups.induct) (simp_all add: for_each_frame)

lemma number_groups_attr:
  "a \<noteq> ''data-fragment-index'' \<Longrightarrow> get_attr a (number_groups i gs d) = get_attr a d"
  by (induction i gs d rule: number_groups.induct) (simp_all add: for_each_frame)

lemma distinct_groups: "distinct xs \<Longrightarrow> distinct (concat (fragment_groups d xs))"
  using fragment_groups_sorted [of d xs] by (simp add: sort_fragments_def Let_def)

lemma group_subsequence:
  assumes "distinct xs" "g \<in> set (fragment_groups d xs)"
  shows "filter (\<lambda>x. x \<in> set g) xs = g" and "g \<noteq> []"
proof -
  have single: "filter (\<lambda>x. x = y) xs = [y]" if "y \<in> set xs" for y
    using assms(1) that by (induction xs) (auto simp: filter_empty_conv)
  consider k where "k \<in> keys_of d xs" "g = group_for d xs k" | y where "y \<in> set xs" "g = [y]"
    using assms(2) by (auto simp: fragment_groups_eq)
  then have "filter (\<lambda>x. x \<in> set g) xs = g \<and> g \<noteq> []"
  proof cases
    case 1
    then show ?thesis by (auto simp: group_for_def keys_of_def filter_empty_conv intro!: filter_cong)
  qed (simp add: single)
  then show "filter (\<lambda>x. x \<in> set g) xs = g" and "g \<noteq> []" by simp_all
qed

lemma length_concat: "\<forall>g\<in>set gs. g \<noteq> [] \<Longrightarrow> length gs \<le> length (concat gs)"
proof (induction gs)
  case (Cons g gs)
  then show ?case by (cases g) auto
qed simp

lemma length_groups:
  assumes "distinct xs"
  shows "length (fragment_groups d xs) \<le> length xs"
proof -
  have "length (fragment_groups d xs) \<le> length (concat (fragment_groups d xs))"
    using group_subsequence(2) [OF assms] by (intro length_concat) blast
  also have "\<dots> = length (filter (sortable d) xs)"
    using fragment_groups_sorted [of d xs] by (simp add: sort_fragments_def Let_def)
  finally show ?thesis using length_filter_le order_trans by blast
qed

lemma set_fragment_groups: "set (concat (fragment_groups d xs)) = {x \<in> set xs. sortable d x}"
  using fragment_groups_sorted [of d xs] by (auto simp: sort_fragments_def Let_def)

text \<open>After sorting, the fragments of the group at a position carry that position.\<close>

lemma sort_fragments_numbers:
  assumes "distinct xs" "j < length (fragment_groups d xs)" "x \<in> set (fragment_groups d xs ! j)"
  shows "get_attr ''data-fragment-index'' (snd (sort_fragments xs d)) x = Some (show_nat j)"
  using number_groups_at [OF distinct_groups [OF assms(1)] assms(2,3), of 0 d]
  by (simp add: sort_fragments_def Let_def)

section \<open>Sorting again\<close>

lemma array_index_num [simp]: "i < 4294967295 \<Longrightarrow> array_index (Num (int i)) = Some i"
  by (simp add: array_index_def)

lemma set_attr_same: "get_attr a d x = Some v \<Longrightarrow> set_attr a v x d = d"
  by (simp add: set_attr_def get_attr_def fun_upd_idem)

lemma number_groups_same:
  assumes "\<And>j x. j < length gs \<Longrightarrow> x \<in> set (gs ! j) \<Longrightarrow>
     get_attr ''data-fragment-index'' d x = Some (show_nat (i + j))"
  shows "number_groups i gs d = d"
  using assms
proof (induction i gs d rule: number_groups.induct)
  case (2 i g gs d)
  have "get_attr ''data-fragment-index'' d x = Some (show_nat i)" if "x \<in> set g" for x
    using "2.prems" [of 0 x] that by simp
  then have same: "for_each (set_attr ''data-fragment-index'' (show_nat i)) g d = d"
    by (induction g) (simp_all add: set_attr_same)
  have "number_groups (Suc i) gs d = d"
  proof (rule "2.IH" [unfolded same])
    show "get_attr ''data-fragment-index'' d x = Some (show_nat (Suc i + j))"
      if "j < length gs" "x \<in> set (gs ! j)" for j x
      using "2.prems" [of "Suc j" x] that by simp
  qed
  then show ?case by (simp add: same)
qed simp

abbreviation numbered :: "node list \<Rightarrow> dom \<Rightarrow> dom" where
  "numbered xs d \<equiv> snd (sort_fragments xs d)"

lemma in_groups: "x \<in> set (concat (fragment_groups d xs)) \<Longrightarrow>
   \<exists>j < length (fragment_groups d xs). x \<in> set (fragment_groups d xs ! j)"
  by (metis (no_types, opaque_lifting) UN_E in_set_conv_nth set_concat)

lemma numbered_other: "x \<notin> set (concat (fragment_groups d xs)) \<Longrightarrow> get_attr a (numbered xs d) x = get_attr a d x"
  by (simp add: sort_fragments_def Let_def number_groups_other del: set_concat)

lemma unsortable:
  "x \<in> set xs \<Longrightarrow> x \<notin> set (concat (fragment_groups d xs)) \<Longrightarrow> fragment_key d x = None \<and> \<not> unnumbered d x"
  by (simp add: set_fragment_groups sortable_def del: set_concat)

lemma numbered_key_in:
  assumes "distinct xs" "length xs < 4294967295" "j < length (fragment_groups d xs)"
    "x \<in> set (fragment_groups d xs ! j)"
  shows "fragment_key (numbered xs d) x = Some j"
proof -
  have "get_attr ''data-fragment-index'' (numbered xs d) x = Some (show_nat j)"
    using number_groups_at [OF distinct_groups [OF assms(1)] assms(3,4), of 0 d]
    by (simp add: sort_fragments_def Let_def)
  moreover have "j < 4294967295" using length_groups [OF assms(1), of d] assms(2,3) by linarith
  ultimately show ?thesis by (simp add: fragment_key_def)
qed

lemma numbered_key_cases:
  assumes "distinct xs" "length xs < 4294967295" "x \<in> set xs"
  obtains j where "j < length (fragment_groups d xs)" "x \<in> set (fragment_groups d xs ! j)"
      "fragment_key (numbered xs d) x = Some j" "sortable d x"
  | "x \<notin> set (concat (fragment_groups d xs))" "fragment_key (numbered xs d) x = None" "\<not> unnumbered (numbered xs d) x"
      "\<not> sortable d x"
proof (cases "x \<in> set (concat (fragment_groups d xs))")
  case True
  then have "sortable d x" by (simp add: set_fragment_groups del: set_concat)
  with True show ?thesis using that(1) in_groups numbered_key_in [OF assms(1,2)] by blast
next
  case False
  note u = unsortable [OF assms(3) False] numbered_other [OF False]
  then have "fragment_key (numbered xs d) x = None" "\<not> unnumbered (numbered xs d) x"
    by (simp_all add: fragment_key_def unnumbered_def)
  with False u show ?thesis using that(2) by (simp add: sortable_def del: set_concat)
qed

lemma numbered_key_iff:
  assumes "distinct xs" "length xs < 4294967295" "x \<in> set xs" "j < length (fragment_groups d xs)"
  shows "fragment_key (numbered xs d) x = Some j \<longleftrightarrow> x \<in> set (fragment_groups d xs ! j)"
proof
  assume k: "fragment_key (numbered xs d) x = Some j"
  show "x \<in> set (fragment_groups d xs ! j)"
    using numbered_key_cases [OF assms(1-3), of d] k by fastforce
qed (rule numbered_key_in [OF assms(1,2,4)])

lemma numbered_keys:
  assumes "distinct xs" "length xs < 4294967295"
  shows "keys_of (numbered xs d) xs = {0..<length (fragment_groups d xs)}"
proof -
  have "k < length (fragment_groups d xs)" if "fragment_key (numbered xs d) x = Some k" "x \<in> set xs" for x k
    using numbered_key_cases [OF assms that(2), of d] that(1) by fastforce
  moreover have "\<exists>x\<in>set xs. fragment_key (numbered xs d) x = Some j" if "j < length (fragment_groups d xs)" for j
  proof
    let ?x = "hd (fragment_groups d xs ! j)"
    have g: "fragment_groups d xs ! j \<in> set (fragment_groups d xs)" using that by (rule nth_mem)
    then have x: "?x \<in> set (fragment_groups d xs ! j)"
      by (intro hd_in_set group_subsequence(2) [OF assms(1)])
    then show "fragment_key (numbered xs d) ?x = Some j" by (rule numbered_key_in [OF assms that])
    show "?x \<in> set xs" using x group_subsequence(1) [OF assms(1) g] by (metis (no_types, lifting) filter_is_subset subsetD)
  qed
  ultimately show ?thesis unfolding keys_of_def by fastforce
qed

lemma numbered_groups:
  assumes "distinct xs" "length xs < 4294967295"
  shows "fragment_groups (numbered xs d) xs = fragment_groups d xs"
proof -
  have "group_for (numbered xs d) xs j = fragment_groups d xs ! j" if "j < length (fragment_groups d xs)" for j
  proof -
    have "group_for (numbered xs d) xs j = filter (\<lambda>x. x \<in> set (fragment_groups d xs ! j)) xs"
      unfolding group_for_def using numbered_key_iff [OF assms _ that] by (intro filter_cong) auto
    then show ?thesis using group_subsequence(1) [OF assms(1), of "fragment_groups d xs ! j" d] that by simp
  qed
  then have "map (group_for (numbered xs d) xs) [0..<length (fragment_groups d xs)] = fragment_groups d xs"
    by (intro nth_equalityI) simp_all
  moreover have "\<not> unnumbered (numbered xs d) x" if "x \<in> set xs" for x
    using numbered_key_cases [OF assms that, of d] by fastforce
  ultimately show ?thesis by (simp add: fragment_groups_eq [of "numbered xs d"] numbered_keys [OF assms])
qed

text \<open>Sorting twice is sorting once.\<close>

lemma sort_fragments_idempotent:
  assumes "distinct xs" "length xs < 4294967295"
  shows "sort_fragments xs (snd (sort_fragments xs d)) = sort_fragments xs d"
proof -
  have "number_groups 0 (fragment_groups d xs) (numbered xs d) = numbered xs d"
    using number_groups_at [OF distinct_groups [OF assms(1)], of _ d _ 0 d]
    by (intro number_groups_same) (simp add: sort_fragments_def Let_def)
  then show ?thesis unfolding sort_fragments_def [of xs "numbered xs d"] Let_def numbered_groups [OF assms]
    by (simp add: sort_fragments_def Let_def)
qed

end
