(* ===== verification/Controls.thy ===== *)
theory Controls
  imports Sample
begin

text \<open>
  \<open>controllers/controls.js\<close>: the state of the navigation arrows and their listeners.
  The handlers of the arrows are in \<open>Handlers\<close>.
\<close>

definition controls_configure :: "reveal \<Rightarrow> reveal" where
  "controls_configure s =
     (let element = controlsEl (refs s) in s\<lparr>doc := set_attr ''data-controls-back-arrows'' (cfg_controlsBackArrows (cfg s)) element
       (set_attr ''data-controls-layout'' (cfg_controlsLayout (cfg s)) element
        (set_style ''display'' (Css (if cfg_controls (cfg s) then ''block'' else ''none'')) element (doc s)))\<rparr>)"

section \<open>Listeners\<close>

definition bind_all :: "string \<Rightarrow> string \<Rightarrow> node list \<Rightarrow> world \<Rightarrow> world" where
  "bind_all ty h xs w = fold (\<lambda>x. addEventListener (LNode x) ty h) xs w"

definition unbind_all :: "string \<Rightarrow> string \<Rightarrow> node list \<Rightarrow> world \<Rightarrow> world" where
  "unbind_all ty h xs w = fold (\<lambda>x. removeEventListener (LNode x) ty h) xs w"

definition controls_bind_type :: "refs \<Rightarrow> string \<Rightarrow> world \<Rightarrow> world" where
  "controls_bind_type r ty w =
     bind_all ty ''onNavigateNextClicked'' (controlsNext r)
      (bind_all ty ''onNavigatePrevClicked'' (controlsPrev r)
       (bind_all ty ''onNavigateDownClicked'' (controlsDown r)
        (bind_all ty ''onNavigateUpClicked'' (controlsUp r)
         (bind_all ty ''onNavigateRightClicked'' (controlsRight r)
          (bind_all ty ''onNavigateLeftClicked'' (controlsLeft r) w)))))"

definition controls_unbind_type :: "refs \<Rightarrow> string \<Rightarrow> world \<Rightarrow> world" where
  "controls_unbind_type r ty w =
     unbind_all ty ''onNavigateNextClicked'' (controlsNext r)
      (unbind_all ty ''onNavigatePrevClicked'' (controlsPrev r)
       (unbind_all ty ''onNavigateDownClicked'' (controlsDown r)
        (unbind_all ty ''onNavigateUpClicked'' (controlsUp r)
         (unbind_all ty ''onNavigateRightClicked'' (controlsRight r)
          (unbind_all ty ''onNavigateLeftClicked'' (controlsLeft r) w)))))"

definition controls_bind :: "host \<Rightarrow> refs \<Rightarrow> world \<Rightarrow> world" where
  "controls_bind h r w =
     fold (controls_bind_type r) (if isAndroid h then [''touchstart''] else [''touchstart'', ''click'']) w"

definition controls_unbind :: "refs \<Rightarrow> world \<Rightarrow> world" where
  "controls_unbind r w = fold (controls_unbind_type r) [''touchstart'', ''click''] w"

section \<open>Updating the arrows\<close>

definition all_controls :: "refs \<Rightarrow> node list" where
  "all_controls r = controlsLeft r @ controlsRight r @ controlsUp r @ controlsDown r @ controlsPrev r @ controlsNext r"

definition disable_control :: "node \<Rightarrow> dom \<Rightarrow> dom" where
  "disable_control x d = set_attr ''disabled'' ''disabled'' x (remove_class ''fragmented'' x (remove_class ''enabled'' x d))"

definition enable_control :: "node \<Rightarrow> dom \<Rightarrow> dom" where
  "enable_control x d = remove_attr ''disabled'' x (add_class ''enabled'' x d)"

definition fragment_control :: "node \<Rightarrow> dom \<Rightarrow> dom" where
  "fragment_control x d = remove_attr ''disabled'' x (add_class ''enabled'' x (add_class ''fragmented'' x d))"

definition when_do :: "bool \<Rightarrow> (dom \<Rightarrow> dom) \<Rightarrow> dom \<Rightarrow> dom" where
  "when_do b f d = (if b then f d else d)"

definition set_highlight :: "bool \<Rightarrow> node \<Rightarrow> dom \<Rightarrow> dom" where
  "set_highlight b x d = (if b then add_class ''highlight'' x d else remove_class ''highlight'' x d)"

definition update_routes :: "refs \<Rightarrow> routes \<Rightarrow> dom \<Rightarrow> dom" where
  "update_routes r rt d =
     when_do (r_right rt \<or> r_down rt) (for_each enable_control (controlsNext r))
      (when_do (r_left rt \<or> r_up rt) (for_each enable_control (controlsPrev r))
       (when_do (r_down rt) (for_each enable_control (controlsDown r))
        (when_do (r_up rt) (for_each enable_control (controlsUp r))
         (when_do (r_right rt) (for_each enable_control (controlsRight r))
          (when_do (r_left rt) (for_each enable_control (controlsLeft r))
           (for_each disable_control (all_controls r) d))))))"

definition update_fragment_routes :: "refs \<Rightarrow> bool \<Rightarrow> froutes \<Rightarrow> dom \<Rightarrow> dom" where
  "update_fragment_routes r vertical fr d =
     (let d1 = when_do (fr_next fr) (for_each fragment_control (controlsNext r))
                 (when_do (fr_prev fr) (for_each fragment_control (controlsPrev r)) d)
      in if vertical then
           when_do (fr_next fr) (for_each fragment_control (controlsDown r))
             (when_do (fr_prev fr) (for_each fragment_control (controlsUp r)) d1)
         else
           when_do (fr_next fr) (for_each fragment_control (controlsRight r))
             (when_do (fr_prev fr) (for_each fragment_control (controlsLeft r)) d1))"

definition update_tutorial :: "reveal \<Rightarrow> routes \<Rightarrow> dom \<Rightarrow> dom" where
  "update_tutorial s rt d =
     (let r = refs s; v0 = js_seq (ix_v (getIndices s None)) (Num 0) in
      if \<not> hasNavigatedVertically s \<and> r_down rt then add_class ''highlight'' (controlsDownArrow r) d
      else
       (let d1 = remove_class ''highlight'' (controlsDownArrow r) d in
        if cfg_rtl (cfg s)
        then set_highlight (\<not> hasNavigatedHorizontally s \<and> r_left rt \<and> v0) (controlsLeftArrow r) d1
        else set_highlight (\<not> hasNavigatedHorizontally s \<and> r_right rt \<and> v0) (controlsRightArrow r) d1))"

definition controls_update :: "reveal \<Rightarrow> reveal" where
  "controls_update s =
     (let r = refs s; rt = availableRoutes False s;
          d1 = update_routes r rt (doc s);
          d2 = (case currentSlide s of
                  None \<Rightarrow> d1
                | Some c \<Rightarrow> update_fragment_routes r (isVerticalSlide (doc s) (Some c)) (fragments_availableRoutes s) d1)
      in s\<lparr>doc := (if cfg_controlsTutorial (cfg s) then update_tutorial s rt d2 else d2)\<rparr>)"

section \<open>The update is quiet\<close>

lemma same_sections_when: "(\<And>d. same_sections w d (f d)) \<Longrightarrow> same_sections w d (when_do b f d)"
  by (simp add: when_do_def)

lemma same_sections_two:
  "same_sections w d (f d) \<Longrightarrow> same_sections w (f d) (g (f d)) \<Longrightarrow> same_sections w d (g (f d))"
  by (rule same_sections_trans)

lemma same_sections_control:
  "same_sections w d (disable_control x d)" "same_sections w d (enable_control x d)"
  "same_sections w d (fragment_control x d)" "same_sections w d (set_highlight b x d)"
proof -
  have e: "page_class ''enabled''" "page_class ''fragmented''" "page_class ''highlight''" by simp_all
  show "same_sections w d (disable_control x d)" unfolding disable_control_def
    by (rule same_sections_trans [OF same_sections_trans [OF same_sections_class(2) [OF e(1)]
      same_sections_class(2) [OF e(2)]] same_sections_attr(1)]) simp
  show "same_sections w d (enable_control x d)" unfolding enable_control_def
    by (rule same_sections_trans [OF same_sections_class(1) [OF e(1)] same_sections_attr(2)]) simp
  show "same_sections w d (fragment_control x d)" unfolding fragment_control_def
    by (rule same_sections_trans [OF same_sections_trans [OF same_sections_class(1) [OF e(2)]
      same_sections_class(1) [OF e(1)]] same_sections_attr(2)]) simp
  show "same_sections w d (set_highlight b x d)"
    using same_sections_class [OF e(3)] by (simp add: set_highlight_def)
qed

lemma same_sections_when_controls:
  "same_sections w d (when_do b (for_each enable_control xs) d)"
  "same_sections w d (when_do b (for_each fragment_control xs) d)"
  "same_sections w d (for_each disable_control xs d)"
  by (intro same_sections_when same_sections_for_each same_sections_control)+

lemma same_sections_update_routes: "same_sections w d (update_routes r rt d)"
  unfolding update_routes_def
  by (intro same_sections_trans [OF _ same_sections_when_controls(1)] same_sections_when_controls(3))

lemma same_sections_update_fragment_routes: "same_sections w d (update_fragment_routes r v fr d)"
  by (simp add: update_fragment_routes_def Let_def same_sections_trans [OF _ same_sections_when_controls(2)]
      same_sections_when_controls(2))

lemma same_sections_update_tutorial: "same_sections w d (update_tutorial s rt d)"
  by (simp add: update_tutorial_def Let_def same_sections_class
      same_sections_trans [OF same_sections_class(2) same_sections_control(4)])

lemma quiet_controls_update: "quiet s (controls_update s)"
proof -
  let ?w = "wrapper (host s)" and ?d = "update_routes (refs s) (availableRoutes False s) (doc s)"
  note a = same_sections_update_routes [of ?w "doc s" "refs s" "availableRoutes False s"]
  have b: "same_sections ?w (doc s) (update_fragment_routes (refs s) v fr ?d)" for v fr
    using a same_sections_update_fragment_routes by (rule same_sections_trans)
  show ?thesis
    unfolding controls_update_def Let_def
    by (rule quiet_doc)
      (simp add: a b same_sections_trans [OF a same_sections_update_tutorial]
        same_sections_trans [OF b same_sections_update_tutorial] split: option.split)
qed

interpretation controls: page_op controls_update
  by unfold_locales (rule quiet_controls_update)

section \<open>What the arrows show\<close>

lemma controls_obs:
  "has_class ''enabled'' (disable_control x d) y = (y \<noteq> x \<and> has_class ''enabled'' d y)"
  "has_class ''enabled'' (enable_control x d) y = (y = x \<or> has_class ''enabled'' d y)"
  "has_class ''enabled'' (fragment_control x d) y = (y = x \<or> has_class ''enabled'' d y)"
  by (auto simp: disable_control_def enable_control_def fragment_control_def)

lemma enabled_for_each:
  "has_class ''enabled'' (for_each disable_control xs d) y = (y \<notin> set xs \<and> has_class ''enabled'' d y)"
  "has_class ''enabled'' (when_do b (for_each enable_control xs) d) y = (b \<and> y \<in> set xs \<or> has_class ''enabled'' d y)"
  "has_class ''enabled'' (when_do b (for_each fragment_control xs) d) y = (b \<and> y \<in> set xs \<or> has_class ''enabled'' d y)"
proof -
  show "has_class ''enabled'' (for_each disable_control xs d) y = (y \<notin> set xs \<and> has_class ''enabled'' d y)"
    by (induction xs arbitrary: d) (auto simp: controls_obs)
  have "has_class ''enabled'' (for_each enable_control xs d) y = (y \<in> set xs \<or> has_class ''enabled'' d y)" for d
    by (induction xs arbitrary: d) (auto simp: controls_obs)
  then show "has_class ''enabled'' (when_do b (for_each enable_control xs) d) y = (b \<and> y \<in> set xs \<or> has_class ''enabled'' d y)"
    by (simp add: when_do_def)
  have "has_class ''enabled'' (for_each fragment_control xs d) y = (y \<in> set xs \<or> has_class ''enabled'' d y)" for d
    by (induction xs arbitrary: d) (auto simp: controls_obs)
  then show "has_class ''enabled'' (when_do b (for_each fragment_control xs) d) y = (b \<and> y \<in> set xs \<or> has_class ''enabled'' d y)"
    by (simp add: when_do_def)
qed

lemma enabled_highlight [simp]: "has_class ''enabled'' (set_highlight b x d) = has_class ''enabled'' d"
  by (auto simp: set_highlight_def fun_eq_iff)

lemma enabled_tutorial: "has_class ''enabled'' (update_tutorial s rt d) = has_class ''enabled'' d"
  by (auto simp: update_tutorial_def Let_def fun_eq_iff)

text \<open>After an update an arrow is enabled exactly when its direction is available: the
  left arrow of a deck whose current slide is not vertical, when there is a slide to the left
  or a fragment to hide.\<close>

lemma left_arrow_enabled:
  assumes "y \<in> set (controlsLeft (refs s))"
    and "y \<notin> set (controlsRight (refs s) @ controlsUp (refs s) @ controlsDown (refs s) @ controlsPrev (refs s) @ controlsNext (refs s))"
    and "currentSlide s = Some c"
  shows "has_class ''enabled'' (doc (controls_update s)) y \<longleftrightarrow>
    r_left (availableRoutes False s) \<or> (\<not> isVerticalSlide (doc s) (Some c) \<and> fr_prev (fragments_availableRoutes s))"
  using assms
  by (auto simp: controls_update_def Let_def enabled_tutorial update_fragment_routes_def update_routes_def
      enabled_for_each all_controls_def)

section \<open>Unbinding\<close>

lemma listeners_bind_all:
  "listeners (bind_all ty h xs w) = listeners w \<union> {(LNode x, ty, h) |x. x \<in> set xs}"
  unfolding bind_all_def by (induction xs arbitrary: w) (auto simp: addEventListener_def)

lemma listeners_unbind_all:
  "listeners (unbind_all ty h xs w) = listeners w - {(LNode x, ty, h) |x. x \<in> set xs}"
  unfolding unbind_all_def by (induction xs arbitrary: w) (auto simp: removeEventListener_def)

text \<open>Unbinding the controls undoes binding them, on every kind of device: no listener of a
  navigation arrow is left that was not there before.\<close>

lemma controls_unbind_undoes_bind:
  "listeners (controls_unbind r (controls_bind h r w)) \<subseteq> listeners w"
  by (auto simp: controls_unbind_def controls_bind_def controls_unbind_type_def controls_bind_type_def
      listeners_bind_all listeners_unbind_all)

end
