(* ===== verification/Location.thy ===== *)
theory Location
  imports Sample
begin

text \<open>
  \<open>controllers/location.js\<close>: from a hash to slide indices and back, and writing the
  hash of the current slide into the URL, at most once a second. \<open>readURL\<close>, which
  navigates, is in \<open>Navigation\<close>.
\<close>

definition location_bind :: "world \<Rightarrow> world" where
  "location_bind = addEventListener LWindow ''hashchange'' ''onWindowHashChange''"

definition location_unbind :: "world \<Rightarrow> world" where
  "location_unbind = removeEventListener LWindow ''hashchange'' ''onWindowHashChange''"

section \<open>Reading a hash\<close>

definition strip_hash :: "string \<Rightarrow> string" where
  "strip_hash h = (case h of
       [] \<Rightarrow> []
     | c # r \<Rightarrow> if c = CHR ''#'' then (case r of d # r' \<Rightarrow> if d = CHR ''/'' then r' else r | [] \<Rightarrow> [])
                else h)"

definition all_digits :: "string \<Rightarrow> bool" where
  "all_digits s = list_all is_digit s"

text \<open>The pattern \<open>/[-0-9]+$\<close>.\<close>

definition has_fragment_suffix :: "string \<Rightarrow> bool" where
  "has_fragment_suffix name =
     (let r = rev name; p = (\<lambda>c. c = CHR ''-'' \<or> is_digit c)
      in takeWhile p r \<noteq> [] \<and> first_opt (dropWhile p r) = Some (CHR ''/''))"

definition getElementById :: "dom \<Rightarrow> string \<Rightarrow> node option" where
  "getElementById d i = first_opt (filter (\<lambda>x. get_attr ''id'' d x = Some i \<and> attached d x) (order d))"

definition nan_to_undef :: "jsnum \<Rightarrow> jsnum" where
  "nan_to_undef a = (case a of NaN \<Rightarrow> Undef | _ \<Rightarrow> a)"

definition bit :: "string list \<Rightarrow> nat \<Rightarrow> jsnum" where
  "bit bits i = (if i < length bits then parseInt (bits ! i) else NaN)"

definition hash_base :: "config \<Rightarrow> jsnum" where
  "hash_base c = Num (if cfg_hashOneBasedIndex c then 1 else 0)"

definition getIndicesFromHash :: "reveal \<Rightarrow> string \<Rightarrow> indices option" where
  "getIndicesFromHash s h =
     (let name = strip_hash h; bits = split_on (CHR ''/'') name in
      if \<not> all_digits (hd bits) \<and> name \<noteq> [] then
        (let suffix = has_fragment_suffix name;
             f = (if suffix then nan_to_undef (parseInt (last bits)) else Undef);
             name' = (if suffix then hd bits else name)
         in case decodeURIComponent name' of
              None \<Rightarrow> None
            | Some i \<Rightarrow>
                (case getElementById (doc s) i of
                   None \<Rightarrow> None
                 | Some el \<Rightarrow> Some (getIndices s (Some el)\<lparr>ix_f := f\<rparr>)))
      else
        Some \<lparr>ix_h = or_zero (js_sub (bit bits 0) (hash_base (cfg s))),
              ix_v = or_zero (js_sub (bit bits 1) (hash_base (cfg s))),
              ix_f = (if cfg_fragmentInURL (cfg s) then nan_to_undef (bit bits 2) else Undef)\<rparr>)"

section \<open>Writing the hash\<close>

definition slide_id :: "reveal \<Rightarrow> node option \<Rightarrow> string" where
  "slide_id s x = (case (case x of None \<Rightarrow> currentSlide s | Some y \<Rightarrow> Some y) of
       None \<Rightarrow> []
     | Some n \<Rightarrow> (case get_attr ''id'' (doc s) n of None \<Rightarrow> [] | Some i \<Rightarrow> encodeURIComponent i))"

definition getHash :: "reveal \<Rightarrow> node option \<Rightarrow> string" where
  "getHash s x =
     (let i = slide_id s x; ix = getIndices s x; base = hash_base (cfg s);
          h = ix_h ix; v = ix_v ix; f = (if cfg_fragmentInURL (cfg s) then ix_f ix else Undef);
          hasf = js_ge f (Num 0)
      in if i \<noteq> [] then ''/'' @ i @ (if hasf then ''/'' @ show_num f else [])
         else ''/'' @
           (if js_gt h (Num 0) \<or> js_gt v (Num 0) \<or> hasf then show_num (js_add h base) else []) @
           (if js_gt v (Num 0) \<or> hasf then ''/'' @ show_num (js_add v base) else []) @
           (if hasf then ''/'' @ show_num f else []))"

text \<open>A URL given to the history API is either a hash or the page's address without one.\<close>

definition set_url :: "string \<Rightarrow> world \<Rightarrow> world" where
  "set_url url w = w\<lparr>hash := (if starts_with ''#'' url then url else [])\<rparr>"

definition replaceState :: "string \<Rightarrow> reveal \<Rightarrow> reveal" where
  "replaceState url s =
     s\<lparr>world := set_url url (world s), replaceStateTimestamp := now (world s)\<rparr>"

definition MAX_REPLACE_STATE_FREQUENCY :: int where
  "MAX_REPLACE_STATE_FREQUENCY = 1000"

definition debouncedReplaceState :: "string \<Rightarrow> reveal \<Rightarrow> reveal" where
  "debouncedReplaceState url s =
     (let w = clearTimeout (replaceStateTimeout s) (world s) in
      if MAX_REPLACE_STATE_FREQUENCY < now w - replaceStateTimestamp s
      then replaceState url (s\<lparr>world := w\<rparr>)
      else (let (i, w') = setTimeout (TReplaceState url) MAX_REPLACE_STATE_FREQUENCY w
            in s\<lparr>world := w', replaceStateTimeout := i\<rparr>))"

text \<open>Assigning \<open>location.hash\<close> adds an entry to the history unless nothing changes.\<close>

definition assign_hash :: "string \<Rightarrow> world \<Rightarrow> world" where
  "assign_hash h w = (if hash w = ''#'' @ h then w else w\<lparr>hash := ''#'' @ h, historyLen := Suc (historyLen w)\<rparr>)"

definition writeURL :: "int option \<Rightarrow> reveal \<Rightarrow> reveal" where
  "writeURL delay s =
     (let s1 = s\<lparr>world := clearTimeout (writeURLTimeout s) (world s)\<rparr> in
      case delay of
        Some t \<Rightarrow> (let (i, w) = setTimeout TWriteURL t (world s1) in s1\<lparr>world := w, writeURLTimeout := i\<rparr>)
      | None \<Rightarrow>
         (if currentSlide s1 = None then s1
          else
           (let h = getHash s1 None in
            if cfg_history (cfg s1) then s1\<lparr>world := assign_hash h (world s1)\<rparr>
            else if cfg_hash (cfg s1) then
              debouncedReplaceState (if h = ''/'' then pathsearch (world s1) else ''#'' @ h) s1
            else s1)))"

section \<open>The URL writer leaves the deck alone\<close>

lemma world_url_frame [simp]:
  "timers (set_url u w) = timers w" "nextTimer (set_url u w) = nextTimer w"
  "timers (assign_hash u w) = timers w" "nextTimer (assign_hash u w) = nextTimer w"
  by (simp_all add: set_url_def assign_hash_def)

lemma nextTimer_clear [simp]: "nextTimer (clearTimeout i w) = nextTimer w"
  by (simp add: clearTimeout_def)

lemma quiet_clear:
  assumes "i = writeURLTimeout s \<or> i = replaceStateTimeout s"
  shows "quiet_timer s (s\<lparr>world := clearTimeout i (world s)\<rparr>)"
  unfolding quiet_timer_def
proof
  assume ok: "timers_ok s"
  then have "same_timers (world s) (clearTimeout i (world s))"
    using assms by (intro same_timers_clear) (auto simp: timers_ok_def)
  then show "timers_ok (s\<lparr>world := clearTimeout i (world s)\<rparr>) \<and>
      timers_of TAutoSlide (world (s\<lparr>world := clearTimeout i (world s)\<rparr>)) = timers_of TAutoSlide (world s) \<and>
      nextTimer (world s) \<le> nextTimer (world (s\<lparr>world := clearTimeout i (world s)\<rparr>))"
    using ok by (auto simp: timers_ok_def same_timers_def)
qed

lemma quiet_set:
  assumes "page_call c" "setTimeout c dl (world s) = (i, w)"
  shows "quiet_timer s (s\<lparr>world := w, replaceStateTimeout := i\<rparr>)"
proof -
  have w: "w = snd (setTimeout c dl (world s))" by (simp add: assms(2))
  have i: "i = nextTimer (world s)" using assms(2) by (simp add: setTimeout_def)
  have n: "nextTimer w = nextTimer (world s) + 1" by (simp add: w setTimeout_def)
  have "same_timers (world s) w" unfolding w by (rule same_timers_set [OF assms(1)])
  moreover have "tid t < nextTimer (world s)" if "wf_timers (world s)" "t \<in> set (timers_of TAutoSlide (world s))" for t
    using that by (auto simp: wf_timers_def timers_of_def)
  ultimately show ?thesis
    by (fastforce simp: quiet_timer_def timers_ok_def same_timers_def n i)
qed

lemma same_nav_url [simp]:
  "same_nav s (s\<lparr>world := w, replaceStateTimeout := i\<rparr>)" "same_nav s (s\<lparr>world := w, writeURLTimeout := i\<rparr>)"
  "same_nav s (s\<lparr>world := w, replaceStateTimestamp := i\<rparr>)"
  by (simp_all add: same_nav_def)

lemma quiet_replaceState: "quiet s (replaceState url s)"
  by (simp add: quiet_def replaceState_def quiet_timer_world same_timers_cong same_sections_quiet)

lemma quiet_clear_url:
  "quiet s (s\<lparr>world := clearTimeout (replaceStateTimeout s) (world s)\<rparr>)"
  "quiet s (s\<lparr>world := clearTimeout (writeURLTimeout s) (world s)\<rparr>)"
  by (simp_all add: quiet_def quiet_clear same_sections_quiet)

lemma quiet_debouncedReplaceState: "quiet s (debouncedReplaceState url s)"
proof -
  let ?s = "s\<lparr>world := clearTimeout (replaceStateTimeout s) (world s)\<rparr>"
  obtain i w where t: "setTimeout (TReplaceState url) MAX_REPLACE_STATE_FREQUENCY (world ?s) = (i, w)" by fastforce
  have "quiet ?s (?s\<lparr>world := w, replaceStateTimeout := i\<rparr>)"
    using quiet_set [OF _ t] by (simp add: quiet_def same_nav_def same_sections_quiet)
  then have "quiet s (?s\<lparr>world := w, replaceStateTimeout := i\<rparr>)" by (rule quiet_trans [OF quiet_clear_url(1)])
  moreover have "quiet s (replaceState url ?s)" by (rule quiet_trans [OF quiet_clear_url(1) quiet_replaceState])
  ultimately show ?thesis using t by (simp add: debouncedReplaceState_def Let_def)
qed

text \<open>No caller asks for a delay, which is as well: the delayed call loses its receiver.\<close>

lemma quiet_writeURL: "quiet s (writeURL None s)"
proof -
  let ?s = "s\<lparr>world := clearTimeout (writeURLTimeout s) (world s)\<rparr>"
  have s: "quiet s ?s" by (rule quiet_clear_url)
  have "quiet ?s (?s\<lparr>world := assign_hash h (world ?s)\<rparr>)" for h
    by (intro quiet_world same_timers_cong) simp_all
  then have "quiet s (?s\<lparr>world := assign_hash h (world ?s)\<rparr>)" for h using s quiet_trans by blast
  moreover have "quiet s (debouncedReplaceState u ?s)" for u by (rule quiet_trans [OF s quiet_debouncedReplaceState])
  ultimately show ?thesis using s by (simp add: writeURL_def Let_def)
qed

interpretation url_writer: page_op "writeURL None"
  by unfold_locales (rule quiet_writeURL)

section \<open>Hashes lead back to their slide\<close>

lemma strip_hash_path [simp]: "strip_hash (CHR ''#'' # CHR ''/'' # r) = r"
  by (simp add: strip_hash_def)

lemma all_digits_show [simp]: "all_digits (show_nat n)"
  using show_nat_digits by (auto simp: all_digits_def list_all_iff)

lemma split_show [simp]:
  "split_on (CHR ''/'') (show_nat a) = [show_nat a]"
  "split_on (CHR ''/'') (show_nat a @ CHR ''/'' # t) = show_nat a # split_on (CHR ''/'') t"
  by (simp_all add: split_on_append)

lemma show_int_nonneg: "0 \<le> i \<Longrightarrow> show_int i = show_nat (nat i)"
  by (simp add: show_int_def)

lemma bit_simps:
  "bit [] i = NaN" "bit (b # bs) 0 = parseInt b" "bit (b # bs) (Suc 0) = bit bs 0" "bit (b # bs) 2 = bit bs (Suc 0)"
  by (simp_all add: bit_def numeral_2_eq_2)

definition hash_f :: "reveal \<Rightarrow> jsnum" where
  "hash_f s = (if cfg_fragmentInURL (cfg s) \<and> js_ge (ix_f (getIndices s None)) (Num 0)
     then ix_f (getIndices s None) else Undef)"

lemma hash_f_cases:
  obtains "js_ge (if cfg_fragmentInURL (cfg s) then ix_f (getIndices s None) else Undef) (Num 0) = False" "hash_f s = Undef"
  | n where "cfg_fragmentInURL (cfg s)" "ix_f (getIndices s None) = Num (int n)" "hash_f s = Num (int n)"
proof (cases "cfg_fragmentInURL (cfg s) \<and> js_ge (ix_f (getIndices s None)) (Num 0)")
  case True
  then obtain k where "ix_f (getIndices s None) = Num k" "0 \<le> k" by (auto simp: js_ge_Num_iff)
  with True show ?thesis using that(2) [of "nat k"] by (simp add: hash_f_def)
next
  case False
  then show ?thesis using that(1) by (cases "cfg_fragmentInURL (cfg s)") (auto simp: hash_f_def)
qed

lemma getIndices_None: "getIndices s None = \<lparr>ix_h = indexh s, ix_v = indexv s,
    ix_f = (case currentSlide s of Some c \<Rightarrow> current_f s c | None \<Rightarrow> Undef)\<rparr>"
  by (simp add: getIndices_def)

text \<open>C8: Reading back the hash the deck writes for a slide without an id gives the deck's
  indices, and its fragment where the hash carries one, for either index base.\<close>

theorem hash_round_trip:
  assumes "slide_id s None = []" "indexh s = Num (int h)" "indexv s = Num (int v)"
  shows "getIndicesFromHash s (''#'' @ getHash s None) =
    Some \<lparr>ix_h = Num (int h), ix_v = Num (int v), ix_f = hash_f s\<rparr>"
proof -
  define b where "b = (if cfg_hashOneBasedIndex (cfg s) then 1 else 0 :: nat)"
  have base: "hash_base (cfg s) = Num (int b)" by (simp add: hash_base_def b_def)
  have ix: "ix_h (getIndices s None) = Num (int h)" "ix_v (getIndices s None) = Num (int v)"
    by (simp_all add: getIndices_None assms)
  have add: "nat (int x + int b) = x + b" for x by simp
  show ?thesis
  proof (cases rule: hash_f_cases [of s])
    case 1
    consider "v \<noteq> 0" | "v = 0" "h \<noteq> 0" | "v = 0" "h = 0" by blast
    then show ?thesis
    proof cases
      case 1
      then have "getHash s None = ''/'' @ show_nat (h + b) @ ''/'' @ show_nat (v + b)"
        using \<open>js_ge _ _ = False\<close> by (simp add: getHash_def Let_def assms ix base show_int_nonneg add)
      then show ?thesis
        by (simp add: getIndicesFromHash_def Let_def base bit_simps \<open>hash_f s = Undef\<close> nan_to_undef_def)
    next
      case 2
      then have "getHash s None = ''/'' @ show_nat (h + b)"
        using \<open>js_ge _ _ = False\<close> by (simp add: getHash_def Let_def assms ix base show_int_nonneg add)
      then show ?thesis using 2
        by (simp add: getIndicesFromHash_def Let_def base bit_simps \<open>hash_f s = Undef\<close> nan_to_undef_def)
    next
      case 3
      then have "getHash s None = ''/''"
        using \<open>js_ge _ _ = False\<close> by (simp add: getHash_def Let_def assms ix base)
      then show ?thesis using 3
        by (simp add: getIndicesFromHash_def Let_def base bit_simps \<open>hash_f s = Undef\<close> nan_to_undef_def all_digits_def)
    qed
  next
    case (2 n)
    then have "getHash s None = ''/'' @ show_nat (h + b) @ ''/'' @ show_nat (v + b) @ ''/'' @ show_nat n"
      by (simp add: getHash_def Let_def assms ix base show_int_nonneg add)
    then show ?thesis using 2
      by (simp add: getIndicesFromHash_def Let_def base bit_simps nan_to_undef_def)
  qed
qed

theorem hash_round_trip_witness:
  "getIndicesFromHash (sample_at 1 1 7) (''#'' @ getHash (sample_at 1 1 7) None) =
    Some \<lparr>ix_h = Num 1, ix_v = Num 1, ix_f = Undef\<rparr>"
proof -
  have "slide_id (sample_at 1 1 7) None = []" by code_simp
  moreover have "hash_f (sample_at 1 1 7) = Undef" by code_simp
  ultimately show ?thesis using hash_round_trip [of "sample_at 1 1 7" 1 1] by (simp add: sample_at_def)
qed

lemma no_suffix: "CHR ''/'' \<notin> set e \<Longrightarrow> \<not> has_fragment_suffix e"
proof -
  assume e: "CHR ''/'' \<notin> set e"
  have "first_opt (dropWhile p (rev e)) \<noteq> Some (CHR ''/'')" for p
  proof
    assume "first_opt (dropWhile p (rev e)) = Some (CHR ''/'')"
    then have "CHR ''/'' \<in> set (dropWhile p (rev e))" by (cases "dropWhile p (rev e)") auto
    then show False using e by (auto dest: set_dropWhileD)
  qed
  then show ?thesis by (simp add: has_fragment_suffix_def Let_def)
qed

lemma suffix_show: "has_fragment_suffix (e @ CHR ''/'' # show_nat n)"
proof -
  let ?p = "\<lambda>c. c = CHR ''-'' \<or> is_digit c"
  have d: "\<forall>c\<in>set (rev (show_nat n)). ?p c" using show_nat_digits by auto
  have slash: "\<not> ?p (CHR ''/'')" by (simp add: is_digit_def)
  have "takeWhile ?p (rev (show_nat n) @ CHR ''/'' # rev e) = rev (show_nat n)"
    using d slash by (subst takeWhile_append2) auto
  moreover have "dropWhile ?p (rev (show_nat n) @ CHR ''/'' # rev e) = CHR ''/'' # rev e"
    using d slash by (subst dropWhile_append2) auto
  ultimately show ?thesis by (simp add: has_fragment_suffix_def Let_def)
qed

text \<open>C26: For a slide with an id the hash is the encoded id, and reading it back finds the
  slide. An id made of digits only is taken for an index, hence the last hypothesis.\<close>

theorem named_hash_round_trip:
  assumes "currentSlide s = Some c" "get_attr ''id'' (doc s) c = Some i" "i \<noteq> []"
    "getElementById (doc s) i = Some c" "\<not> all_digits (encodeURIComponent i)"
  shows "getIndicesFromHash s (''#'' @ getHash s None) = Some (getIndices s (Some c)\<lparr>ix_f := hash_f s\<rparr>)"
proof -
  let ?e = "encodeURIComponent i"
  have i: "slide_id s None = ?e" "?e \<noteq> []" using assms by (auto simp: slide_id_def all_digits_def)
  have slash: "CHR ''/'' \<notin> set ?e" by (rule encode_no_slash)
  show ?thesis
  proof (cases rule: hash_f_cases [of s])
    case 1
    then have "getHash s None = ''/'' @ ?e" using i by (simp add: getHash_def Let_def)
    then show ?thesis using assms i 1 slash
      by (simp add: getIndicesFromHash_def Let_def no_suffix decode_encode)
  next
    case (2 n)
    then have "getHash s None = ''/'' @ ?e @ ''/'' @ show_nat n" using i
      by (simp add: getHash_def Let_def show_int_nonneg)
    then show ?thesis using assms i 2 slash suffix_show [of ?e n]
      by (simp add: getIndicesFromHash_def Let_def split_on_append decode_encode nan_to_undef_def)
  qed
qed

theorem named_hash_round_trip_witness:
  "getIndicesFromHash (sample_at 2 0 8) (''#'' @ getHash (sample_at 2 0 8) None) =
    Some (getIndices (sample_at 2 0 8) (Some 8)\<lparr>ix_f := hash_f (sample_at 2 0 8)\<rparr>)"
proof (rule named_hash_round_trip)
  show "getElementById (doc (sample_at 2 0 8)) ''last slide'' = Some 8" by code_simp
  show "\<not> all_digits (encodeURIComponent ''last slide'')" by code_simp
qed code_simp+

end
