(* ===== verification/Fragments.thy ===== *)
theory Fragments
  imports FragmentSort Controls Progress Location
begin

text \<open>
  \<open>controllers/fragments.js\<close> apart from \<open>sort\<close>: enabling and disabling
  fragments, showing the fragments up to an index, and stepping through them.
\<close>

definition show_fragment :: "node \<Rightarrow> dom \<Rightarrow> dom" where
  "show_fragment x d = remove_class ''current-fragment'' x (add_class ''visible'' x d)"

definition hide_fragment :: "node \<Rightarrow> dom \<Rightarrow> dom" where
  "hide_fragment x d = remove_class ''current-fragment'' x (remove_class ''visible'' x d)"

definition fragments_disable :: "reveal \<Rightarrow> reveal" where
  "fragments_disable s = s\<lparr>doc := for_each show_fragment (fragments_of (doc s) (slidesEl (host s))) (doc s)\<rparr>"

definition fragments_enable :: "reveal \<Rightarrow> reveal" where
  "fragments_enable s = s\<lparr>doc := for_each hide_fragment (fragments_of (doc s) (slidesEl (host s))) (doc s)\<rparr>"

definition fragments_configure :: "config \<Rightarrow> reveal \<Rightarrow> reveal" where
  "fragments_configure oldConfig s =
     (if \<not> cfg_fragments (cfg s) then fragments_disable s
      else if \<not> cfg_fragments oldConfig then fragments_enable s else s)"

section \<open>Sorting\<close>

definition sort_slide :: "node \<Rightarrow> dom \<Rightarrow> dom" where
  "sort_slide x d = snd (sort_fragments (fragments_of d x) d)"

definition sortAll :: "reveal \<Rightarrow> reveal" where
  "sortAll s = s\<lparr>doc := for_each (\<lambda>h d.
       (let vs = verticals d h in if vs = [] then sort_slide h d else for_each sort_slide vs d))
     (getHorizontalSlides s) (doc s)\<rparr>"

definition fragments_sync :: "node \<Rightarrow> reveal \<Rightarrow> node list \<times> reveal" where
  "fragments_sync x s =
     (let (fs, d) = sort_fragments (fragments_of (doc s) x) (doc s) in (fs, s\<lparr>doc := d\<rparr>))"

section \<open>Updating\<close>

record changed =
  ch_shown :: "node list"
  ch_hidden :: "node list"
  ch_max :: jsnum

text \<open>The index of a fragment: its attribute, else its place in the list.\<close>

definition fragment_index :: "dom \<Rightarrow> nat \<Rightarrow> node \<Rightarrow> jsnum" where
  "fragment_index d i el = (case get_attr ''data-fragment-index'' d el of
       Some v \<Rightarrow> parseInt v | None \<Rightarrow> Num (int i))"

definition reveal_fragment :: "bool \<Rightarrow> node \<Rightarrow> reveal \<Rightarrow> reveal" where
  "reveal_fragment current el s =
     (let s1 = s\<lparr>doc := show_fragment el (doc s)\<rparr> in
      if current then
       (let s2 = announceStatus (getStatusText (host s1) (doc s1) el) s1;
            s3 = s2\<lparr>doc := add_class ''current-fragment'' el (doc s2)\<rparr>
        in on_page (startEmbeddedContent (cfg s3) (host s3) (Some el)) s3)
      else s1)"

definition update_step :: "jsnum \<Rightarrow> nat \<times> node \<Rightarrow> changed \<times> reveal \<Rightarrow> changed \<times> reveal" where
  "update_step index e a =
     (let (c, s) = a; (k, el) = e;
          i = fragment_index (doc s) k el;
          c1 = c\<lparr>ch_max := js_max (ch_max c) i\<rparr>;
          wasVisible = has_class ''visible'' (doc s) el
      in if js_le i index then
          (let s1 = reveal_fragment (js_seq i index) el s in
           if \<not> wasVisible then (c1\<lparr>ch_shown := ch_shown c1 @ [el]\<rparr>, dispatchEvent (Ev ''visible'' el) s1)
           else (c1, s1))
         else
          (let s1 = s\<lparr>doc := hide_fragment el (doc s)\<rparr> in
           if wasVisible then
             (c1\<lparr>ch_hidden := ch_hidden c1 @ [el]\<rparr>,
              dispatchEvent (Ev ''hidden'' el) (on_page (stopEmbeddedContent (Some el) True) s1))
           else (c1, s1)))"

definition update_list :: "jsnum \<Rightarrow> node list \<Rightarrow> reveal \<Rightarrow> changed \<times> reveal" where
  "update_list index fs s =
     fold (update_step index) (enumerate 0 fs) (\<lparr>ch_shown = [], ch_hidden = [], ch_max = Num 0\<rparr>, s)"

text \<open>The index of the last of some fragments, after sorting (and numbering) them.\<close>

definition last_index :: "node list \<Rightarrow> dom \<Rightarrow> jsnum option \<times> dom" where
  "last_index fs d =
     (let (sorted, d1) = sort_fragments fs d in
      (case last_opt sorted of
         None \<Rightarrow> None
       | Some x \<Rightarrow> Some (case get_attr ''data-fragment-index'' d1 x of
           Some v \<Rightarrow> if v = [] then Num 0 else parseInt v | None \<Rightarrow> Num 0), d1))"

definition no_change :: changed where
  "no_change = \<lparr>ch_shown = [], ch_hidden = [], ch_max = Num 0\<rparr>"

definition update_fragments :: "node list option \<Rightarrow> node \<Rightarrow> reveal \<Rightarrow> node list \<times> reveal" where
  "update_fragments fragments c s = (case fragments of Some l \<Rightarrow> (l, s) | None \<Rightarrow> fragments_sync c s)"

definition update_index :: "jsnum \<Rightarrow> node \<Rightarrow> reveal \<Rightarrow> jsnum \<times> reveal" where
  "update_index index c s =
     (if is_number index then (index, s)
      else (let (i, d) = last_index (queryAll (doc s) c (visible_fragment (doc s))) (doc s)
            in (case i of Some k \<Rightarrow> k | None \<Rightarrow> index, s\<lparr>doc := d\<rparr>)))"

definition write_fragment_index :: "jsnum \<Rightarrow> jsnum \<Rightarrow> node \<Rightarrow> reveal \<Rightarrow> reveal" where
  "write_fragment_index index maxIndex c s =
     (let i = (if is_number index then index else Num (-1))
      in s\<lparr>doc := set_attr ''data-fragment'' (show_num (js_max (js_min i maxIndex) (Num (-1)))) c (doc s)\<rparr>)"

definition fragments_update :: "jsnum \<Rightarrow> node list option \<Rightarrow> reveal \<Rightarrow> changed \<times> reveal" where
  "fragments_update index fragments s =
     (case currentSlide s of
        Some c \<Rightarrow>
          if cfg_fragments (cfg s) then
           (let (fs, s1) = update_fragments fragments c s in
            if fs \<noteq> [] then
             (let (i, s2) = update_index index c s1; (ch, s3) = update_list i fs s2
              in (ch, write_fragment_index i (ch_max ch) c s3))
            else (no_change, s1))
          else (no_change, s)
      | None \<Rightarrow> (no_change, s))"

section \<open>Going to a fragment\<close>

definition goto_index :: "jsnum \<Rightarrow> node \<Rightarrow> reveal \<Rightarrow> jsnum \<times> reveal" where
  "goto_index index c s =
     (if is_number index then (index, s)
      else (let (i, d) = last_index (queryAll (doc s) c (\<lambda>x. enabled_fragment (doc s) x \<and> has_class ''visible'' (doc s) x)) (doc s)
            in (case i of Some k \<Rightarrow> k | None \<Rightarrow> Num (-1), s\<lparr>doc := d\<rparr>)))"

definition dispatch_changed :: "string \<Rightarrow> node list \<Rightarrow> reveal \<Rightarrow> reveal" where
  "dispatch_changed ty fs s = (if fs \<noteq> [] then dispatchEvent (EvFragments ty fs) s else s)"

definition goto_finish :: "reveal \<Rightarrow> reveal" where
  "goto_finish s =
     (let s1 = progress_update (controls_update s)
      in if cfg_fragmentInURL (cfg s1) then writeURL None s1 else s1)"

definition goto :: "jsnum \<Rightarrow> jsnum \<Rightarrow> reveal \<Rightarrow> bool \<times> reveal" where
  "goto index offset s =
     (case currentSlide s of
        Some c \<Rightarrow>
          if cfg_fragments (cfg s) then
           (let (fs, d) = sort_fragments (queryAll (doc s) c (enabled_fragment (doc s))) (doc s); s1 = s\<lparr>doc := d\<rparr> in
            if fs \<noteq> [] then
             (let (i, s2) = goto_index index c s1;
                  (ch, s3) = fragments_update (js_add i offset) (Some fs) s2;
                  s4 = dispatch_changed ''fragmentshown'' (ch_shown ch)
                         (dispatch_changed ''fragmenthidden'' (ch_hidden ch) s3)
              in (ch_shown ch \<noteq> [] \<or> ch_hidden ch \<noteq> [], goto_finish s4))
            else (False, s1))
          else (False, s)
      | None \<Rightarrow> (False, s))"

definition fragments_next :: "reveal \<Rightarrow> bool \<times> reveal" where
  "fragments_next s = goto Undef (Num 1) s"

definition fragments_prev :: "reveal \<Rightarrow> bool \<times> reveal" where
  "fragments_prev s = goto Undef (Num (-1)) s"

section \<open>Stepping through fragments is quiet\<close>

lemma same_sections_fragment:
  "same_sections w d (show_fragment x d)" "same_sections w d (hide_fragment x d)"
proof -
  have v: "page_class ''visible''" and c: "page_class ''current-fragment''" by simp_all
  show "same_sections w d (show_fragment x d)" "same_sections w d (hide_fragment x d)"
    unfolding show_fragment_def hide_fragment_def
    by (rule same_sections_trans [OF same_sections_class(1) [OF v] same_sections_class(2) [OF c]],
        rule same_sections_trans [OF same_sections_class(2) [OF v] same_sections_class(2) [OF c]])
qed

lemma same_sections_sort: "same_sections w d (snd (sort_fragments fs d))"
  by (rule same_sections_cong) (simp_all add: sort_fragments_def Let_def number_groups_frame number_groups_attr)

lemma quiet_sort: "quiet s (s\<lparr>doc := snd (sort_fragments fs (doc s))\<rparr>)"
  by (rule quiet_doc) (rule same_sections_sort)

lemma quiet_fragments_sync: "quiet s (snd (fragments_sync c s))"
  by (simp add: fragments_sync_def split_beta quiet_sort)

lemma quiet_announce: "quiet s (announceStatus v s)"
  by (simp add: announceStatus_def quiet_doc)

lemma quiet_reveal_fragment: "quiet s (reveal_fragment b el s)"
proof -
  define s1 where "s1 = s\<lparr>doc := show_fragment el (doc s)\<rparr>"
  define s2 where "s2 = announceStatus (getStatusText (host s1) (doc s1) el) s1"
  have 1: "quiet s s1" unfolding s1_def by (rule quiet_doc) (rule same_sections_fragment)
  then have "quiet s s2" unfolding s2_def using quiet_announce by (rule quiet_trans)
  then have "quiet s (s2\<lparr>doc := add_class ''current-fragment'' el (doc s2)\<rparr>)"
    by (rule quiet_then) (simp add: same_sections_class)
  then have "quiet s (on_page (startEmbeddedContent c h (Some el)) (s2\<lparr>doc := add_class ''current-fragment'' el (doc s2)\<rparr>))" for c h
    by (rule quiet_then) (rule page_ok_startEmbeddedContent)
  with 1 show ?thesis
    unfolding reveal_fragment_def Let_def s1_def [symmetric] s2_def [symmetric] by simp
qed

lemma quiet_update_step: "quiet (snd a) (snd (update_step index e a))"
proof -
  obtain c s where a: "a = (c, s)" by (cases a)
  obtain k el where e: "e = (k, el)" by (cases e)
  have hide: "quiet s (s\<lparr>doc := hide_fragment el (doc s)\<rparr>)" by (rule quiet_doc) (rule same_sections_fragment)
  have stop: "quiet s (on_page (stopEmbeddedContent (Some el) True) s)" for s
    by (rule quiet_on_page) (rule page_ok_stopEmbeddedContent)
  show ?thesis
    by (simp add: update_step_def a e Let_def quiet_reveal_fragment quiet_trans [OF quiet_reveal_fragment quiet_dispatch]
        hide quiet_trans [OF hide quiet_trans [OF stop quiet_dispatch]])
qed

lemma quiet_update_list: "quiet s (snd (update_list index fs s))"
proof -
  have "quiet (snd a) (snd (fold (update_step index) es a))" for es a
  proof (induction es arbitrary: a)
    case (Cons e es)
    show ?case using quiet_trans [OF quiet_update_step Cons.IH] by simp
  qed simp
  from this [of "(no_change, s)"] show ?thesis by (simp add: update_list_def no_change_def)
qed

lemma snd_last_index [simp]: "snd (last_index fs d) = snd (sort_fragments fs d)"
  by (simp add: last_index_def split: prod.split)

lemma snd_update_index: "snd (update_index index c s) =
    (if is_number index then s else s\<lparr>doc := snd (sort_fragments (queryAll (doc s) c (visible_fragment (doc s))) (doc s))\<rparr>)"
  by (simp add: update_index_def split_beta)

lemma snd_goto_index: "snd (goto_index index c s) =
    (if is_number index then s else s\<lparr>doc := snd (sort_fragments
       (queryAll (doc s) c (\<lambda>x. enabled_fragment (doc s) x \<and> has_class ''visible'' (doc s) x)) (doc s))\<rparr>)"
  by (simp add: goto_index_def split_beta)

lemma quiet_update_index: "quiet s (snd (update_index index c s))"
  by (simp add: snd_update_index quiet_sort)

lemma quiet_goto_index: "quiet s (snd (goto_index index c s))"
  by (simp add: snd_goto_index quiet_sort)

lemma quiet_write_index: "quiet s (write_fragment_index i m c s)"
  by (simp add: write_fragment_index_def Let_def quiet_doc)

lemma quiet_update_fragments: "quiet s (snd (update_fragments fragments c s))"
  by (simp add: update_fragments_def quiet_fragments_sync split: option.split)

lemma quiet_fragments_update: "quiet s (snd (fragments_update index fragments s))"
proof (cases "currentSlide s")
  case (Some c)
  obtain fs s1 where 1: "update_fragments fragments c s = (fs, s1)" by fastforce
  obtain i s2 where 2: "update_index index c s1 = (i, s2)" by fastforce
  obtain ch s3 where 3: "update_list i fs s2 = (ch, s3)" by fastforce
  have q1: "quiet s s1" using quiet_update_fragments [of s fragments c] 1 by simp
  have q2: "quiet s1 s2" using quiet_update_index [of s1 index c] 2 by simp
  have q3: "quiet s2 s3" using quiet_update_list [of s2 i fs] 3 by simp
  have "quiet s (write_fragment_index i (ch_max ch) c s3)"
    by (rule quiet_trans [OF q1 quiet_trans [OF q2 quiet_trans [OF q3 quiet_write_index]]])
  with q1 show ?thesis by (simp add: fragments_update_def Some 1 2 3 Let_def)
qed (simp add: fragments_update_def)

lemma quiet_goto_finish: "quiet s (goto_finish s)"
  unfolding goto_finish_def Let_def
  by (simp add: controls.after progress.after url_writer.after)

lemma quiet_dispatch_changed: "quiet s (dispatch_changed ty fs s)"
  by (simp add: dispatch_changed_def)

lemma quiet_goto: "quiet s (snd (goto index offset s))"
proof (cases "currentSlide s")
  case (Some c)
  obtain fs d where 1: "sort_fragments (queryAll (doc s) c (enabled_fragment (doc s))) (doc s) = (fs, d)" by fastforce
  let ?s1 = "s\<lparr>doc := d\<rparr>"
  obtain i s2 where 2: "goto_index index c ?s1 = (i, s2)" by fastforce
  obtain ch s3 where 3: "fragments_update (js_add i offset) (Some fs) s2 = (ch, s3)" by fastforce
  have q1: "quiet s ?s1" using quiet_sort [of s "queryAll (doc s) c (enabled_fragment (doc s))"] 1 by simp
  have q2: "quiet ?s1 s2" using quiet_goto_index [of ?s1 index c] 2 by simp
  have q3: "quiet s2 s3" using quiet_fragments_update [of s2 "js_add i offset" "Some fs"] 3 by simp
  have "quiet s (goto_finish (dispatch_changed a xs (dispatch_changed b ys s3)))" for a xs b ys
    by (rule quiet_trans [OF q1 quiet_trans [OF q2 quiet_trans [OF q3 quiet_trans [OF quiet_dispatch_changed
      quiet_trans [OF quiet_dispatch_changed quiet_goto_finish]]]]])
  with q1 show ?thesis by (simp add: goto_def Some 1 2 3 Let_def)
qed (simp add: goto_def)

interpretation fragment_goto: page_op "\<lambda>s. snd (goto index offset s)"
  by unfold_locales (rule quiet_goto)

interpretation fragment_update: page_op "\<lambda>s. snd (fragments_update index fragments s)"
  by unfold_locales (rule quiet_fragments_update)

end
