(* ===== verification/FragmentSteps.thy ===== *)
theory FragmentSteps
  imports Fragments
begin

text \<open>
  What stepping through fragments does to the fragments: an update shows those up to an index
  and hides the rest, and reports exactly the ones that changed; on a slide whose fragments are
  numbered, a step forward shows one more group.
\<close>

section \<open>Media playback does not touch fragments\<close>

definition frag_attr :: "dom \<Rightarrow> node \<Rightarrow> string option" where
  "frag_attr d = get_attr ''data-fragment-index'' d"

definition same_frags :: "dom \<Rightarrow> dom \<Rightarrow> bool" where
  "same_frags d d' = (cls d' = cls d \<and> frag_attr d' = frag_attr d)"

lemma same_frags_refl [simp]: "same_frags d d" by (simp add: same_frags_def)

lemma same_frags_trans: "same_frags a b \<Longrightarrow> same_frags b c \<Longrightarrow> same_frags a c" by (simp add: same_frags_def)

lemma same_frags_attr:
  "a \<noteq> ''data-fragment-index'' \<Longrightarrow> same_frags d (set_attr a v x d)"
  "a \<noteq> ''data-fragment-index'' \<Longrightarrow> same_frags d (remove_attr a x d)"
  "same_frags d (set_html v x d)"
  by (auto simp: same_frags_def frag_attr_def)

lemma same_frags_for: "(\<And>x d. same_frags d (f x d)) \<Longrightarrow> same_frags d (for_each f xs d)"
  by (induction xs arbitrary: d) (auto intro: same_frags_trans)

lemma same_frags_for_page:
  assumes "\<And>x p. same_frags (fst p) (fst (f x p))"
  shows "same_frags (fst p) (fst (for_page f xs p))"
  unfolding for_page_def
proof (induction xs arbitrary: p)
  case (Cons x xs)
  show ?case using same_frags_trans [OF assms Cons.IH] by simp
qed simp

lemma same_frags_media:
  "same_frags d (restart_gif x d)"
  "same_frags (fst p) (fst (start_media c h x p))" "same_frags (fst p) (fst (start_iframe c x p))"
  "same_frags (fst p) (fst (start_lazy_iframe x p))" "same_frags (fst p) (fst (stop_media x p))"
  "same_frags (fst p) (fst (stop_iframe x p))" "same_frags (fst p) (fst (stop_player m x p))"
  by (simp_all add: same_frags_attr restart_gif_def start_media_def start_iframe_def start_lazy_iframe_def
      stop_media_def stop_iframe_def stop_player_def startEmbeddedMedia_def startEmbeddedIframe_def
      page_world_def Let_def)

lemma same_frags_start: "same_frags (fst p) (fst (startEmbeddedContent c h e p))"
proof (cases e)
  case (Some x)
  have gif: "same_frags (fst p) (fst (page_dom (for_each restart_gif xs) p))" for xs p
    by (simp add: page_dom_def same_frags_for same_frags_media)
  show ?thesis
    unfolding startEmbeddedContent_def Some option.case Let_def
    by (simp add: same_frags_trans [OF same_frags_trans [OF same_frags_trans [OF gif
          same_frags_for_page [OF same_frags_media(2)]] same_frags_for_page [OF same_frags_media(3)]]
          same_frags_for_page [OF same_frags_media(4)]])
qed (simp add: startEmbeddedContent_def)

lemma same_frags_stop: "same_frags (fst p) (fst (stopEmbeddedContent e u p))"
proof (cases e)
  case (Some x)
  have about: "same_frags (fst p) (fst (page_dom (for_each (\<lambda>el d. remove_attr ''src'' el
      (set_attr ''src'' ''about:blank'' el d)) xs) p))" for xs p
    by (auto simp: page_dom_def intro!: same_frags_for same_frags_trans [OF same_frags_attr(1) same_frags_attr(2)])
  note m = same_frags_trans [OF same_frags_trans [OF same_frags_trans [OF
    same_frags_for_page [OF same_frags_media(5)] same_frags_for_page [OF same_frags_media(6)]]
    same_frags_for_page [OF same_frags_media(7)]] same_frags_for_page [OF same_frags_media(7)]]
  show ?thesis
    unfolding stopEmbeddedContent_def Some option.case Let_def
    by (simp add: m same_frags_trans [OF m about])
qed (simp add: stopEmbeddedContent_def)

lemma same_frags_on_page: "(\<And>p. same_frags (fst p) (fst (f p))) \<Longrightarrow> same_frags (doc s) (doc (on_page f s))"
  by (simp add: on_page_def Let_def) (metis fst_conv)

lemma doc_dispatch [simp]: "doc (dispatchEvent e s) = doc s"
  by (simp add: dispatchEvent_def Let_def)

section \<open>One fragment\<close>

abbreviation visible_in :: "dom \<Rightarrow> node \<Rightarrow> bool" where
  "visible_in d x \<equiv> has_class ''visible'' d x"

abbreviation current_in :: "dom \<Rightarrow> node \<Rightarrow> bool" where
  "current_in d x \<equiv> has_class ''current-fragment'' d x"

lemma same_frags_class: "same_frags d d' \<Longrightarrow> has_class c d' x = has_class c d x"
  by (simp add: same_frags_def has_class_def)

lemma fragment_step_obs:
  "visible_in (show_fragment x d) y = (y = x \<or> visible_in d y)"
  "current_in (show_fragment x d) y = (y \<noteq> x \<and> current_in d y)"
  "visible_in (hide_fragment x d) y = (y \<noteq> x \<and> visible_in d y)"
  "current_in (hide_fragment x d) y = (y \<noteq> x \<and> current_in d y)"
  "frag_attr (show_fragment x d) = frag_attr d" "frag_attr (hide_fragment x d) = frag_attr d"
  by (auto simp: show_fragment_def hide_fragment_def frag_attr_def)

lemma reveal_fragment_obs:
  "visible_in (doc (reveal_fragment b x s)) y = (y = x \<or> visible_in (doc s) y)"
  "current_in (doc (reveal_fragment b x s)) y = (if y = x then b else current_in (doc s) y)"
  "frag_attr (doc (reveal_fragment b x s)) = frag_attr (doc s)"
proof -
  define d1 where "d1 = show_fragment x (doc s)"
  define d2 where "d2 = add_class ''current-fragment'' x (set_html (getStatusText (host s) d1 x) (statusElement (refs s)) d1)"
  let ?s = "s\<lparr>doc := d2\<rparr>"
  have eq: "reveal_fragment b x s = (if b then on_page (startEmbeddedContent (cfg s) (host s) (Some x)) ?s else s\<lparr>doc := d1\<rparr>)"
    by (simp add: reveal_fragment_def announceStatus_def d1_def d2_def Let_def)
  have "same_frags d2 (doc (on_page (startEmbeddedContent (cfg s) (host s) (Some x)) ?s))"
    using same_frags_on_page [OF same_frags_start, of ?s] by simp
  then have m: "has_class c (doc (on_page (startEmbeddedContent (cfg s) (host s) (Some x)) ?s)) y = has_class c d2 y"
    "frag_attr (doc (on_page (startEmbeddedContent (cfg s) (host s) (Some x)) ?s)) = frag_attr d2" for c y
    by (simp_all add: same_frags_class, simp add: same_frags_def)
  have "frag_attr d2 = frag_attr d1" by (simp add: d2_def frag_attr_def)
  with m show "visible_in (doc (reveal_fragment b x s)) y = (y = x \<or> visible_in (doc s) y)"
    "current_in (doc (reveal_fragment b x s)) y = (if y = x then b else current_in (doc s) y)"
    "frag_attr (doc (reveal_fragment b x s)) = frag_attr (doc s)"
    by (auto simp: eq d2_def d1_def fragment_step_obs)
qed

lemma update_step_obs:
  assumes "i = fragment_index (doc s) k x"
  shows "visible_in (doc (snd (update_step index (k, x) (c, s)))) y = (if y = x then js_le i index else visible_in (doc s) y)"
    and "current_in (doc (snd (update_step index (k, x) (c, s)))) y =
      (if y = x then js_le i index \<and> js_seq i index else current_in (doc s) y)"
    and "frag_attr (doc (snd (update_step index (k, x) (c, s)))) = frag_attr (doc s)"
    and "ch_shown (fst (update_step index (k, x) (c, s))) =
      ch_shown c @ (if js_le i index \<and> \<not> visible_in (doc s) x then [x] else [])"
    and "ch_hidden (fst (update_step index (k, x) (c, s))) =
      ch_hidden c @ (if \<not> js_le i index \<and> visible_in (doc s) x then [x] else [])"
proof -
  let ?s = "s\<lparr>doc := hide_fragment x (doc s)\<rparr>"
  have "same_frags (hide_fragment x (doc s)) (doc (on_page (stopEmbeddedContent (Some x) True) ?s))"
    using same_frags_on_page [OF same_frags_stop, of ?s] by simp
  then have m: "has_class k (doc (on_page (stopEmbeddedContent (Some x) True) ?s)) y = has_class k (hide_fragment x (doc s)) y"
    "frag_attr (doc (on_page (stopEmbeddedContent (Some x) True) ?s)) = frag_attr (doc s)" for k y
    by (simp_all add: same_frags_class fragment_step_obs same_frags_def)
  show "visible_in (doc (snd (update_step index (k, x) (c, s)))) y = (if y = x then js_le i index else visible_in (doc s) y)"
    "current_in (doc (snd (update_step index (k, x) (c, s)))) y =
      (if y = x then js_le i index \<and> js_seq i index else current_in (doc s) y)"
    "frag_attr (doc (snd (update_step index (k, x) (c, s)))) = frag_attr (doc s)"
    "ch_shown (fst (update_step index (k, x) (c, s))) =
      ch_shown c @ (if js_le i index \<and> \<not> visible_in (doc s) x then [x] else [])"
    "ch_hidden (fst (update_step index (k, x) (c, s))) =
      ch_hidden c @ (if \<not> js_le i index \<and> visible_in (doc s) x then [x] else [])"
    by (simp_all add: update_step_def Let_def assms reveal_fragment_obs m fragment_step_obs)
qed


section \<open>A list of fragments\<close>

lemma enumerate_cases: "(k, y) \<in> set (enumerate n xs) \<Longrightarrow> y \<in> set xs"
  by (metis in_set_enumerate_eq nth_mem less_diff_conv2 add.commute prod.sel le_add_diff_inverse nat_add_left_cancel_less)

lemma index_frame: "frag_attr d' = frag_attr d \<Longrightarrow> fragment_index d' = fragment_index d"
  by (simp add: fun_eq_iff fragment_index_def frag_attr_def)

text \<open>The loop over distinct fragments, started with any report \<open>c\<close>.\<close>

lemma update_fold:
  assumes "distinct (map snd es)" "fold (update_step index) es (c, s) = (c', s')"
  shows "frag_attr (doc s') = frag_attr (doc s)"
    and "(k, y) \<in> set es \<Longrightarrow> visible_in (doc s') y = js_le (fragment_index (doc s) k y) index"
    and "(k, y) \<in> set es \<Longrightarrow> current_in (doc s') y =
      (js_le (fragment_index (doc s) k y) index \<and> js_seq (fragment_index (doc s) k y) index)"
    and "y \<notin> snd ` set es \<Longrightarrow> visible_in (doc s') y = visible_in (doc s) y"
    and "y \<notin> snd ` set es \<Longrightarrow> current_in (doc s') y = current_in (doc s) y"
    and "ch_shown c' = ch_shown c @ map snd (filter (\<lambda>(k, x). js_le (fragment_index (doc s) k x) index \<and> \<not> visible_in (doc s) x) es)"
    and "ch_hidden c' = ch_hidden c @ map snd (filter (\<lambda>(k, x). \<not> js_le (fragment_index (doc s) k x) index \<and> visible_in (doc s) x) es)"
proof -
  have "frag_attr (doc s') = frag_attr (doc s) \<and>
    (\<forall>k y. (k, y) \<in> set es \<longrightarrow> visible_in (doc s') y = js_le (fragment_index (doc s) k y) index \<and>
       current_in (doc s') y = (js_le (fragment_index (doc s) k y) index \<and> js_seq (fragment_index (doc s) k y) index)) \<and>
    (\<forall>y. y \<notin> snd ` set es \<longrightarrow> visible_in (doc s') y = visible_in (doc s) y \<and> current_in (doc s') y = current_in (doc s) y) \<and>
    ch_shown c' = ch_shown c @ map snd (filter (\<lambda>(k, x). js_le (fragment_index (doc s) k x) index \<and> \<not> visible_in (doc s) x) es) \<and>
    ch_hidden c' = ch_hidden c @ map snd (filter (\<lambda>(k, x). \<not> js_le (fragment_index (doc s) k x) index \<and> visible_in (doc s) x) es)"
    using assms
  proof (induction es arbitrary: c s)
    case Nil
    then show ?case by simp
  next
    case (Cons e es)
    obtain j x where e: "e = (j, x)" by (cases e)
    obtain c1 s1 where step: "update_step index (j, x) (c, s) = (c1, s1)" by fastforce
    have x: "x \<notin> snd ` set es" and d: "distinct (map snd es)" using Cons.prems(1) e by auto
    have f: "fold (update_step index) es (c1, s1) = (c', s')" using Cons.prems(2) e step by simp
    note IH = Cons.IH [OF d f]
    have attr: "frag_attr (doc s1) = frag_attr (doc s)"
      using update_step_obs(3) [OF refl, of index j x c s] step by simp
    have vis: "visible_in (doc s1) y = (if y = x then js_le (fragment_index (doc s) j x) index else visible_in (doc s) y)"
      and cur: "current_in (doc s1) y = (if y = x then js_le (fragment_index (doc s) j x) index \<and>
         js_seq (fragment_index (doc s) j x) index else current_in (doc s) y)" for y
      using update_step_obs(1,2) [OF refl, of index j x c s y] step by simp_all
    have sh: "ch_shown c1 = ch_shown c @ (if js_le (fragment_index (doc s) j x) index \<and> \<not> visible_in (doc s) x then [x] else [])"
      and hi: "ch_hidden c1 = ch_hidden c @ (if \<not> js_le (fragment_index (doc s) j x) index \<and> visible_in (doc s) x then [x] else [])"
      using update_step_obs(4,5) [OF refl, of index j x c s] step by simp_all
    have other: "visible_in (doc s1) y = visible_in (doc s) y" if "(k, y) \<in> set es" for k y
      using that x vis by force
    have shown: "filter (\<lambda>(k, z). js_le (fragment_index (doc s) k z) index \<and> \<not> visible_in (doc s1) z) es =
        filter (\<lambda>(k, z). js_le (fragment_index (doc s) k z) index \<and> \<not> visible_in (doc s) z) es"
      and hidden: "filter (\<lambda>(k, z). \<not> js_le (fragment_index (doc s) k z) index \<and> visible_in (doc s1) z) es =
        filter (\<lambda>(k, z). \<not> js_le (fragment_index (doc s) k z) index \<and> visible_in (doc s) z) es"
      using other by (auto intro!: filter_cong)
    note IH' = IH [unfolded index_frame [OF attr] shown hidden attr]
    have s1: "visible_in (doc s') x = visible_in (doc s1) x \<and> current_in (doc s') x = current_in (doc s1) x"
      using IH x by blast
    show ?case
    proof (intro conjI allI impI)
      show "frag_attr (doc s') = frag_attr (doc s)" using IH' by blast
      show "visible_in (doc s') y = js_le (fragment_index (doc s) k y) index" if "(k, y) \<in> set (e # es)" for k y
        using that IH' s1 vis [of x] unfolding e by auto
      show "current_in (doc s') y = (js_le (fragment_index (doc s) k y) index \<and> js_seq (fragment_index (doc s) k y) index)"
        if "(k, y) \<in> set (e # es)" for k y
        using that IH' s1 cur [of x] unfolding e by auto
      show "visible_in (doc s') y = visible_in (doc s) y" if "y \<notin> snd ` set (e # es)" for y
        using that IH' vis [of y] unfolding e by auto
      show "current_in (doc s') y = current_in (doc s) y" if "y \<notin> snd ` set (e # es)" for y
        using that IH' cur [of y] unfolding e by auto
      show "ch_shown c' = ch_shown c @ map snd (filter (\<lambda>(k, x). js_le (fragment_index (doc s) k x) index \<and> \<not> visible_in (doc s) x) (e # es))"
        using IH' sh unfolding e by simp
      show "ch_hidden c' = ch_hidden c @ map snd (filter (\<lambda>(k, x). \<not> js_le (fragment_index (doc s) k x) index \<and> visible_in (doc s) x) (e # es))"
        using IH' hi unfolding e by simp
    qed
  qed
  then show "frag_attr (doc s') = frag_attr (doc s)"
    and "(k, y) \<in> set es \<Longrightarrow> visible_in (doc s') y = js_le (fragment_index (doc s) k y) index"
    and "(k, y) \<in> set es \<Longrightarrow> current_in (doc s') y =
      (js_le (fragment_index (doc s) k y) index \<and> js_seq (fragment_index (doc s) k y) index)"
    and "y \<notin> snd ` set es \<Longrightarrow> visible_in (doc s') y = visible_in (doc s) y"
    and "y \<notin> snd ` set es \<Longrightarrow> current_in (doc s') y = current_in (doc s) y"
    and "ch_shown c' = ch_shown c @ map snd (filter (\<lambda>(k, x). js_le (fragment_index (doc s) k x) index \<and> \<not> visible_in (doc s) x) es)"
    and "ch_hidden c' = ch_hidden c @ map snd (filter (\<lambda>(k, x). \<not> js_le (fragment_index (doc s) k x) index \<and> visible_in (doc s) x) es)"
    by blast+
qed

section \<open>Updating and going to a fragment\<close>

definition shown_groups :: "dom \<Rightarrow> node list list \<Rightarrow> int \<Rightarrow> bool" where
  "shown_groups d gs n = (\<forall>j < length gs. \<forall>x\<in>set (gs ! j). visible_in d x \<longleftrightarrow> int j < n)"

lemma in_enumerate: "i < length fs \<Longrightarrow> (i, fs ! i) \<in> set (enumerate 0 fs)"
  by (simp add: in_set_enumerate_eq)

lemma update_list_obs:
  assumes "distinct fs" "update_list index fs s = (ch, s')"
  shows "frag_attr (doc s') = frag_attr (doc s)"
    and "i < length fs \<Longrightarrow> visible_in (doc s') (fs ! i) = js_le (fragment_index (doc s) i (fs ! i)) index"
    and "i < length fs \<Longrightarrow> current_in (doc s') (fs ! i) =
      (js_le (fragment_index (doc s) i (fs ! i)) index \<and> js_seq (fragment_index (doc s) i (fs ! i)) index)"
    and "y \<notin> set fs \<Longrightarrow> visible_in (doc s') y = visible_in (doc s) y"
    and "ch_shown ch = filter (\<lambda>x. visible_in (doc s') x \<and> \<not> visible_in (doc s) x) fs"
    and "ch_hidden ch = filter (\<lambda>x. \<not> visible_in (doc s') x \<and> visible_in (doc s) x) fs"
proof -
  have d: "distinct (map snd (enumerate 0 fs))" using assms(1) by simp
  have f: "fold (update_step index) (enumerate 0 fs) (no_change, s) = (ch, s')"
    using assms(2) by (simp add: update_list_def no_change_def)
  note u = update_fold [OF d f]
  show "frag_attr (doc s') = frag_attr (doc s)" by (rule u)
  show "i < length fs \<Longrightarrow> visible_in (doc s') (fs ! i) = js_le (fragment_index (doc s) i (fs ! i)) index"
    by (rule u(2)) (rule in_enumerate)
  show "i < length fs \<Longrightarrow> current_in (doc s') (fs ! i) =
      (js_le (fragment_index (doc s) i (fs ! i)) index \<and> js_seq (fragment_index (doc s) i (fs ! i)) index)"
    by (rule u(3)) (rule in_enumerate)
  have snds: "snd ` set (enumerate 0 fs) = set fs" by (simp flip: set_map)
  show "y \<notin> set fs \<Longrightarrow> visible_in (doc s') y = visible_in (doc s) y" using u(4) snds by simp
  have vis: "visible_in (doc s') x = js_le (fragment_index (doc s) k x) index" if "(k, x) \<in> set (enumerate 0 fs)" for k x
    using u(2) that by blast
  have fl: "map snd (filter (\<lambda>(k, x). P x) (enumerate n xs)) = filter P xs" for P n and xs :: "node list"
    by (induction xs arbitrary: n) auto
  have "filter (\<lambda>(k, x). js_le (fragment_index (doc s) k x) index \<and> \<not> visible_in (doc s) x) (enumerate 0 fs) =
      filter (\<lambda>(k, x). visible_in (doc s') x \<and> \<not> visible_in (doc s) x) (enumerate 0 fs)"
    using vis by (intro filter_cong) auto
  then show "ch_shown ch = filter (\<lambda>x. visible_in (doc s') x \<and> \<not> visible_in (doc s) x) fs"
    using u(6) fl [of "\<lambda>x. visible_in (doc s') x \<and> \<not> visible_in (doc s) x" 0 fs] by (simp add: no_change_def)
  have "filter (\<lambda>(k, x). \<not> js_le (fragment_index (doc s) k x) index \<and> visible_in (doc s) x) (enumerate 0 fs) =
      filter (\<lambda>(k, x). \<not> visible_in (doc s') x \<and> visible_in (doc s) x) (enumerate 0 fs)"
    using vis by (intro filter_cong) auto
  then show "ch_hidden ch = filter (\<lambda>x. \<not> visible_in (doc s') x \<and> visible_in (doc s) x) fs"
    using u(7) fl [of "\<lambda>x. \<not> visible_in (doc s') x \<and> visible_in (doc s) x" 0 fs] by (simp add: no_change_def)
qed

lemma fragments_update_eq:
  assumes "currentSlide s = Some c" "cfg_fragments (cfg s)" "is_number index" "fs \<noteq> []"
    "update_list index fs s = (ch, s')"
  shows "fragments_update index (Some fs) s = (ch, write_fragment_index index (ch_max ch) c s')"
  using assms by (simp add: fragments_update_def update_fragments_def update_index_def)

lemma write_fragment_index_obs [simp]:
  "has_class k (doc (write_fragment_index i m c s)) = has_class k (doc s)"
  by (simp add: write_fragment_index_def Let_def)

text \<open>Showing the fragments of the current slide up to an index makes a fragment visible
  exactly when its own index is not beyond it, and current exactly when it is equal.\<close>

lemma fragments_update_shows:
  assumes "currentSlide s = Some c" "cfg_fragments (cfg s)" "is_number index" "distinct fs" "i < length fs"
  shows "(visible_in (doc (snd (fragments_update index (Some fs) s))) (fs ! i) \<longleftrightarrow>
      js_le (fragment_index (doc s) i (fs ! i)) index) \<and>
    (current_in (doc (snd (fragments_update index (Some fs) s))) (fs ! i) \<longleftrightarrow>
      js_le (fragment_index (doc s) i (fs ! i)) index \<and> js_seq (fragment_index (doc s) i (fs ! i)) index)"
proof -
  obtain ch s' where u: "update_list index fs s = (ch, s')" by fastforce
  have "fs \<noteq> []" using assms(5) by auto
  then show ?thesis
    using update_list_obs(2,3) [OF assms(4) u assms(5)] fragments_update_eq [OF assms(1-3) _ u] by simp
qed

text \<open>The report of an update names exactly the fragments whose visibility changed.\<close>

lemma fragments_update_reports:
  assumes "currentSlide s = Some c" "cfg_fragments (cfg s)" "is_number index" "distinct fs" "fs \<noteq> []"
  shows "ch_shown (fst (fragments_update index (Some fs) s)) =
      filter (\<lambda>x. visible_in (doc (snd (fragments_update index (Some fs) s))) x \<and> \<not> visible_in (doc s) x) fs \<and>
    ch_hidden (fst (fragments_update index (Some fs) s)) =
      filter (\<lambda>x. \<not> visible_in (doc (snd (fragments_update index (Some fs) s))) x \<and> visible_in (doc s) x) fs"
proof -
  obtain ch s' where u: "update_list index fs s = (ch, s')" by fastforce
  then show ?thesis
    using update_list_obs(5,6) [OF assms(4) u] fragments_update_eq [OF assms(1-3,5) u] by simp
qed

lemma when_class: "(\<And>d. has_class k (f d) = has_class k d) \<Longrightarrow> has_class k (when_do b f d) = has_class k d"
  by (simp add: when_do_def)

lemma control_visible:
  "has_class ''visible'' (for_each disable_control xs d) = has_class ''visible'' d"
  "has_class ''visible'' (when_do b (for_each enable_control xs) d) = has_class ''visible'' d"
  "has_class ''visible'' (when_do b (for_each fragment_control xs) d) = has_class ''visible'' d"
  "has_class ''visible'' (set_highlight b x d) = has_class ''visible'' d"
proof -
  have "has_class ''visible'' (disable_control x d) = has_class ''visible'' d"
    "has_class ''visible'' (enable_control x d) = has_class ''visible'' d"
    "has_class ''visible'' (fragment_control x d) = has_class ''visible'' d" for x d
    by (auto simp: fun_eq_iff disable_control_def enable_control_def fragment_control_def)
  note f = for_each_frame [where g = "has_class ''visible''", OF this(1)]
    for_each_frame [where g = "has_class ''visible''", OF this(2)]
    for_each_frame [where g = "has_class ''visible''", OF this(3)]
  show "has_class ''visible'' (for_each disable_control xs d) = has_class ''visible'' d"
    "has_class ''visible'' (when_do b (for_each enable_control xs) d) = has_class ''visible'' d"
    "has_class ''visible'' (when_do b (for_each fragment_control xs) d) = has_class ''visible'' d"
    by (simp_all add: f when_do_def)
  show "has_class ''visible'' (set_highlight b x d) = has_class ''visible'' d"
    by (auto simp: set_highlight_def fun_eq_iff)
qed

lemma visible_controls: "has_class ''visible'' (doc (controls_update s)) = has_class ''visible'' (doc s)"
proof -
  have "has_class ''visible'' (update_tutorial s rt d) = has_class ''visible'' d" for rt d
    by (auto simp: update_tutorial_def Let_def control_visible fun_eq_iff)
  then show ?thesis
    by (simp add: controls_update_def Let_def update_routes_def update_fragment_routes_def control_visible
        split: option.split)
qed

lemma doc_writeURL [simp]: "doc (writeURL delay s) = doc s"
  by (simp add: writeURL_def Let_def debouncedReplaceState_def replaceState_def split: option.split prod.split)

lemma visible_goto_finish [simp]: "has_class ''visible'' (doc (goto_finish s)) = has_class ''visible'' (doc s)"
  by (simp add: goto_finish_def Let_def progress_update_def visible_controls split: bool.split option.split)

lemma doc_dispatch_changed [simp]: "doc (dispatch_changed ty fs s) = doc s"
  by (simp add: dispatch_changed_def)


section \<open>Numbered fragments\<close>

lemma has_class_numbered [simp]: "has_class k (numbered xs d) = has_class k d"
  by (rule has_class_cong) (simp add: sort_fragments_def Let_def number_groups_frame)

lemma fst_sort: "fst (sort_fragments xs d) = concat (fragment_groups d xs)"
  by (simp add: sort_fragments_def Let_def)

lemma numbered_index:
  assumes "distinct xs" "j < length (fragment_groups d xs)" "x \<in> set (fragment_groups d xs ! j)"
    "frag_attr d' = frag_attr (numbered xs d)"
  shows "fragment_index d' k x = Num (int j)"
proof -
  have "get_attr ''data-fragment-index'' (numbered xs d) x = Some (show_nat j)"
    using number_groups_at [OF distinct_groups [OF assms(1)] assms(2,3), of 0 d]
    by (simp add: sort_fragments_def Let_def)
  then show ?thesis using assms(4) by (simp add: index_frame fragment_index_def frag_attr_def fun_eq_iff)
qed

definition current_fragments :: "reveal \<Rightarrow> node list" where
  "current_fragments s = (case currentSlide s of
       Some c \<Rightarrow> queryAll (doc s) c (enabled_fragment (doc s)) | None \<Rightarrow> [])"

lemma goto_core:
  assumes "currentSlide s = Some c" "cfg_fragments (cfg s)" "xs = current_fragments s"
    and gs: "gs = fragment_groups (doc s) xs" "gs \<noteq> []" and d: "distinct xs"
    and i: "goto_index index c (s\<lparr>doc := numbered xs (doc s)\<rparr>) = (i, s2)" "js_add i offset = Num n"
    and s2: "frag_attr (doc s2) = frag_attr (numbered xs (doc s))" "cls (doc s2) = cls (doc s)"
      "currentSlide s2 = Some c" "cfg s2 = cfg s"
  shows "shown_groups (doc (snd (goto index offset s))) gs (n + 1)"
    and "fst (goto index offset s) \<longleftrightarrow>
      (\<exists>x\<in>set (concat gs). visible_in (doc (snd (goto index offset s))) x \<noteq> visible_in (doc s) x)"
proof -
  let ?fs = "concat gs"
  have "gs ! 0 \<in> set gs" using gs(2) by simp
  then have "gs ! 0 \<noteq> []" using group_subsequence(2) [OF d] gs(1) by blast
  then have ne: "?fs \<noteq> []" using gs(2) by (cases gs) auto
  have dist: "distinct ?fs" using distinct_groups [OF d] gs(1) by simp
  obtain d1 where d1: "numbered xs (doc s) = d1" by blast
  then have sort: "sort_fragments xs (doc s) = (?fs, d1)" using fst_sort gs(1) by (simp add: prod_eq_iff)
  obtain ch s3 where u: "update_list (Num n) ?fs s2 = (ch, s3)" by fastforce
  define r where "r = goto_finish (dispatch_changed ''fragmentshown'' (ch_shown ch)
      (dispatch_changed ''fragmenthidden'' (ch_hidden ch) (write_fragment_index (Num n) (ch_max ch) c s3)))"
  have fu: "fragments_update (Num n) (Some ?fs) s2 = (ch, write_fragment_index (Num n) (ch_max ch) c s3)"
    using fragments_update_eq [OF s2(3) _ _ ne u] assms(2) s2(4) by (simp add: is_number_def)
  have xs: "queryAll (doc s) c (enabled_fragment (doc s)) = xs" using assms(1,3) by (simp add: current_fragments_def)
  have eq: "goto index offset s = (ch_shown ch \<noteq> [] \<or> ch_hidden ch \<noteq> [], r)"
    using ne by (simp add: goto_def assms(1,2) xs sort i [unfolded d1] fu r_def Let_def)
  have vis: "visible_in (doc r) = visible_in (doc s3)" by (simp add: r_def)
  have vis2: "visible_in (doc s2) = visible_in (doc s)" using s2(2) by (rule has_class_cong)
  note obs = update_list_obs [OF dist u]
  show "shown_groups (doc (snd (goto index offset s))) gs (n + 1)"
    unfolding shown_groups_def
  proof (intro allI impI ballI)
    fix j x
    assume j: "j < length gs" "x \<in> set (gs ! j)"
    then have "x \<in> set ?fs" using nth_mem by fastforce
    then obtain k where k: "k < length ?fs" "x = ?fs ! k" by (metis in_set_conv_nth)
    have "fragment_index (doc s2) k x = Num (int j)"
      using numbered_index [OF d _ _ s2(1)] j gs(1) by simp
    then show "visible_in (doc (snd (goto index offset s))) x \<longleftrightarrow> int j < n + 1"
      using obs(2) [OF k(1)] k(2) by (simp add: eq vis)
  qed
  show "fst (goto index offset s) \<longleftrightarrow>
      (\<exists>x\<in>set ?fs. visible_in (doc (snd (goto index offset s))) x \<noteq> visible_in (doc s) x)"
    by (auto simp: eq vis obs(5,6) vis2 filter_empty_conv)
qed

text \<open>C9: Going to a fragment index shows the groups up to that index and hides the later ones,
  whatever was visible before.\<close>

theorem goto_shows:
  assumes "currentSlide s = Some c" "cfg_fragments (cfg s)" "distinct (current_fragments s)"
    "fragment_groups (doc s) (current_fragments s) \<noteq> []"
  shows "shown_groups (doc (snd (goto (Num n) (Num 0) s))) (fragment_groups (doc s) (current_fragments s)) (n + 1)"
proof (rule goto_core(1) [OF assms(1,2) refl refl assms(4,3)])
  show "goto_index (Num n) c (s\<lparr>doc := numbered (current_fragments s) (doc s)\<rparr>) =
      (Num n, s\<lparr>doc := numbered (current_fragments s) (doc s)\<rparr>)" by (simp add: goto_index_def is_number_def)
qed (use assms in \<open>simp_all add: sort_fragments_def Let_def number_groups_frame\<close>)

section \<open>The last visible fragment\<close>

lemma visible_groups:
  assumes d: "distinct xs" "length xs < 4294967295" and gs: "gs = fragment_groups d0 xs"
    and m: "m \<le> length gs" and shown: "shown_groups d0 gs (int m)"
  shows "fragment_groups (numbered xs d0) (filter (visible_in d0) xs) = take m gs"
proof -
  let ?d = "numbered xs d0" and ?ys = "filter (visible_in d0) xs"
  have vis: "visible_in d0 x \<longleftrightarrow> j < m" if "j < length gs" "x \<in> set (gs ! j)" for j x
    using shown that by (simp add: shown_groups_def)
  have key: "fragment_key ?d x = Some j \<longleftrightarrow> x \<in> set (gs ! j)" if "x \<in> set xs" "j < length gs" for x j
    using numbered_key_iff [OF d that(1)] that(2) gs by blast
  have sub: "filter (\<lambda>x. x \<in> set (gs ! j)) xs = gs ! j" and ne: "gs ! j \<noteq> []" if "j < length gs" for j
    using group_subsequence [OF d(1), of "gs ! j" d0] that gs nth_mem by blast+
  have keys: "keys_of ?d ?ys = {0..<m}"
  proof -
    have "k < m" if k: "fragment_key ?d x = Some k" and x: "x \<in> set xs" "visible_in d0 x" for x k
      using numbered_key_cases [OF d x(1), of d0]
    proof cases
      case (1 j)
      then have "k = j" using k by simp
      with 1 vis [of j x] x gs show ?thesis by simp
    qed (use k in simp)
    moreover have "\<exists>x\<in>set ?ys. fragment_key ?d x = Some j" if "j < m" for j
    proof
      have j: "j < length gs" using that m by simp
      have x: "hd (gs ! j) \<in> set (gs ! j)" by (rule hd_in_set) (rule ne [OF j])
      then have xs: "hd (gs ! j) \<in> set xs" using sub [OF j] by (metis (no_types, lifting) filter_is_subset subsetD)
      then show "fragment_key ?d (hd (gs ! j)) = Some j" using key [OF xs j] x by blast
      show "hd (gs ! j) \<in> set ?ys" using xs vis [OF j x] that by simp
    qed
    ultimately show ?thesis unfolding keys_of_def by fastforce
  qed
  have group: "group_for ?d ?ys j = gs ! j" if "j < m" for j
  proof -
    have j: "j < length gs" using that m by simp
    have "group_for ?d ?ys j = filter (\<lambda>x. x \<in> set (gs ! j)) xs"
      unfolding group_for_def filter_filter using key [OF _ j] vis [OF j] that by (intro filter_cong) auto
    then show ?thesis using sub [OF j] by simp
  qed
  have "\<not> unnumbered ?d x" if "x \<in> set xs" for x
    using numbered_key_cases [OF d that, of d0] by cases auto
  then have "filter (unnumbered ?d) ?ys = []" by (simp add: filter_empty_conv)
  then have "fragment_groups ?d ?ys = map (group_for ?d ?ys) [0..<m]" by (simp add: fragment_groups_eq keys)
  also have "\<dots> = take m gs" using group m by (intro nth_equalityI) simp_all
  finally show ?thesis .
qed

lemma last_index_visible:
  assumes d: "distinct xs" "length xs < 4294967295" and gs: "gs = fragment_groups d0 xs"
    and m: "m \<le> length gs" and shown: "shown_groups d0 gs (int m)"
  shows "last_index (filter (visible_in d0) xs) (numbered xs d0) =
    (if m = 0 then None else Some (Num (int m - 1)), numbered xs d0)"
proof -
  let ?d = "numbered xs d0" and ?ys = "filter (visible_in d0) xs"
  note g = visible_groups [OF assms]
  have at: "get_attr ''data-fragment-index'' ?d x = Some (show_nat j)" if "j < length gs" "x \<in> set (gs ! j)" for j x
    using number_groups_at [OF distinct_groups [OF d(1)], of j d0 x 0 d0] that gs
    by (simp add: sort_fragments_def Let_def)
  have "number_groups 0 (take m gs) ?d = ?d" using at m by (intro number_groups_same) simp
  then have sort: "sort_fragments ?ys ?d = (concat (take m gs), ?d)" by (simp only: sort_fragments_def [of ?ys ?d] Let_def g)
  show ?thesis
  proof (cases m)
    case 0
    then show ?thesis by (simp add: last_index_def sort)
  next
    case (Suc k)
    then have k: "k < length gs" using m by simp
    have "gs ! k \<noteq> []" using group_subsequence(2) [OF d(1)] gs k nth_mem by blast
    moreover have "concat (take m gs) = concat (take k gs) @ gs ! k"
      using k by (simp add: Suc take_Suc_conv_app_nth)
    ultimately have "last_opt (concat (take m gs)) = Some (last (gs ! k))" "last (gs ! k) \<in> set (gs ! k)"
      by (simp_all add: last_opt_Some)
    then show ?thesis using at [OF k] Suc by (simp add: last_index_def sort)
  qed
qed


section \<open>Stepping\<close>

lemma enabled_visible:
  "queryAll d c (\<lambda>x. enabled_fragment d x \<and> visible_in d x) = filter (visible_in d) (queryAll d c (enabled_fragment d))"
  by (auto simp: queryAll_def intro!: filter_cong)

lemma goto_index_visible:
  assumes c: "currentSlide s = Some c" and d: "distinct (current_fragments s)" "length (current_fragments s) < 4294967295"
    and gs: "gs = fragment_groups (doc s) (current_fragments s)" "m \<le> length gs" "shown_groups (doc s) gs (int m)"
  shows "goto_index Undef c (s\<lparr>doc := numbered (current_fragments s) (doc s)\<rparr>) =
    (Num (int m - 1), s\<lparr>doc := numbered (current_fragments s) (doc s)\<rparr>)"
proof -
  let ?d = "numbered (current_fragments s) (doc s)"
  have f: "order ?d = order (doc s)" "path ?d = path (doc s)"
    by (simp_all add: sort_fragments_def Let_def number_groups_frame)
  have "queryAll ?d c (\<lambda>x. enabled_fragment ?d x \<and> visible_in ?d x) =
      queryAll (doc s) c (\<lambda>x. enabled_fragment (doc s) x \<and> visible_in (doc s) x)"
    by (simp add: queryAll_def f is_desc_def enabled_fragment_def)
  also have "\<dots> = filter (visible_in (doc s)) (current_fragments s)"
    using c by (simp add: enabled_visible current_fragments_def)
  finally show ?thesis using last_index_visible [OF d gs]
    by (simp add: goto_index_def is_number_def)
qed

text \<open>C10: On a slide that shows its first \<open>m\<close> groups of fragments, a step forward shows one more,
  and reports a change exactly when there was one more to show.\<close>

theorem next_fragment:
  assumes "currentSlide s = Some c" "cfg_fragments (cfg s)"
    "distinct (current_fragments s)" "length (current_fragments s) < 4294967295"
    "m \<le> length (fragment_groups (doc s) (current_fragments s))" "fragment_groups (doc s) (current_fragments s) \<noteq> []"
    "shown_groups (doc s) (fragment_groups (doc s) (current_fragments s)) (int m)"
  shows "shown_groups (doc (snd (fragments_next s))) (fragment_groups (doc s) (current_fragments s)) (int m + 1) \<and>
    (fst (fragments_next s) \<longleftrightarrow> m < length (fragment_groups (doc s) (current_fragments s)))"
proof -
  let ?gs = "fragment_groups (doc s) (current_fragments s)"
  note core = goto_core [OF assms(1,2) refl refl assms(6,3) goto_index_visible [OF assms(1,3,4) refl assms(5,7)], of "Num 1" "int m"]
  have shown: "shown_groups (doc (snd (fragments_next s))) ?gs (int m + 1)"
    and changed: "fst (fragments_next s) \<longleftrightarrow>
      (\<exists>x\<in>set (concat ?gs). visible_in (doc (snd (fragments_next s))) x \<noteq> visible_in (doc s) x)"
    unfolding fragments_next_def using core assms(1)
    by (simp_all add: sort_fragments_def Let_def number_groups_frame del: set_concat)
  have "fst (fragments_next s)" if "m < length ?gs"
  proof -
    have "?gs ! m \<noteq> []" using group_subsequence(2) [OF assms(3)] that nth_mem by blast
    then have h: "hd (?gs ! m) \<in> set (?gs ! m)" by simp
    moreover have "hd (?gs ! m) \<in> set (concat ?gs)" using h that nth_mem by fastforce
    ultimately show ?thesis using changed shown assms(7) that unfolding shown_groups_def by fastforce
  qed
  moreover have "\<not> fst (fragments_next s)" if "m = length ?gs"
  proof -
    have "visible_in (doc (snd (fragments_next s))) x = visible_in (doc s) x" if "x \<in> set (concat ?gs)" for x
      using in_groups [OF that] shown assms(7) \<open>m = length ?gs\<close> unfolding shown_groups_def by fastforce
    then show ?thesis using changed by blast
  qed
  ultimately show ?thesis using shown assms(5) by (auto simp: order_le_less)
qed

text \<open>C11: A step back hides the last group shown, and reports a change exactly when there was one.\<close>

theorem prev_fragment:
  assumes "currentSlide s = Some c" "cfg_fragments (cfg s)"
    "distinct (current_fragments s)" "length (current_fragments s) < 4294967295"
    "m \<le> length (fragment_groups (doc s) (current_fragments s))" "fragment_groups (doc s) (current_fragments s) \<noteq> []"
    "shown_groups (doc s) (fragment_groups (doc s) (current_fragments s)) (int m)"
  shows "shown_groups (doc (snd (fragments_prev s))) (fragment_groups (doc s) (current_fragments s)) (int m - 1) \<and>
    (fst (fragments_prev s) \<longleftrightarrow> 0 < m)"
proof -
  let ?gs = "fragment_groups (doc s) (current_fragments s)"
  note core = goto_core [OF assms(1,2) refl refl assms(6,3) goto_index_visible [OF assms(1,3,4) refl assms(5,7)],
      of "Num (- 1)" "int m - 2"]
  have shown: "shown_groups (doc (snd (fragments_prev s))) ?gs (int m - 1)"
    and changed: "fst (fragments_prev s) \<longleftrightarrow>
      (\<exists>x\<in>set (concat ?gs). visible_in (doc (snd (fragments_prev s))) x \<noteq> visible_in (doc s) x)"
    unfolding fragments_prev_def using core assms(1)
    by (simp_all add: sort_fragments_def Let_def number_groups_frame del: set_concat)
  have "fst (fragments_prev s)" if "0 < m"
  proof -
    have k: "m - 1 < length ?gs" using that assms(5) by simp
    then have "?gs ! (m - 1) \<noteq> []" using group_subsequence(2) [OF assms(3)] nth_mem by blast
    then have h: "hd (?gs ! (m - 1)) \<in> set (?gs ! (m - 1))" by simp
    moreover have "hd (?gs ! (m - 1)) \<in> set (concat ?gs)" using h k nth_mem by fastforce
    moreover have "visible_in (doc s) (hd (?gs ! (m - 1)))" using assms(7) h k that unfolding shown_groups_def by simp
    moreover have "\<not> visible_in (doc (snd (fragments_prev s))) (hd (?gs ! (m - 1)))"
      using shown h k that unfolding shown_groups_def by (simp add: of_nat_diff)
    ultimately show ?thesis using changed by blast
  qed
  moreover have "\<not> fst (fragments_prev s)" if "m = 0"
  proof -
    have "visible_in (doc (snd (fragments_prev s))) x = visible_in (doc s) x" if "x \<in> set (concat ?gs)" for x
      using in_groups [OF that] shown assms(7) \<open>m = 0\<close> unfolding shown_groups_def by fastforce
    then show ?thesis using changed by blast
  qed
  ultimately show ?thesis using shown by auto
qed


section \<open>Instances\<close>

lemma sample_fragments:
  "currentSlide (sample_at 2 0 8) = Some 8" "cfg_fragments (cfg (sample_at 2 0 8))"
  "current_fragments (sample_at 2 0 8) = [9, 10, 11]"
  "fragment_groups (doc (sample_at 2 0 8)) [9, 10, 11] = [[11], [9], [10]]"
  "shown_groups (doc (sample_at 2 0 8)) [[11], [9], [10]] 0"
  by code_simp+

theorem goto_shows_witness:
  "shown_groups (doc (snd (goto (Num 1) (Num 0) (sample_at 2 0 8)))) [[11], [9], [10]] 2"
  using goto_shows [OF sample_fragments(1,2), of 1] by (simp add: sample_fragments)

theorem next_fragment_witness:
  "shown_groups (doc (snd (fragments_next (sample_at 2 0 8)))) [[11], [9], [10]] 1 \<and>
    fst (fragments_next (sample_at 2 0 8))"
  using next_fragment [OF sample_fragments(1,2), of 0] by (simp add: sample_fragments)

theorem prev_fragment_witness:
  "shown_groups (doc (snd (fragments_prev (sample_at 2 0 8)))) [[11], [9], [10]] (- 1) \<and>
    \<not> fst (fragments_prev (sample_at 2 0 8))"
  using prev_fragment [OF sample_fragments(1,2), of 0] by (simp add: sample_fragments)

end
