(* ===== verification/Slides.thy ===== *)
theory Slides
  imports Layout FragmentSteps
begin

text \<open>
  Showing a slide: \<open>updateSlides\<close>, \<open>showFragmentsIn\<close>, \<open>hideFragmentsIn\<close>,
  \<open>updateSlidesVisibility\<close> and \<open>resetVerticalSlides\<close> of \<open>reveal.js\<close>. An index
  that is no number selects no slide, and reading the class list of nothing throws.
\<close>

datatype error = TypeError | DOMException | SyntaxError

datatype axis = Horizontal | Vertical

fun select_slides :: "axis \<Rightarrow> reveal \<Rightarrow> node list" where
  "select_slides Horizontal s = getHorizontalSlides s"
| "select_slides Vertical s = presentVerticalSlides s"

section \<open>Updating one axis\<close>

definition showFragmentsIn :: "node \<Rightarrow> dom \<Rightarrow> dom" where
  "showFragmentsIn container d =
     for_each (\<lambda>x d. remove_class ''current-fragment'' x (add_class ''visible'' x d)) (queryAll d container (fragment_sel d)) d"

definition hideFragmentsIn :: "node \<Rightarrow> dom \<Rightarrow> dom" where
  "hideFragmentsIn container d =
     for_each (\<lambda>x d. remove_class ''current-fragment'' x (remove_class ''visible'' x d)) (queryAll d container (visible_fragment d)) d"

text \<open>Where a looping deck turns around: whether it does so forwards or backwards, and the index.\<close>

definition loop_index :: "bool \<Rightarrow> int \<Rightarrow> jsnum \<Rightarrow> bool \<times> bool \<times> jsnum" where
  "loop_index loop n index =
     (if loop then
        (let i = js_rem index (Num n); back = js_lt i (Num 0)
         in (js_ge index (Num n), back, if back then js_add (Num n) i else i))
      else (False, False, index))"

definition bound_index :: "int \<Rightarrow> jsnum \<Rightarrow> jsnum" where
  "bound_index n index = js_max (js_min index (Num (n - 1))) (Num 0)"

definition hide_slide :: "node \<Rightarrow> dom \<Rightarrow> dom" where
  "hide_slide el d =
     set_attr ''aria-hidden'' ''true'' el (set_attr ''hidden'' [] el
       (remove_class ''future'' el (remove_class ''present'' el (remove_class ''past'' el d))))"

definition mark_stack :: "node \<Rightarrow> dom \<Rightarrow> dom" where
  "mark_stack el d = (if verticals d el \<noteq> [] then add_class ''stack'' el d else d)"

definition position_slide :: "config \<Rightarrow> bool \<Rightarrow> jsnum \<Rightarrow> bool \<Rightarrow> bool \<Rightarrow> nat \<times> node \<Rightarrow> dom \<Rightarrow> dom" where
  "position_slide c printing index loopedForwards loopedBackwards e d =
     (let (i, el) = e;
          reverse = cfg_rtl c \<and> \<not> isVerticalSlide d (Some el);
          d1 = mark_stack el (hide_slide el d)
      in if printing then add_class ''present'' el d1
         else if js_lt (Num (int i)) index then
           (let d2 = add_class (if reverse then ''future'' else ''past'') el d1
            in if cfg_fragments c then showFragmentsIn el d2 else d2)
         else if js_gt (Num (int i)) index then
           (let d2 = add_class (if reverse then ''past'' else ''future'') el d1
            in if cfg_fragments c then hideFragmentsIn el d2 else d2)
         else if js_seq (Num (int i)) index \<and> cfg_fragments c then
           (if loopedForwards then hideFragmentsIn el d1
            else if loopedBackwards then showFragmentsIn el d1 else d1)
         else d1)"

definition show_slide :: "node \<Rightarrow> dom \<Rightarrow> dom" where
  "show_slide el d = remove_attr ''aria-hidden'' el (remove_attr ''hidden'' el (add_class ''present'' el d))"

definition add_slide_state :: "node \<Rightarrow> reveal \<Rightarrow> reveal" where
  "add_slide_state el s = (case get_attr ''data-state'' (doc s) el of
       Some w \<Rightarrow> if w \<noteq> [] then s\<lparr>stateArr := stateArr s @ split_on (CHR '' '') w\<rparr> else s
     | None \<Rightarrow> s)"

definition position_slides :: "config \<Rightarrow> bool \<Rightarrow> jsnum \<Rightarrow> bool \<Rightarrow> bool \<Rightarrow> node list \<Rightarrow> dom \<Rightarrow> dom" where
  "position_slides c printing index fw bw slides d =
     fold (position_slide c printing index fw bw) (enumerate 0 slides) d"

definition updateSlides :: "axis \<Rightarrow> jsnum \<Rightarrow> reveal \<Rightarrow> (error \<times> reveal) + (jsnum \<times> reveal)" where
  "updateSlides ax index s =
     (let slides = select_slides ax s; n = int (length slides) in
      if slides = [] then Inr (Num 0, s)
      else
       (let (fw, bw, i0) = loop_index (cfg_loop (cfg s)) n index;
            i = bound_index n i0;
            s1 = s\<lparr>doc := position_slides (cfg s) (isPrintingPDF (host s)) i fw bw slides (doc s)\<rparr>
        in case arr_get slides i of
             None \<Rightarrow> Inl (TypeError, s1)
           | Some el \<Rightarrow>
               (let s2 = s1\<lparr>doc := show_slide el (doc s1)\<rparr>;
                    s3 = (if has_class ''present'' (doc s1) el then s2 else dispatchEvent (Ev ''visible'' el) s2)
                in Inr (i, add_slide_state el s3))))"

section \<open>Loading what is near\<close>

text \<open>Nothing is far away when printing: there the distance is the largest number.\<close>

definition view_distance :: "reveal \<Rightarrow> int option" where
  "view_distance s =
     (if isPrintingPDF (host s) then None
      else Some (if isMobile (host s) then (if overviewActive s then 6 else cfg_mobileViewDistance (cfg s))
                 else (if overviewActive s then 10 else cfg_viewDistance (cfg s))))"

definition near :: "int option \<Rightarrow> jsnum \<Rightarrow> bool" where
  "near limit distance = (case limit of Some k \<Rightarrow> js_lt distance (Num k) | None \<Rightarrow> distance \<noteq> NaN \<and> distance \<noteq> Undef)"

definition distance_x :: "bool \<Rightarrow> int option \<Rightarrow> int \<Rightarrow> int \<Rightarrow> int \<Rightarrow> int" where
  "distance_x loop limit n h x =
     (if loop then (case limit of
          Some k \<Rightarrow> if n - k = 0 then 0 else \<bar>trunc_rem (h - x) (n - k)\<bar>
        | None \<Rightarrow> \<bar>h - x\<bar>)
      else \<bar>h - x\<bar>)"

definition js_abs :: "jsnum \<Rightarrow> jsnum" where
  "js_abs a = (case a of Num i \<Rightarrow> Num \<bar>i\<bar> | _ \<Rightarrow> NaN)"

definition keep_loaded :: "config \<Rightarrow> host \<Rightarrow> bool \<Rightarrow> node \<Rightarrow> page \<Rightarrow> page" where
  "keep_loaded c h b x p = (if b then slideContent_load c h False x p else slideContent_unload x p)"

definition visit_vertical :: "reveal \<Rightarrow> int option \<Rightarrow> int \<Rightarrow> bool \<Rightarrow> jsnum \<Rightarrow> nat \<times> node \<Rightarrow> page \<Rightarrow> page" where
  "visit_vertical s limit dx here oy e p =
     (let (y, v) = e;
          dy = (if here then js_abs (js_sub (or_zero (indexv s)) (Num (int y))) else js_abs (js_sub (Num (int y)) oy))
      in keep_loaded (cfg s) (host s) (near limit (js_add (Num dx) dy)) v p)"

definition visit_column :: "reveal \<Rightarrow> int option \<Rightarrow> int \<Rightarrow> nat \<times> node \<Rightarrow> page \<Rightarrow> page" where
  "visit_column s limit n e p =
     (let (x, h) = e; ih = the_num (or_zero (indexh s));
          vs = verticals (fst p) h;
          dx = distance_x (cfg_loop (cfg s)) limit n ih (int x);
          p1 = keep_loaded (cfg s) (host s) (near limit (Num dx)) h p
      in if vs = [] then p1
         else (let oy = getPreviousVerticalIndex (fst p1) (Some h)
               in fold (visit_vertical s limit dx (int x = ih) oy) (enumerate 0 vs) p1))"

definition flag_class :: "bool \<Rightarrow> string \<Rightarrow> node \<Rightarrow> dom \<Rightarrow> dom" where
  "flag_class b c x d = (if b then add_class c x d else remove_class c x d)"

definition updateSlidesVisibility :: "reveal \<Rightarrow> reveal" where
  "updateSlidesVisibility s =
     (let hs = getHorizontalSlides s in
      if hs \<noteq> [] \<and> is_number (indexh s) then
       (let s1 = on_page (fold (visit_column s (view_distance s) (int (length hs))) (enumerate 0 hs)) s;
            w = wrapper (host s1);
            s2 = s1\<lparr>doc := flag_class (hasVerticalSlides s1) ''has-vertical-slides'' w (doc s1)\<rparr>
        in s2\<lparr>doc := flag_class (hasHorizontalSlides s2) ''has-horizontal-slides'' w (doc s2)\<rparr>)
      else s)"

section \<open>Resetting stacks\<close>

definition reset_vertical :: "node \<Rightarrow> dom \<Rightarrow> dom" where
  "reset_vertical x d =
     set_attr ''aria-hidden'' ''true'' x (add_class ''future'' x (remove_class ''past'' x (remove_class ''present'' x d)))"

definition resetVerticalSlides :: "reveal \<Rightarrow> reveal" where
  "resetVerticalSlides s =
     s\<lparr>doc := for_each (\<lambda>h d. for_each reset_vertical (drop 1 (verticals d h)) d) (getHorizontalSlides s) (doc s)\<rparr>"

section \<open>Where a slide is\<close>

text \<open>
  The position of a slide: its position classes and whether it is hidden. The loop writes the
  position of every slide of the axis from its place in the list.
\<close>

type_synonym position = "bool \<times> bool \<times> bool \<times> string option \<times> string option"

definition pos :: "dom \<Rightarrow> node \<Rightarrow> position" where
  "pos d x = (has_class ''past'' d x, has_class ''present'' d x, has_class ''future'' d x,
     get_attr ''hidden'' d x, get_attr ''aria-hidden'' d x)"

definition target_pos :: "config \<Rightarrow> bool \<Rightarrow> jsnum \<Rightarrow> bool \<Rightarrow> nat \<Rightarrow> position" where
  "target_pos c printing index vertical i =
     (if printing then (False, True, False, Some [], Some ''true'')
      else (let reverse = cfg_rtl c \<and> \<not> vertical; before = js_lt (Num (int i)) index; after = js_gt (Num (int i)) index
            in (if reverse then \<not> before \<and> after else before, False,
                if reverse then before else \<not> before \<and> after, Some [], Some ''true'')))"

lemma frag_class_frame [simp]:
  "order (showFragmentsIn x d) = order d" "path (showFragmentsIn x d) = path d" "tag (showFragmentsIn x d) = tag d"
  "attr (showFragmentsIn x d) = attr d" "nextNode (showFragmentsIn x d) = nextNode d"
  "order (hideFragmentsIn x d) = order d" "path (hideFragmentsIn x d) = path d" "tag (hideFragmentsIn x d) = tag d"
  "attr (hideFragmentsIn x d) = attr d" "nextNode (hideFragmentsIn x d) = nextNode d"
  by (simp_all add: showFragmentsIn_def hideFragmentsIn_def for_each_frame)

lemma fragments_in_class:
  assumes "k \<noteq> ''visible''" "k \<noteq> ''current-fragment''"
  shows "has_class k (showFragmentsIn x d) = has_class k d" "has_class k (hideFragmentsIn x d) = has_class k d"
  using assms by (auto simp: showFragmentsIn_def hideFragmentsIn_def fun_eq_iff intro!: for_each_frame)

lemma pos_fragments [simp]: "pos (showFragmentsIn x d) = pos d" "pos (hideFragmentsIn x d) = pos d"
  by (simp_all add: pos_def fun_eq_iff fragments_in_class get_attr_def)

lemma mark_stack_frame [simp]:
  "order (mark_stack x d) = order d" "path (mark_stack x d) = path d" "tag (mark_stack x d) = tag d"
  "nextNode (mark_stack x d) = nextNode d" "attr (mark_stack x d) = attr d"
  by (simp_all add: mark_stack_def)

lemma hide_slide_frame [simp]:
  "order (hide_slide x d) = order d" "path (hide_slide x d) = path d" "tag (hide_slide x d) = tag d"
  "nextNode (hide_slide x d) = nextNode d"
  by (simp_all add: hide_slide_def)

lemma pos_mark_stack [simp]: "pos (mark_stack x d) = pos d"
  by (simp add: pos_def mark_stack_def fun_eq_iff)

lemma pos_hide [simp]:
  "pos (hide_slide x d) y = (if y = x then (False, False, False, Some [], Some ''true'') else pos d y)"
  by (simp add: pos_def hide_slide_def)

lemma pos_add:
  "pos (add_class ''past'' x d) y = (if y = x then (True, snd (pos d y)) else pos d y)"
  "pos (add_class ''future'' x d) y =
     (if y = x then (fst (pos d y), fst (snd (pos d y)), True, snd (snd (snd (pos d y)))) else pos d y)"
  "pos (add_class ''present'' x d) y =
     (if y = x then (fst (pos d y), True, snd (snd (pos d y))) else pos d y)"
  by (simp_all add: pos_def)

lemma position_slide_frame [simp]:
  "order (position_slide c pr ix fw bw e d) = order d" "path (position_slide c pr ix fw bw e d) = path d"
  "tag (position_slide c pr ix fw bw e d) = tag d" "nextNode (position_slide c pr ix fw bw e d) = nextNode d"
  by (simp_all add: position_slide_def split_beta Let_def)

lemma isVerticalSlide_cong: "path d' = path d \<Longrightarrow> tag d' = tag d \<Longrightarrow> isVerticalSlide d' x = isVerticalSlide d x"
  by (simp add: isVerticalSlide_def parentNode_def is_section_def split: option.split)

lemma pos_position_slide:
  "pos (position_slide c pr ix fw bw (i, x) d) y =
     (if y = x then target_pos c pr ix (isVerticalSlide d (Some x)) i else pos d y)"
  by (cases "js_lt (Num (int i)) ix")
    (simp_all add: position_slide_def Let_def pos_add target_pos_def)

text \<open>A numbered loop whose body writes one observation of the element it is at.\<close>

lemma fold_enumerate_obs:
  assumes "\<And>e d. I d \<Longrightarrow> I (f e d)"
    and "\<And>i x d. I d \<Longrightarrow> obs (f (i, x) d) = (obs d)(x := v i x)"
    and "I d" "distinct xs"
  shows "obs (fold f (enumerate n xs) d) y =
    (if y \<in> set xs then v (n + nat (index_of y xs)) y else obs d y)"
  using assms(3,4)
proof (induction xs arbitrary: n d)
  case (Cons x xs)
  have IH: "obs (fold f (enumerate (Suc n) xs) (f (n, x) d)) y =
      (if y \<in> set xs then v (Suc n + nat (index_of y xs)) y else obs (f (n, x) d) y)"
    using Cons.IH [of "f (n, x) d" "Suc n"] Cons.prems assms(1) by simp
  have "0 \<le> index_of y xs" if "y \<in> set xs" using index_of_in [OF that] by simp
  then show ?case using IH Cons.prems by (auto simp: assms(2) Let_def nat_add_distrib)
qed simp

lemma pos_position_slides:
  assumes "distinct slides"
  shows "pos (position_slides c pr ix fw bw slides d) y =
    (if y \<in> set slides then target_pos c pr ix (isVerticalSlide d (Some y)) (nat (index_of y slides)) else pos d y)"
proof -
  have "pos (fold (position_slide c pr ix fw bw) (enumerate 0 slides) d) y =
    (if y \<in> set slides then target_pos c pr ix (isVerticalSlide d (Some y)) (0 + nat (index_of y slides)) else pos d y)"
  proof (rule fold_enumerate_obs [where I = "\<lambda>d'. path d' = path d \<and> tag d' = tag d"])
    show "pos (position_slide c pr ix fw bw (i, x) d') =
        (pos d')(x := target_pos c pr ix (isVerticalSlide d (Some x)) i)"
      if "path d' = path d \<and> tag d' = tag d" for i x d'
      using that isVerticalSlide_cong [of d' d "Some x"] by (simp add: fun_eq_iff pos_position_slide)
  qed (use assms in simp_all)
  then show ?thesis by (simp add: position_slides_def)
qed

section \<open>The index\<close>

definition wrapped :: "bool \<Rightarrow> int \<Rightarrow> int \<Rightarrow> int" where
  "wrapped loop n k = (if loop then k mod n else max 0 (min k (n - 1)))"

lemma wrapped_bounds: "0 < n \<Longrightarrow> 0 \<le> wrapped l n k \<and> wrapped l n k < n"
  by (auto simp: wrapped_def min_def max_def)

lemma trunc_rem_mod:
  assumes "0 < n"
  shows "(if trunc_rem k n < 0 then n + trunc_rem k n else trunc_rem k n) = k mod n"
proof (cases "0 \<le> k")
  case True
  then show ?thesis using assms by (cases "k = 0") (simp_all add: trunc_rem_def sgn_if not_less)
next
  case False
  then have r: "trunc_rem k n = - ((- k) mod n)" using assms by (simp add: trunc_rem_def sgn_if)
  show ?thesis
  proof (cases "(- k) mod n = 0")
    case True
    then show ?thesis using r by (simp add: mod_eq_0_iff_dvd)
  next
    case f: False
    have "0 < (- k) mod n" using f assms pos_mod_sign [of n "- k"] by linarith
    moreover have "k mod n = n - (- k) mod n" using f zmod_zminus1_eq_if [of "- k" n] by simp
    ultimately show ?thesis using r by simp
  qed
qed

lemma loop_index_wrapped:
  assumes "0 < n"
  shows "bound_index n (snd (snd (loop_index l n (Num k)))) = Num (wrapped l n k)"
proof (cases l)
  case True
  have m: "0 \<le> k mod n" "k mod n < n" using assms by simp_all
  have "snd (snd (loop_index l n (Num k))) = Num (k mod n)"
    using assms trunc_rem_mod [OF assms, of k] True by (auto simp: loop_index_def Let_def)
  with m True show ?thesis by (simp add: bound_index_def wrapped_def)
qed (simp add: loop_index_def bound_index_def wrapped_def max.commute)

lemma loop_index_nan:
  "a \<notin> range Num \<Longrightarrow> bound_index n (snd (snd (loop_index l n a))) = NaN"
  by (cases a) (simp_all add: loop_index_def bound_index_def Let_def)

section \<open>What stays the same\<close>

text \<open>
  Moving to another slide changes positions; the structure of the deck, the states the slides
  ask for and whether the deck is paused stay. The vertical index a stack was left at changes,
  but stays one that can be read.
\<close>

definition index_attr_ok :: "string option \<Rightarrow> bool" where
  "index_attr_ok v = (case v of None \<Rightarrow> True | Some t \<Rightarrow> t = [] \<or> parseInt t \<noteq> NaN)"

definition slide_attrs_kept :: "dom \<Rightarrow> dom \<Rightarrow> node \<Rightarrow> bool" where
  "slide_attrs_kept d d' x =
     (get_attr ''data-state'' d' x = get_attr ''data-state'' d x \<and>
      get_attr ''data-start-indexv'' d' x = get_attr ''data-start-indexv'' d x \<and>
      (index_attr_ok (get_attr ''data-previous-indexv'' d x) \<longrightarrow> index_attr_ok (get_attr ''data-previous-indexv'' d' x)))"

definition same_structure :: "node \<Rightarrow> dom \<Rightarrow> dom \<Rightarrow> bool" where
  "same_structure w d d' = (wf_page w d \<longrightarrow> wf_page w d' \<and> keeps d d' \<and> nextNode d \<le> nextNode d' \<and>
     (\<forall>x < nextNode d. tag d' x = tag d x) \<and>
     (\<forall>x\<in>set (sections d). slide_attrs_kept d d' x) \<and>
     has_class ''paused'' d' w = has_class ''paused'' d w)"

lemma same_sections_structure: "same_sections w d d' \<Longrightarrow> same_structure w d d'"
  by (auto simp: same_structure_def same_sections_def slide_attrs_kept_def)

lemma same_structure_refl [simp]: "same_structure w d d"
  by (simp add: same_structure_def slide_attrs_kept_def)

lemma same_structure_trans: "same_structure w a b \<Longrightarrow> same_structure w b c \<Longrightarrow> same_structure w a c"
proof -
  assume ab: "same_structure w a b" and bc: "same_structure w b c"
  show ?thesis
  proof (cases "wf_page w a")
    case True
    then have wb: "wf_page w b" and k: "keeps a b" using ab by (simp_all add: same_structure_def)
    have sec: "sections b = sections a" using k by (simp add: keeps_def)
    show ?thesis using True wb ab bc keeps_trans [of a b c] by (auto simp: same_structure_def sec slide_attrs_kept_def)
  qed (simp add: same_structure_def)
qed

lemma same_structure_writes [simp, intro]:
  "c \<noteq> ''slides'' \<Longrightarrow> c \<noteq> ''paused'' \<Longrightarrow> same_structure w d (add_class c x d)"
  "c \<noteq> ''slides'' \<Longrightarrow> c \<noteq> ''paused'' \<Longrightarrow> same_structure w d (remove_class c x d)"
  "\<not> kept_attr a \<Longrightarrow> same_structure w d (set_attr a v x d)"
  "\<not> kept_attr a \<Longrightarrow> same_structure w d (remove_attr a x d)"
  by (auto simp: same_structure_def slide_attrs_kept_def)

lemma same_structure_previous: "same_structure w d (setPreviousVerticalIndex stack v d)"
  by (cases v) (auto simp: same_structure_def slide_attrs_kept_def setPreviousVerticalIndex_def index_attr_ok_def)

lemma same_structureI:
  assumes "order d' = order d" "path d' = path d" "tag d' = tag d" "nextNode d' = nextNode d"
    "bgOf d' = bgOf d" "bgContentOf d' = bgContentOf d"
    "has_class ''slides'' d' = has_class ''slides'' d" "has_class ''paused'' d' = has_class ''paused'' d"
    "get_attr ''data-state'' d' = get_attr ''data-state'' d"
    "get_attr ''data-start-indexv'' d' = get_attr ''data-start-indexv'' d"
    "get_attr ''data-previous-indexv'' d' = get_attr ''data-previous-indexv'' d"
  shows "same_structure w d d'"
proof -
  have "keeps d d'" using assms by (intro keepsI) simp_all
  moreover have "wf_page w d' = wf_page w d" using wf_dom_cong [OF assms(1-6)] assms(4) by (simp add: wf_page_def)
  ultimately show ?thesis using assms by (simp add: same_structure_def slide_attrs_kept_def)
qed

lemma same_structure_fold:
  "(\<And>e d. e \<in> set es \<Longrightarrow> same_structure w d (f e d)) \<Longrightarrow> same_structure w d (fold f es d)"
  by (induction es arbitrary: d) (auto intro: same_structure_trans)

lemma same_structure_for_each:
  "(\<And>x d. x \<in> set xs \<Longrightarrow> same_structure w d (f x d)) \<Longrightarrow> same_structure w d (for_each f xs d)"
  unfolding for_each_def by (rule same_structure_fold)

lemma bg_frame_fragments [simp]:
  "bgOf (showFragmentsIn x d) = bgOf d" "bgContentOf (showFragmentsIn x d) = bgContentOf d"
  "bgOf (hideFragmentsIn x d) = bgOf d" "bgContentOf (hideFragmentsIn x d) = bgContentOf d"
  by (simp_all add: showFragmentsIn_def hideFragmentsIn_def for_each_frame)

lemma get_attr_fragments [simp]:
  "get_attr a (showFragmentsIn x d) = get_attr a d" "get_attr a (hideFragmentsIn x d) = get_attr a d"
  by (rule get_attr_cong, simp)+

lemma same_structure_position: "same_structure w d (position_slide c pr ix fw bw e d)"
  by (rule same_structureI)
    (simp_all add: position_slide_def mark_stack_def hide_slide_def split_beta Let_def fragments_in_class fun_eq_iff)

lemma same_structure_positions: "same_structure w d (position_slides c pr ix fw bw slides d)"
  unfolding position_slides_def by (intro same_structure_fold same_structure_position)

lemma same_structure_show: "same_structure w d (show_slide el d)"
  by (rule same_structureI) (simp_all add: show_slide_def fun_eq_iff)

end
