(* ===== verification/AutoSlide.thy ===== *)
theory AutoSlide
  imports Slides
begin

text \<open>
  Auto-sliding and pausing, from \<open>reveal.js\<close>: the timer that advances the deck, its
  duration, and the two ways to stop it (the pause of the whole deck, and that of auto-sliding
  after user input). Of \<open>components/playback.js\<close> only whether the player shows the deck as
  playing is kept; a duration that is no number counts as none.
\<close>

section \<open>The timer\<close>

definition cancelAutoSlide :: "reveal \<Rightarrow> reveal" where
  "cancelAutoSlide s = s\<lparr>world := clearTimeout (autoSlideTimeout s) (world s), autoSlideTimeout := -1\<rparr>"

definition setPlaying :: "bool \<Rightarrow> reveal \<Rightarrow> reveal" where
  "setPlaying v s = (if autoSlidePlayer s then s\<lparr>autoSlidePlaying := v\<rparr> else s)"

definition parse_duration :: "string \<Rightarrow> real" where
  "parse_duration v = (case parseInt v of Num i \<Rightarrow> real_of_int i | _ \<Rightarrow> 0)"

definition media_duration :: "host \<Rightarrow> dom \<Rightarrow> node \<Rightarrow> real \<Rightarrow> real" where
  "media_duration h d el a =
     (if has_attr ''data-autoplay'' d el then
        (case mediaDuration h el of
           Some len \<Rightarrow> (let ms = len * 1000 / playbackRate h el in if a \<noteq> 0 \<and> a < ms then ms + 1000 else a)
         | None \<Rightarrow> a)
      else a)"

text \<open>In order: the current (else the first) fragment's, the slide's, its parent's, the global duration.\<close>

definition autoslide_duration :: "reveal \<Rightarrow> node \<Rightarrow> int \<Rightarrow> real" where
  "autoslide_duration s c base =
     (let d = doc s;
          fragment = (case querySel d c (has_class ''current-fragment'' d) of
                        Some f \<Rightarrow> Some f | None \<Rightarrow> querySel d c (fragment_sel d));
          own = (\<lambda>x. case x of Some n \<Rightarrow> get_attr ''data-autoslide'' d n | None \<Rightarrow> None)
      in if truthy (own fragment) then parse_duration (the (own fragment))
         else if truthy (own (Some c)) then parse_duration (the (own (Some c)))
         else if truthy (own (parentNode d c)) then parse_duration (the (own (parentNode d c)))
         else if fragments_of d c = [] then
           fold (media_duration (host s) d) (queryAll d c (is_tag [''video'', ''audio''] d)) (real_of_int base)
         else real_of_int base)"

definition may_autoslide :: "reveal \<Rightarrow> bool" where
  "may_autoslide s =
     (autoSlide s \<noteq> 0 \<and> \<not> autoSlidePaused s \<and> \<not> isPaused s \<and> \<not> overviewActive s \<and>
      (\<not> isLastSlide s \<or> fr_next (fragments_availableRoutes s) \<or> cfg_loop (cfg s)))"

definition start_autoslide :: "reveal \<Rightarrow> reveal" where
  "start_autoslide s =
     (let (i, w) = setTimeout TAutoSlide (max 0 \<lfloor>autoSlide s\<rfloor>) (world s)
      in s\<lparr>world := w, autoSlideTimeout := i, autoSlideStartTime := now w\<rparr>)"

definition cueAutoSlide :: "reveal \<Rightarrow> reveal" where
  "cueAutoSlide s =
     (let s1 = cancelAutoSlide s in
      case (currentSlide s1, cfg_autoSlide (cfg s1)) of
        (Some c, Some base) \<Rightarrow>
          (let s2 = s1\<lparr>autoSlide := autoslide_duration s1 c base\<rparr>;
               s3 = (if may_autoslide s2 then start_autoslide s2 else s2)
           in setPlaying (autoSlideTimeout s3 \<noteq> -1) s3)
      | _ \<Rightarrow> s1)"

section \<open>Pausing\<close>

definition pauseAutoSlide :: "reveal \<Rightarrow> reveal" where
  "pauseAutoSlide s =
     (if autoSlide s \<noteq> 0 \<and> \<not> autoSlidePaused s then
       (let s1 = dispatchEvent (Ev ''autoslidepaused'' (wrapper (host s))) (s\<lparr>autoSlidePaused := True\<rparr>)
        in setPlaying False (s1\<lparr>world := clearTimeout (autoSlideTimeout s1) (world s1)\<rparr>))
      else s)"

definition resumeAutoSlide :: "reveal \<Rightarrow> reveal" where
  "resumeAutoSlide s =
     (if autoSlide s \<noteq> 0 \<and> autoSlidePaused s
      then cueAutoSlide (dispatchEvent (Ev ''autoslideresumed'' (wrapper (host s))) (s\<lparr>autoSlidePaused := False\<rparr>))
      else s)"

definition toggleAutoSlide :: "bool option \<Rightarrow> reveal \<Rightarrow> reveal" where
  "toggleAutoSlide override s =
     (case override of
        Some b \<Rightarrow> if b then resumeAutoSlide s else pauseAutoSlide s
      | None \<Rightarrow> if autoSlidePaused s then resumeAutoSlide s else pauseAutoSlide s)"

definition pause :: "reveal \<Rightarrow> reveal" where
  "pause s =
     (if cfg_pause (cfg s) then
       (let wasPaused = isPaused s; s1 = cancelAutoSlide s;
            s2 = s1\<lparr>doc := add_class ''paused'' (wrapper (host s1)) (doc s1)\<rparr>
        in if wasPaused then s2 else dispatchEvent (Ev ''paused'' (wrapper (host s2))) s2)
      else s)"

definition resume :: "reveal \<Rightarrow> reveal" where
  "resume s =
     (let wasPaused = isPaused s;
          s1 = cueAutoSlide (s\<lparr>doc := remove_class ''paused'' (wrapper (host s)) (doc s)\<rparr>)
      in if wasPaused then dispatchEvent (Ev ''resumed'' (wrapper (host s1))) s1 else s1)"

definition togglePause :: "bool option \<Rightarrow> reveal \<Rightarrow> reveal" where
  "togglePause override s =
     (case override of
        Some b \<Rightarrow> if b then pause s else resume s
      | None \<Rightarrow> if isPaused s then resume s else pause s)"

definition onUserInput :: "reveal \<Rightarrow> reveal" where
  "onUserInput s = (if cfg_autoSlideStoppable (cfg s) then pauseAutoSlide s else s)"

section \<open>The timer and the pauses agree\<close>

text \<open>
  At most one auto-slide timer is pending, the one whose identifier is kept; none is while the
  deck is paused, auto-sliding is paused, or the overview is open.
\<close>

definition halted :: "reveal \<Rightarrow> bool" where
  "halted s = (isPaused s \<or> autoSlidePaused s \<or> overviewActive s)"

definition auto_ok :: "reveal \<Rightarrow> bool" where
  "auto_ok s = (timers_ok s \<and> (\<forall>t\<in>set (timers_of TAutoSlide (world s)). tid t = autoSlideTimeout s) \<and>
     (halted s \<longrightarrow> timers_of TAutoSlide (world s) = []))"

lemma cancelAutoSlide_frame [simp]:
  "cfg (cancelAutoSlide s) = cfg s" "host (cancelAutoSlide s) = host s" "refs (cancelAutoSlide s) = refs s"
  "doc (cancelAutoSlide s) = doc s" "currentSlide (cancelAutoSlide s) = currentSlide s"
  "indexh (cancelAutoSlide s) = indexh s" "indexv (cancelAutoSlide s) = indexv s"
  "previousSlide (cancelAutoSlide s) = previousSlide s"
  "autoSlidePaused (cancelAutoSlide s) = autoSlidePaused s" "overviewActive (cancelAutoSlide s) = overviewActive s"
  "stateArr (cancelAutoSlide s) = stateArr s" "overlay (cancelAutoSlide s) = overlay s" "autoSlide (cancelAutoSlide s) = autoSlide s"
  by (simp_all add: cancelAutoSlide_def)

lemma setPlaying_frame [simp]:
  "cfg (setPlaying v s) = cfg s" "host (setPlaying v s) = host s" "refs (setPlaying v s) = refs s"
  "doc (setPlaying v s) = doc s" "world (setPlaying v s) = world s" "currentSlide (setPlaying v s) = currentSlide s"
  "indexh (setPlaying v s) = indexh s" "indexv (setPlaying v s) = indexv s"
  "previousSlide (setPlaying v s) = previousSlide s"
  "autoSlidePaused (setPlaying v s) = autoSlidePaused s" "overviewActive (setPlaying v s) = overviewActive s"
  "autoSlideTimeout (setPlaying v s) = autoSlideTimeout s" "stateArr (setPlaying v s) = stateArr s"
  "overlay (setPlaying v s) = overlay s"
  "autoSlide (setPlaying v s) = autoSlide s"
  "writeURLTimeout (setPlaying v s) = writeURLTimeout s" "replaceStateTimeout (setPlaying v s) = replaceStateTimeout s"
  "cursorInactiveTimeout (setPlaying v s) = cursorInactiveTimeout s"
  by (simp_all add: setPlaying_def)

lemma start_autoslide_frame [simp]:
  "cfg (start_autoslide s) = cfg s" "host (start_autoslide s) = host s" "refs (start_autoslide s) = refs s"
  "doc (start_autoslide s) = doc s" "currentSlide (start_autoslide s) = currentSlide s"
  "indexh (start_autoslide s) = indexh s" "indexv (start_autoslide s) = indexv s"
  "previousSlide (start_autoslide s) = previousSlide s"
  "autoSlidePaused (start_autoslide s) = autoSlidePaused s" "overviewActive (start_autoslide s) = overviewActive s"
  "stateArr (start_autoslide s) = stateArr s" "overlay (start_autoslide s) = overlay s" "autoSlide (start_autoslide s) = autoSlide s"
  by (simp_all add: start_autoslide_def split_beta Let_def)

lemma cueAutoSlide_frame [simp]:
  "cfg (cueAutoSlide s) = cfg s" "host (cueAutoSlide s) = host s" "refs (cueAutoSlide s) = refs s"
  "doc (cueAutoSlide s) = doc s" "currentSlide (cueAutoSlide s) = currentSlide s"
  "indexh (cueAutoSlide s) = indexh s" "indexv (cueAutoSlide s) = indexv s"
  "previousSlide (cueAutoSlide s) = previousSlide s"
  "autoSlidePaused (cueAutoSlide s) = autoSlidePaused s" "overviewActive (cueAutoSlide s) = overviewActive s"
  "stateArr (cueAutoSlide s) = stateArr s" "overlay (cueAutoSlide s) = overlay s"
  by (simp_all add: cueAutoSlide_def Let_def split: option.split)

lemma halted_frame [simp]: "halted (cueAutoSlide s) = halted s" "halted (cancelAutoSlide s) = halted s"
  by (simp_all add: halted_def isPaused_def)

lemma timers_ok_fields [simp]:
  "timers_ok (s\<lparr>autoSlide := a\<rparr>) = timers_ok s" "timers_ok (s\<lparr>autoSlidePaused := b\<rparr>) = timers_ok s"
  "timers_ok (s\<lparr>doc := d\<rparr>) = timers_ok s" "timers_ok (s\<lparr>overviewActive := b\<rparr>) = timers_ok s"
  by (simp_all add: timers_ok_def)

lemma auto_ok_cancel:
  assumes "timers_ok s" "\<forall>t\<in>set (timers_of TAutoSlide (world s)). tid t = autoSlideTimeout s"
  shows "timers_of TAutoSlide (world (cancelAutoSlide s)) = []" "timers_ok (cancelAutoSlide s)"
  using assms by (auto simp: cancelAutoSlide_def timers_of_clear timers_ok_def filter_empty_conv calls_ok_clear)

lemma auto_ok_start:
  assumes "timers_ok s" "timers_of TAutoSlide (world s) = []" "\<not> halted s"
  shows "auto_ok (start_autoslide s)"
  using assms wf_timers_set [of "world s" TAutoSlide "max 0 \<lfloor>autoSlide s\<rfloor>"]
    calls_ok_set [of "world s" TAutoSlide "max 0 \<lfloor>autoSlide s\<rfloor>"]
  by (auto simp: auto_ok_def start_autoslide_def timers_ok_def timers_of_set split_beta Let_def halted_def isPaused_def)
    (simp_all add: setTimeout_def)

lemma auto_ok_setPlaying [simp]: "auto_ok (setPlaying v s) = auto_ok s"
  by (simp add: auto_ok_def timers_ok_def halted_def isPaused_def)

text \<open>Cueing needs less than the invariant: it cancels first.\<close>

definition one_timer :: "reveal \<Rightarrow> bool" where
  "one_timer s = (timers_ok s \<and> (\<forall>t\<in>set (timers_of TAutoSlide (world s)). tid t = autoSlideTimeout s))"

lemma auto_ok_one: "auto_ok s \<Longrightarrow> one_timer s" by (simp add: auto_ok_def one_timer_def)

lemma auto_ok_cancelled: "one_timer s \<Longrightarrow> auto_ok (cancelAutoSlide s)"
  using auto_ok_cancel [of s] by (simp add: auto_ok_def one_timer_def)

lemma auto_ok_duration [simp]: "auto_ok (s\<lparr>autoSlide := a\<rparr>) = auto_ok s"
  by (simp add: auto_ok_def timers_ok_def halted_def isPaused_def)

lemma auto_ok_cue:
  assumes "one_timer s"
  shows "auto_ok (cueAutoSlide s)"
proof -
  let ?s1 = "cancelAutoSlide s"
  have 1: "auto_ok ?s1" using assms by (rule auto_ok_cancelled)
  have "auto_ok (start_autoslide (?s1\<lparr>autoSlide := a\<rparr>))" if "may_autoslide (?s1\<lparr>autoSlide := a\<rparr>)" for a
  proof (rule auto_ok_start)
    show "timers_ok (?s1\<lparr>autoSlide := a\<rparr>)" using 1 by (simp add: auto_ok_def)
    show "timers_of TAutoSlide (world (?s1\<lparr>autoSlide := a\<rparr>)) = []"
      using assms auto_ok_cancel by (simp add: one_timer_def)
    show "\<not> halted (?s1\<lparr>autoSlide := a\<rparr>)" using that by (simp add: may_autoslide_def halted_def)
  qed
  with 1 show ?thesis by (simp add: cueAutoSlide_def Let_def split: option.split)
qed

lemma quiet_auto_ok:
  assumes "quiet s t" "page_wf s" "auto_ok s"
  shows "auto_ok t"
  using assms quiet_timers [OF assms(1)] quietD [OF assms(1)] quiet_paused [OF assms(1,2)]
  by (simp add: auto_ok_def halted_def)

lemma auto_ok_pauseAutoSlide:
  assumes "page_wf s" "auto_ok s"
  shows "auto_ok (pauseAutoSlide s)"
proof -
  let ?s0 = "s\<lparr>autoSlidePaused := True\<rparr>"
  let ?s1 = "dispatchEvent (Ev ''autoslidepaused'' (wrapper (host s))) ?s0"
  have t0: "timers_ok ?s0" using assms(2) by (simp add: auto_ok_def)
  have q: "quiet ?s0 ?s1" by simp
  have "one_timer ?s1"
    using quiet_timers [OF q t0] quietD(11) [OF q] assms(2) by (simp add: one_timer_def auto_ok_def)
  then have "auto_ok (cancelAutoSlide ?s1)" "timers_of TAutoSlide (world (cancelAutoSlide ?s1)) = []"
    using auto_ok_cancelled auto_ok_cancel by (simp_all add: one_timer_def)
  then have "auto_ok (?s1\<lparr>world := clearTimeout (autoSlideTimeout ?s1) (world ?s1)\<rparr>)"
    by (simp add: cancelAutoSlide_def auto_ok_def timers_ok_def)
  then show ?thesis using assms(2) by (simp add: pauseAutoSlide_def Let_def)
qed

lemma auto_ok_resumeAutoSlide:
  assumes "page_wf s" "auto_ok s"
  shows "auto_ok (resumeAutoSlide s)"
proof -
  let ?s0 = "s\<lparr>autoSlidePaused := False\<rparr>"
  let ?s1 = "dispatchEvent (Ev ''autoslideresumed'' (wrapper (host s))) ?s0"
  have t0: "timers_ok ?s0" using assms(2) by (simp add: auto_ok_def)
  have q: "quiet ?s0 ?s1" by simp
  have "one_timer ?s1"
    using quiet_timers [OF q t0] quietD(11) [OF q] assms(2) by (simp add: one_timer_def auto_ok_def)
  then show ?thesis using assms(2) auto_ok_cue by (simp add: resumeAutoSlide_def)
qed

lemma sections_class: "sections (add_class c x d) = sections d" "sections (remove_class c x d) = sections d"
proof -
  have "is_section (add_class c x d) = is_section d" "is_section (remove_class c x d) = is_section d"
    by (simp_all add: fun_eq_iff is_section_def)
  then show "sections (add_class c x d) = sections d" "sections (remove_class c x d) = sections d"
    by (simp_all add: sections_def)
qed

lemma page_wf_class: "c \<noteq> ''slides'' \<Longrightarrow> page_wf (s\<lparr>doc := add_class c x (doc s)\<rparr>) = page_wf s"
  "c \<noteq> ''slides'' \<Longrightarrow> page_wf (s\<lparr>doc := remove_class c x (doc s)\<rparr>) = page_wf s"
  by (simp_all add: page_wf_def bg_ok_def helpers_def in_subtree_def sections_class)

lemma page_wf_doc: "doc s' = doc s \<Longrightarrow> host s' = host s \<Longrightarrow> refs s' = refs s \<Longrightarrow> overlay s' = overlay s \<Longrightarrow> page_wf s' = page_wf s"
  by (simp add: page_wf_def bg_ok_def helpers_def)

lemma auto_ok_pause:
  assumes "page_wf s" "auto_ok s"
  shows "auto_ok (pause s)"
proof -
  let ?s1 = "cancelAutoSlide s"
  let ?s2 = "?s1\<lparr>doc := add_class ''paused'' (wrapper (host ?s1)) (doc ?s1)\<rparr>"
  have t: "timers_of TAutoSlide (world ?s1) = []" "timers_ok ?s1"
    using auto_ok_cancel [of s] assms(2) by (simp_all add: auto_ok_def)
  then have 2: "auto_ok ?s2" by (simp add: auto_ok_def)
  have "page_wf ?s2" using assms(1) page_wf_class(1) [of "''paused''" "wrapper (host s)" ?s1] page_wf_doc [of ?s1 s] by simp
  then have "auto_ok (dispatchEvent e ?s2)" for e using quiet_auto_ok [OF quiet_dispatch] 2 by blast
  then show ?thesis using 2 assms(2) by (simp add: pause_def Let_def)
qed

lemma auto_ok_resume:
  assumes "page_wf s" "auto_ok s"
  shows "auto_ok (resume s)"
proof -
  let ?s0 = "s\<lparr>doc := remove_class ''paused'' (wrapper (host s)) (doc s)\<rparr>"
  have "one_timer ?s0" using assms(2) by (simp add: one_timer_def auto_ok_def)
  then have 1: "auto_ok (cueAutoSlide ?s0)" by (rule auto_ok_cue)
  have "page_wf (cueAutoSlide ?s0)"
    using assms(1) page_wf_class(2) [of "''paused''"] page_wf_doc [of "cueAutoSlide ?s0" ?s0] by simp
  then have "auto_ok (dispatchEvent e (cueAutoSlide ?s0))" for e using quiet_auto_ok [OF quiet_dispatch] 1 by blast
  then show ?thesis using 1 by (simp add: resume_def Let_def)
qed

lemma auto_ok_togglePause: "page_wf s \<Longrightarrow> auto_ok s \<Longrightarrow> auto_ok (togglePause b s)"
  by (simp add: togglePause_def auto_ok_pause auto_ok_resume split: option.split)

lemma auto_ok_toggleAutoSlide: "page_wf s \<Longrightarrow> auto_ok s \<Longrightarrow> auto_ok (toggleAutoSlide b s)"
  by (simp add: toggleAutoSlide_def auto_ok_pauseAutoSlide auto_ok_resumeAutoSlide split: option.split)

lemma auto_ok_onUserInput: "page_wf s \<Longrightarrow> auto_ok s \<Longrightarrow> auto_ok (onUserInput s)"
  by (simp add: onUserInput_def auto_ok_pauseAutoSlide)

lemma isPaused_dispatch [simp]: "isPaused (dispatchEvent e s) = isPaused s"
  by (simp add: isPaused_def dispatchEvent_def Let_def)

lemma isPaused_pause: "isPaused (pause s) \<longleftrightarrow> cfg_pause (cfg s) \<or> isPaused s"
  by (simp add: pause_def Let_def) (simp add: isPaused_def)

lemma isPaused_resume: "\<not> isPaused (resume s)"
  by (simp add: resume_def Let_def) (simp add: isPaused_def)

lemma events_dispatch [simp]: "events (world (dispatchEvent e s)) = events (world s) @ [e]"
  by (auto simp: dispatchEvent_def dispatchPostMessage_def log_event_def Let_def)

lemma events_timers [simp]: "events (clearTimeout i w) = events w" "events (snd (setTimeout c t w)) = events w"
  by (simp_all add: clearTimeout_def setTimeout_def)

lemma events_cue [simp]: "events (world (cancelAutoSlide s)) = events (world s)"
  "events (world (cueAutoSlide s)) = events (world s)"
  by (simp_all add: cueAutoSlide_def cancelAutoSlide_def start_autoslide_def split_beta Let_def split: option.split)

text \<open>Toggling the pause of a deck that may be paused changes whether it is paused, and
  announces the change with exactly one event: \<open>paused\<close> or \<open>resumed\<close>.\<close>

lemma togglePause_flips:
  assumes "cfg_pause (cfg s)"
  shows "(isPaused (togglePause None s) \<longleftrightarrow> \<not> isPaused s) \<and>
    events (world (togglePause None s)) =
      events (world s) @ [Ev (if isPaused s then ''resumed'' else ''paused'') (wrapper (host s))]"
proof
  show "isPaused (togglePause None s) \<longleftrightarrow> \<not> isPaused s"
    using assms by (simp add: togglePause_def isPaused_pause isPaused_resume)
  show "events (world (togglePause None s)) =
      events (world s) @ [Ev (if isPaused s then ''resumed'' else ''paused'') (wrapper (host s))]"
    using assms by (simp add: togglePause_def pause_def resume_def Let_def)
qed

text \<open>Cueing leaves at most one auto-slide timer pending, the one the deck remembers, and none
  while the deck is paused, auto-sliding is paused or the overview is open.\<close>

lemma cue_one_timer:
  assumes "timers_ok s" "\<forall>t\<in>set (timers_of TAutoSlide (world s)). tid t = autoSlideTimeout s"
  shows "length (timers_of TAutoSlide (world (cueAutoSlide s))) \<le> 1 \<and>
    (\<forall>t\<in>set (timers_of TAutoSlide (world (cueAutoSlide s))). tid t = autoSlideTimeout (cueAutoSlide s)) \<and>
    (isPaused s \<or> autoSlidePaused s \<or> overviewActive s \<longrightarrow> timers_of TAutoSlide (world (cueAutoSlide s)) = [])"
proof -
  let ?ts = "timers_of TAutoSlide (world (cueAutoSlide s))"
  have ok: "auto_ok (cueAutoSlide s)" using assms by (intro auto_ok_cue) (simp add: one_timer_def)
  have one: "tid t = autoSlideTimeout (cueAutoSlide s)" if "t \<in> set ?ts" for t using ok that by (simp add: auto_ok_def)
  have "distinct (map tid ?ts)"
    using ok by (auto simp: auto_ok_def timers_ok_def wf_timers_def timers_of_def distinct_map intro: inj_on_subset)
  moreover have "map tid ?ts = replicate (length ?ts) (autoSlideTimeout (cueAutoSlide s))"
    using one by (intro nth_equalityI) simp_all
  ultimately have "distinct (replicate (length ?ts) (autoSlideTimeout (cueAutoSlide s)))" by simp
  then have "length ?ts \<le> 1" by (cases "length ?ts"; cases "length ?ts - 1") auto
  moreover have "isPaused (cueAutoSlide s) = isPaused s" by (simp add: isPaused_def)
  ultimately show ?thesis using ok one by (simp add: auto_ok_def halted_def)
qed

end
