(* ===== verification/SlideNumber.thy ===== *)
theory SlideNumber
  imports Location
begin

text \<open>
  \<open>controllers/slidenumber.js\<close>: the slide number in its formats, as the HTML text written
  to the page. A number format is a text; the option may also hold a function.
\<close>

definition slideNumber_configure :: "reveal \<Rightarrow> reveal" where
  "slideNumber_configure s = (case slideNumberEl (refs s) of
       None \<Rightarrow> s
     | Some el \<Rightarrow>
         (let display =
            (if truthy_sn (cfg_slideNumber (cfg s)) \<and> \<not> isPrintingPDF (host s) then
               (if cfg_showSlideNumber (cfg s) = ''all'' then ''block''
                else if cfg_showSlideNumber (cfg s) = ''speaker'' \<and> isSpeakerNotes (host s) then ''block''
                else ''none'')
             else ''none'')
          in s\<lparr>doc := set_style ''display'' (Css display) el (doc s)\<rparr>))"

fun show_snval :: "snval option \<Rightarrow> string" where
  "show_snval None = ''undefined''"
| "show_snval (Some (SnNum n)) = show_num n"
| "show_snval (Some (SnText t)) = t"

definition indent :: string where
  "indent = CHR 0x0A # replicate 5 (CHR 0x09)"

definition sn_span :: "string \<Rightarrow> string \<Rightarrow> string" where
  "sn_span c v = ''<span class=\"'' @ c @ ''\">'' @ v @ ''</span>''"

definition formatNumber :: "snval option \<Rightarrow> snval option \<Rightarrow> snval option \<Rightarrow> string \<Rightarrow> string" where
  "formatNumber a delimiter b url =
     (case b of
        Some (SnNum (Num n)) \<Rightarrow>
          ''<a href=\"'' @ url @ ''\">'' @ indent @ sn_span ''slide-number-a'' (show_snval a) @
          indent @ sn_span ''slide-number-delimiter'' (show_snval delimiter) @
          indent @ sn_span ''slide-number-b'' (show_int n) @ indent @ ''</a>''
      | _ \<Rightarrow>
          ''<a href=\"'' @ url @ ''\">'' @ indent @ sn_span ''slide-number-a'' (show_snval a) @
          indent @ ''</a>'')"

definition slide_number_format :: "reveal \<Rightarrow> string" where
  "slide_number_format s =
     (let f = (case cfg_slideNumber (cfg s) of SnString t \<Rightarrow> t | _ \<Rightarrow> ''h.v'')
      in if CHR ''c'' \<notin> set f \<and> length (getHorizontalSlides s) = 1 then ''c'' else f)"

definition slide_number_value :: "reveal \<Rightarrow> node option \<Rightarrow> snval list" where
  "slide_number_value s slide =
     (case cfg_slideNumber (cfg s) of
        SnFun g \<Rightarrow> g slide
      | _ \<Rightarrow>
         (let format = slide_number_format s;
              offset = (case slide of Some x \<Rightarrow> if uncounted (doc s) x then 0 else 1 | None \<Rightarrow> 1);
              past = SnNum (Num (getSlidePastCount s slide + offset));
              ix = getIndices s slide
          in if format = ''c'' then [past]
             else if format = ''c/t'' then [past, SnText ''/'', SnNum (Num (getTotalSlides s))]
             else SnNum (js_add (ix_h ix) (Num offset)) #
               (if isVerticalSlide (doc s) slide
                then [SnText (if format = ''h/v'' then ''/'' else ''.''), SnNum (js_add (ix_v ix) (Num 1))]
                else [])))"

definition getSlideNumber :: "reveal \<Rightarrow> node option \<Rightarrow> string" where
  "getSlideNumber s slide =
     (let v = slide_number_value s slide; item = (\<lambda>i. if i < length v then Some (v ! i) else None)
      in formatNumber (item 0) (item 1) (item 2) (''#'' @ getHash s slide))"

definition slideNumber_update :: "reveal \<Rightarrow> reveal" where
  "slideNumber_update s = (case slideNumberEl (refs s) of
       Some el \<Rightarrow>
         if truthy_sn (cfg_slideNumber (cfg s))
         then s\<lparr>doc := set_html (getSlideNumber s (currentSlide s)) el (doc s)\<rparr> else s
     | None \<Rightarrow> s)"

lemma quiet_slideNumber_update: "quiet s (slideNumber_update s)"
  by (simp add: slideNumber_update_def quiet_doc split: option.split)

interpretation slide_number: page_op slideNumber_update
  by unfold_locales (rule quiet_slideNumber_update)

text \<open>A deck with one column is always numbered flat, from one.\<close>

lemma slide_number_single:
  assumes "length (getHorizontalSlides s) = 1" "cfg_slideNumber (cfg s) = SnBool True"
    "slide = Some x" "\<not> uncounted (doc s) x"
  shows "slide_number_value s slide = [SnNum (Num (getSlidePastCount s slide + 1))]"
  using assms by (simp add: slide_number_value_def slide_number_format_def Let_def)

end
