(* ===== verification/Notes.thy ===== *)
theory Notes
  imports Sample
begin

text \<open>\<open>controllers/notes.js\<close>: speaker notes shown beside the slides.\<close>

definition notes_configure :: "reveal \<Rightarrow> reveal" where
  "notes_configure s = (case notesEl (refs s) of
       None \<Rightarrow> s
     | Some el \<Rightarrow>
         if truthy_bs (cfg_showNotes (cfg s)) then
           s\<lparr>doc := set_attr ''data-layout''
               (case cfg_showNotes (cfg s) of SVal v \<Rightarrow> v | BVal _ \<Rightarrow> ''inline'') el (doc s)\<rparr>
         else s)"

definition notes_element :: "dom \<Rightarrow> node \<Rightarrow> bool" where
  "notes_element d x = (tag d x = ''aside'' \<and> has_class ''notes'' d x)"

definition getSlideNotes :: "dom \<Rightarrow> node \<Rightarrow> string" where
  "getSlideNotes d slide = (case get_attr ''data-notes'' d slide of
       Some v \<Rightarrow> v
     | None \<Rightarrow> join_with [CHR 0x0A] (map (html d) (queryAll d slide (notes_element d))))"

definition no_notes :: string where
  "no_notes = ''<span class=\"notes-placeholder\">No notes on this slide.</span>''"

definition notes_update :: "reveal \<Rightarrow> reveal" where
  "notes_update s = (case (notesEl (refs s), currentSlide s) of
       (Some el, Some c) \<Rightarrow>
         if truthy_bs (cfg_showNotes (cfg s)) \<and> \<not> isPrintingPDF (host s) then
           s\<lparr>doc := set_html (if getSlideNotes (doc s) c \<noteq> [] then getSlideNotes (doc s) c else no_notes) el (doc s)\<rparr>
         else s
     | _ \<Rightarrow> s)"

definition hasNotes :: "reveal \<Rightarrow> bool" where
  "hasNotes s = (0 < length (queryAll (doc s) (slidesEl (host s))
     (\<lambda>x. has_attr ''data-notes'' (doc s) x \<or> notes_element (doc s) x)))"

definition notes_updateVisibility :: "reveal \<Rightarrow> reveal" where
  "notes_updateVisibility s =
     (if truthy_bs (cfg_showNotes (cfg s)) \<and> hasNotes s \<and> \<not> isPrintingPDF (host s)
      then s\<lparr>doc := add_class ''show-notes'' (wrapper (host s)) (doc s)\<rparr>
      else s\<lparr>doc := remove_class ''show-notes'' (wrapper (host s)) (doc s)\<rparr>)"

text \<open>The test for the speaker window: the text \<open>receiver\<close> anywhere in the query string.\<close>

definition isSpeakerNotesWindow :: "string \<Rightarrow> bool" where
  "isSpeakerNotesWindow search = contains_str ''receiver'' (map to_lower search)"

lemma quiet_notes_update: "quiet s (notes_update s)"
  by (simp add: notes_update_def quiet_doc split: option.split)

lemma quiet_notes_updateVisibility: "quiet s (notes_updateVisibility s)"
  by (simp add: notes_updateVisibility_def quiet_doc same_sections_class)

interpretation speaker_notes: page_op notes_update
  by unfold_locales (rule quiet_notes_update)

interpretation notes_visibility: page_op notes_updateVisibility
  by unfold_locales (rule quiet_notes_updateVisibility)

text \<open>The notes sidebar is marked visible exactly when notes are shown, the deck is not
  being printed and some slide has notes.\<close>

lemma notes_visible_iff:
  "has_class ''show-notes'' (doc (notes_updateVisibility s)) (wrapper (host s)) \<longleftrightarrow>
     truthy_bs (cfg_showNotes (cfg s)) \<and> hasNotes s \<and> \<not> isPrintingPDF (host s)"
  by (simp add: notes_updateVisibility_def)

end
