(* ===== verification/Navigation.thy ===== *)
theory Navigation
  imports AutoSlide SlideNumber Notes
begin

text \<open>
  Moving through the deck: \<open>slide\<close> and the \<open>navigate\<close> functions of \<open>reveal.js\<close>,
  and \<open>readURL\<close> of \<open>controllers/location.js\<close>. A move returns or throws; what it
  wrote before it threw stays written, so both outcomes carry the deck.
\<close>

datatype outcome = Returned reveal | Threw error reveal

fun and_then :: "outcome \<Rightarrow> (reveal \<Rightarrow> outcome) \<Rightarrow> outcome" where
  "and_then (Returned s) f = f s"
| "and_then (Threw e s) f = Threw e s"

fun after :: "outcome \<Rightarrow> reveal" where
  "after (Returned s) = s"
| "after (Threw e s) = s"

fun returned :: "outcome \<Rightarrow> bool" where
  "returned (Returned s) = True"
| "returned (Threw e s) = False"

section \<open>The new position\<close>

definition or_undef :: "jsnum \<Rightarrow> jsnum \<Rightarrow> jsnum" where
  "or_undef a b = (if a = Undef then b else a)"

text \<open>A stack is entered at the vertical slide it was left at, unless one is asked for.\<close>

definition resume_vertical :: "jsnum \<Rightarrow> jsnum \<Rightarrow> reveal \<Rightarrow> jsnum" where
  "resume_vertical h v s =
     (if v = Undef \<and> \<not> overviewActive s
      then getPreviousVerticalIndex (doc s) (arr_get (getHorizontalSlides s) h) else v)"

definition remember_vertical :: "reveal \<Rightarrow> reveal" where
  "remember_vertical s =
     (case previousSlide s of
        None \<Rightarrow> s
      | Some p \<Rightarrow>
         (case parentNode (doc s) p of
            None \<Rightarrow> s
          | Some stack \<Rightarrow>
              if has_class ''stack'' (doc s) stack
              then s\<lparr>doc := setPreviousVerticalIndex stack (indexv s) (doc s)\<rparr> else s))"

text \<open>What the rest of a move needs to know: whether the slide changed, whether it moved forwards,
  and the states of the slide before.\<close>

record move =
  mv_changed :: bool
  mv_forwards :: bool
  mv_states :: "string list"

definition enter_slide :: "node list \<Rightarrow> jsnum \<Rightarrow> jsnum \<Rightarrow> reveal \<Rightarrow> (error \<times> reveal) + (move \<times> reveal)" where
  "enter_slide hs h v s =
     (let oldStates = stateArr s; hb = or_zero (indexh s); vb = or_zero (indexv s) in
      case updateSlides Horizontal (or_undef h (indexh s)) (s\<lparr>stateArr := []\<rparr>) of
        Inl e \<Rightarrow> Inl e
      | Inr (ih, s1) \<Rightarrow>
         (case updateSlides Vertical (or_undef v (indexv s1)) (s1\<lparr>indexh := ih\<rparr>) of
            Inl e \<Rightarrow> Inl e
          | Inr (iv, s2) \<Rightarrow>
             (let changed = (ih \<noteq> hb \<or> iv \<noteq> vb);
                  s3 = s2\<lparr>indexv := iv, previousSlide := (if changed then previousSlide s2 else None)\<rparr>
              in case arr_get hs ih of
                   None \<Rightarrow> Inl (TypeError, s3)
                 | Some ch \<Rightarrow>
                     Inr (\<lparr>mv_changed = changed, mv_forwards = (js_gt ih hb \<or> js_gt iv vb), mv_states = oldStates\<rparr>,
                          s3\<lparr>currentSlide := Some (case arr_get (verticals (doc s3) ch) iv of Some x \<Rightarrow> x | None \<Rightarrow> ch)\<rparr>))))"

section \<open>After the position has changed\<close>

definition auto_animated :: "move \<Rightarrow> reveal \<Rightarrow> bool" where
  "auto_animated m s =
     (case (previousSlide s, currentSlide s) of
        (Some p, Some c) \<Rightarrow>
          (let d = doc s in
           mv_changed m \<and> \<not> overviewActive s \<and>
           has_attr ''data-auto-animate'' d p \<and> has_attr ''data-auto-animate'' d c \<and>
           get_attr ''data-auto-animate-id'' d p = get_attr ''data-auto-animate-id'' d c \<and>
           \<not> has_attr ''data-auto-animate-restart'' d (if mv_forwards m then c else p))
      | _ \<Rightarrow> False)"

definition start_transition :: "move \<Rightarrow> reveal \<Rightarrow> reveal" where
  "start_transition m s =
     (if mv_changed m \<and> previousSlide s \<noteq> None \<and> \<not> overviewActive s then
       (let s1 = (if auto_animated m s
                  then s\<lparr>doc := add_class ''disable-slide-transitions'' (slidesEl (host s)) (doc s)\<rparr> else s)
        in s1\<lparr>transitionRunning := True\<rparr>)
      else s)"

definition leave_previous :: "reveal \<Rightarrow> reveal" where
  "leave_previous s =
     (case previousSlide s of
        Some p \<Rightarrow>
          if previousSlide s \<noteq> currentSlide s then
           (let s1 = s\<lparr>doc := set_attr ''aria-hidden'' ''true'' p (remove_class ''present'' p (doc s))\<rparr>
            in if isFirstSlide s1 then s1\<lparr>world := snd (setTimeout TResetStacks 0 (world s1))\<rparr> else s1)
          else s
      | None \<Rightarrow> s)"

text \<open>
  States that were active before are kept (each occurrence once), new ones become classes of
  the viewport and are announced, and what is left of the old ones is taken off. A class list
  refuses an empty token and one with white space in it.
\<close>

definition token_ok :: "string \<Rightarrow> bool" where
  "token_ok w = (w \<noteq> [] \<and> \<not> list_ex is_space w)"

fun apply_states :: "string list \<Rightarrow> string list \<Rightarrow> reveal \<Rightarrow> outcome \<times> string list" where
  "apply_states [] oldStates s = (Returned s, oldStates)"
| "apply_states (w # ws) oldStates s =
     (if w \<in> set oldStates then apply_states ws (remove1 w oldStates) s
      else if \<not> token_ok w then (Threw DOMException s, oldStates)
      else apply_states ws oldStates
        (dispatchEvent (Ev w (wrapper (host s))) (s\<lparr>doc := add_class w (viewport (host s)) (doc s)\<rparr>)))"

fun drop_states :: "string list \<Rightarrow> reveal \<Rightarrow> outcome" where
  "drop_states [] s = Returned s"
| "drop_states (w # ws) s =
     (if token_ok w then drop_states ws (s\<lparr>doc := remove_class w (viewport (host s)) (doc s)\<rparr>)
      else Threw DOMException s)"

definition change_states :: "string list \<Rightarrow> reveal \<Rightarrow> outcome" where
  "change_states oldStates s =
     (let (o1, rest) = apply_states (stateArr s) oldStates s in and_then o1 (drop_states (rev rest)))"

definition announce_change :: "move \<Rightarrow> jsnum \<Rightarrow> reveal \<Rightarrow> reveal" where
  "announce_change m origin s =
     (if mv_changed m
      then dispatchEvent (EvSlide ''slidechanged'' (indexh s) (indexv s) (previousSlide s) (currentSlide s) origin) s
      else s)"

definition switch_content :: "move \<Rightarrow> reveal \<Rightarrow> reveal" where
  "switch_content m s =
     (if mv_changed m \<or> previousSlide s = None
      then on_page (startEmbeddedContent (cfg s) (host s) (currentSlide s))
             (on_page (stopEmbeddedContent (previousSlide s) True) s)
      else s)"

text \<open>The callback of an animation frame is due at once, after the running one.\<close>

definition update_controllers :: "reveal \<Rightarrow> reveal" where
  "update_controllers s =
     (let s1 = s\<lparr>world := snd (setTimeout TAnnounce 0 (world s))\<rparr>;
          s2 = notes_update (controls_update (progress_update s1));
          s3 = slideNumber_update (updateParallax (backgrounds_update False s2))
      in writeURL None (snd (fragments_update Undef None s3)))"

definition run_animation :: "bool \<Rightarrow> reveal \<Rightarrow> reveal" where
  "run_animation b s =
     (if b then
       (let w = snd (setTimeout (TRemoveClass ''disable-slide-transitions'' (slidesEl (host s))) 0 (world s))
        in s\<lparr>world := (if cfg_autoAnimate (cfg s) then log_effect (AutoAnimateRun (previousSlide s) (currentSlide s)) w else w)\<rparr>)
      else s)"

definition show_deck :: "jsnum \<Rightarrow> reveal \<Rightarrow> reveal" where
  "show_deck f s =
     (let s1 = layout (updateSlidesVisibility s);
          s2 = (if overviewActive s1 then overview_update s1 else s1)
      in if f \<noteq> Undef then snd (goto f (Num 0) s2) else s2)"

definition finish_slide :: "bool \<Rightarrow> move \<Rightarrow> jsnum \<Rightarrow> reveal \<Rightarrow> reveal" where
  "finish_slide animated m origin s =
     run_animation animated (cueAutoSlide (update_controllers (switch_content m (announce_change m origin s))))"

section \<open>Going to a slide\<close>

definition slide :: "jsnum \<Rightarrow> jsnum \<Rightarrow> jsnum \<Rightarrow> jsnum \<Rightarrow> reveal \<Rightarrow> outcome" where
  "slide h v f origin s =
     (let th = or_undef h (indexh s); tv = or_undef v (indexv s);
          s1 = dispatchEvent (EvSlide ''beforeslidechange'' th tv None None origin) s
      in if vetoes (host s) ''beforeslidechange'' th tv then Returned s1
         else
          (let s2 = s1\<lparr>previousSlide := currentSlide s1\<rparr>; hs = getHorizontalSlides s2 in
           if hs = [] then Returned s2
           else
            (case enter_slide hs h (resume_vertical h v s2) (remember_vertical s2) of
               Inl (e, s3) \<Rightarrow> Threw e s3
             | Inr (m, s3) \<Rightarrow>
                (let animated = auto_animated m s3
                 in and_then (change_states (mv_states m) (leave_previous (show_deck f (start_transition m s3))))
                      (\<lambda>s. Returned (finish_slide animated m origin s))))))"

section \<open>Directions\<close>

text \<open>
  A step first goes through the fragments, unless it skips them or (for the four directions)
  the overview is open; the first component tells whether the slide may change.
\<close>

definition through_fragments :: "bool \<Rightarrow> (reveal \<Rightarrow> bool \<times> reveal) \<Rightarrow> reveal \<Rightarrow> bool \<times> reveal" where
  "through_fragments skipFragments step s = (if skipFragments then (True, s) else (let (moved, s1) = step s in (\<not> moved, s1)))"

definition grid_index :: "reveal \<Rightarrow> jsnum" where
  "grid_index s = (if cfg_navigationMode (cfg s) = ''grid'' then indexv s else Undef)"

definition slide_horizontally :: "int \<Rightarrow> (routes \<Rightarrow> bool) \<Rightarrow> (reveal \<Rightarrow> bool \<times> reveal) \<Rightarrow> bool \<Rightarrow> reveal \<Rightarrow> outcome" where
  "slide_horizontally delta route step skipFragments s =
     (let (free, s1) = through_fragments (overviewActive s \<or> skipFragments) step s in
      if free \<and> route (availableRoutes False s1)
      then slide (js_add (indexh s1) (Num delta)) (grid_index s1) Undef Undef s1 else Returned s1)"

definition slide_vertically :: "int \<Rightarrow> (routes \<Rightarrow> bool) \<Rightarrow> (reveal \<Rightarrow> bool \<times> reveal) \<Rightarrow> bool \<Rightarrow> reveal \<Rightarrow> outcome" where
  "slide_vertically delta route step skipFragments s =
     (let (free, s1) = through_fragments (overviewActive s \<or> skipFragments) step s in
      if free \<and> route (availableRoutes False s1)
      then slide (indexh s1) (js_add (indexv s1) (Num delta)) Undef Undef s1 else Returned s1)"

definition navigateLeft :: "bool \<Rightarrow> reveal \<Rightarrow> outcome" where
  "navigateLeft skipFragments s =
     (let s1 = s\<lparr>hasNavigatedHorizontally := True\<rparr> in
      if cfg_rtl (cfg s1) then slide_horizontally 1 r_left fragments_next skipFragments s1
      else slide_horizontally (-1) r_left fragments_prev skipFragments s1)"

definition navigateRight :: "bool \<Rightarrow> reveal \<Rightarrow> outcome" where
  "navigateRight skipFragments s =
     (let s1 = s\<lparr>hasNavigatedHorizontally := True\<rparr> in
      if cfg_rtl (cfg s1) then slide_horizontally (-1) r_right fragments_prev skipFragments s1
      else slide_horizontally 1 r_right fragments_next skipFragments s1)"

definition navigateUp :: "bool \<Rightarrow> reveal \<Rightarrow> outcome" where
  "navigateUp skipFragments s = slide_vertically (-1) r_up fragments_prev skipFragments s"

definition navigateDown :: "bool \<Rightarrow> reveal \<Rightarrow> outcome" where
  "navigateDown skipFragments s =
     slide_vertically 1 r_down fragments_next skipFragments (s\<lparr>hasNavigatedVertically := True\<rparr>)"

text \<open>The horizontal slide before this one, found by its position class.\<close>

definition previous_horizontal :: "reveal \<Rightarrow> node option" where
  "previous_horizontal s =
     last_opt (queryAll (doc s) (wrapper (host s)) (\<lambda>x. horizontal_sel (doc s) x \<and>
       has_class (if cfg_rtl (cfg s) then ''future'' else ''past'') (doc s) x))"

definition bottom_index :: "dom \<Rightarrow> node \<Rightarrow> jsnum" where
  "bottom_index d stack = (let n = length (verticals d stack) in if n = 1 then Undef else Num (int n - 1))"

definition navigatePrev :: "bool \<Rightarrow> reveal \<Rightarrow> outcome" where
  "navigatePrev skipFragments s =
     (let (free, s1) = through_fragments skipFragments fragments_prev s in
      if \<not> free then Returned s1
      else if r_up (availableRoutes False s1) then navigateUp skipFragments s1
      else
       (case previous_horizontal s1 of
          Some p \<Rightarrow>
            if has_class ''stack'' (doc s1) p
            then slide (js_sub (indexh s1) (Num 1)) (bottom_index (doc s1) p) Undef Undef s1
            else navigateLeft skipFragments s1
        | None \<Rightarrow> navigateLeft skipFragments s1))"

definition next_routes :: "reveal \<Rightarrow> routes" where
  "next_routes s =
     (let r = availableRoutes False s in
      if r_down r \<and> r_right r \<and> cfg_loop (cfg s) \<and> isLastVerticalSlide s then r\<lparr>r_down := False\<rparr> else r)"

definition navigateNext :: "bool \<Rightarrow> reveal \<Rightarrow> outcome" where
  "navigateNext skipFragments s =
     (let (free, s1) = through_fragments skipFragments fragments_next
            (s\<lparr>hasNavigatedHorizontally := True, hasNavigatedVertically := True\<rparr>) in
      if \<not> free then Returned s1
      else if r_down (next_routes s1) then navigateDown skipFragments s1
      else if cfg_rtl (cfg s1) then navigateLeft skipFragments s1
      else navigateRight skipFragments s1)"

section \<open>Following the URL\<close>

definition readURL :: "reveal \<Rightarrow> outcome" where
  "readURL s =
     (let cur = getIndices s None in
      case getIndicesFromHash s (hash (world s)) of
        Some new \<Rightarrow>
          if \<not> js_seq (ix_h new) (ix_h cur) \<or> \<not> js_seq (ix_v new) (ix_v cur) \<or> ix_f new \<noteq> Undef
          then slide (ix_h new) (ix_v new) (ix_f new) Undef s else Returned s
      | None \<Rightarrow> slide (or_zero (ix_h cur)) (or_zero (ix_v cur)) Undef Undef s)"

definition onWindowHashChange :: "reveal \<Rightarrow> outcome" where
  "onWindowHashChange s = readURL s"

end
