(* ===== verification/DeckOk.thy ===== *)
theory DeckOk
  imports Navigation
begin

text \<open>
  The invariant of a deck and what every move keeps of it. A deck is well formed when its page
  is, its auto-slide timer agrees with its pauses, the states its slides ask for are class
  names the engine does not use itself, the vertical indices its stacks remember can be read,
  and its sections nest at most two deep.
\<close>

section \<open>Well-formed decks\<close>

definition slide_words :: "dom \<Rightarrow> node \<Rightarrow> string list" where
  "slide_words d x = (case get_attr ''data-state'' d x of
       Some w \<Rightarrow> if w \<noteq> [] then split_on (CHR '' '') w else []
     | None \<Rightarrow> [])"

definition word_ok :: "string \<Rightarrow> bool" where
  "word_ok w = (page_class w \<and> token_ok w)"

definition section_ok :: "dom \<Rightarrow> node \<Rightarrow> bool" where
  "section_ok d x = (list_all word_ok (slide_words d x) \<and>
     index_attr_ok (get_attr ''data-start-indexv'' d x) \<and> index_attr_ok (get_attr ''data-previous-indexv'' d x))"

definition nesting_ok :: "dom \<Rightarrow> node \<Rightarrow> bool" where
  "nesting_ok d x = (\<forall>y\<in>set (path d x).
     (has_class ''slides'' d y \<longrightarrow> \<not> is_section d y) \<and>
     (is_section d y \<longrightarrow> y \<in> set (order d) \<and> path d x = y # path d y))"

definition states_ok :: "reveal \<Rightarrow> bool" where
  "states_ok s = (list_all word_ok (stateArr s) \<and>
     (\<forall>x\<in>set (sections (doc s)). section_ok (doc s) x \<and> nesting_ok (doc s) x))"

definition deck_ok :: "reveal \<Rightarrow> bool" where
  "deck_ok s = (page_wf s \<and> auto_ok s \<and> states_ok s)"

text \<open>What a move leaves alone.\<close>

definition same_deck :: "reveal \<Rightarrow> reveal \<Rightarrow> bool" where
  "same_deck s s' = (cfg s' = cfg s \<and> host s' = host s \<and> refs s' = refs s \<and>
     overviewActive s' = overviewActive s \<and> autoSlidePaused s' = autoSlidePaused s \<and> overlay s' = overlay s \<and> inputs s' = inputs s \<and>
     same_structure (wrapper (host s)) (doc s) (doc s'))"

definition moves :: "reveal \<Rightarrow> reveal \<Rightarrow> bool" where
  "moves s s' = (deck_ok s \<longrightarrow> deck_ok s' \<and> same_deck s s')"

lemma same_deck_refl [simp]: "same_deck s s" by (simp add: same_deck_def)

lemma same_deck_trans: "same_deck a b \<Longrightarrow> same_deck b c \<Longrightarrow> same_deck a c"
  by (auto simp: same_deck_def intro: same_structure_trans)

lemma moves_refl [simp]: "moves s s" by (simp add: moves_def)

lemma moves_trans [trans]: "moves a b \<Longrightarrow> moves b c \<Longrightarrow> moves a c"
  unfolding moves_def using same_deck_trans by blast

lemma movesD: "moves s s' \<Longrightarrow> deck_ok s \<Longrightarrow> deck_ok s'" "moves s s' \<Longrightarrow> deck_ok s \<Longrightarrow> same_deck s s'"
  by (simp_all add: moves_def)

lemma same_deck_wf:
  assumes "same_deck s s'" "page_wf s"
  shows "page_wf s'" "keeps (doc s) (doc s')" "isPaused s' = isPaused s"
    and "x \<in> set (sections (doc s)) \<Longrightarrow> slide_attrs_kept (doc s) (doc s') x"
proof -
  have wf: "wf_page (wrapper (host s)) (doc s)" "bg_ok s" using assms(2) by (simp_all add: page_wf_def)
  have st: "same_structure (wrapper (host s)) (doc s) (doc s')" "host s' = host s" "refs s' = refs s" "overlay s' = overlay s"
    using assms(1) by (simp_all add: same_deck_def)
  show k: "keeps (doc s) (doc s')" using st wf by (simp add: same_structure_def)
  have "bg_ok s'" using wf st k by (intro bg_ok_keeps [OF wf(2)]) (simp_all add: same_structure_def)
  then show "page_wf s'" using st wf by (simp add: page_wf_def same_structure_def)
  show "isPaused s' = isPaused s" using st wf by (simp add: same_structure_def isPaused_def)
  show "slide_attrs_kept (doc s) (doc s') x" if "x \<in> set (sections (doc s))"
    using st wf that by (simp add: same_structure_def del: sections_in)
qed

lemma section_ok_kept:
  assumes "slide_attrs_kept d d' x" "section_ok d x"
  shows "section_ok d' x"
  using assms by (simp add: section_ok_def slide_words_def slide_attrs_kept_def)

lemma nesting_ok_kept:
  assumes k: "keeps d d'" and x: "x \<in> set (sections d)" and ok: "nesting_ok d x"
  shows "nesting_ok d' x"
  unfolding nesting_ok_def
proof (intro ballI conjI impI)
  fix y
  assume "y \<in> set (path d' x)"
  then have y: "y \<in> set (path d x)" using keepsD(1) [OF k x] by simp
  note same = keepsD(3,4) [OF k x y]
  show "\<not> is_section d' y" if "has_class ''slides'' d' y" using that ok y same by (simp add: nesting_ok_def)
  assume "is_section d' y"
  then have s: "is_section d y" "y \<in> set (order d)" "path d x = y # path d y" using same ok y by (auto simp: nesting_ok_def)
  then have ys: "y \<in> set (sections d)" by simp
  have "y \<in> set (sections d')" using ys k by (simp add: keeps_def del: sections_in)
  then show "y \<in> set (order d')" by simp
  show "path d' x = y # path d' y" using s(3) keepsD(1) [OF k x] keepsD(1) [OF k ys] by metis
qed

lemma states_ok_kept:
  assumes "same_deck s s'" "page_wf s" "states_ok s" "list_all word_ok (stateArr s')"
  shows "states_ok s'"
proof -
  note wf = same_deck_wf [OF assms(1,2)]
  have "sections (doc s') = sections (doc s)" using wf(2) by (simp add: keeps_def)
  then show ?thesis using assms(3,4) section_ok_kept [OF wf(4)] nesting_ok_kept [OF wf(2)]
    by (simp add: states_ok_def del: sections_in)
qed

lemma moves_quiet:
  assumes q: "quiet s s'"
  shows "moves s s'"
  unfolding moves_def
proof
  assume ok: "deck_ok s"
  then have wf: "page_wf s" by (simp add: deck_ok_def)
  have sd: "same_deck s s'"
    using quietD [OF q] same_sections_structure [OF quiet_sections [OF q wf]] by (simp add: same_deck_def)
  moreover have "auto_ok s'" using quiet_auto_ok [OF q wf] ok by (simp add: deck_ok_def)
  moreover have "states_ok s'" using states_ok_kept [OF sd wf] ok quietD(8) [OF q] by (simp add: deck_ok_def states_ok_def)
  ultimately show "deck_ok s' \<and> same_deck s s'" using same_deck_wf [OF sd wf] by (simp add: deck_ok_def)
qed

text \<open>Writes to the document, to the world, and to variables that no invariant mentions.\<close>

lemma moves_write:
  assumes "page_wf s \<Longrightarrow> same_structure (wrapper (host s)) (doc s) (doc s')"
    and "same_timers (world s) (world s')"
    and "cfg s' = cfg s" "host s' = host s" "refs s' = refs s" "overviewActive s' = overviewActive s"
    "autoSlidePaused s' = autoSlidePaused s" "autoSlideTimeout s' = autoSlideTimeout s"
    "writeURLTimeout s' = writeURLTimeout s" "replaceStateTimeout s' = replaceStateTimeout s"
    "cursorInactiveTimeout s' = cursorInactiveTimeout s" "overlay s' = overlay s" "inputs s' = inputs s"
    and "deck_ok s \<Longrightarrow> list_all word_ok (stateArr s')"
  shows "moves s s'"
  unfolding moves_def
proof
  assume ok: "deck_ok s"
  then have wf: "page_wf s" by (simp add: deck_ok_def)
  have sd: "same_deck s s'" using assms(1) [OF wf] assms(3-7,12,13) by (simp add: same_deck_def)
  have "quiet_timer s s'" using assms(2,9-11) by (intro quiet_timer_world)
  then have "auto_ok s'" using ok sd same_deck_wf(3) [OF sd wf] assms(8)
    by (simp add: deck_ok_def auto_ok_def quiet_timer_def halted_def same_deck_def)
  moreover have "states_ok s'" using states_ok_kept [OF sd wf] ok assms(14) by (simp add: deck_ok_def)
  ultimately show "deck_ok s' \<and> same_deck s s'" using same_deck_wf [OF sd wf] sd by (simp add: deck_ok_def)
qed

lemma moves_doc: "same_structure (wrapper (host s)) (doc s) d \<Longrightarrow> moves s (s\<lparr>doc := d\<rparr>)"
  by (rule moves_write) (simp_all add: deck_ok_def states_ok_def)

lemma moves_fields:
  "moves s (s\<lparr>indexh := a\<rparr>)" "moves s (s\<lparr>indexv := a\<rparr>)" "moves s (s\<lparr>previousSlide := x\<rparr>)"
  "moves s (s\<lparr>currentSlide := x\<rparr>)" "moves s (s\<lparr>transitionRunning := b\<rparr>)" "moves s (s\<lparr>stateArr := []\<rparr>)"
  "moves s (s\<lparr>hasNavigatedHorizontally := b\<rparr>)" "moves s (s\<lparr>hasNavigatedVertically := b\<rparr>)"
  by (rule moves_write; simp add: deck_ok_def states_ok_def)+

lemma moves_timer: "page_call c \<Longrightarrow> moves s (s\<lparr>world := snd (setTimeout c t (world s))\<rparr>)"
  by (rule moves_quiet) (simp add: quiet_world same_timers_set)

lemma cue_inputs: "keyboard_state (cueAutoSlide s) = keyboard_state s" "touch_state (cueAutoSlide s) = touch_state s"
  "pointer_state (cueAutoSlide s) = pointer_state s" "focus_state (cueAutoSlide s) = focus_state s"
  by (simp_all add: cueAutoSlide_def cancelAutoSlide_def start_autoslide_def setPlaying_def split_beta Let_def
      split: option.split)

lemma moves_cue: "moves s (cueAutoSlide s)"
  unfolding moves_def
proof
  assume ok: "deck_ok s"
  have "auto_ok (cueAutoSlide s)" using ok by (simp add: deck_ok_def auto_ok_cue auto_ok_one)
  then show "deck_ok (cueAutoSlide s) \<and> same_deck s (cueAutoSlide s)"
    using ok by (simp add: deck_ok_def same_deck_def states_ok_def page_wf_def bg_ok_def helpers_def cue_inputs)
qed

section \<open>Updating an axis\<close>

lemma select_slides_sections: "x \<in> set (select_slides ax s) \<Longrightarrow> x \<in> set (sections (doc s))"
  by (cases ax) (auto simp: getHorizontalSlides_def presentVerticalSlides_def queryAll_def horizontal_sel_def
      vertical_sel_def nested_sel_def)

lemma add_slide_state_eq: "add_slide_state el s = s\<lparr>stateArr := stateArr s @ slide_words (doc s) el\<rparr>"
  by (simp add: add_slide_state_def slide_words_def split: option.split)

text \<open>The two outcomes of updating an axis, by the index.\<close>

definition positioned :: "jsnum \<Rightarrow> node list \<Rightarrow> reveal \<Rightarrow> jsnum \<Rightarrow> dom" where
  "positioned i slides s index =
     (let (fw, bw, _) = loop_index (cfg_loop (cfg s)) (int (length slides)) index
      in position_slides (cfg s) (isPrintingPDF (host s)) i fw bw slides (doc s))"

lemma updateSlides_Num:
  assumes "slides = select_slides ax s" "slides \<noteq> []" "i = wrapped (cfg_loop (cfg s)) (int (length slides)) k"
    "el = slides ! nat i" "d = show_slide el (positioned (Num i) slides s (Num k))"
  obtains wd where "updateSlides ax (Num k) s =
      Inr (Num i, s\<lparr>doc := d, world := wd, stateArr := stateArr s @ slide_words d el\<rparr>)"
    and "same_timers (world s) wd"
proof -
  let ?n = "int (length slides)"
  obtain fw bw i0 where l: "loop_index (cfg_loop (cfg s)) ?n (Num k) = (fw, bw, i0)" by (metis prod_cases3)
  have n: "0 < ?n" using assms(2) by simp
  have i: "bound_index ?n i0 = Num i" using loop_index_wrapped [OF n, of "cfg_loop (cfg s)" k] l assms(3) by simp
  have bounds: "0 \<le> i" "i < ?n" using wrapped_bounds [OF n] assms(3) by simp_all
  let ?s1 = "s\<lparr>doc := position_slides (cfg s) (isPrintingPDF (host s)) (Num i) fw bw slides (doc s)\<rparr>"
  let ?s2 = "?s1\<lparr>doc := show_slide el (doc ?s1)\<rparr>"
  let ?s3 = "if has_class ''present'' (doc ?s1) el then ?s2 else dispatchEvent (Ev ''visible'' el) ?s2"
  have same: "t = t\<lparr>world := world t\<rparr>" for t :: reveal by simp
  obtain wd where wd: "?s3 = ?s2\<lparr>world := wd\<rparr>"
  proof (cases "has_class ''present'' (doc ?s1) el")
    case True
    then show ?thesis using that [of "world ?s2"] same [of ?s2] by (simp only: if_True)
  next
    case False
    then show ?thesis using that dispatchEvent_world [of "Ev ''visible'' el" ?s2] by (auto simp only: if_False)
  qed
  have q: "quiet ?s2 ?s3" by simp
  have st: "same_timers (world s) wd"
  proof -
    have "same_timers (world ?s2) (world ?s3)"
      by (auto simp: dispatchEvent_def dispatchPostMessage_def Let_def intro: same_timers_trans)
    then show ?thesis unfolding wd by simp
  qed
  have "arr_get slides (Num i) = Some el" using bounds assms(4) by simp
  then have "updateSlides ax (Num k) s = Inr (Num i, add_slide_state el ?s3)"
    unfolding updateSlides_def assms(1) [symmetric] Let_def l prod.case i using assms(2)
    by (simp only: if_False option.case)
  moreover have "add_slide_state el ?s3 = s\<lparr>doc := d, world := wd, stateArr := stateArr s @ slide_words d el\<rparr>"
    unfolding wd add_slide_state_eq by (simp add: assms(5) positioned_def l)
  ultimately show ?thesis using that st by simp
qed

lemma updateSlides_no_number:
  assumes "slides = select_slides ax s" "slides \<noteq> []" "index \<notin> range Num"
  shows "updateSlides ax index s = Inl (TypeError, s\<lparr>doc := positioned NaN slides s index\<rparr>)"
proof -
  obtain fw bw i0 where l: "loop_index (cfg_loop (cfg s)) (int (length slides)) index = (fw, bw, i0)" by (metis prod_cases3)
  then have "bound_index (int (length slides)) i0 = NaN"
    using loop_index_nan [OF assms(3), of "int (length slides)" "cfg_loop (cfg s)"] by simp
  then show ?thesis using assms(2) by (simp add: updateSlides_def assms(1) [symmetric] Let_def l positioned_def)
qed

lemma updateSlides_none: "select_slides ax s = [] \<Longrightarrow> updateSlides ax index s = Inr (Num 0, s)"
  by (simp add: updateSlides_def)

lemma same_structure_positioned: "same_structure w (doc s) (positioned i slides s index)"
  by (simp add: positioned_def split_beta Let_def same_structure_positions)

lemma same_structure_shown: "same_structure w (doc s) (show_slide el (positioned i slides s index))"
  by (rule same_structure_trans [OF same_structure_positioned same_structure_show])

definition state_of :: "(error \<times> reveal) + ('a \<times> reveal) \<Rightarrow> reveal" where
  "state_of r = (case r of Inl (e, s) \<Rightarrow> s | Inr (x, s) \<Rightarrow> s)"

lemma state_of_simps [simp]: "state_of (Inl (e, s)) = s" "state_of (Inr (x, s)) = s"
  by (simp_all add: state_of_def)

lemma slide_words_shown:
  assumes "x \<in> set (sections (doc s))" "deck_ok s" "same_structure (wrapper (host s)) (doc s) d"
  shows "list_all word_ok (slide_words d x)"
proof -
  have "wf_page (wrapper (host s)) (doc s)" using assms(2) by (simp add: deck_ok_def page_wf_def)
  then have "slide_attrs_kept (doc s) d x" using assms(1,3) by (simp add: same_structure_def del: sections_in)
  moreover have "section_ok (doc s) x" using assms(1,2) by (simp add: deck_ok_def states_ok_def del: sections_in)
  ultimately have "section_ok d x" by (rule section_ok_kept)
  then show ?thesis by (simp add: section_ok_def)
qed

lemma moves_updateSlides: "moves s (state_of (updateSlides ax index s))"
proof (cases "select_slides ax s = []")
  case False
  show ?thesis
  proof (cases "\<exists>k. index = Num k")
    case True
    then obtain k where k: "index = Num k" ..
    let ?slides = "select_slides ax s"
    let ?i = "wrapped (cfg_loop (cfg s)) (int (length ?slides)) k"
    let ?el = "?slides ! nat ?i"
    let ?d = "show_slide ?el (positioned (Num ?i) ?slides s (Num k))"
    obtain wd where u: "updateSlides ax (Num k) s =
        Inr (Num ?i, s\<lparr>doc := ?d, world := wd, stateArr := stateArr s @ slide_words ?d ?el\<rparr>)"
      and t: "same_timers (world s) wd"
      using updateSlides_Num [OF refl False refl refl refl] by blast
    have "nat ?i < length ?slides" using wrapped_bounds [of "int (length ?slides)"] False by (simp add: nat_less_iff)
    then have "?el \<in> set (sections (doc s))" using select_slides_sections nth_mem by blast
    then have "list_all word_ok (slide_words ?d ?el)" if "deck_ok s"
      by (rule slide_words_shown [OF _ that same_structure_shown])
    then show ?thesis unfolding k u state_of_simps using t same_structure_shown
      by (intro moves_write) (simp_all add: deck_ok_def states_ok_def)
  next
    case no: False
    then have "index \<notin> range Num" by blast
    then show ?thesis using updateSlides_no_number [OF refl False] by (simp add: moves_doc same_structure_positioned)
  qed
qed (simp add: updateSlides_none)

section \<open>Every move keeps the deck well formed\<close>

lemma moves_enter_slide: "moves s (state_of (enter_slide hs h v s))"
proof -
  let ?u1 = "updateSlides Horizontal (or_undef h (indexh s)) (s\<lparr>stateArr := []\<rparr>)"
  have 1: "moves s (state_of ?u1)" by (rule moves_trans [OF moves_fields(6) moves_updateSlides])
  show ?thesis
  proof (cases ?u1)
    case (Inl e)
    then show ?thesis using 1 by (cases e) (simp add: enter_slide_def Let_def)
  next
    case (Inr p)
    obtain ih s1 where p: "p = (ih, s1)" by fastforce
    let ?u2 = "updateSlides Vertical (or_undef v (indexv s1)) (s1\<lparr>indexh := ih\<rparr>)"
    have 2: "moves s (state_of ?u2)"
      using 1 moves_trans [OF moves_fields(1) moves_updateSlides] moves_trans by (simp add: Inr p)
    show ?thesis
    proof (cases ?u2)
      case (Inl e)
      then show ?thesis using 2 Inr p by (cases e) (simp add: enter_slide_def Let_def)
    next
      case r: (Inr q)
      obtain iv s2 where q: "q = (iv, s2)" by fastforce
      have 3: "moves s (s2\<lparr>indexv := iv, previousSlide := x\<rparr>)" for x
        using 2 moves_trans [OF moves_fields(2) moves_fields(3)] moves_trans unfolding r q by simp
      have 4: "moves s (s2\<lparr>indexv := iv, previousSlide := x, currentSlide := y\<rparr>)" for x y
        using moves_trans [OF 3 moves_fields(4)] by simp
      have u: "?u1 = Inr (ih, s1)" "?u2 = Inr (iv, s2)" using Inr p r q by simp_all
      show ?thesis
        unfolding enter_slide_def Let_def u sum.case prod.case
        by (cases "arr_get hs ih") (simp_all only: option.case state_of_simps 3 4)
    qed
  qed
qed

lemma moves_remember: "moves s (remember_vertical s)"
  by (simp add: remember_vertical_def moves_doc same_structure_previous split: option.split)

lemma moves_start_transition: "moves s (start_transition m s)"
proof -
  have "moves s (s\<lparr>doc := add_class ''disable-slide-transitions'' x (doc s)\<rparr>)" for x by (intro moves_doc) simp
  from moves_trans [OF this moves_fields(5)] show ?thesis
    by (simp add: start_transition_def Let_def moves_fields)
qed

lemma quiet_visit_vertical: "page_ok w p (visit_vertical s l dx here oy e p)"
  by (simp add: visit_vertical_def split_beta Let_def keep_loaded_def page_ok_slideContent_load page_ok_slideContent_unload)

lemma page_ok_fold: "(\<And>e p. page_ok w p (f e p)) \<Longrightarrow> page_ok w p (fold f es p)"
proof (induction es arbitrary: p)
  case (Cons e es)
  show ?case using page_ok_trans [OF Cons.prems Cons.IH [OF Cons.prems]] by simp
qed simp

lemma quiet_if: "quiet s t \<Longrightarrow> quiet s (if b then t else s)"
  by simp

lemma quiet_visit_column: "page_ok w p (visit_column s l n e p)"
proof -
  obtain x h where e: "e = (x, h)" by fastforce
  let ?dx = "distance_x (cfg_loop (cfg s)) l n (the_num (or_zero (indexh s))) (int x)"
  let ?p1 = "keep_loaded (cfg s) (host s) (near l (Num ?dx)) h p"
  have 1: "page_ok w p ?p1"
    by (simp add: keep_loaded_def page_ok_slideContent_load page_ok_slideContent_unload)
  have "page_ok w p (fold (visit_vertical s l ?dx here oy) es ?p1)" for here oy es
    by (rule page_ok_trans [OF 1]) (intro page_ok_fold quiet_visit_vertical)
  with 1 show ?thesis by (simp add: visit_column_def e Let_def)
qed

lemma quiet_updateSlidesVisibility: "quiet s (updateSlidesVisibility s)"
proof -
  have flag: "same_sections w d (flag_class b c x d)" if "page_class c" for w d b c x
    using that by (simp add: flag_class_def same_sections_class)
  let ?s1 = "on_page (fold (visit_column s (view_distance s) (int (length (getHorizontalSlides s))))
      (enumerate 0 (getHorizontalSlides s))) s"
  have 1: "quiet s ?s1" by (intro quiet_on_page page_ok_fold quiet_visit_column)
  let ?s2 = "?s1\<lparr>doc := flag_class (hasVerticalSlides ?s1) ''has-vertical-slides'' (wrapper (host ?s1)) (doc ?s1)\<rparr>"
  have 2: "quiet s ?s2" by (rule quiet_then(1) [OF 1 flag]) simp
  have 3: "quiet s (?s2\<lparr>doc := flag_class (hasHorizontalSlides ?s2) ''has-horizontal-slides'' (wrapper (host ?s1)) (doc ?s2)\<rparr>)"
    by (rule quiet_then(1) [OF 2 flag]) simp
  show ?thesis unfolding updateSlidesVisibility_def Let_def by (rule quiet_if [OF 3])
qed

interpretation deck_visibility: page_op updateSlidesVisibility
  by unfold_locales (rule quiet_updateSlidesVisibility)

lemma quiet_show_deck: "quiet s (show_deck f s)"
proof -
  let ?s1 = "layout (updateSlidesVisibility s)"
  have 1: "quiet s ?s1" by (rule quiet_trans [OF quiet_updateSlidesVisibility quiet_layout])
  have 2: "quiet s (if overviewActive ?s1 then overview_update ?s1 else ?s1)"
    using 1 quiet_trans [OF 1 quiet_overview_update] by simp
  show ?thesis unfolding show_deck_def Let_def using 2 quiet_trans [OF 2 quiet_goto] by (simp only: split: if_split) blast
qed

lemma moves_leave_previous: "moves s (leave_previous s)"
proof -
  have "same_structure w d (set_attr ''aria-hidden'' v p (remove_class ''present'' p d))" for w d v p
    by (rule same_structureI) (simp_all add: fun_eq_iff)
  then have 1: "moves s (s\<lparr>doc := set_attr ''aria-hidden'' ''true'' p (remove_class ''present'' p (doc s))\<rparr>)" for p
    by (intro moves_doc)
  have "moves s (t\<lparr>world := snd (setTimeout TResetStacks 0 (world t))\<rparr>)"
    if "t = s\<lparr>doc := set_attr ''aria-hidden'' ''true'' p (remove_class ''present'' p (doc s))\<rparr>" for t p
    using moves_trans [OF 1 moves_timer [of TResetStacks]] that by simp
  with 1 show ?thesis by (simp add: leave_previous_def Let_def split: option.split)
qed

lemma quiet_add_word: "page_class w \<Longrightarrow> quiet s (s\<lparr>doc := add_class w x (doc s)\<rparr>)"
  "page_class w \<Longrightarrow> quiet s (s\<lparr>doc := remove_class w x (doc s)\<rparr>)"
  by (simp_all add: quiet_doc same_sections_class)

lemma apply_states_ok:
  assumes "list_all word_ok ws" "list_all word_ok olds"
  shows "\<exists>s' rest. apply_states ws olds s = (Returned s', rest) \<and> quiet s s' \<and> list_all word_ok rest"
  using assms
proof (induction ws olds s rule: apply_states.induct)
  case (2 w ws olds s)
  show ?case
  proof (cases "w \<in> set olds")
    case True
    have "list_all word_ok (remove1 w olds)" using 2(4) by (auto simp: list_all_iff dest: notin_set_remove1)
    with True 2(1,3) show ?thesis by simp
  next
    case False
    let ?s1 = "s\<lparr>doc := add_class w (viewport (host s)) (doc s)\<rparr>"
    let ?s2 = "dispatchEvent (Ev w (wrapper (host s))) ?s1"
    have w: "page_class w" "token_ok w" using 2(3) by (simp_all add: word_ok_def)
    have q: "quiet s ?s2" using quiet_trans [OF quiet_add_word(1) [OF w(1)] quiet_dispatch] .
    have "\<exists>s' rest. apply_states ws olds ?s2 = (Returned s', rest) \<and> quiet ?s2 s' \<and> list_all word_ok rest"
      using 2(2) [OF False] 2(3,4) w(2) by simp
    with q False w(2) show ?thesis by (auto intro: quiet_trans)
  qed
qed simp

lemma drop_states_ok: "list_all word_ok ws \<Longrightarrow> \<exists>s'. drop_states ws s = Returned s' \<and> quiet s s'"
proof (induction ws arbitrary: s)
  case (Cons w ws)
  let ?s1 = "s\<lparr>doc := remove_class w (viewport (host s)) (doc s)\<rparr>"
  have w: "page_class w" "token_ok w" using Cons.prems by (simp_all add: word_ok_def)
  have "quiet s ?s1" by (rule quiet_add_word(2) [OF w(1)])
  moreover obtain s' where "drop_states ws ?s1 = Returned s'" "quiet ?s1 s'" using Cons by fastforce
  ultimately show ?case using w(2) by (auto intro: quiet_trans)
qed simp

lemma change_states_ok:
  assumes "list_all word_ok (stateArr s)" "list_all word_ok olds"
  obtains s' where "change_states olds s = Returned s'" and "quiet s s'"
proof -
  obtain s1 rest where 1: "apply_states (stateArr s) olds s = (Returned s1, rest)" "quiet s s1" "list_all word_ok rest"
    using apply_states_ok [OF assms] by blast
  have "list_all word_ok (rev rest)" using 1(3) by (simp add: list_all_iff)
  then obtain s2 where "drop_states (rev rest) s1 = Returned s2" "quiet s1 s2" using drop_states_ok by blast
  then show ?thesis using that 1(1) quiet_trans [OF 1(2)] by (simp add: change_states_def)
qed

lemma quiet_switch_content: "quiet s (switch_content m s)"
proof -
  have 1: "quiet s (on_page (stopEmbeddedContent (previousSlide s) True) s)"
    by (intro quiet_on_page page_ok_stopEmbeddedContent)
  have "quiet s (on_page (startEmbeddedContent c h x) (on_page (stopEmbeddedContent (previousSlide s) True) s))" for c h x
    by (rule quiet_trans [OF 1]) (intro quiet_on_page page_ok_startEmbeddedContent)
  then show ?thesis by (simp add: switch_content_def)
qed

lemma quiet_update_controllers: "quiet s (update_controllers s)"
proof -
  let ?s1 = "s\<lparr>world := snd (setTimeout TAnnounce 0 (world s))\<rparr>"
  have 1: "quiet s ?s1" by (simp add: quiet_world same_timers_set)
  let ?s2 = "notes_update (controls_update (progress_update ?s1))"
  have 2: "quiet s ?s2"
    by (rule quiet_trans [OF 1 quiet_trans [OF progress.quiet quiet_trans [OF controls.quiet speaker_notes.quiet]]])
  let ?s3 = "slideNumber_update (updateParallax (backgrounds_update False ?s2))"
  have 3: "quiet s ?s3"
    by (rule quiet_trans [OF 2 quiet_trans [OF background_follow.quiet quiet_trans [OF parallax.quiet slide_number.quiet]]])
  show ?thesis unfolding update_controllers_def Let_def
    by (rule quiet_trans [OF quiet_trans [OF 3 fragment_update.quiet] url_writer.quiet])
qed

lemma quiet_run_animation: "quiet s (run_animation b s)"
proof -
  have "same_timers (world s) (log_effect e (snd (setTimeout (TRemoveClass c x) 0 (world s))))"
    if "page_class c" for e c x
    using that by (intro same_timers_trans [OF same_timers_set same_timers_basic(2)]) simp
  then show ?thesis by (simp add: run_animation_def Let_def quiet_world same_timers_set)
qed

lemma quiet_announce_change: "quiet s (announce_change m origin s)"
  by (simp add: announce_change_def)

lemma moves_finish: "moves s (finish_slide animated m origin s)"
proof -
  have "quiet s (update_controllers (switch_content m (announce_change m origin s)))"
    by (rule quiet_trans [OF quiet_announce_change quiet_trans [OF quiet_switch_content quiet_update_controllers]])
  then show ?thesis unfolding finish_slide_def
    by (rule moves_trans [OF moves_quiet moves_trans [OF moves_cue moves_quiet [OF quiet_run_animation]]])
qed

section \<open>Moves\<close>

text \<open>
  The contract of an operation that may throw: whatever the outcome, the deck it leaves is as
  well formed as the one it found, and it is the same deck.
\<close>

locale deck_move =
  fixes mv :: "reveal \<Rightarrow> outcome"
  assumes moves: "moves s (after (mv s))"
begin

lemma keeps_deck_ok: "deck_ok s \<Longrightarrow> deck_ok (after (mv s))"
  using movesD(1) [OF moves] .

lemma keeps_config: "deck_ok s \<Longrightarrow> cfg (after (mv s)) = cfg s \<and> host (after (mv s)) = host s"
  using movesD(2) [OF moves] by (simp add: same_deck_def)

lemma keeps_slides:
  assumes "deck_ok s"
  shows "getHorizontalSlides (after (mv s)) = getHorizontalSlides s" "verticals (doc (after (mv s))) x = verticals (doc s) x"
proof -
  have sd: "same_deck s (after (mv s))" using movesD(2) [OF moves assms] .
  have "page_wf s" using assms by (simp add: deck_ok_def)
  from same_deck_wf(2) [OF sd this] sd
  show "getHorizontalSlides (after (mv s)) = getHorizontalSlides s" "verticals (doc (after (mv s))) x = verticals (doc s) x"
    by (simp_all add: getHorizontalSlides_def verticals_def keeps_horizontal keeps_sections same_deck_def)
qed

lemma keeps_pause: "deck_ok s \<Longrightarrow> isPaused (after (mv s)) = isPaused s"
  using movesD(2) [OF moves] same_deck_wf(3) by (simp add: deck_ok_def)

lemma then_moves: "moves s t \<Longrightarrow> moves s (after (mv t))"
  using moves moves_trans by blast

end

lemma after_and_then: "moves s (after r) \<Longrightarrow> (\<And>t. moves t (after (f t))) \<Longrightarrow> moves s (after (and_then r f))"
  by (cases r) (auto intro: moves_trans)

lemma moves_slide: "moves s (after (slide h v f origin s))"
proof -
  let ?s1 = "dispatchEvent (EvSlide ''beforeslidechange'' (or_undef h (indexh s)) (or_undef v (indexv s)) None None origin) s"
  have 1: "moves s ?s1" by (rule moves_quiet) simp
  let ?s2 = "?s1\<lparr>previousSlide := currentSlide ?s1\<rparr>"
  have 2: "moves s ?s2" by (rule moves_trans [OF 1 moves_fields(3)])
  let ?r = "enter_slide (getHorizontalSlides ?s2) h (resume_vertical h v ?s2) (remember_vertical ?s2)"
  have 3: "moves s (state_of ?r)"
    by (rule moves_trans [OF 2 moves_trans [OF moves_remember moves_enter_slide]])
  have rest: "moves s (after (and_then (change_states (mv_states m) (leave_previous (show_deck f (start_transition m s3))))
      (\<lambda>s. Returned (finish_slide a m origin s))))"
    if "?r = Inr (m, s3)" and olds: "deck_ok s \<Longrightarrow> list_all word_ok (mv_states m)" for m s3 a
  proof -
    let ?s5 = "leave_previous (show_deck f (start_transition m s3))"
    have 5: "moves s ?s5" using 3 that
      by (auto intro: moves_trans [OF _ moves_trans [OF moves_start_transition moves_trans [OF moves_quiet [OF quiet_show_deck] moves_leave_previous]]])
    show ?thesis
    proof (cases "deck_ok s")
      case True
      then have "list_all word_ok (stateArr ?s5)" using movesD(1) [OF 5 True] by (simp add: deck_ok_def states_ok_def)
      then obtain s6 where "change_states (mv_states m) ?s5 = Returned s6" "quiet ?s5 s6"
        using change_states_ok olds [OF True] by blast
      then show ?thesis using 5 moves_trans [OF moves_quiet moves_finish] moves_trans by simp
    qed (simp add: moves_def)
  qed
  have olds: "mv_states m = stateArr s" if "?r = Inr (m, s3)" for m s3
  proof -
    have "stateArr (remember_vertical ?s2) = stateArr s"
      using quietD(8) [OF quiet_dispatch] by (simp add: remember_vertical_def split: option.split)
    then show ?thesis using that by (auto simp: enter_slide_def Let_def split: sum.splits option.splits prod.splits)
  qed
  show ?thesis
  proof (cases ?r)
    case (Inl e)
    then show ?thesis using 1 2 3 by (cases e) (simp add: slide_def Let_def)
  next
    case (Inr p)
    obtain m s3 where p: "p = (m, s3)" by fastforce
    have "deck_ok s \<Longrightarrow> list_all word_ok (mv_states m)" using olds Inr p by (simp add: deck_ok_def states_ok_def)
    then show ?thesis using 1 2 rest [of m s3] Inr p by (simp add: slide_def Let_def)
  qed
qed

interpretation slide_move: deck_move "slide h v f origin"
  by unfold_locales (rule moves_slide)

lemma moves_through: "(\<And>s. quiet s (snd (step s))) \<Longrightarrow> moves s (snd (through_fragments b step s))"
  by (auto simp: through_fragments_def split_beta Let_def intro: moves_quiet)

lemma quiet_steps: "quiet s (snd (fragments_next s))" "quiet s (snd (fragments_prev s))"
  by (simp_all add: fragments_next_def fragments_prev_def fragment_goto.quiet)

lemma moves_slide_axis:
  assumes "\<And>s. quiet s (snd (step s))"
  shows "moves s (after (slide_horizontally delta route step b s))" "moves s (after (slide_vertically delta route step b s))"
  using moves_through [OF assms, of s "overviewActive s \<or> b"] slide_move.then_moves
  by (simp_all add: slide_horizontally_def slide_vertically_def split_beta Let_def)

lemma moves_navigateLeft: "moves s (after (navigateLeft b s))"
  using moves_trans [OF moves_fields(7) moves_slide_axis(1)] quiet_steps by (simp add: navigateLeft_def Let_def)

lemma moves_navigateRight: "moves s (after (navigateRight b s))"
  using moves_trans [OF moves_fields(7) moves_slide_axis(1)] quiet_steps by (simp add: navigateRight_def Let_def)

lemma moves_navigateUp: "moves s (after (navigateUp b s))"
  using moves_slide_axis(2) quiet_steps by (simp add: navigateUp_def)

lemma moves_navigateDown: "moves s (after (navigateDown b s))"
  using moves_trans [OF moves_fields(8) moves_slide_axis(2)] quiet_steps by (simp add: navigateDown_def)

interpretation left_move: deck_move "navigateLeft b"
  by unfold_locales (rule moves_navigateLeft)

interpretation right_move: deck_move "navigateRight b"
  by unfold_locales (rule moves_navigateRight)

interpretation up_move: deck_move "navigateUp b"
  by unfold_locales (rule moves_navigateUp)

interpretation down_move: deck_move "navigateDown b"
  by unfold_locales (rule moves_navigateDown)

lemma moves_navigatePrev: "moves s (after (navigatePrev b s))"
proof -
  let ?p = "through_fragments b fragments_prev s"
  have 1: "moves s (snd ?p)" by (rule moves_through) (rule quiet_steps)
  show ?thesis unfolding navigatePrev_def split_beta Let_def
    using 1 up_move.then_moves [OF 1] left_move.then_moves [OF 1] slide_move.then_moves [OF 1]
    by (simp split: option.split)
qed

lemma moves_navigateNext: "moves s (after (navigateNext b s))"
proof -
  let ?s0 = "s\<lparr>hasNavigatedHorizontally := True, hasNavigatedVertically := True\<rparr>"
  let ?p = "through_fragments b fragments_next ?s0"
  have 1: "moves s (snd ?p)"
    by (rule moves_trans [OF moves_trans [OF moves_fields(7) moves_fields(8)] moves_through]) (rule quiet_steps)
  show ?thesis unfolding navigateNext_def split_beta Let_def
    using 1 down_move.then_moves [OF 1] left_move.then_moves [OF 1] right_move.then_moves [OF 1] by simp
qed

interpretation prev_move: deck_move "navigatePrev b"
  by unfold_locales (rule moves_navigatePrev)

interpretation next_move: deck_move "navigateNext b"
  by unfold_locales (rule moves_navigateNext)

lemma moves_readURL: "moves s (after (readURL s))"
  by (simp add: readURL_def Let_def slide_move.then_moves split: option.split)

interpretation url_reader: deck_move readURL
  by unfold_locales (rule moves_readURL)

end
