(* ===== verification/Position.thy ===== *)
theory Position
  imports DeckOk
begin

text \<open>
  Where a deck is: its indices are in range, the current slide is the one they name, and among
  the horizontal slides and the slides of the current stack exactly that one is marked as
  present. \<open>slide\<close> and the moves built on it return in such a position.
\<close>

section \<open>Being on a slide\<close>

definition presents :: "dom \<Rightarrow> node list \<Rightarrow> int \<Rightarrow> bool" where
  "presents d xs k = list_all (\<lambda>(j, x). has_class ''present'' d x \<longleftrightarrow> int j = k) (enumerate 0 xs)"

definition slide_at :: "dom \<Rightarrow> node \<Rightarrow> int \<Rightarrow> node" where
  "slide_at d ch v = (if verticals d ch = [] then ch else verticals d ch ! nat v)"

definition on_slide :: "reveal \<Rightarrow> bool" where
  "on_slide s = (case (indexh s, indexv s) of
       (Num h, Num v) \<Rightarrow>
         (let hs = getHorizontalSlides s; ch = hs ! nat h; vs = verticals (doc s) ch in
          0 \<le> h \<and> h < int (length hs) \<and> 0 \<le> v \<and> (if vs = [] then v = 0 else v < int (length vs)) \<and>
          currentSlide s = Some (slide_at (doc s) ch v) \<and>
          presents (doc s) hs h \<and> presents (doc s) vs v)
     | _ \<Rightarrow> False)"

lemma presents_iff: "presents d xs k \<longleftrightarrow> (\<forall>j < length xs. has_class ''present'' d (xs ! j) \<longleftrightarrow> int j = k)"
  by (auto simp: presents_def list_all_iff in_set_enumerate_eq)

lemma presents_cong:
  "(\<And>x. x \<in> set xs \<Longrightarrow> has_class ''present'' d' x = has_class ''present'' d x) \<Longrightarrow> presents d' xs k = presents d xs k"
  by (simp add: presents_iff)

lemma on_slide_cases:
  assumes "on_slide s"
  obtains h v ch where "indexh s = Num h" "indexv s = Num v" "0 \<le> h" "h < int (length (getHorizontalSlides s))"
    "ch = getHorizontalSlides s ! nat h" "0 \<le> v" "verticals (doc s) ch = [] \<Longrightarrow> v = 0"
    "verticals (doc s) ch \<noteq> [] \<Longrightarrow> v < int (length (verticals (doc s) ch))"
    "currentSlide s = Some (slide_at (doc s) ch v)"
    "presents (doc s) (getHorizontalSlides s) h" "presents (doc s) (verticals (doc s) ch) v"
  using assms that by (auto simp: on_slide_def Let_def split: jsnum.splits if_splits)

lemma on_slideI:
  assumes "indexh s = Num h" "indexv s = Num v" "0 \<le> h" "h < int (length (getHorizontalSlides s))"
    "ch = getHorizontalSlides s ! nat h" "0 \<le> v" "verticals (doc s) ch = [] \<Longrightarrow> v = 0"
    "verticals (doc s) ch \<noteq> [] \<Longrightarrow> v < int (length (verticals (doc s) ch))"
    "currentSlide s = Some (slide_at (doc s) ch v)"
    "presents (doc s) (getHorizontalSlides s) h" "presents (doc s) (verticals (doc s) ch) v"
  shows "on_slide s"
  using assms by (simp add: on_slide_def Let_def)

text \<open>The index of a slide out of the indices: what \<open>getSlide\<close> finds.\<close>

lemma on_slide_getSlide:
  assumes "on_slide s"
  shows "currentSlide s = getSlide s (indexh s) (indexv s)"
  using assms by (cases rule: on_slide_cases) (auto simp: getSlide_def slide_at_def Let_def is_number_def)

text \<open>A change of the document that keeps the sections and their marks keeps the position.\<close>

lemma on_slide_kept:
  assumes "keeps (doc s) (doc t)" "host t = host s" "indexh t = indexh s" "indexv t = indexv s" "currentSlide t = currentSlide s"
    and "\<And>x. x \<in> set (sections (doc s)) \<Longrightarrow> has_class ''present'' (doc t) x = has_class ''present'' (doc s) x"
  shows "on_slide t = on_slide s"
proof -
  have hs: "getHorizontalSlides t = getHorizontalSlides s" using assms(1,2) by (simp add: getHorizontalSlides_def keeps_horizontal)
  have vs: "verticals (doc t) = verticals (doc s)" using assms(1) by (simp add: verticals_def keeps_sections fun_eq_iff)
  have ph: "presents (doc t) (getHorizontalSlides s) k = presents (doc s) (getHorizontalSlides s) k" for k
    using assms(6) select_slides_sections [of _ Horizontal s] by (intro presents_cong) (simp del: sections_in)
  have pv: "presents (doc t) (verticals (doc s) y) k = presents (doc s) (verticals (doc s) y) k" for y k
    using assms(6) by (intro presents_cong) (auto simp: verticals_def queryAll_def)
  show ?thesis unfolding on_slide_def Let_def hs vs assms(3-5) ph pv slide_at_def ..
qed

lemma on_slide_quiet:
  assumes "quiet s t" "page_wf s"
  shows "on_slide t = on_slide s"
  using assms quiet_keeps [OF assms] quietD [OF assms(1)] quiet_position [OF assms]
  by (intro on_slide_kept) (simp_all add: position_classes_def)

lemma on_slide_cue [simp]: "on_slide (cueAutoSlide s) = on_slide s"
  by (rule on_slide_kept) simp_all

section \<open>Two levels of sections\<close>

lemma horizontal_in: "x \<in> set (getHorizontalSlides s) \<longleftrightarrow>
    x \<in> set (order (doc s)) \<and> is_desc (doc s) (wrapper (host s)) x \<and> horizontal_sel (doc s) x"
  by (auto simp: getHorizontalSlides_def queryAll_def)

lemma verticals_in: "x \<in> set (verticals d ch) \<longleftrightarrow> x \<in> set (sections d) \<and> ch \<in> set (path d x)"
  by (auto simp: verticals_def queryAll_def is_desc_def)

lemma nested_path:
  assumes "states_ok s" "x \<in> set (verticals (doc s) ch)" "is_section (doc s) ch"
  shows "path (doc s) x = ch # path (doc s) ch" "\<not> has_class ''slides'' (doc s) ch" "ch \<in> set (order (doc s))"
proof -
  have x: "x \<in> set (sections (doc s))" "ch \<in> set (path (doc s) x)" using assms(2) by (simp_all add: verticals_in)
  have "nesting_ok (doc s) x" using assms(1) x(1) unfolding states_ok_def by blast
  then show "path (doc s) x = ch # path (doc s) ch" "\<not> has_class ''slides'' (doc s) ch" "ch \<in> set (order (doc s))"
    using x(2) assms(3) unfolding nesting_ok_def by blast+
qed

text \<open>A slide inside a stack holds no slides.\<close>

lemma verticals_leaf:
  assumes "states_ok s" "x \<in> set (verticals (doc s) ch)" "is_section (doc s) ch"
  shows "verticals (doc s) x = []"
proof (rule ccontr)
  assume "verticals (doc s) x \<noteq> []"
  then obtain y where y: "y \<in> set (verticals (doc s) x)" by (meson list.set_sel(1))
  have x: "is_section (doc s) x" using assms(2) by (simp add: verticals_in)
  have py: "path (doc s) y = x # path (doc s) x" by (rule nested_path(1) [OF assms(1) y x])
  have px: "path (doc s) x = ch # path (doc s) ch" by (rule nested_path(1) [OF assms])
  have "y \<in> set (verticals (doc s) ch)" using y py px by (auto simp: verticals_in)
  then have "path (doc s) y = ch # path (doc s) ch" using nested_path(1) [OF assms(1) _ assms(3)] by blast
  with py px show False by simp
qed

lemma horizontal_not_nested:
  assumes "states_ok s" "x \<in> set (getHorizontalSlides s)" "is_section (doc s) ch"
  shows "x \<notin> set (verticals (doc s) ch)"
proof
  assume "x \<in> set (verticals (doc s) ch)"
  from nested_path [OF assms(1) this assms(3)] assms(2) show False by (simp add: horizontal_in horizontal_sel_def)
qed

lemma on_slide_leaf:
  assumes "on_slide s" "deck_ok s" "currentSlide s = Some c"
  shows "verticals (doc s) c = []" "c \<in> set (sections (doc s))"
proof -
  from assms(1) obtain h v ch where c: "indexh s = Num h" "0 \<le> h" "h < int (length (getHorizontalSlides s))"
    "ch = getHorizontalSlides s ! nat h" "0 \<le> v" "currentSlide s = Some (slide_at (doc s) ch v)"
    "verticals (doc s) ch \<noteq> [] \<Longrightarrow> v < int (length (verticals (doc s) ch))"
    by (cases rule: on_slide_cases) blast
  have ch: "ch \<in> set (getHorizontalSlides s)" using c by (simp add: nat_less_iff)
  then have sec: "ch \<in> set (sections (doc s))" using select_slides_sections [of ch Horizontal s] by simp
  have ok: "states_ok s" using assms(2) by (simp add: deck_ok_def)
  show "verticals (doc s) c = []"
  proof (cases "verticals (doc s) ch = []")
    case True
    then show ?thesis using c assms(3) by (simp add: slide_at_def)
  next
    case False
    then have "c \<in> set (verticals (doc s) ch)" using c assms(3) by (auto simp: slide_at_def nat_less_iff)
    then show ?thesis using verticals_leaf [OF ok] sec by simp
  qed
  show "c \<in> set (sections (doc s))"
  proof (cases "verticals (doc s) ch = []")
    case True
    then show ?thesis using c assms(3) sec by (simp add: slide_at_def)
  next
    case False
    then have "c \<in> set (verticals (doc s) ch)" using c assms(3) by (auto simp: slide_at_def nat_less_iff)
    then show ?thesis by (simp add: verticals_in)
  qed
qed

section \<open>Entering a slide\<close>

lemma pos_shown: "pos (show_slide el d) y =
    (if y = el then (fst (pos d y), True, fst (snd (snd (pos d y))), None, None) else pos d y)"
  by (simp add: pos_def show_slide_def)

lemma present_pos: "has_class ''present'' d y = fst (snd (pos d y))"
  by (simp add: pos_def)

lemma present_positioned:
  assumes "distinct slides" "\<not> isPrintingPDF (host s)"
  shows "has_class ''present'' (show_slide el (positioned i slides s ix)) y \<longleftrightarrow>
    y = el \<or> (y \<notin> set slides \<and> has_class ''present'' (doc s) y)"
  using assms
  by (simp add: present_pos pos_shown positioned_def split_beta Let_def pos_position_slides target_pos_def)

lemma presents_shown:
  assumes "distinct slides" "\<not> isPrintingPDF (host s)" "0 \<le> i" "i < int (length slides)"
  shows "presents (show_slide (slides ! nat i) (positioned ix slides s iy)) slides i"
  using assms by (auto simp: presents_iff present_positioned nth_eq_iff_index_eq nat_less_iff)

lemma distinct_select:
  assumes "page_wf s"
  shows "distinct (select_slides ax s)"
  using assms wf_domD(1) [of "doc s"] by (cases ax)
    (auto simp: page_wf_def wf_page_def getHorizontalSlides_def presentVerticalSlides_def queryAll_def)

lemma wrapper_no_section:
  assumes "states_ok s" "x \<in> set (getHorizontalSlides s)"
  shows "\<not> is_section (doc s) (wrapper (host s))"
proof
  let ?w = "wrapper (host s)"
  assume w: "is_section (doc s) ?w"
  have "x \<in> set (verticals (doc s) ?w)"
    using assms(2) by (auto simp: horizontal_in verticals_in is_desc_def horizontal_sel_def)
  then show False using horizontal_not_nested [OF assms w] by simp
qed

lemma vertical_selection:
  assumes ok: "states_ok t" and hs: "hs = getHorizontalSlides t" and h: "0 \<le> h" "h < int (length hs)"
    and p: "presents (doc t) hs h" and ch: "ch = hs ! nat h"
  shows "presentVerticalSlides t = verticals (doc t) ch"
proof -
  let ?d = "doc t" and ?w = "wrapper (host t)"
  have chs: "ch \<in> set hs" using h ch by (simp add: nat_less_iff)
  then have chs': "ch \<in> set (getHorizontalSlides t)" by (simp add: hs)
  have chp: "has_class ''present'' ?d ch" using p h ch by (simp add: presents_iff nat_less_iff)
  have sec: "is_section ?d ch" and hsel: "horizontal_sel ?d ch" and wch: "?w \<in> set (path ?d ch)"
    using chs' by (auto simp: horizontal_in horizontal_sel_def is_desc_def)
  have nw: "\<not> is_section ?d ?w" using wrapper_no_section [OF ok chs'] .
  have eq: "(is_desc ?d ?w x \<and> vertical_sel ?d x) \<longleftrightarrow> (is_desc ?d ch x \<and> is_section ?d x)"
    if x: "x \<in> set (order ?d)" for x
  proof
    assume l: "is_desc ?d ?w x \<and> vertical_sel ?d x"
    then obtain q r ps where path: "path ?d x = q # r # ps" and q: "is_section ?d x" "is_section ?d q"
      "has_class ''slides'' ?d r" "has_class ''present'' ?d q"
      by (auto simp: vertical_sel_def nested_sel_def split: list.splits)
    have xv: "x \<in> set (verticals ?d q)" using x q path by (simp add: verticals_in)
    have pq: "path ?d x = q # path ?d q" and qo: "q \<in> set (order ?d)" using nested_path [OF ok xv q(2)] by blast+
    have pq': "path ?d q = r # ps" using pq path by simp
    have "?w \<in> set (path ?d q)" using l pq nw q(2) by (auto simp: is_desc_def)
    then have "q \<in> set hs" using qo q pq' by (simp add: hs horizontal_in is_desc_def horizontal_sel_def)
    then obtain j where "j < length hs" "hs ! j = q" by (auto simp: in_set_conv_nth)
    then have "q = ch" using p q(4) ch h by (auto simp: presents_iff)
    then show "is_desc ?d ch x \<and> is_section ?d x" using path q by (simp add: is_desc_def)
  next
    assume r: "is_desc ?d ch x \<and> is_section ?d x"
    then have xv: "x \<in> set (verticals ?d ch)" using x by (simp add: verticals_in is_desc_def)
    have path: "path ?d x = ch # path ?d ch" using nested_path(1) [OF ok xv sec] .
    show "is_desc ?d ?w x \<and> vertical_sel ?d x"
      using path r sec hsel wch chp
      by (auto simp: is_desc_def vertical_sel_def nested_sel_def horizontal_sel_def split: list.splits)
  qed
  show ?thesis unfolding presentVerticalSlides_def verticals_def queryAll_def using eq by (intro filter_cong) blast+
qed

lemma slides_same_structure:
  assumes "same_structure (wrapper (host s)) (doc s) (doc t)" "page_wf s" "host t = host s"
  shows "getHorizontalSlides t = getHorizontalSlides s" "verticals (doc t) x = verticals (doc s) x"
proof -
  have "keeps (doc s) (doc t)" using assms by (simp add: same_structure_def page_wf_def)
  then show "getHorizontalSlides t = getHorizontalSlides s" "verticals (doc t) x = verticals (doc s) x"
    using assms(3) by (simp_all add: getHorizontalSlides_def verticals_def keeps_horizontal keeps_sections)
qed

definition landing_v :: "bool \<Rightarrow> node list \<Rightarrow> int \<Rightarrow> int" where
  "landing_v loop vs b = (if vs = [] then 0 else wrapped loop (int (length vs)) b)"

lemma enter_slide_lands:
  assumes ok: "deck_ok s" and np: "\<not> isPrintingPDF (host s)" and ne: "getHorizontalSlides s \<noteq> []"
    and h: "or_undef h (indexh s) = Num a" and v: "or_undef v (indexv s) = x"
    and i: "i = wrapped (cfg_loop (cfg s)) (int (length (getHorizontalSlides s))) a"
    and x: "x = Num b \<or> verticals (doc s) (getHorizontalSlides s ! nat i) = []"
    and j: "j = landing_v (cfg_loop (cfg s)) (verticals (doc s) (getHorizontalSlides s ! nat i)) b"
  obtains m s3 where "enter_slide (getHorizontalSlides s) h v s = Inr (m, s3)" "on_slide s3"
    "indexh s3 = Num i" "indexv s3 = Num j"
    "mv_changed m \<longleftrightarrow> Num i \<noteq> or_zero (indexh s) \<or> Num j \<noteq> or_zero (indexv s)"
    "previousSlide s3 = (if mv_changed m then previousSlide s else None)" "moves s s3"
    "mv_states m = stateArr s"
proof -
  let ?hs = "getHorizontalSlides s" and ?s0 = "s\<lparr>stateArr := []\<rparr>" and ?loop = "cfg_loop (cfg s)"
  let ?ch = "?hs ! nat i"
  have wf: "page_wf s" using ok by (simp add: deck_ok_def)
  have hs0: "select_slides Horizontal ?s0 = ?hs" by (simp add: getHorizontalSlides_def)
  have bi: "0 \<le> i" "i < int (length ?hs)" using wrapped_bounds [of "int (length ?hs)"] ne i by simp_all
  let ?d1 = "show_slide ?ch (positioned (Num i) ?hs ?s0 (Num a))"
  obtain w1 where u1: "updateSlides Horizontal (Num a) ?s0 =
      Inr (Num i, ?s0\<lparr>doc := ?d1, world := w1, stateArr := stateArr ?s0 @ slide_words ?d1 ?ch\<rparr>)"
    using updateSlides_Num [OF hs0 [symmetric] ne _ refl refl, of i a] i by auto
  let ?s1 = "?s0\<lparr>doc := ?d1, world := w1, stateArr := stateArr ?s0 @ slide_words ?d1 ?ch\<rparr>\<lparr>indexh := Num i\<rparr>"
  have m1: "moves s ?s1"
    using moves_trans [OF moves_trans [OF moves_fields(6) moves_updateSlides [of ?s0 Horizontal "Num a"]] moves_fields(1)]
    unfolding u1 by simp
  have ok1: "deck_ok ?s1" using movesD(1) [OF m1 ok] .
  have st1: "same_structure (wrapper (host s)) (doc s) (doc ?s1)"
    using same_structure_shown [of "wrapper (host s)" ?s0] by simp
  have hs1: "getHorizontalSlides ?s1 = ?hs" "verticals (doc ?s1) x = verticals (doc s) x" for x
    using slides_same_structure [OF st1 wf] by simp_all
  have dist: "distinct ?hs" using distinct_select [OF wf, of Horizontal] by simp
  have p1: "presents (doc ?s1) ?hs i" using presents_shown [of ?hs ?s0 i] dist np bi by simp
  let ?vs = "verticals (doc s) ?ch"
  have chs: "?ch \<in> set ?hs" using bi by (simp add: nat_less_iff)
  have sec: "is_section (doc s) ?ch" using chs by (simp add: horizontal_in horizontal_sel_def)
  have ps: "select_slides Vertical ?s1 = ?vs"
    using vertical_selection [OF _ hs1(1) [symmetric] bi p1 refl] ok1 hs1(2) by (simp add: deck_ok_def)
  have v1: "or_undef v (indexv (?s0\<lparr>doc := ?d1, world := w1, stateArr := stateArr ?s0 @ slide_words ?d1 ?ch\<rparr>)) = x"
    using v by simp
  obtain s2 where u2: "updateSlides Vertical x ?s1 = Inr (Num j, s2)"
    and s2: "host s2 = host s" "indexh s2 = Num i" "previousSlide s2 = previousSlide s" "moves s s2"
      "same_structure (wrapper (host s)) (doc s) (doc s2)"
      "presents (doc s2) ?hs i" "presents (doc s2) ?vs j" "0 \<le> j" "?vs = [] \<Longrightarrow> j = 0" "?vs \<noteq> [] \<Longrightarrow> j < int (length ?vs)"
  proof (cases "?vs = []")
    case True
    then have "j = 0" using j by (simp add: landing_v_def)
    then show ?thesis using that [of ?s1] updateSlides_none [of Vertical ?s1 x] ps True m1 st1 p1
      by (simp add: presents_iff)
  next
    case False
    then have xb: "x = Num b" using x by blast
    let ?el = "?vs ! nat j"
    let ?d2 = "show_slide ?el (positioned (Num j) ?vs ?s1 (Num b))"
    have bj: "0 \<le> j" "j < int (length ?vs)"
      using wrapped_bounds [of "int (length ?vs)"] False j by (simp_all add: landing_v_def)
    have jw: "j = wrapped (cfg_loop (cfg ?s1)) (int (length ?vs)) b" using j False by (simp add: landing_v_def)
    obtain w2 where u: "updateSlides Vertical (Num b) ?s1 =
        Inr (Num j, ?s1\<lparr>doc := ?d2, world := w2, stateArr := stateArr ?s1 @ slide_words ?d2 ?el\<rparr>)"
      using updateSlides_Num [OF ps [symmetric] False jw refl refl] by blast
    let ?s2 = "?s1\<lparr>doc := ?d2, world := w2, stateArr := stateArr ?s1 @ slide_words ?d2 ?el\<rparr>"
    have m2: "moves s ?s2" using moves_trans [OF m1 moves_updateSlides [of ?s1 Vertical "Num b"]] unfolding u by simp
    have st2: "same_structure (wrapper (host s)) (doc s) (doc ?s2)"
      using same_structure_trans [OF st1 same_structure_shown [of _ ?s1]] by simp
    have dv: "distinct ?vs" using distinct_select [of ?s1 Vertical] ok1 ps by (simp add: deck_ok_def)
    have disj: "x \<notin> set ?vs" if "x \<in> set ?hs" for x
      using horizontal_not_nested [OF _ that sec] ok by (simp add: deck_ok_def)
    have "presents (doc ?s2) ?hs i"
    proof -
      have "x \<noteq> ?el" if "x \<in> set ?hs" for x using disj [OF that] bj nth_mem [of "nat j" ?vs] by (auto simp: nat_less_iff)
      then have "presents ?d2 ?hs i = presents (doc ?s1) ?hs i"
        using disj dv np by (intro presents_cong) (simp add: present_positioned)
      then show ?thesis using p1 by simp
    qed
    moreover have "presents (doc ?s2) ?vs j" using presents_shown [of ?vs ?s1 j] dv np bj by simp
    ultimately show ?thesis using that [of ?s2] u m2 st2 bj False xb by simp
  qed
  let ?c = "Num i \<noteq> or_zero (indexh s) \<or> Num j \<noteq> or_zero (indexv s)"
  let ?s3 = "s2\<lparr>indexv := Num j, previousSlide := if ?c then previousSlide s2 else None\<rparr>"
  have vs2: "verticals (doc s2) x = verticals (doc s) x" "getHorizontalSlides s2 = ?hs" for x
    using slides_same_structure [OF s2(5) wf s2(1)] by simp_all
  let ?cur = "case arr_get (verticals (doc ?s3) ?ch) (Num j) of Some x \<Rightarrow> x | None \<Rightarrow> ?ch"
  have cur: "?cur = slide_at (doc s2) ?ch j" using s2(8-10) by (simp add: slide_at_def vs2)
  let ?s4 = "?s3\<lparr>currentSlide := Some ?cur\<rparr>"
  let ?m = "\<lparr>mv_changed = ?c, mv_forwards = (js_gt (Num i) (or_zero (indexh s)) \<or> js_gt (Num j) (or_zero (indexv s))),
      mv_states = stateArr s\<rparr>"
  have ag: "arr_get ?hs (Num i) = Some ?ch" using bi by simp
  have e: "enter_slide ?hs h v s = Inr (?m, ?s4)"
    unfolding enter_slide_def Let_def h u1 sum.case prod.case v1 u2 ag option.case ..
  have os: "on_slide ?s4"
  proof (rule on_slideI)
    show "presents (doc ?s4) (getHorizontalSlides ?s4) i" "presents (doc ?s4) (verticals (doc ?s4) ?ch) j"
      using s2(6,7) vs2 by (simp_all add: getHorizontalSlides_def)
    show "?ch = getHorizontalSlides ?s4 ! nat i" "i < int (length (getHorizontalSlides ?s4))"
      using vs2(2) bi by (simp_all add: getHorizontalSlides_def)
    show "currentSlide ?s4 = Some (slide_at (doc ?s4) ?ch j)" using cur by simp
  qed (use s2 bi vs2 in simp_all)
  have ms: "moves s ?s4"
    using moves_trans [OF s2(4) moves_trans [OF moves_fields(2) moves_trans [OF moves_fields(3) moves_fields(4)]]] by simp
  show ?thesis by (rule that [OF e os _ _ _ _ ms]) (simp_all add: s2)
qed

section \<open>Landing\<close>

lemma presents_unmark:
  assumes "presents d xs k" "0 \<le> k" "xs \<noteq> [] \<Longrightarrow> k < int (length xs) \<and> xs ! nat k \<noteq> p"
  shows "presents (set_attr a v p (remove_class ''present'' p d)) xs k"
proof -
  have "(has_class ''present'' d x \<and> x \<noteq> p) = has_class ''present'' d x" if "x = xs ! j" "j < length xs" for x j
  proof (cases "int j = k")
    case True
    then have "x \<noteq> p" using assms(3) that by (cases xs) auto
    then show ?thesis by simp
  next
    case False
    then show ?thesis using assms(1) that by (simp add: presents_iff)
  qed
  then show ?thesis using assms(1) by (auto simp: presents_iff)
qed

lemma on_slide_leave:
  assumes os: "on_slide s" and ok: "deck_ok s" and leaf: "\<And>p. previousSlide s = Some p \<Longrightarrow> verticals (doc s) p = []"
  shows "on_slide (leave_previous s)"
proof (cases "previousSlide s")
  case None
  then show ?thesis using os by (simp add: leave_previous_def)
next
  case (Some p)
  show ?thesis
  proof (cases "Some p = currentSlide s")
    case True
    then show ?thesis using os Some by (simp add: leave_previous_def split: option.split)
  next
    case ne: False
    from os obtain h v ch where c: "indexh s = Num h" "indexv s = Num v" "0 \<le> h" "h < int (length (getHorizontalSlides s))"
      "ch = getHorizontalSlides s ! nat h" "0 \<le> v" "verticals (doc s) ch = [] \<Longrightarrow> v = 0"
      "verticals (doc s) ch \<noteq> [] \<Longrightarrow> v < int (length (verticals (doc s) ch))"
      "currentSlide s = Some (slide_at (doc s) ch v)"
      "presents (doc s) (getHorizontalSlides s) h" "presents (doc s) (verticals (doc s) ch) v"
      by (cases rule: on_slide_cases) blast
    let ?d = "set_attr ''aria-hidden'' ''true'' p (remove_class ''present'' p (doc s))"
    let ?s1 = "s\<lparr>doc := ?d\<rparr>"
    have st: "same_structure (wrapper (host s)) (doc s) (doc ?s1)"
      by (auto intro: same_structure_trans [of _ _ "remove_class ''present'' p (doc s)"])
    have same: "getHorizontalSlides ?s1 = getHorizontalSlides s" "verticals (doc ?s1) x = verticals (doc s) x" for x
      using slides_same_structure [OF st] ok by (simp_all add: deck_ok_def)
    have p: "slide_at (doc s) ch v \<noteq> p" using c(9) ne by simp
    have "ch \<noteq> p" using p leaf [OF Some] by (cases "verticals (doc s) ch = []") (auto simp: slide_at_def)
    then have ph: "presents ?d (getHorizontalSlides s) h" using c by (intro presents_unmark) auto
    have "verticals (doc s) ch \<noteq> [] \<Longrightarrow> verticals (doc s) ch ! nat v \<noteq> p" using p by (simp add: slide_at_def)
    then have pv: "presents ?d (verticals (doc s) ch) v" using c by (intro presents_unmark) auto
    have os1: "on_slide ?s1"
    proof (rule on_slideI [of _ h v ch])
      show "presents (doc ?s1) (getHorizontalSlides ?s1) h" "presents (doc ?s1) (verticals (doc ?s1) ch) v"
        unfolding same using ph pv by simp_all
      show "currentSlide ?s1 = Some (slide_at (doc ?s1) ch v)" using c(9) same(2) by (simp add: slide_at_def)
    qed (use c same in auto)
    have "on_slide (?s1\<lparr>world := w\<rparr>) = on_slide ?s1" for w by (rule on_slide_kept) simp_all
    with os1 have "on_slide (?s1\<lparr>world := w\<rparr>)" for w by blast
    with os1 show ?thesis unfolding leave_previous_def Some option.case Let_def using ne
      by (simp only: split: if_split) simp
  qed
qed

lemma indices_frame [simp]:
  "indexh (start_transition m s) = indexh s" "indexv (start_transition m s) = indexv s"
  "currentSlide (start_transition m s) = currentSlide s" "previousSlide (start_transition m s) = previousSlide s"
  "host (start_transition m s) = host s" "cfg (start_transition m s) = cfg s"
  "indexh (leave_previous s) = indexh s" "indexv (leave_previous s) = indexv s"
  "currentSlide (leave_previous s) = currentSlide s" "previousSlide (leave_previous s) = previousSlide s"
  by (simp_all add: start_transition_def leave_previous_def Let_def split: option.split)

lemma on_slide_transition: "deck_ok s \<Longrightarrow> on_slide (start_transition m s) = on_slide s"
proof -
  assume "deck_ok s"
  then have wf: "page_wf s" by (simp add: deck_ok_def)
  have "on_slide (s\<lparr>transitionRunning := True\<rparr>) = on_slide s" for s by (rule on_slide_kept) simp_all
  moreover have "on_slide (s\<lparr>doc := add_class ''disable-slide-transitions'' x (doc s)\<rparr>) = on_slide s" for x
    using wf by (intro on_slide_quiet quiet_doc same_sections_class) simp_all
  ultimately show ?thesis by (simp add: start_transition_def Let_def)
qed

lemma finish_slide_lands:
  assumes "deck_ok s" "on_slide s"
  shows "on_slide (finish_slide animated m origin s)" "indexh (finish_slide animated m origin s) = indexh s"
    "indexv (finish_slide animated m origin s) = indexv s"
proof -
  let ?s1 = "update_controllers (switch_content m (announce_change m origin s))"
  have q: "quiet s ?s1"
    by (rule quiet_trans [OF quiet_announce_change quiet_trans [OF quiet_switch_content quiet_update_controllers]])
  have wf: "page_wf s" using assms(1) by (simp add: deck_ok_def)
  have wf1: "page_wf (cueAutoSlide ?s1)" using quiet_wf_page [OF q wf] by (simp add: page_wf_def bg_ok_def helpers_def)
  have "on_slide (cueAutoSlide ?s1)" using on_slide_quiet [OF q wf] assms(2) by simp
  then show "on_slide (finish_slide animated m origin s)"
    using on_slide_quiet [OF quiet_run_animation wf1] by (simp add: finish_slide_def)
  show "indexh (finish_slide animated m origin s) = indexh s" "indexv (finish_slide animated m origin s) = indexv s"
    using quietD(4,5) [OF q] quietD(4,5) [OF quiet_run_animation [of "cueAutoSlide ?s1" animated]]
    by (simp_all add: finish_slide_def)
qed

text \<open>
  The destination of a move: the vertical index asked for, else the one the stack was left at.
\<close>

definition wanted_v :: "jsnum \<Rightarrow> jsnum \<Rightarrow> reveal \<Rightarrow> jsnum" where
  "wanted_v h v s = or_undef (resume_vertical h v s) (indexv s)"

lemma slide_lands_core:
  assumes ok: "deck_ok s" and np: "\<not> isPrintingPDF (host s)" and ne: "getHorizontalSlides s \<noteq> []"
    and nv: "\<not> vetoes (host s) ''beforeslidechange'' (or_undef h (indexh s)) (or_undef v (indexv s))"
    and leaf: "\<And>p. currentSlide s = Some p \<Longrightarrow> verticals (doc s) p = []"
    and h: "or_undef h (indexh s) = Num a" and v: "wanted_v h v s = x"
    and i: "i = wrapped (cfg_loop (cfg s)) (int (length (getHorizontalSlides s))) a"
    and x: "x = Num b \<or> verticals (doc s) (getHorizontalSlides s ! nat i) = []"
    and j: "j = landing_v (cfg_loop (cfg s)) (verticals (doc s) (getHorizontalSlides s ! nat i)) b"
  shows "\<exists>s'. slide h v f origin s = Returned s' \<and> on_slide s' \<and> indexh s' = Num i \<and> indexv s' = Num j"
proof -
  let ?s1 = "dispatchEvent (EvSlide ''beforeslidechange'' (or_undef h (indexh s)) (or_undef v (indexv s)) None None origin) s"
  obtain w1 where w1: "?s1 = s\<lparr>world := w1\<rparr>" using dispatchEvent_world by blast
  let ?s2 = "?s1\<lparr>previousSlide := currentSlide ?s1\<rparr>"
  let ?sR = "remember_vertical ?s2"
  have m2: "moves s ?s2" by (rule moves_trans [OF moves_quiet [OF quiet_dispatch] moves_fields(3)])
  have mR: "moves s ?sR" by (rule moves_trans [OF m2 moves_remember])
  have okR: "deck_ok ?sR" using movesD(1) [OF mR ok] .
  have wf: "page_wf s" using ok by (simp add: deck_ok_def)
  have R: "indexh ?sR = indexh s" "indexv ?sR = indexv s" "previousSlide ?sR = currentSlide s" "host ?sR = host s"
    "cfg ?sR = cfg s" by (simp_all add: remember_vertical_def w1 split: option.split)
  have stR: "same_structure (wrapper (host s)) (doc s) (doc ?sR)" using movesD(2) [OF mR ok] by (simp add: same_deck_def)
  have hsR: "getHorizontalSlides ?sR = getHorizontalSlides s" "verticals (doc ?sR) x = verticals (doc s) x" for x
    using slides_same_structure [OF stR wf] R(4) by simp_all
  have hs2: "getHorizontalSlides ?s2 = getHorizontalSlides s" by (simp add: w1 getHorizontalSlides_def)
  have v2: "or_undef (resume_vertical h v ?s2) (indexv ?sR) = x"
    using v R(2) hs2 by (auto simp: wanted_v_def resume_vertical_def w1 split: if_splits)
  obtain m s3 where e: "enter_slide (getHorizontalSlides ?sR) h (resume_vertical h v ?s2) ?sR = Inr (m, s3)"
    and s3: "on_slide s3" "indexh s3 = Num i" "indexv s3 = Num j"
      "previousSlide s3 = (if mv_changed m then previousSlide ?sR else None)" "moves ?sR s3" "mv_states m = stateArr ?sR"
  proof (rule enter_slide_lands [OF okR _ _ _ v2])
    show "\<not> isPrintingPDF (host ?sR)" "getHorizontalSlides ?sR \<noteq> []" "or_undef h (indexh ?sR) = Num a"
      using np ne h R hsR by simp_all
    show "i = wrapped (cfg_loop (cfg ?sR)) (int (length (getHorizontalSlides ?sR))) a" using i R hsR by simp
    show "j = landing_v (cfg_loop (cfg ?sR)) (verticals (doc ?sR) (getHorizontalSlides ?sR ! nat i)) b" using j R hsR by simp
    show "x = Num b \<or> verticals (doc ?sR) (getHorizontalSlides ?sR ! nat i) = []" using x hsR by simp
  qed
  have ok3: "deck_ok s3" using movesD(1) [OF s3(5) okR] .
  have leaf3: "verticals (doc s3) p = []" if "previousSlide s3 = Some p" for p
  proof -
    have st: "same_structure (wrapper (host ?sR)) (doc ?sR) (doc s3)" and ho: "host s3 = host ?sR"
      using movesD(2) [OF s3(5) okR] by (simp_all only: same_deck_def)
    have "page_wf ?sR" using okR by (simp only: deck_ok_def)
    from slides_same_structure(2) [OF st this ho] have "verticals (doc s3) p = verticals (doc s) p"
      unfolding hsR(2) .
    then show ?thesis using leaf that s3(4) R(3) by (simp split: if_splits)
  qed
  let ?s4 = "show_deck f (start_transition m s3)"
  have ok4: "deck_ok (start_transition m s3)" "deck_ok ?s4"
    using movesD(1) [OF moves_start_transition ok3] movesD(1) [OF moves_quiet [OF quiet_show_deck]] by simp_all
  have q4: "quiet (start_transition m s3) ?s4" by (rule quiet_show_deck)
  have wft: "page_wf (start_transition m s3)" using ok4 by (simp add: deck_ok_def)
  have os4: "on_slide ?s4" using on_slide_quiet [OF q4 wft] on_slide_transition [OF ok3] s3(1) by simp
  have leaf4: "verticals (doc ?s4) p = []" if "previousSlide ?s4 = Some p" for p
  proof -
    have "verticals (doc ?s4) p = verticals (doc s3) p"
      using quiet_slides(3) [OF q4 wft] slides_same_structure(2) [of s3 "start_transition m s3" p]
        movesD(2) [OF moves_start_transition ok3, of m] ok3 by (simp add: same_deck_def deck_ok_def)
    then show ?thesis using leaf3 that quietD(6) [OF q4] by simp
  qed
  let ?s5 = "leave_previous ?s4"
  have os5: "on_slide ?s5" by (rule on_slide_leave [OF os4 ok4(2) leaf4])
  have ok5: "deck_ok ?s5" using movesD(1) [OF moves_leave_previous ok4(2)] .
  have "list_all word_ok (mv_states m)" using okR s3(6) by (simp add: deck_ok_def states_ok_def)
  moreover have "list_all word_ok (stateArr ?s5)" using ok5 by (simp add: deck_ok_def states_ok_def)
  ultimately obtain s6 where c: "change_states (mv_states m) ?s5 = Returned s6" and q6: "quiet ?s5 s6"
    using change_states_ok by blast
  have ok6: "deck_ok s6" using movesD(1) [OF moves_quiet [OF q6] ok5] .
  have os6: "on_slide s6" using on_slide_quiet [OF q6] os5 ok5 by (simp add: deck_ok_def)
  have ix6: "indexh s6 = Num i" "indexv s6 = Num j" using quietD(4,5) [OF q6] quietD(4,5) [OF q4] s3(2,3) by simp_all
  have "slide h v f origin s = Returned (finish_slide (auto_animated m s3) m origin s6)"
    using nv ne hs2 e hsR(1) c by (simp add: slide_def Let_def)
  then show ?thesis using finish_slide_lands [OF ok6 os6] ix6 by simp
qed

section \<open>Live decks\<close>

text \<open>
  A live deck shows a slide (and is not being printed). In a live deck the moves cannot throw,
  and they leave a live deck.
\<close>

definition live :: "reveal \<Rightarrow> bool" where
  "live s = (deck_ok s \<and> on_slide s \<and> \<not> isPrintingPDF (host s))"

lemma live_quiet: "quiet s t \<Longrightarrow> live s \<Longrightarrow> live t"
  using movesD(1) [OF moves_quiet] on_slide_quiet quietD(2) by (simp add: live_def deck_ok_def)

lemma live_moves: "moves s t \<Longrightarrow> live s \<Longrightarrow> on_slide t \<Longrightarrow> live t"
  using movesD [of s t] by (simp add: live_def same_deck_def)

lemma parseInt_number: "parseInt v \<noteq> NaN \<Longrightarrow> \<exists>k. parseInt v = Num k"
proof -
  have d: "parse_digits w = (if takeWhile is_digit w = [] then NaN else Num (int (digits_val (takeWhile is_digit w))))" for w
    by (simp add: parse_digits_def Let_def)
  assume n: "parseInt v \<noteq> NaN"
  show ?thesis
  proof (cases "dropWhile is_space v")
    case Nil
    show ?thesis using n unfolding parseInt_def Nil by simp
  next
    case (Cons c cs)
    show ?thesis using n unfolding parseInt_def Cons by (simp add: d split: if_splits)
  qed
qed

lemma previous_index_number:
  assumes "states_ok s" "\<And>x. stack = Some x \<Longrightarrow> x \<in> set (sections (doc s))"
  shows "\<exists>k. getPreviousVerticalIndex (doc s) stack = Num k"
proof (cases stack)
  case (Some x)
  have "section_ok (doc s) x" using assms(1) assms(2) [OF Some] by (simp add: states_ok_def del: sections_in)
  then show ?thesis using parseInt_number
    by (auto simp: Some getPreviousVerticalIndex_def section_ok_def index_attr_ok_def Let_def split: option.split)
qed (simp add: getPreviousVerticalIndex_def)

lemma wanted_v_number:
  assumes "live s" "v \<noteq> NaN"
  shows "\<exists>b. wanted_v h v s = Num b"
proof -
  have iv: "\<exists>b. indexv s = Num b" using assms(1) by (auto simp: live_def elim: on_slide_cases)
  have st: "states_ok s" using assms(1) by (simp add: live_def deck_ok_def)
  have "x \<in> set (sections (doc s))" if "arr_get (getHorizontalSlides s) h = Some x" for x
    using arr_get_in_set [OF that] select_slides_sections [of x Horizontal s] by simp
  then have "\<exists>k. getPreviousVerticalIndex (doc s) (arr_get (getHorizontalSlides s) h) = Num k"
    using previous_index_number [OF st] by blast
  then show ?thesis using iv assms(2) by (cases v) (auto simp: wanted_v_def resume_vertical_def or_undef_def)
qed

lemma slide_lands_live:
  assumes l: "live s" and h: "h \<noteq> NaN" and v: "v \<noteq> NaN"
  shows "returned (slide h v f origin s) \<and> on_slide (after (slide h v f origin s))"
proof (cases "vetoes (host s) ''beforeslidechange'' (or_undef h (indexh s)) (or_undef v (indexv s))")
  case True
  then show ?thesis using live_quiet [OF quiet_dispatch l] by (simp add: slide_def Let_def live_def)
next
  case False
  obtain a where a: "or_undef h (indexh s) = Num a"
    using l h by (cases h) (auto simp: live_def or_undef_def elim: on_slide_cases)
  obtain b where b: "wanted_v h v s = Num b" using wanted_v_number [OF l v] by blast
  have "getHorizontalSlides s \<noteq> []" using l by (auto simp: live_def elim: on_slide_cases)
  moreover have "verticals (doc s) p = []" if "currentSlide s = Some p" for p
    using on_slide_leaf(1) that l by (simp add: live_def)
  moreover have "deck_ok s" "\<not> isPrintingPDF (host s)" using l by (simp_all add: live_def)
  ultimately obtain s' where "slide h v f origin s = Returned s'" "on_slide s'"
    using slide_lands_core [OF _ _ _ False _ a b refl _ refl, of b f origin] by blast
  then show ?thesis by simp
qed

locale navigator = deck_move +
  assumes lands: "live s \<Longrightarrow> returned (mv s) \<and> on_slide (after (mv s))"
begin

lemma live_after: "live s \<Longrightarrow> live (after (mv s))"
  using live_moves [OF moves] lands by blast

lemma indices: "live s \<Longrightarrow> \<exists>h v. indexh (after (mv s)) = Num h \<and> indexv (after (mv s)) = Num v"
  using lands by (auto elim: on_slide_cases)

end

lemma slide_navigator: "h \<noteq> NaN \<Longrightarrow> v \<noteq> NaN \<Longrightarrow> navigator (slide h v f origin)"
  by unfold_locales (simp_all add: moves_slide slide_lands_live)

lemma live_through:
  assumes "\<And>s. quiet s (snd (step s))" "live s"
  shows "live (snd (through_fragments b step s))"
  using assms(2) live_quiet [OF assms(1)] by (simp add: through_fragments_def split_beta Let_def)

lemma live_index:
  assumes "live s"
  shows "js_add (indexh s) (Num k) \<noteq> NaN" "js_add (indexv s) (Num k) \<noteq> NaN" "js_sub (indexh s) (Num k) \<noteq> NaN"
    "indexh s \<noteq> NaN" "indexv s \<noteq> NaN" "grid_index s \<noteq> NaN"
  using assms by (auto simp: live_def grid_index_def elim: on_slide_cases)

lemma slide_axis_lands:
  assumes "\<And>s. quiet s (snd (step s))" "live s"
  shows "returned (slide_horizontally d r step b s) \<and> on_slide (after (slide_horizontally d r step b s))"
    and "returned (slide_vertically d r step b s) \<and> on_slide (after (slide_vertically d r step b s))"
proof -
  let ?s1 = "snd (through_fragments (overviewActive s \<or> b) step s)"
  have l: "live ?s1" by (rule live_through [OF assms])
  have "on_slide ?s1" using l by (simp add: live_def)
  then show "returned (slide_horizontally d r step b s) \<and> on_slide (after (slide_horizontally d r step b s))"
    "returned (slide_vertically d r step b s) \<and> on_slide (after (slide_vertically d r step b s))"
    using slide_lands_live [OF l] live_index [OF l]
    by (simp_all add: slide_horizontally_def slide_vertically_def split_beta Let_def)
qed

lemma live_visited:
  "live (s\<lparr>hasNavigatedHorizontally := b\<rparr>) = live s" "live (s\<lparr>hasNavigatedVertically := b\<rparr>) = live s"
proof -
  have "deck_ok (s\<lparr>hasNavigatedHorizontally := b\<rparr>) = deck_ok s" "deck_ok (s\<lparr>hasNavigatedVertically := b\<rparr>) = deck_ok s"
    by (simp_all add: deck_ok_def page_wf_def bg_ok_def helpers_def auto_ok_def timers_ok_def halted_def isPaused_def states_ok_def)
  moreover have "on_slide (s\<lparr>hasNavigatedHorizontally := b\<rparr>) = on_slide s" "on_slide (s\<lparr>hasNavigatedVertically := b\<rparr>) = on_slide s"
    by (rule on_slide_kept; simp)+
  ultimately show "live (s\<lparr>hasNavigatedHorizontally := b\<rparr>) = live s" "live (s\<lparr>hasNavigatedVertically := b\<rparr>) = live s"
    by (simp_all add: live_def)
qed

interpretation left_nav: navigator "navigateLeft b"
  by unfold_locales (simp add: navigateLeft_def Let_def slide_axis_lands quiet_steps live_visited)

interpretation right_nav: navigator "navigateRight b"
  by unfold_locales (simp add: navigateRight_def Let_def slide_axis_lands quiet_steps live_visited)

interpretation up_nav: navigator "navigateUp b"
  by unfold_locales (simp add: navigateUp_def slide_axis_lands quiet_steps)

interpretation down_nav: navigator "navigateDown b"
  by unfold_locales (simp add: navigateDown_def slide_axis_lands quiet_steps live_visited)

lemma prev_lands: "live s \<Longrightarrow> returned (navigatePrev b s) \<and> on_slide (after (navigatePrev b s))"
proof -
  assume l: "live s"
  let ?s1 = "snd (through_fragments b fragments_prev s)"
  have l1: "live ?s1" using live_through quiet_steps l by blast
  have "bottom_index d p \<noteq> NaN" for d p by (simp add: bottom_index_def Let_def)
  moreover have "on_slide ?s1" using l1 by (simp add: live_def)
  ultimately show ?thesis
    using up_nav.lands [OF l1] left_nav.lands [OF l1] slide_lands_live [OF l1] live_index [OF l1]
    by (simp add: navigatePrev_def split_beta Let_def split: option.split)
qed

lemma next_lands: "live s \<Longrightarrow> returned (navigateNext b s) \<and> on_slide (after (navigateNext b s))"
proof -
  assume l: "live s"
  let ?s0 = "s\<lparr>hasNavigatedHorizontally := True, hasNavigatedVertically := True\<rparr>"
  let ?s1 = "snd (through_fragments b fragments_next ?s0)"
  have "live ?s0" using l live_visited by simp
  then have l1: "live ?s1" using live_through quiet_steps by blast
  then have "on_slide ?s1" by (simp add: live_def)
  then show ?thesis
    using down_nav.lands [OF l1] left_nav.lands [OF l1] right_nav.lands [OF l1]
    by (simp add: navigateNext_def split_beta Let_def)
qed

interpretation prev_nav: navigator "navigatePrev b"
  by unfold_locales (rule prev_lands)

interpretation next_nav: navigator "navigateNext b"
  by unfold_locales (rule next_lands)

section \<open>The sample deck\<close>

lemma if_mem: "a \<in> S \<Longrightarrow> b \<in> S \<Longrightarrow> (if c then a else b) \<in> S"
  by simp
lemma sample_path: "path sample_dom = (\<lambda>x. if x = 0 then [] else if x = 1 then [0] else if x = 2 then [1, 0]
       else if x = 6 \<or> x = 7 then [5, 3, 2, 1, 0]
       else if x \<in> {4, 5, 8} then [3, 2, 1, 0]
       else if x \<in> {9, 10, 11} then [8, 3, 2, 1, 0]
       else if x = 3 \<or> x \<le> 25 then [2, 1, 0] else [])"
  unfolding sample_dom_def by (simp only: dom.select_convs)
lemma sample_path_in: "path sample_dom x \<in> set [[], [0], [1, 0], [2, 1, 0], [3, 2, 1, 0], [5, 3, 2, 1, 0], [8, 3, 2, 1, 0]]"
  unfolding sample_path 
  apply (intro if_mem) 
  apply (simp_all only: list.set insert_iff simp_thms)
  done
lemma sample_wf: "wf_dom sample_dom"
proof -
  have flat: "distinct (order sample_dom)" "\<forall>x\<in>set (order sample_dom). x < nextNode sample_dom"
    "\<forall>x y. bgOf sample_dom x = Some y \<or> bgContentOf sample_dom x = Some y \<longrightarrow> bg_node sample_dom y"
    by (simp_all add: sample_dom_def)
  have "\<forall>l \<in> set [[], [0], [1, 0], [2, 1, 0], [3, 2, 1, 0], [5, 3, 2, 1, 0], [8, 3, 2, 1, 0]].
    \<forall>y \<in> set l. y < nextNode sample_dom" by (simp add: sample_dom_def)
  note small = bspec [OF bspec [OF this sample_path_in]]
  have "\<forall>l \<in> set [[], [0], [1, 0], [2, 1, 0], [3, 2, 1, 0], [5, 3, 2, 1, 0], [8, 3, 2, 1, 0]].
    l \<noteq> [] \<longrightarrow> path sample_dom (hd l) = tl l" by (simp add: sample_path)
  note parent = bspec [OF this sample_path_in, rule_format]
  have "path sample_dom p = ps" if "path sample_dom x = p # ps" for x p ps
    using parent [of x] unfolding that by simp
  with small flat show ?thesis unfolding wf_dom_def by blast
qed

lemma sections_sample: "sections sample_dom = [4, 5, 6, 7, 8]"
  by (simp add: sections_def is_section_def sample_dom_def)

lemma sample_at_frame [simp]:
  "host (sample_at h v x) = sample_host" "cfg (sample_at h v x) = default_config" "refs (sample_at h v x) = sample_refs"
  "indexh (sample_at h v x) = Num h" "indexv (sample_at h v x) = Num v" "currentSlide (sample_at h v x) = Some x"
  "doc (sample_at h v x) = add_class ''present'' x sample_dom" "overviewActive (sample_at h v x) = False"
  "previousSlide (sample_at h v x) = None" "ready (sample_at h v x) = True" "overlay (sample_at h v x) = None"
  by (simp_all add: sample_at_def sample_def)

lemma sample_host_simps [simp]: "wrapper sample_host = 2" "slidesEl sample_host = 3" "viewport sample_host = 1"
  "\<not> isPrintingPDF sample_host" "\<not> vetoes sample_host ty a b" "backgroundsEl sample_refs = 23"
  by (simp_all add: sample_host_def sample_refs_def)

lemma deck_ok_sample: "deck_ok (sample_at h v x)"
proof -
  have wf: "wf_page 2 (doc (sample_at h v x))" using sample_wf by (simp add: wf_page_def) (simp add: sample_dom_def)
  have sec: "sections (doc (sample_at h v x)) = [4, 5, 6, 7, 8]" using sections_sample by (simp add: sections_class)
  have "bg_ok (sample_at h v x)"
    unfolding bg_ok_def sec helpers_def by (simp add: in_subtree_def) (simp add: sample_dom_def)
  moreover have "auto_ok (sample_at h v x)"
    by (simp add: auto_ok_def timers_ok_def wf_timers_def timers_of_def calls_ok_def sample_at_def sample_defs)
  moreover have "states_ok (sample_at h v x)"
    unfolding states_ok_def sec
    by (simp add: section_ok_def slide_words_def nesting_ok_def index_attr_ok_def is_section_def)
      (simp add: get_attr_def has_class_def sample_at_def sample_def sample_dom_def)
  ultimately show ?thesis using wf by (simp add: deck_ok_def page_wf_def)
qed

lemma sample_slides: "getHorizontalSlides (sample_at h v x) = [4, 5, 8]"
  "verticals (add_class c y sample_dom) 4 = []" "verticals (add_class c y sample_dom) 5 = [6, 7]"
  "verticals (add_class c y sample_dom) 8 = []"
proof -
  have "getHorizontalSlides (sample_at h v x) = queryAll sample_dom 2 (horizontal_sel sample_dom)"
    by (simp add: getHorizontalSlides_def keeps_horizontal)
  also have "\<dots> = [4, 5, 8]" by code_simp
  finally show "getHorizontalSlides (sample_at h v x) = [4, 5, 8]" .
  have "verticals (add_class c y sample_dom) z = queryAll sample_dom z (is_section sample_dom)" for z
    by (simp add: verticals_def queryAll_def is_desc_def is_section_def)
  moreover have "queryAll sample_dom 4 (is_section sample_dom) = []" "queryAll sample_dom 5 (is_section sample_dom) = [6, 7]"
    "queryAll sample_dom 8 (is_section sample_dom) = []" by code_simp+
  ultimately show "verticals (add_class c y sample_dom) 4 = []" "verticals (add_class c y sample_dom) 5 = [6, 7]"
    "verticals (add_class c y sample_dom) 8 = []" by simp_all
qed

lemma sample_present [simp]: "has_class ''present'' sample_dom x = False"
  by (simp add: has_class_def sample_dom_def)

lemma live_sample: "live (sample_at 0 0 4)" "live (sample_at 2 0 8)"
proof -
  have "on_slide (sample_at 0 0 4)" "on_slide (sample_at 2 0 8)"
    unfolding on_slide_def by (simp_all add: sample_slides slide_at_def presents_def)
  then show "live (sample_at 0 0 4)" "live (sample_at 2 0 8)" by (simp_all add: live_def deck_ok_sample)
qed

section \<open>Properties of navigation\<close>

text \<open>C4: In a well-formed deck with a horizontal slide, going to a numbered slide returns (it does not
  throw) and ends on that slide: the indices are those asked for, wrapped around in a looping deck
  and clamped otherwise, the current slide is the one they name, and exactly it is marked present.\<close>

theorem slide_lands:
  assumes "deck_ok s" "\<not> isPrintingPDF (host s)" "getHorizontalSlides s \<noteq> []"
    and "\<not> vetoes (host s) ''beforeslidechange'' (Num a) (Num b)"
    and "\<And>p. currentSlide s = Some p \<Longrightarrow> verticals (doc s) p = []"
  shows "\<exists>s'. slide (Num a) (Num b) f origin s = Returned s' \<and> on_slide s' \<and>
    indexh s' = Num (wrapped (cfg_loop (cfg s)) (int (length (getHorizontalSlides s))) a) \<and>
    indexv s' = Num (landing_v (cfg_loop (cfg s))
      (verticals (doc s) (getHorizontalSlides s ! nat (wrapped (cfg_loop (cfg s)) (int (length (getHorizontalSlides s))) a))) b)"
  by (rule slide_lands_core [where x = "Num b", OF assms(1-3) _ assms(5)])
    (simp_all add: or_undef_def wanted_v_def resume_vertical_def assms(4))

theorem slide_lands_witness:
  "\<exists>s'. slide (Num 1) (Num 7) Undef Undef (sample_at 2 0 8) = Returned s' \<and> on_slide s' \<and> indexh s' = Num 1 \<and> indexv s' = Num 1"
proof -
  have "\<exists>s'. slide (Num 1) (Num 7) Undef Undef (sample_at 2 0 8) = Returned s' \<and> on_slide s' \<and>
    indexh s' = Num (wrapped False 3 1) \<and> indexv s' = Num (landing_v False [6, 7] 7)"
    using slide_lands [OF deck_ok_sample, of 2 0 8 1 7 Undef Undef]
    by (simp add: sample_slides default_config_def wrapped_def)
  then show ?thesis by (simp add: wrapped_def landing_v_def)
qed

text \<open>C13: In a live deck no move throws: \<open>slide\<close> with any indices that are numbers or left out, and
  each of the six directions, returns and leaves a live deck.\<close>

theorem moves_total:
  assumes "live s" "h \<noteq> NaN" "v \<noteq> NaN"
  shows "\<forall>r \<in> {slide h v f origin s, navigateLeft b s, navigateRight b s, navigateUp b s, navigateDown b s,
    navigatePrev b s, navigateNext b s}. returned r \<and> live (after r)"
  using slide_lands_live [OF assms] navigator.live_after [OF slide_navigator [OF assms(2,3)] assms(1)]
    left_nav.lands [OF assms(1)] left_nav.live_after [OF assms(1)] right_nav.lands [OF assms(1)]
    right_nav.live_after [OF assms(1)] up_nav.lands [OF assms(1)] up_nav.live_after [OF assms(1)]
    down_nav.lands [OF assms(1)] down_nav.live_after [OF assms(1)] prev_nav.lands [OF assms(1)]
    prev_nav.live_after [OF assms(1)] next_nav.lands [OF assms(1)] next_nav.live_after [OF assms(1)]
  by simp

theorem moves_total_witness:
  "returned (navigateNext False (sample_at 0 0 4)) \<and> live (after (navigateNext False (sample_at 0 0 4)))"
  using moves_total [OF live_sample(1), of Undef Undef] by blast

end
