(* ===== verification/Modes.thy ===== *)
theory Modes
  imports Position
begin

text \<open>
  The contract of everything a user or a timer can set off. A healthy deck is live and its
  \<open>.slides\<close> element is an ancestor of a slide. An operation is safe when in a healthy deck
  it returns and leaves a healthy deck with the same slides. Changes of mode (pausing,
  auto-sliding) are shown to be safe here; moving is, by the lemmas on positions.
\<close>

section \<open>Healthy decks\<close>

definition housed :: "reveal \<Rightarrow> bool" where
  "housed s = list_ex (\<lambda>x. slidesEl (host s) \<in> set (path (doc s) x)) (getHorizontalSlides s)"

definition healthy :: "reveal \<Rightarrow> bool" where
  "healthy s = (live s \<and> housed s)"

definition steady :: "reveal \<Rightarrow> reveal \<Rightarrow> bool" where
  "steady s t = (healthy s \<longrightarrow> healthy t \<and> cfg t = cfg s \<and> host t = host s \<and> refs t = refs s \<and> keeps (doc s) (doc t))"

lemma healthyD: "healthy s \<Longrightarrow> live s" "healthy s \<Longrightarrow> page_wf s" "healthy s \<Longrightarrow> deck_ok s" "healthy s \<Longrightarrow> auto_ok s"
  "healthy s \<Longrightarrow> on_slide s"
  by (simp_all add: healthy_def live_def deck_ok_def)

lemma steady_refl [simp]: "steady s s" by (simp add: steady_def)

lemma steady_trans [trans]: "steady a b \<Longrightarrow> steady b c \<Longrightarrow> steady a c"
  unfolding steady_def using keeps_trans by fastforce

lemma housed_keeps:
  assumes "keeps (doc s) (doc t)" "host t = host s" "housed s"
  shows "housed t"
proof -
  have hs: "getHorizontalSlides t = getHorizontalSlides s" using assms(1,2) by (simp add: getHorizontalSlides_def keeps_horizontal)
  have "path (doc t) x = path (doc s) x" if "x \<in> set (getHorizontalSlides s)" for x
    using keepsD(1) [OF assms(1)] select_slides_sections [of x Horizontal s] that by simp
  then show ?thesis using assms(2,3) by (simp add: housed_def hs list_ex_iff)
qed

lemma steady_moves:
  assumes "moves s t" "live s \<Longrightarrow> on_slide t"
  shows "steady s t"
  unfolding steady_def
proof
  assume h: "healthy s"
  note ok = healthyD [OF h]
  have sd: "same_deck s t" using movesD(2) [OF assms(1)] ok by simp
  have k: "keeps (doc s) (doc t)" using same_deck_wf(2) [OF sd] ok by simp
  have "live t" using live_moves [OF assms(1)] ok assms(2) by simp
  then show "healthy t \<and> cfg t = cfg s \<and> host t = host s \<and> refs t = refs s \<and> keeps (doc s) (doc t)"
    using sd k h housed_keeps [OF k] by (simp add: healthy_def same_deck_def)
qed

lemma steady_quiet: "quiet s t \<Longrightarrow> steady s t"
  using moves_quiet on_slide_quiet by (intro steady_moves) (simp_all add: live_def deck_ok_def)

lemma steady_cue: "steady s (cueAutoSlide s)"
  by (rule steady_moves [OF moves_cue]) (simp add: live_def)

section \<open>Changes of mode\<close>

text \<open>The document may change as by a quiet step, and the class \<open>paused\<close> may as well.\<close>

definition same_slides :: "node \<Rightarrow> dom \<Rightarrow> dom \<Rightarrow> bool" where
  "same_slides w d d' = (wf_page w d \<longrightarrow> wf_page w d' \<and> keeps d d' \<and> nextNode d \<le> nextNode d' \<and>
     (\<forall>x c. is_section d x \<and> x \<in> set (order d) \<and> c \<in> position_classes \<longrightarrow> has_class c d' x = has_class c d x) \<and>
     (\<forall>x a. is_section d x \<and> x \<in> set (order d) \<and> kept_attr a \<longrightarrow> get_attr a d' x = get_attr a d x))"

lemma same_slides_refl [simp]: "same_slides w d d" by (simp add: same_slides_def)

lemma same_slides_sections: "same_sections w d d' \<Longrightarrow> same_slides w d d'"
  by (simp add: same_sections_def same_slides_def)

lemma same_slides_paused [simp]:
  "same_slides w d (add_class ''paused'' x d)" "same_slides w d (remove_class ''paused'' x d)"
  by (auto simp: same_slides_def position_classes_def)

lemma steady_change:
  assumes "page_wf s \<Longrightarrow> same_slides (wrapper (host s)) (doc s) (doc t)"
    and same: "cfg t = cfg s" "host t = host s" "refs t = refs s" "indexh t = indexh s" "indexv t = indexv s"
    "currentSlide t = currentSlide s" "stateArr t = stateArr s"
    and "page_wf s \<Longrightarrow> auto_ok s \<Longrightarrow> auto_ok t" and "page_wf s \<Longrightarrow> bg_ok t"
  shows "steady s t"
  unfolding steady_def
proof
  assume h: "healthy s"
  note ok = healthyD [OF h]
  have wf: "wf_page (wrapper (host s)) (doc s)" "bg_ok s" "states_ok s" using ok by (simp_all add: page_wf_def deck_ok_def)
  have ss: "wf_page (wrapper (host s)) (doc t)" "keeps (doc s) (doc t)" "nextNode (doc s) \<le> nextNode (doc t)"
    using assms(1) [OF ok(2)] wf(1) by (simp_all add: same_slides_def)
  have marks: "has_class c (doc t) x = has_class c (doc s) x" if "x \<in> set (sections (doc s))" "c \<in> position_classes" for x c
    using assms(1) [OF ok(2)] wf(1) that by (simp add: same_slides_def)
  have kept: "slide_attrs_kept (doc s) (doc t) x" if "x \<in> set (sections (doc s))" for x
    using assms(1) [OF ok(2)] wf(1) that by (simp add: same_slides_def slide_attrs_kept_def)
  have "bg_ok t" using assms(10) ok(2) .
  then have pw: "page_wf t" using ss same by (simp add: page_wf_def)
  have sec: "sections (doc t) = sections (doc s)" using ss(2) by (simp add: keeps_def)
  have "section_ok (doc t) x \<and> nesting_ok (doc t) x" if "x \<in> set (sections (doc s))" for x
    using that wf(3) section_ok_kept [OF kept [OF that]] nesting_ok_kept [OF ss(2) that]
    by (simp add: states_ok_def del: sections_in)
  then have st: "states_ok t" using wf(3) same by (simp add: states_ok_def sec del: sections_in)
  have "on_slide t" using on_slide_kept [OF ss(2) same(2,4,5,6)] marks ok(5) by (simp add: position_classes_def del: sections_in)
  moreover have "auto_ok t" using assms(9) ok by simp
  ultimately show "healthy t \<and> cfg t = cfg s \<and> host t = host s \<and> refs t = refs s \<and> keeps (doc s) (doc t)"
    using h pw st same ss(2) housed_keeps [OF ss(2) same(2)] by (simp add: healthy_def live_def deck_ok_def)
qed

lemma steady_mode:
  assumes "page_wf s \<Longrightarrow> same_slides (wrapper (host s)) (doc s) (doc t)"
    and same: "cfg t = cfg s" "host t = host s" "refs t = refs s" "indexh t = indexh s" "indexv t = indexv s"
    "currentSlide t = currentSlide s" "stateArr t = stateArr s" "overlay t = overlay s"
    and "page_wf s \<Longrightarrow> auto_ok s \<Longrightarrow> auto_ok t"
  shows "steady s t"
proof (rule steady_change [OF assms(1) same(1-7) assms(10)])
  assume wf: "page_wf s"
  then have "wf_page (wrapper (host s)) (doc s)" "bg_ok s" by (simp_all add: page_wf_def)
  moreover have "keeps (doc s) (doc t)" "nextNode (doc s) \<le> nextNode (doc t)"
    using assms(1) [OF wf] calculation(1) unfolding same_slides_def by blast+
  ultimately show "bg_ok t" using bg_ok_keeps same(2,3,8) by blast
qed

lemma dispatch_frame [simp]:
  "cfg (dispatchEvent e s) = cfg s" "host (dispatchEvent e s) = host s" "refs (dispatchEvent e s) = refs s"
  "indexh (dispatchEvent e s) = indexh s" "indexv (dispatchEvent e s) = indexv s"
  "currentSlide (dispatchEvent e s) = currentSlide s" "stateArr (dispatchEvent e s) = stateArr s"
  "overviewActive (dispatchEvent e s) = overviewActive s" "previousSlide (dispatchEvent e s) = previousSlide s"
  "doc (dispatchEvent e s) = doc s" "overlay (dispatchEvent e s) = overlay s"
  using quietD [OF quiet_dispatch] by (simp_all add: dispatchEvent_def Let_def)

lemma steady_pauseAutoSlide: "steady s (pauseAutoSlide s)"
  by (rule steady_mode) (simp_all add: auto_ok_pauseAutoSlide, simp_all add: pauseAutoSlide_def Let_def)

lemma steady_resumeAutoSlide: "steady s (resumeAutoSlide s)"
  by (rule steady_mode) (simp_all add: auto_ok_resumeAutoSlide, simp_all add: resumeAutoSlide_def Let_def)

lemma steady_toggleAutoSlide: "steady s (toggleAutoSlide b s)"
  by (simp add: toggleAutoSlide_def steady_pauseAutoSlide steady_resumeAutoSlide split: option.split)

lemma steady_pause: "steady s (pause s)"
  by (rule steady_mode) (simp_all add: auto_ok_pause, simp_all add: pause_def Let_def)

lemma steady_resume: "steady s (resume s)"
  by (rule steady_mode) (simp_all add: auto_ok_resume, simp_all add: resume_def Let_def)

lemma steady_togglePause: "steady s (togglePause b s)"
  by (simp add: togglePause_def steady_pause steady_resume split: option.split)

lemma steady_onUserInput: "steady s (onUserInput s)"
  by (simp add: onUserInput_def steady_pauseAutoSlide)

text \<open>Variables that only the controllers of input read.\<close>

lemma timers_ok_same:
  assumes "world t = world s" "writeURLTimeout t = writeURLTimeout s" "replaceStateTimeout t = replaceStateTimeout s"
    "cursorInactiveTimeout t = cursorInactiveTimeout s"
  shows "timers_ok t = timers_ok s"
  unfolding timers_ok_def assms ..

lemma auto_ok_weaken:
  assumes "world t = world s" "autoSlideTimeout t = autoSlideTimeout s" "timers_ok t = timers_ok s"
    and "halted t \<Longrightarrow> halted s" and "auto_ok s"
  shows "auto_ok t"
  using assms by (simp add: auto_ok_def)

lemma auto_ok_same:
  assumes "world t = world s" "autoSlideTimeout t = autoSlideTimeout s" "writeURLTimeout t = writeURLTimeout s"
    "replaceStateTimeout t = replaceStateTimeout s" "cursorInactiveTimeout t = cursorInactiveTimeout s"
    "doc t = doc s" "host t = host s" "autoSlidePaused t = autoSlidePaused s" "overviewActive t = overviewActive s"
  shows "auto_ok t = auto_ok s"
  unfolding auto_ok_def timers_ok_def halted_def isPaused_def assms ..

lemma steady_same:
  assumes "world t = world s" "autoSlideTimeout t = autoSlideTimeout s" "writeURLTimeout t = writeURLTimeout s"
    "replaceStateTimeout t = replaceStateTimeout s" "cursorInactiveTimeout t = cursorInactiveTimeout s"
    "doc t = doc s" "host t = host s" "autoSlidePaused t = autoSlidePaused s" "overviewActive t = overviewActive s"
    "cfg t = cfg s" "refs t = refs s" "indexh t = indexh s" "indexv t = indexv s" "currentSlide t = currentSlide s"
    "stateArr t = stateArr s" "overlay t = overlay s"
  shows "steady s t"
  using assms auto_ok_same [OF assms(1-9)] by (intro steady_mode) simp_all

lemma steady_fields [simp]:
  "steady s (s\<lparr>keyboard_state := k\<rparr>)" "steady s (s\<lparr>touch_state := t\<rparr>)" "steady s (s\<lparr>pointer_state := p\<rparr>)"
  "steady s (s\<lparr>focus_state := f\<rparr>)" "steady s (s\<lparr>transitionRunning := b\<rparr>)"
  "steady s (s\<lparr>overviewSlideWidth := r\<rparr>)" "steady s (s\<lparr>overviewSlideHeight := r\<rparr>)"
  "steady s (s\<lparr>hasNavigatedHorizontally := b\<rparr>)" "steady s (s\<lparr>hasNavigatedVertically := b\<rparr>)"
  by (rule steady_same; simp)+

section \<open>Safe outcomes\<close>

definition safe :: "reveal \<Rightarrow> outcome \<Rightarrow> bool" where
  "safe s r = (steady s (after r) \<and> (healthy s \<longrightarrow> returned r))"

lemma safe_Returned [intro]: "steady s t \<Longrightarrow> safe s (Returned t)"
  by (simp add: safe_def)

lemma safe_after: "steady s t \<Longrightarrow> safe t r \<Longrightarrow> safe s r"
  using steady_trans [of s t "after r"] by (simp add: safe_def) (simp add: steady_def)

lemma safe_and_then:
  assumes "safe s r" "\<And>t. steady s t \<Longrightarrow> safe t (f t)"
  shows "safe s (and_then r f)"
proof (cases r)
  case (Returned t)
  then have "steady s t" using assms(1) by (simp add: safe_def)
  then show ?thesis using safe_after assms(2) Returned by simp
next
  case (Threw e t)
  then show ?thesis using assms(1) by (simp add: safe_def)
qed

text \<open>
  The interface of the handlers: each is safe. What follows for every handler is stated
  once.
\<close>

locale handler =
  fixes op :: "reveal \<Rightarrow> outcome"
  assumes safe: "safe s (op s)"
begin

lemma returns: "healthy s \<Longrightarrow> returned (op s)"
  using safe [of s] by (simp add: safe_def)

lemma keeps_healthy: "healthy s \<Longrightarrow> healthy (after (op s))"
  using safe [of s] by (simp add: safe_def steady_def)

lemma keeps_config: "healthy s \<Longrightarrow> cfg (after (op s)) = cfg s \<and> host (after (op s)) = host s"
  using safe [of s] by (simp add: safe_def steady_def)

lemma keeps_slides:
  assumes "healthy s"
  shows "getHorizontalSlides (after (op s)) = getHorizontalSlides s" "verticals (doc (after (op s))) x = verticals (doc s) x"
  using safe [of s] assms
  by (simp_all add: safe_def steady_def getHorizontalSlides_def verticals_def keeps_horizontal keeps_sections)

lemma at_slide: "healthy s \<Longrightarrow> on_slide (after (op s))"
  using keeps_healthy healthyD(5) by blast

lemma after: "steady s t \<Longrightarrow> safe s (op t)"
  using safe safe_after by blast

end

text \<open>Every navigator is a handler.\<close>

lemma safe_navigator: "navigator mv \<Longrightarrow> safe s (mv s)"
proof -
  assume n: "navigator mv"
  then have "deck_move mv" by (simp add: navigator_def)
  then have "steady s (after (mv s))" using steady_moves deck_move.moves navigator.lands [OF n] by blast
  then show ?thesis unfolding safe_def using navigator.lands [OF n healthyD(1)] by blast
qed

section \<open>The sample deck is healthy\<close>

lemma healthy_sample: "healthy (sample_at 0 0 4)" "healthy (sample_at 2 0 8)"
proof -
  have "housed (sample_at h v x)" for h v x by (simp add: housed_def sample_slides) (simp add: sample_path)
  then show "healthy (sample_at 0 0 4)" "healthy (sample_at 2 0 8)" by (simp_all add: healthy_def live_sample)
qed

end
