(* ===== verification/Overlay.thy ===== *)
theory Overlay
  imports Modes
begin

text \<open>
  The overlays of \<open>reveal.js\<close>: link previews and the help screen. One overlay is open at a
  time, an element below the \<open>.reveal\<close> element. Its markup is content, not nodes of the model
  (white space between its tags is dropped); the listeners the source puts on the links in it
  are recorded at the overlay, under the selector that finds them.
\<close>

section \<open>Removing an element\<close>

lemma wf_dom_remove:
  assumes wf: "wf_dom d"
  shows "wf_dom (removeNode c d)"
proof -
  let ?d = "removeNode c d"
  have same: "nextNode ?d = nextNode d" "path ?d = repath d c []" "order ?d = order d"
    "bgOf ?d = bgOf d" "bgContentOf ?d = bgContentOf d" "bg_node ?d = bg_node d"
    by (simp_all add: removeNode_def bg_node_def is_section_def fun_eq_iff)
  have "y < nextNode d" if x: "x < nextNode d" and y: "y \<in> set (repath d c [] x)" for x y
  proof -
    have "y = c \<and> c \<in> set (path d x) \<or> y \<in> set (path d x)"
      using y by (auto simp: repath_def dest!: set_takeWhileD split: if_splits)
    then show ?thesis using wf_domD(3) [OF wf x] by blast
  qed
  moreover have "repath d c [] q = ps" if x: "x < nextNode d" and e: "repath d c [] x = q # ps" for x q ps
  proof (cases "c \<in> set (path d x)")
    case True
    then have ne: "x \<noteq> c" using e by (auto simp: repath_def)
    obtain q' ps' where q': "path d x = q' # ps'" using True by (cases "path d x") auto
    then have "path d q' = ps'" by (rule wf_domD(4) [OF wf x])
    then show ?thesis using ne True q' e by (auto simp: repath_def split: if_splits)
  next
    case False
    then have q: "path d x = q # ps" using e by (auto simp: repath_def split: if_splits)
    then have "path d q = ps" by (rule wf_domD(4) [OF wf x])
    then show ?thesis using False q by (auto simp: repath_def)
  qed
  ultimately show ?thesis using wf_domD(1,2,5,6) [OF wf] unfolding wf_dom_def same by blast
qed

lemma keeps_remove:
  assumes "\<And>x. x \<in> set (sections d) \<Longrightarrow> \<not> in_subtree d c x"
  shows "keeps d (removeNode c d)"
proof -
  have sec: "is_section (removeNode c d) = is_section d" and sl: "has_class k (removeNode c d) = has_class k d" for k
    by (simp_all add: fun_eq_iff is_section_def has_class_def removeNode_def)
  have "sections (removeNode c d) = sections d" by (simp add: sections_def sec) (simp add: removeNode_def)
  moreover have "path (removeNode c d) x = path d x" if "x \<in> set (sections d)" for x
    using assms [OF that] by (auto simp: removeNode_def repath_def in_subtree_def)
  ultimately show ?thesis by (simp add: keeps_def sec sl del: sections_in)
qed

lemma same_sections_remove:
  assumes "\<And>x. x \<in> set (sections d) \<Longrightarrow> \<not> in_subtree d c x"
  shows "same_sections w d (removeNode c d)"
  using keeps_remove [OF assms] wf_dom_remove [of d c]
  by (simp add: same_sections_def wf_page_def) (simp add: removeNode_def has_class_def get_attr_def)

section \<open>Opening and closing\<close>

definition closeOverlay :: "reveal \<Rightarrow> bool \<times> reveal" where
  "closeOverlay s =
     (case overlay s of
        Some x \<Rightarrow> (True, s\<lparr>doc := removeNode x (doc s), overlay := None\<rparr>)
      | None \<Rightarrow> (False, s))"

definition open_overlay :: "string \<Rightarrow> string \<Rightarrow> reveal \<Rightarrow> reveal" where
  "open_overlay kind markup s =
     (let (n, d1) = createElement ''div'' (doc s);
          d2 = appendChild (wrapper (host s)) n (add_class kind n (add_class ''overlay'' n d1))
      in s\<lparr>doc := set_html markup n d2, overlay := Some n\<rparr>)"

definition listen_overlay :: "string \<Rightarrow> string \<Rightarrow> reveal \<Rightarrow> reveal" where
  "listen_overlay ty sel s =
     (case overlay s of Some n \<Rightarrow> s\<lparr>world := addEventListener (LNode n) ty sel (world s)\<rparr> | None \<Rightarrow> s)"

definition preview_html :: "string \<Rightarrow> string" where
  "preview_html url =
     ''<header><a class=\"close\" href=\"#\"><span class=\"icon\"></span></a><a class=\"external\" href=\"'' @ url @
     ''\" target=\"_blank\"><span class=\"icon\"></span></a></header><div class=\"spinner\"></div>'' @
     ''<div class=\"viewport\"><iframe src=\"'' @ url @
     ''\"></iframe><small class=\"viewport-inner\"><span class=\"x-frame-error\">Unable to load iframe. '' @
     ''This is likely due to the site's policy (x-frame-options).</span></small></div>''"

definition showPreview :: "string \<Rightarrow> reveal \<Rightarrow> reveal" where
  "showPreview url s =
     listen_overlay ''click'' ''.external'' (listen_overlay ''click'' ''.close'' (listen_overlay ''load'' ''iframe''
       (open_overlay ''overlay-preview'' (preview_html url) (snd (closeOverlay s)))))"

section \<open>Help\<close>

definition help_row :: "string \<Rightarrow> string \<Rightarrow> string" where
  "help_row k v = ''<tr><td>'' @ k @ ''</td><td>'' @ v @ ''</td></tr>''"

definition binding_row :: "binding \<Rightarrow> string" where
  "binding_row b = (if truthy (bd_key b) \<and> truthy (bd_description b)
     then help_row (the (bd_key b)) (the (bd_description b)) else [])"

definition help_html :: "keyboard \<Rightarrow> string" where
  "help_html k =
     ''<header><a class=\"close\" href=\"#\"><span class=\"icon\"></span></a></header>'' @
     ''<div class=\"viewport\"><div class=\"viewport-inner\">'' @
     ''<p class=\"title\">Keyboard Shortcuts</p><br/>'' @ ''<table><th>KEY</th><th>ACTION</th>'' @
     concat (map (\<lambda>(x, v). help_row x v) (shortcuts k)) @
     concat (map (\<lambda>(x, b). binding_row b) (bindings k)) @ ''</table>'' @ ''</div></div>''"

definition showHelp :: "reveal \<Rightarrow> reveal" where
  "showHelp s =
     (if cfg_help (cfg s) then
        listen_overlay ''click'' ''.close''
          (open_overlay ''overlay-help'' (help_html (keyboard_state s)) (snd (closeOverlay s)))
      else s)"

definition toggleHelp :: "bool option \<Rightarrow> reveal \<Rightarrow> reveal" where
  "toggleHelp override s =
     (case override of
        Some b \<Rightarrow> if b then showHelp s else snd (closeOverlay s)
      | None \<Rightarrow> if overlay s \<noteq> None then snd (closeOverlay s) else showHelp s)"

section \<open>Link previews\<close>

text \<open>The pattern \<open>^(http|www)\<close>, in either case; a missing attribute is the text \<open>null\<close>.\<close>

definition previewable :: "dom \<Rightarrow> node \<Rightarrow> bool" where
  "previewable d x = (case get_attr ''href'' d x of
       Some u \<Rightarrow> starts_with ''http'' (map to_lower u) \<or> starts_with ''www'' (map to_lower u)
     | None \<Rightarrow> False)"

definition preview_links :: "(node \<Rightarrow> bool) \<Rightarrow> reveal \<Rightarrow> node list" where
  "preview_links selector s = filter (previewable (doc s)) (queryAll (doc s) (wrapper (host s)) selector)"

definition enablePreviewLinks :: "(node \<Rightarrow> bool) \<Rightarrow> reveal \<Rightarrow> reveal" where
  "enablePreviewLinks selector s =
     s\<lparr>world := fold (\<lambda>x. addEventListener (LNode x) ''click'' ''onPreviewLinkClicked'') (preview_links selector s) (world s)\<rparr>"

definition disablePreviewLinks :: "(node \<Rightarrow> bool) \<Rightarrow> reveal \<Rightarrow> reveal" where
  "disablePreviewLinks selector s =
     s\<lparr>world := fold (\<lambda>x. removeEventListener (LNode x) ''click'' ''onPreviewLinkClicked'') (preview_links selector s) (world s)\<rparr>"

definition onPreviewLinkClicked :: "node \<Rightarrow> reveal \<Rightarrow> reveal" where
  "onPreviewLinkClicked currentTarget s =
     (case get_attr ''href'' (doc s) currentTarget of
        Some url \<Rightarrow>
          if url \<noteq> [] then (let s1 = showPreview url s in s1\<lparr>world := log_effect PreventDefault (world s1)\<rparr>) else s
      | None \<Rightarrow> s)"

text \<open>The links inside an overlay: \<open>.close\<close> also keeps the browser where it is.\<close>

definition onOverlayClicked :: "string \<Rightarrow> reveal \<Rightarrow> reveal" where
  "onOverlayClicked link s =
     (let s1 = snd (closeOverlay s) in
      if link = ''.close'' then s1\<lparr>world := log_effect PreventDefault (world s1)\<rparr> else s1)"

section \<open>Overlays leave the deck alone\<close>

lemma steady_closeOverlay: "steady s (snd (closeOverlay s))"
proof (cases "overlay s")
  case (Some x)
  let ?t = "s\<lparr>doc := removeNode x (doc s), overlay := None\<rparr>"
  have ss: "same_sections w (doc s) (doc ?t)" if "page_wf s" for w
    using that bg_okD(5) [of s x] by (simp add: page_wf_def Some same_sections_remove del: sections_in)
  have "steady s ?t"
  proof (rule steady_change)
    show "same_slides (wrapper (host s)) (doc s) (doc ?t)" if "page_wf s" by (rule same_slides_sections [OF ss [OF that]])
    show "auto_ok ?t" if "page_wf s" "auto_ok s"
    proof (rule auto_ok_weaken [OF _ _ timers_ok_same _ that(2)])
      have "has_class c (doc ?t) y = has_class c (doc s) y" for c y by (simp add: removeNode_def has_class_def)
      then show "halted s" if "halted ?t" using that by (simp add: halted_def isPaused_def)
    qed simp_all
    show "bg_ok ?t" if wf: "page_wf s"
    proof -
      have wfd: "wf_page (wrapper (host s)) (doc s)" "bg_ok s" using wf by (simp_all add: page_wf_def)
      have k: "keeps (doc s) (removeNode x (doc s))" "nextNode (doc s) \<le> nextNode (removeNode x (doc s))"
        using ss [OF wf, of "wrapper (host s)"] wfd(1) by (simp_all add: same_sections_def)
      have "bg_ok (s\<lparr>doc := removeNode x (doc s)\<rparr>)" using k by (intro bg_ok_keeps [OF wfd(2)]) simp_all
      then show ?thesis by (simp add: bg_ok_def helpers_def)
    qed
  qed simp_all
  then show ?thesis by (simp add: closeOverlay_def Some)
qed (simp add: closeOverlay_def)

lemma fresh_not_above:
  assumes "wf_page w d" "createElement t d = (n, d1)" "x \<in> set (sections d)"
  shows "\<not> in_subtree d n x"
proof -
  have "x < nextNode d" using assms(1,3) wf_domD(2) by (simp add: wf_page_def)
  then have "\<forall>y\<in>set (path d x). y < nextNode d" using assms(1) wf_domD(3) by (auto simp: wf_page_def)
  with \<open>x < nextNode d\<close> show ?thesis using createElement_simps(1) [OF assms(2)] by (auto simp: in_subtree_def)
qed

lemma steady_open_overlay:
  assumes "page_class kind"
  shows "steady s (open_overlay kind markup s)"
proof -
  let ?w = "wrapper (host s)"
  obtain n d1 where c: "createElement ''div'' (doc s) = (n, d1)" by fastforce
  let ?d2 = "add_class kind n (add_class ''overlay'' n d1)"
  let ?d = "set_html markup n (appendChild ?w n ?d2)"
  let ?t = "s\<lparr>doc := ?d, overlay := Some n\<rparr>"
  have "same_sections ?w d1 ?d2"
    by (rule same_sections_trans [OF same_sections_class(1) same_sections_class(1)])
      (simp_all add: assms, simp add: page_class_def position_classes_def)
  then have "same_sections ?w (doc s) (appendChild ?w n ?d2)"
    by (intro same_sections_new_child [OF c]) (simp_all add: wf_page_def)
  then have ss: "same_sections ?w (doc s) ?d" by (rule same_sections_trans) simp
  note e = createElement_simps [OF c]
  have "steady s ?t"
  proof (rule steady_change)
    show "same_slides ?w (doc s) (doc ?t)" using same_slides_sections [OF ss] by simp
    show "auto_ok ?t" if wf: "page_wf s" and ok: "auto_ok s"
    proof (rule auto_ok_weaken [OF _ _ timers_ok_same _ ok])
      show "halted s" if "halted ?t"
        using that ss wf by (simp add: halted_def isPaused_def same_sections_def page_wf_def)
    qed simp_all
    show "bg_ok ?t" if wf: "page_wf s"
    proof -
      have wfd: "wf_page ?w (doc s)" "bg_ok s" using wf by (simp_all add: page_wf_def)
      have k: "keeps (doc s) ?d" "nextNode (doc s) \<le> nextNode ?d" using ss wfd by (simp_all add: same_sections_def)
      have "bg_ok (s\<lparr>doc := ?d\<rparr>)" using k by (intro bg_ok_keeps [OF wfd(2)]) simp_all
      moreover have "n < nextNode ?d" by (simp add: appendChild_def e)
      moreover have "\<not> in_subtree ?d n x" if "x \<in> set (sections ?d)" for x
      proof -
        have x: "x \<in> set (sections (doc s))" using that k(1) by (simp add: keeps_def del: sections_in)
        then show ?thesis using fresh_not_above [OF wfd(1) c x] keepsD(1) [OF k(1) x] by (simp add: in_subtree_def)
      qed
      ultimately show ?thesis by (simp add: bg_ok_def helpers_def del: sections_in)
    qed
  qed simp_all
  then show ?thesis unfolding open_overlay_def c Let_def prod.case .
qed

lemma page_class_overlay [simp]: "page_class ''overlay-preview''" "page_class ''overlay-help''"
  by (simp_all add: page_class_def position_classes_def)

lemma steady_listen_overlay: "steady s t \<Longrightarrow> steady s (listen_overlay ty sel t)"
proof -
  assume 1: "steady s t"
  have "steady t (listen_overlay ty sel t)"
    by (simp add: listen_overlay_def steady_quiet quiet_world split: option.split)
  with 1 show ?thesis by (rule steady_trans)
qed

lemma steady_showPreview: "steady s (showPreview url s)"
  unfolding showPreview_def
  by (intro steady_listen_overlay steady_trans [OF steady_closeOverlay steady_open_overlay]) simp

lemma steady_showHelp: "steady s (showHelp s)"
  by (simp add: showHelp_def steady_listen_overlay steady_trans [OF steady_closeOverlay steady_open_overlay])

lemma steady_toggleHelp: "steady s (toggleHelp override s)"
  by (simp add: toggleHelp_def steady_showHelp steady_closeOverlay split: option.split)

lemma steady_effect: "steady s t \<Longrightarrow> steady s (t\<lparr>world := log_effect e (world t)\<rparr>)"
  by (rule steady_trans [OF _ steady_quiet [OF quiet_world]]) simp_all

lemma steady_onPreviewLinkClicked: "steady s (onPreviewLinkClicked x s)"
  by (simp add: onPreviewLinkClicked_def Let_def steady_effect steady_showPreview split: option.split)

lemma steady_onOverlayClicked: "steady s (onOverlayClicked l s)"
  by (simp add: onOverlayClicked_def Let_def steady_effect steady_closeOverlay)

section \<open>Properties\<close>

lemma overlay_listen [simp]: "overlay (listen_overlay ty sel s) = overlay s"
  by (simp add: listen_overlay_def split: option.split)

lemma overlay_open: "overlay (open_overlay kind markup s) = Some (nextNode (doc s))"
  by (simp add: open_overlay_def split_beta Let_def) (simp add: createElement_def Let_def)

lemma overlay_close: "overlay (snd (closeOverlay s)) = None" "fst (closeOverlay s) \<longleftrightarrow> overlay s \<noteq> None"
  by (simp_all add: closeOverlay_def split: option.split)

text \<open>Toggling the help twice: an open overlay is closed and, where the help is enabled, the
  help screen opens in a deck without one; after an even number of toggles none is open.\<close>

lemma help_toggles:
  assumes "cfg_help (cfg s)"
  shows "(overlay (toggleHelp None s) = None \<longleftrightarrow> overlay s \<noteq> None) \<and>
    (overlay s = None \<longrightarrow> overlay (toggleHelp None (toggleHelp None s)) = None)"
  using assms by (simp add: toggleHelp_def showHelp_def overlay_open overlay_close)

end
