(* ===== verification/Touch.thy ===== *)
theory Touch
  imports Overlay
begin

text \<open>
  \<open>controllers/touch.js\<close>: swipes. A touch event lists at least one touch point; of the
  points only the first one's place and their number are read.
\<close>

record touch_event =
  te_target :: node
  te_x :: real
  te_y :: real
  te_count :: nat

definition SWIPE_THRESHOLD :: real where
  "SWIPE_THRESHOLD = 40"

section \<open>Listeners\<close>

text \<open>Which of the three families of events the browser has.\<close>

datatype pointer_support = PointerEvents | MSPointerEvents | TouchEvents

fun touch_events :: "pointer_support \<Rightarrow> (string \<times> string) list" where
  "touch_events PointerEvents =
     [(''pointerdown'', ''onPointerDown''), (''pointermove'', ''onPointerMove''), (''pointerup'', ''onPointerUp'')]"
| "touch_events MSPointerEvents =
     [(''MSPointerDown'', ''onPointerDown''), (''MSPointerMove'', ''onPointerMove''), (''MSPointerUp'', ''onPointerUp'')]"
| "touch_events TouchEvents =
     [(''touchstart'', ''onTouchStart''), (''touchmove'', ''onTouchMove''), (''touchend'', ''onTouchEnd'')]"

definition touch_bind :: "pointer_support \<Rightarrow> node \<Rightarrow> world \<Rightarrow> world" where
  "touch_bind p el w = fold (\<lambda>(ty, h). addEventListener (LNode el) ty h) (touch_events p) w"

definition touch_unbind :: "node \<Rightarrow> world \<Rightarrow> world" where
  "touch_unbind el w =
     fold (\<lambda>(ty, h). removeEventListener (LNode el) ty h)
       (touch_events PointerEvents @ touch_events MSPointerEvents @ touch_events TouchEvents) w"

section \<open>Touches\<close>

definition isSwipePrevented :: "dom \<Rightarrow> node \<Rightarrow> bool" where
  "isSwipePrevented d target =
     (is_tag [''video'', ''audio''] d target \<or> list_ex (has_attr ''data-prevent-swipe'' d) (target # path d target))"

definition onTouchStart :: "touch_event \<Rightarrow> reveal \<Rightarrow> reveal" where
  "onTouchStart e s =
     (if isSwipePrevented (doc s) (te_target e) then s
      else s\<lparr>touch_state := (touch_state s)\<lparr>touchStartX := te_x e, touchStartY := te_y e, touchStartCount := te_count e\<rparr>\<rparr>)"

datatype swipe = SwipeLeft | SwipeRight | SwipeUp | SwipeDown

text \<open>The direction the deck moves in; vertical swipes need a slide there.\<close>

definition swipe_of :: "routes \<Rightarrow> real \<Rightarrow> real \<Rightarrow> swipe option" where
  "swipe_of r dx dy =
     (if SWIPE_THRESHOLD < dx \<and> \<bar>dy\<bar> < \<bar>dx\<bar> then Some SwipeLeft
      else if dx < - SWIPE_THRESHOLD \<and> \<bar>dy\<bar> < \<bar>dx\<bar> then Some SwipeRight
      else if SWIPE_THRESHOLD < dy \<and> r_up r then Some SwipeUp
      else if dy < - SWIPE_THRESHOLD \<and> r_down r then Some SwipeDown
      else None)"

fun swipe_move :: "config \<Rightarrow> swipe \<Rightarrow> reveal \<Rightarrow> outcome" where
  "swipe_move c SwipeLeft s =
     (if cfg_navigationMode c = ''linear''
      then (if cfg_rtl c then navigateNext False s else navigatePrev False s) else navigateLeft False s)"
| "swipe_move c SwipeRight s =
     (if cfg_navigationMode c = ''linear''
      then (if cfg_rtl c then navigatePrev False s else navigateNext False s) else navigateRight False s)"
| "swipe_move c SwipeUp s =
     (if cfg_navigationMode c = ''linear'' then navigatePrev False s else navigateUp False s)"
| "swipe_move c SwipeDown s =
     (if cfg_navigationMode c = ''linear'' then navigateNext False s else navigateDown False s)"

definition prevent :: "reveal \<Rightarrow> reveal" where
  "prevent s = s\<lparr>world := log_effect PreventDefault (world s)\<rparr>"

definition block_touch :: "reveal \<Rightarrow> reveal" where
  "block_touch s =
     (if cfg_embedded (cfg s)
      then (if touchCaptured (touch_state s) \<or> isVerticalSlide (doc s) (currentSlide s) then prevent s else s)
      else prevent s)"

definition capture :: "reveal \<Rightarrow> reveal" where
  "capture s = s\<lparr>touch_state := (touch_state s)\<lparr>touchCaptured := True\<rparr>\<rparr>"

definition onTouchMove :: "touch_event \<Rightarrow> reveal \<Rightarrow> outcome" where
  "onTouchMove e s =
     (if isSwipePrevented (doc s) (te_target e) then Returned s
      else if \<not> touchCaptured (touch_state s) then
       (let s1 = onUserInput s; t = touch_state s1 in
        if te_count e = 1 \<and> touchStartCount t \<noteq> 2 then
          and_then
           (case swipe_of (availableRoutes True s1) (te_x e - touchStartX t) (te_y e - touchStartY t) of
              Some w \<Rightarrow> swipe_move (cfg s) w (capture s1)
            | None \<Rightarrow> Returned s1)
           (\<lambda>s2. Returned (block_touch s2))
        else Returned s1)
      else if isAndroid (host s) then Returned (prevent s)
      else Returned s)"

definition onTouchEnd :: "reveal \<Rightarrow> reveal" where
  "onTouchEnd s = s\<lparr>touch_state := (touch_state s)\<lparr>touchCaptured := False\<rparr>\<rparr>"

text \<open>
  Pointer events are turned into touch events with one point, when they come from a touch: the
  kind is the text \<open>touch\<close>, or (where the browser has it) the constant of older browsers.
\<close>

definition as_touch :: "touch_event \<Rightarrow> touch_event" where
  "as_touch e = e\<lparr>te_count := 1\<rparr>"

definition onPointerDown :: "bool \<Rightarrow> touch_event \<Rightarrow> reveal \<Rightarrow> reveal" where
  "onPointerDown isTouch e s = (if isTouch then onTouchStart (as_touch e) s else s)"

definition onPointerMove :: "bool \<Rightarrow> touch_event \<Rightarrow> reveal \<Rightarrow> outcome" where
  "onPointerMove isTouch e s = (if isTouch then onTouchMove (as_touch e) s else Returned s)"

definition onPointerUp :: "bool \<Rightarrow> touch_event \<Rightarrow> reveal \<Rightarrow> reveal" where
  "onPointerUp isTouch e s = (if isTouch then onTouchEnd s else s)"

section \<open>Touches are safe\<close>

lemma steady_prevent: "steady s (prevent s)"
  by (simp add: prevent_def steady_effect)

lemma steady_block_touch: "steady s (block_touch s)"
  by (simp add: block_touch_def steady_prevent)

lemma safe_moves:
  "safe s (navigateLeft b s)" "safe s (navigateRight b s)" "safe s (navigateUp b s)" "safe s (navigateDown b s)"
  "safe s (navigatePrev b s)" "safe s (navigateNext b s)"
  by (rule safe_navigator, rule left_nav.navigator_axioms right_nav.navigator_axioms up_nav.navigator_axioms
      down_nav.navigator_axioms prev_nav.navigator_axioms next_nav.navigator_axioms)+

lemma safe_swipe_move: "safe s (swipe_move c w s)"
  by (cases w) (simp_all add: safe_moves)

lemma safe_onTouchMove: "safe s (onTouchMove e s)"
proof -
  let ?s1 = "onUserInput s"
  have 1: "steady s ?s1" by (rule steady_onUserInput)
  have "safe s (swipe_move c w (capture ?s1))" for c w
    unfolding capture_def by (rule safe_after [OF steady_trans [OF 1 steady_fields(2)] safe_swipe_move])
  then have "safe s (case x of Some w \<Rightarrow> swipe_move (cfg s) w (capture ?s1) | None \<Rightarrow> Returned ?s1)" for x
    using 1 by (simp add: safe_Returned split: option.split)
  from safe_and_then [OF this safe_Returned [OF steady_block_touch]] show ?thesis
    using 1 by (simp add: onTouchMove_def Let_def safe_Returned steady_prevent)
qed

lemma steady_touch: "steady s (onTouchStart e s)" "steady s (onTouchEnd s)"
  "steady s (onPointerDown b e s)" "steady s (onPointerUp b e s)"
  by (simp_all add: onTouchStart_def onTouchEnd_def onPointerDown_def onPointerUp_def)

interpretation swipe: handler "onTouchMove e"
  by unfold_locales (rule safe_onTouchMove)

section \<open>Properties\<close>

lemma touchCaptured_kept:
  assumes "deck_ok s"
  shows "touch_state (after (swipe_move c w s)) = touch_state s"
proof -
  have "moves s (after (swipe_move c w s))"
    by (cases w) (simp_all add: moves_navigateLeft moves_navigateRight moves_navigateUp moves_navigateDown
        moves_navigatePrev moves_navigateNext)
  then show ?thesis using movesD(2) assms by (simp add: same_deck_def)
qed

lemma block_touch_frame: "touch_state (block_touch s) = touch_state s"
  by (simp add: block_touch_def prevent_def)

lemma position_prevent: "indexh (prevent s) = indexh s" "indexv (prevent s) = indexv s"
  "currentSlide (prevent s) = currentSlide s" "doc (prevent s) = doc s" "touch_state (prevent s) = touch_state s"
  by (simp_all add: prevent_def)



end
