(* ===== verification/Pointer.thy ===== *)
theory Pointer
  imports Modes
begin

text \<open>
  \<open>controllers/pointer.js\<close>, the cursor that hides and the mouse wheel, and
  \<open>controllers/focus.js\<close>, which decides whether an embedded deck listens to the keyboard.
\<close>

section \<open>The cursor\<close>

definition showCursor :: "reveal \<Rightarrow> reveal" where
  "showCursor s =
     (if cursorHidden (pointer_state s)
      then s\<lparr>doc := set_style ''cursor'' (Css []) (wrapper (host s)) (doc s),
             pointer_state := (pointer_state s)\<lparr>cursorHidden := False\<rparr>\<rparr>
      else s)"

definition hideCursor :: "reveal \<Rightarrow> reveal" where
  "hideCursor s =
     (if \<not> cursorHidden (pointer_state s)
      then s\<lparr>doc := set_style ''cursor'' (Css ''none'') (wrapper (host s)) (doc s),
             pointer_state := (pointer_state s)\<lparr>cursorHidden := True\<rparr>\<rparr>
      else s)"

definition onDocumentCursorActive :: "reveal \<Rightarrow> reveal" where
  "onDocumentCursorActive s =
     (let s1 = showCursor s;
          (i, w) = setTimeout THideCursor (cfg_hideCursorTime (cfg s1)) (clearTimeout (cursorInactiveTimeout s1) (world s1))
      in s1\<lparr>world := w, cursorInactiveTimeout := i\<rparr>)"

definition wheel_listeners :: "(ltarget \<Rightarrow> string \<Rightarrow> string \<Rightarrow> world \<Rightarrow> world) \<Rightarrow> world \<Rightarrow> world" where
  "wheel_listeners f w =
     f LDocument ''mousewheel'' ''onDocumentMouseScroll'' (f LDocument ''DOMMouseScroll'' ''onDocumentMouseScroll'' w)"

definition cursor_listeners :: "(ltarget \<Rightarrow> string \<Rightarrow> string \<Rightarrow> world \<Rightarrow> world) \<Rightarrow> world \<Rightarrow> world" where
  "cursor_listeners f w =
     f LDocument ''mousedown'' ''onDocumentCursorActive'' (f LDocument ''mousemove'' ''onDocumentCursorActive'' w)"

definition pointer_configure :: "reveal \<Rightarrow> reveal" where
  "pointer_configure s =
     (let s1 = s\<lparr>world := wheel_listeners (if cfg_mouseWheel (cfg s) then addEventListener else removeEventListener) (world s)\<rparr>
      in if cfg_hideInactiveCursor (cfg s1) then s1\<lparr>world := cursor_listeners addEventListener (world s1)\<rparr>
         else (let s2 = showCursor s1 in s2\<lparr>world := cursor_listeners removeEventListener (world s2)\<rparr>))"

definition pointer_destroy :: "reveal \<Rightarrow> reveal" where
  "pointer_destroy s =
     (let s1 = showCursor s
      in s1\<lparr>world := cursor_listeners removeEventListener (wheel_listeners removeEventListener (world s1))\<rparr>)"

section \<open>The mouse wheel\<close>

text \<open>\<open>detail\<close> is 0 for a wheel event, whose \<open>wheelDelta\<close> has the opposite sign.\<close>

definition wheel_delta :: "int \<Rightarrow> int \<Rightarrow> int" where
  "wheel_delta detail wheelDelta = (if detail \<noteq> 0 then detail else - wheelDelta)"

definition onDocumentMouseScroll :: "int \<Rightarrow> int \<Rightarrow> reveal \<Rightarrow> outcome" where
  "onDocumentMouseScroll detail wheelDelta s =
     (if 1000 < now (world s) - lastMouseWheelStep (pointer_state s) then
       (let s1 = s\<lparr>pointer_state := (pointer_state s)\<lparr>lastMouseWheelStep := now (world s)\<rparr>\<rparr>;
            delta = wheel_delta detail wheelDelta
        in if 0 < delta then navigateNext False s1
           else if delta < 0 then navigatePrev False s1
           else Returned s1)
      else Returned s)"

section \<open>Focus\<close>

definition focus_focus :: "reveal \<Rightarrow> reveal" where
  "focus_focus s =
     (if focus_state s \<noteq> FocusFocus
      then s\<lparr>doc := add_class ''focused'' (wrapper (host s)) (doc s),
             world := addEventListener LDocument ''pointerdown'' ''onDocumentPointerDown'' (world s),
             focus_state := FocusFocus\<rparr>
      else s)"

definition focus_blur :: "reveal \<Rightarrow> reveal" where
  "focus_blur s =
     (if focus_state s \<noteq> FocusBlur
      then s\<lparr>doc := remove_class ''focused'' (wrapper (host s)) (doc s),
             world := removeEventListener LDocument ''pointerdown'' ''onDocumentPointerDown'' (world s),
             focus_state := FocusBlur\<rparr>
      else s)"

definition isFocused :: "reveal \<Rightarrow> bool" where
  "isFocused s = (focus_state s = FocusFocus)"

definition focus_bind :: "reveal \<Rightarrow> reveal" where
  "focus_bind s =
     (if cfg_embedded (cfg s)
      then s\<lparr>world := addEventListener (LNode (wrapper (host s))) ''pointerdown'' ''onRevealPointerDown'' (world s)\<rparr> else s)"

definition focus_unbind :: "reveal \<Rightarrow> reveal" where
  "focus_unbind s =
     s\<lparr>world := removeEventListener LDocument ''pointerdown'' ''onDocumentPointerDown''
        (removeEventListener (LNode (wrapper (host s))) ''pointerdown'' ''onRevealPointerDown'' (world s))\<rparr>"

definition focus_configure :: "reveal \<Rightarrow> reveal" where
  "focus_configure s = (if cfg_embedded (cfg s) then focus_blur s else focus_unbind (focus_focus s))"

definition focus_destroy :: "reveal \<Rightarrow> reveal" where
  "focus_destroy s = s\<lparr>doc := remove_class ''focused'' (wrapper (host s)) (doc s)\<rparr>"

definition onRevealPointerDown :: "reveal \<Rightarrow> reveal" where
  "onRevealPointerDown s = focus_focus s"

definition onDocumentPointerDown :: "node \<Rightarrow> reveal \<Rightarrow> reveal" where
  "onDocumentPointerDown target s =
     (if closest (doc s) target (has_class ''reveal'' (doc s)) \<noteq> Some (wrapper (host s)) then focus_blur s else s)"

section \<open>Pointer and focus leave the deck where it is\<close>

text \<open>
  A write to the document and the world and to the variables of the controllers of input.
\<close>

lemma steady_input:
  assumes "same_sections (wrapper (host s)) (doc s) d" "same_timers (world s) w"
  shows "steady s (s\<lparr>doc := d, world := w\<rparr>)"
    "steady s (s\<lparr>doc := d, pointer_state := p\<rparr>)" "steady s (s\<lparr>doc := d, world := w, focus_state := f\<rparr>)"
  using steady_trans [OF steady_quiet [OF quiet_page [OF assms]] steady_fields(4)]
    steady_trans [OF steady_quiet [OF quiet_doc [OF assms(1)]] steady_fields(3)] steady_quiet [OF quiet_page [OF assms]]
  by simp_all

lemma steady_showCursor: "steady s (showCursor s)"
  by (simp add: showCursor_def steady_input(2) [OF _ same_timers_refl])

lemma steady_hideCursor: "steady s (hideCursor s)"
  by (simp add: hideCursor_def steady_input(2) [OF _ same_timers_refl])

lemma steady_rearm: "steady s (let (i, w) = setTimeout THideCursor t (clearTimeout (cursorInactiveTimeout s) (world s))
    in s\<lparr>world := w, cursorInactiveTimeout := i\<rparr>)"
proof -
  obtain i w where t: "setTimeout THideCursor t (clearTimeout (cursorInactiveTimeout s) (world s)) = (i, w)" by fastforce
  have i: "i = nextTimer (world s)" and n: "nextTimer w = nextTimer (world s) + 1"
    using t by (auto simp: setTimeout_def clearTimeout_def)
  have "steady s (s\<lparr>world := w, cursorInactiveTimeout := i\<rparr>)"
  proof (rule steady_mode)
    assume ok: "auto_ok s"
    then have tk: "timers_ok s" by (simp add: auto_ok_def)
    then have "same_timers (world s) (clearTimeout (cursorInactiveTimeout s) (world s))"
      by (intro same_timers_clear) (simp add: timers_ok_def)
    moreover have "same_timers (clearTimeout (cursorInactiveTimeout s) (world s)) w"
      using same_timers_set [of THideCursor "clearTimeout (cursorInactiveTimeout s) (world s)" t] by (simp add: t)
    ultimately have st: "same_timers (world s) w" by (rule same_timers_trans)
    have wf: "wf_timers w" using st tk by (simp add: same_timers_def timers_ok_def)
    have old: "tid x < nextTimer (world s)" if "x \<in> set (timers_of TAutoSlide (world s))" for x
      using that tk by (simp add: timers_ok_def wf_timers_def timers_of_def)
    have "timers_ok (s\<lparr>world := w, cursorInactiveTimeout := i\<rparr>)"
      using tk wf st old by (fastforce simp: timers_ok_def same_timers_def i n)
    then show "auto_ok (s\<lparr>world := w, cursorInactiveTimeout := i\<rparr>)"
      using ok st by (simp add: auto_ok_def same_timers_def halted_def isPaused_def)
  qed simp_all
  then show ?thesis by (simp add: t)
qed

lemma steady_onDocumentCursorActive: "steady s (onDocumentCursorActive s)"
  using steady_trans [OF steady_showCursor steady_rearm] by (simp add: onDocumentCursorActive_def Let_def)

lemma same_timers_listeners:
  "same_timers w (wheel_listeners addEventListener w)" "same_timers w (wheel_listeners removeEventListener w)"
  "same_timers w (cursor_listeners addEventListener w)" "same_timers w (cursor_listeners removeEventListener w)"
  by (simp_all add: wheel_listeners_def cursor_listeners_def same_timers_cong)

lemma steady_pointer_configure: "steady s (pointer_configure s)"
proof -
  let ?s1 = "s\<lparr>world := wheel_listeners (if cfg_mouseWheel (cfg s) then addEventListener else removeEventListener) (world s)\<rparr>"
  have 1: "steady s ?s1" by (intro steady_quiet quiet_world) (simp add: same_timers_listeners)
  have "steady t (t\<lparr>world := cursor_listeners addEventListener (world t)\<rparr>)"
    "steady t (t\<lparr>world := cursor_listeners removeEventListener (world t)\<rparr>)" for t
    by (intro steady_quiet quiet_world same_timers_listeners)+
  then have "steady s (?s1\<lparr>world := cursor_listeners addEventListener (world ?s1)\<rparr>)"
    "steady s ((showCursor ?s1)\<lparr>world := cursor_listeners removeEventListener (world (showCursor ?s1))\<rparr>)"
    using steady_trans [OF 1] steady_trans [OF 1 steady_trans [OF steady_showCursor]] by blast+
  then show ?thesis unfolding pointer_configure_def Let_def by (simp only: split: if_split) blast
qed

lemma safe_onDocumentMouseScroll: "safe s (onDocumentMouseScroll dt wd s)"
proof -
  let ?s1 = "s\<lparr>pointer_state := (pointer_state s)\<lparr>lastMouseWheelStep := now (world s)\<rparr>\<rparr>"
  have "safe s (navigateNext False ?s1)" "safe s (navigatePrev False ?s1)"
    by (rule safe_after [OF steady_fields(3) safe_navigator];
        rule next_nav.navigator_axioms prev_nav.navigator_axioms)+
  then show ?thesis by (simp add: onDocumentMouseScroll_def Let_def safe_Returned)
qed

lemma steady_focus: "steady s (focus_focus s)" "steady s (focus_blur s)"
  by (simp_all add: focus_focus_def focus_blur_def steady_input(3) same_sections_class)

lemma steady_focus_unbind: "steady s (focus_unbind s)" "steady s (focus_bind s)"
  by (auto simp: focus_unbind_def focus_bind_def intro!: steady_quiet quiet_world same_timers_cong)

lemma steady_focus_configure: "steady s (focus_configure s)"
  using steady_trans [OF steady_focus(1) steady_focus_unbind(1)] by (simp add: focus_configure_def steady_focus)

lemma steady_pointer_down: "steady s (onRevealPointerDown s)" "steady s (onDocumentPointerDown x s)"
  by (simp_all add: onRevealPointerDown_def onDocumentPointerDown_def steady_focus)

interpretation wheel: handler "onDocumentMouseScroll detail wheelDelta"
  by unfold_locales (rule safe_onDocumentMouseScroll)

section \<open>Properties\<close>

lemma inputs_moves: "moves s t \<Longrightarrow> deck_ok s \<Longrightarrow> inputs t = inputs s"
  using movesD(2) by (simp add: same_deck_def)

lemma wheel_time:
  assumes "deck_ok s" "1000 < now (world s) - lastMouseWheelStep (pointer_state s)"
  shows "lastMouseWheelStep (pointer_state (after (onDocumentMouseScroll detail wheelDelta s))) = now (world s)"
proof -
  let ?s1 = "s\<lparr>pointer_state := (pointer_state s)\<lparr>lastMouseWheelStep := now (world s)\<rparr>\<rparr>"
  have "deck_ok ?s1" using assms(1)
    by (simp add: deck_ok_def page_wf_def bg_ok_def helpers_def states_ok_def auto_ok_same [of ?s1 s])
  then have "inputs (after (navigateNext b ?s1)) = inputs ?s1" "inputs (after (navigatePrev b ?s1)) = inputs ?s1" for b
    using inputs_moves moves_navigateNext moves_navigatePrev by blast+
  then show ?thesis using assms(2) by (simp add: onDocumentMouseScroll_def Let_def)
qed

text \<open>The mouse wheel takes at most one step a second: once a turn of the wheel was acted on, a
  turn at most a second later changes nothing, whatever else happened to the page in between.\<close>

lemma wheel_throttled:
  assumes "deck_ok s" "1000 < now (world s) - lastMouseWheelStep (pointer_state s)"
    and "now w \<le> now (world s) + 1000"
    and "t = (after (onDocumentMouseScroll detail wheelDelta s))\<lparr>world := w, doc := d\<rparr>"
  shows "onDocumentMouseScroll detail' wheelDelta' t = Returned t"
proof -
  have "now (world t) - lastMouseWheelStep (pointer_state t) \<le> 1000"
    using wheel_time [OF assms(1,2)] assms(3,4) by simp
  then show ?thesis by (simp add: onDocumentMouseScroll_def)
qed

end
