(* ===== verification/Overview.thy ===== *)
theory Overview
  imports Modes
begin

text \<open>
  \<open>controllers/overview.js\<close>: the bird's-eye view of all slides. Opening it moves the
  backgrounds into the slides element, lets clicks on slides through to the controller and
  lays the slides out as a grid; closing undoes this and enters the current slide.
\<close>

section \<open>Opening\<close>

definition listen_slide :: "dom \<Rightarrow> node \<Rightarrow> world \<Rightarrow> world" where
  "listen_slide d x w = (if has_class ''stack'' d x then w else addEventListener (LNode x) ''click'' ''onSlideClicked'' w)"

definition listen_slides :: "reveal \<Rightarrow> reveal" where
  "listen_slides s =
     s\<lparr>world := fold (listen_slide (doc s)) (queryAll (doc s) (wrapper (host s)) (slides_sel (doc s))) (world s)\<rparr>"

definition overview_margin :: real where
  "overview_margin = 70"

definition size_cells :: "reveal \<Rightarrow> reveal" where
  "size_cells s =
     (let z = getComputedSlideSize None None s; w = sz_width z + overview_margin
      in s\<lparr>overviewSlideWidth := (if cfg_rtl (cfg s) then - w else w),
           overviewSlideHeight := sz_height z + overview_margin\<rparr>)"

definition announce_overview :: "string \<Rightarrow> indices \<Rightarrow> reveal \<Rightarrow> reveal" where
  "announce_overview ty ix s = dispatchEvent (EvOverview ty (ix_h ix) (ix_v ix) (currentSlide s)) s"

definition open_grid :: "reveal \<Rightarrow> reveal" where
  "open_grid s =
     (let s1 = cancelAutoSlide (s\<lparr>overviewActive := True, doc := add_class ''overview'' (wrapper (host s)) (doc s)\<rparr>)
      in s1\<lparr>doc := appendChild (slidesEl (host s1)) (backgroundsEl (refs s1)) (doc s1)\<rparr>)"

definition overview_activate :: "reveal \<Rightarrow> reveal" where
  "overview_activate s =
     (if cfg_overview (cfg s) \<and> \<not> overviewActive s then
       (let s1 = size_cells (listen_slides (open_grid s));
            s2 = layout (overview_update (overview_layout (updateSlidesVisibility s1)))
        in announce_overview ''overviewshown'' (getIndices s2 None) s2)
      else s)"

section \<open>Closing\<close>

definition clear_slide :: "node \<Rightarrow> page \<Rightarrow> page" where
  "clear_slide x p = (transformElement x [] (fst p), removeEventListener (LNode x) ''click'' ''onSlideClicked'' (snd p))"

definition clear_backgrounds :: "reveal \<Rightarrow> reveal" where
  "clear_backgrounds s =
     s\<lparr>doc := for_each (\<lambda>x. transformElement x [])
        (queryAll (doc s) (backgroundsEl (refs s)) (has_class ''slide-background'' (doc s))) (doc s)\<rparr>"

definition leave_grid :: "reveal \<Rightarrow> reveal" where
  "leave_grid s =
     (let w = wrapper (host s);
          s1 = s\<lparr>overviewActive := False, doc := add_class ''overview-deactivating'' w (remove_class ''overview'' w (doc s))\<rparr>;
          s2 = s1\<lparr>world := snd (setTimeout (TRemoveClass ''overview-deactivating'' w) 1 (world s1))\<rparr>
      in s2\<lparr>doc := appendChild w (backgroundsEl (refs s2)) (doc s2)\<rparr>)"

definition close_grid :: "reveal \<Rightarrow> reveal" where
  "close_grid s =
     (let s1 = leave_grid s;
          s2 = on_page (for_page clear_slide (queryAll (doc s1) (wrapper (host s1)) (slides_sel (doc s1)))) s1
      in transformSlides None (Some []) (clear_backgrounds s2))"

definition overview_deactivate :: "reveal \<Rightarrow> outcome" where
  "overview_deactivate s =
     (if cfg_overview (cfg s) then
       (let s1 = close_grid s; ix = getIndices s1 None in
        and_then (slide (ix_h ix) (ix_v ix) Undef Undef s1)
          (\<lambda>t. Returned (announce_overview ''overviewhidden'' ix (cueAutoSlide (layout t)))))
      else Returned s)"

definition overview_toggle :: "bool option \<Rightarrow> reveal \<Rightarrow> outcome" where
  "overview_toggle override s =
     (case override of
        Some b \<Rightarrow> if b then Returned (overview_activate s) else overview_deactivate s
      | None \<Rightarrow> if overviewActive s then overview_deactivate s else Returned (overview_activate s))"

section \<open>Clicks on slides\<close>

text \<open>An attribute that is missing is read as the text \<open>null\<close>, which is no number.\<close>

definition attr_index :: "string \<Rightarrow> dom \<Rightarrow> node \<Rightarrow> jsnum" where
  "attr_index a d x = (case get_attr a d x of Some v \<Rightarrow> parseInt v | None \<Rightarrow> NaN)"

definition section_named :: "dom \<Rightarrow> node \<Rightarrow> bool" where
  "section_named d x = contains_str ''section'' (tag d x)"

definition onSlideClicked :: "node \<Rightarrow> reveal \<Rightarrow> outcome" where
  "onSlideClicked target s =
     (if overviewActive s then
       (let s1 = s\<lparr>world := log_effect PreventDefault (world s)\<rparr> in
        case closest (doc s1) target (section_named (doc s1)) of
          None \<Rightarrow> Returned s1
        | Some x \<Rightarrow>
            if has_class ''disabled'' (doc s1) x then Returned s1
            else and_then (overview_deactivate s1)
              (\<lambda>t. slide (attr_index ''data-index-h'' (doc t) x) (attr_index ''data-index-v'' (doc t) x) Undef Undef t))
      else Returned s)"

section \<open>The backgrounds change places\<close>

text \<open>
  The new parent of the backgrounds is an ancestor of a slide, and no slide is below the
  backgrounds: so the parent is not below them either.
\<close>

lemma not_below_backgrounds:
  assumes "page_wf s" "x \<in> set (sections (doc s))" "p \<in> set (path (doc s) x)"
  shows "\<not> in_subtree (doc s) (backgroundsEl (refs s)) p"
proof
  assume below: "in_subtree (doc s) (backgroundsEl (refs s)) p"
  have wf: "wf_dom (doc s)" and x: "x < nextNode (doc s)"
    using assms(1,2) wf_domD(2) by (auto simp: page_wf_def wf_page_def)
  have "backgroundsEl (refs s) \<in> set (path (doc s) x)"
    using below assms(3) path_trans [OF wf x assms(3)] by (auto simp: in_subtree_def)
  then have "in_subtree (doc s) (backgroundsEl (refs s)) x" by (simp add: in_subtree_def)
  then show False using assms(1,2) bg_okD(3) [of s] by (simp add: page_wf_def del: sections_in)
qed

lemma quiet_move_backgrounds:
  assumes "healthy s" "p = slidesEl (host s) \<or> p = wrapper (host s)"
  shows "quiet s (s\<lparr>doc := appendChild p (backgroundsEl (refs s)) (doc s)\<rparr>)"
proof -
  have pw: "page_wf s" using healthyD [OF assms(1)] by simp
  obtain x where x: "x \<in> set (getHorizontalSlides s)" "slidesEl (host s) \<in> set (path (doc s) x)"
    using assms(1) by (auto simp: healthy_def housed_def list_ex_iff)
  have sec: "x \<in> set (sections (doc s))" using select_slides_sections [of x Horizontal s] x(1) by simp
  have "wrapper (host s) \<in> set (path (doc s) x)" using x(1) by (simp add: horizontal_in is_desc_def)
  then have "p \<in> set (path (doc s) x)" using x assms(2) by blast
  then have "\<not> in_subtree (doc s) (backgroundsEl (refs s)) p" using not_below_backgrounds [OF pw sec] by blast
  moreover have "p < nextNode (doc s)" "backgroundsEl (refs s) < nextNode (doc s)"
    using pw assms(2) bg_okD(1,2) [of s] by (auto simp: page_wf_def wf_page_def)
  moreover have "\<forall>y\<in>set (order (doc s)). in_subtree (doc s) (backgroundsEl (refs s)) y \<longrightarrow> \<not> is_section (doc s) y"
    using pw bg_okD(3) [of s] by (auto simp: page_wf_def)
  ultimately show ?thesis by (intro quiet_doc same_sections_append) blast
qed

lemma steady_move_backgrounds:
  assumes "p = slidesEl (host s) \<or> p = wrapper (host s)"
  shows "steady s (s\<lparr>doc := appendChild p (backgroundsEl (refs s)) (doc s)\<rparr>)"
  using steady_quiet [OF quiet_move_backgrounds [OF _ assms]] by (cases "healthy s") (simp_all add: steady_def)

section \<open>Opening and closing are safe\<close>

lemma auto_ok_active: "auto_ok s \<Longrightarrow> auto_ok (cancelAutoSlide (s\<lparr>overviewActive := True, doc := add_class ''overview'' x (doc s)\<rparr>))"
proof -
  assume ok: "auto_ok s"
  let ?t = "s\<lparr>overviewActive := True, doc := add_class ''overview'' x (doc s)\<rparr>"
  have "timers_ok ?t = timers_ok s" by (rule timers_ok_same) simp_all
  then have "one_timer ?t" using ok by (simp add: auto_ok_def one_timer_def)
  then show ?thesis by (rule auto_ok_cancelled)
qed

lemma steady_open_grid: "steady s (open_grid s)"
proof -
  let ?s1 = "cancelAutoSlide (s\<lparr>overviewActive := True, doc := add_class ''overview'' (wrapper (host s)) (doc s)\<rparr>)"
  have "steady s ?s1"
    by (rule steady_mode) (simp_all add: auto_ok_active same_slides_sections same_sections_class)
  then show ?thesis unfolding open_grid_def Let_def by (rule steady_trans [OF _ steady_move_backgrounds]) simp
qed

lemma same_timers_fold: "(\<And>x w. same_timers w (f x w)) \<Longrightarrow> same_timers w (fold f xs w)"
proof (induction xs arbitrary: w)
  case (Cons x xs)
  show ?case using same_timers_trans [OF Cons.prems Cons.IH [OF Cons.prems]] by simp
qed simp

lemma quiet_listen_slides: "quiet s (listen_slides s)"
  unfolding listen_slides_def by (intro quiet_world same_timers_fold) (simp add: listen_slide_def)

lemma steady_size_cells: "steady s (size_cells s)"
  unfolding size_cells_def Let_def by (rule steady_same) simp_all

lemma steady_activate: "steady s (overview_activate s)"
proof -
  let ?s1 = "size_cells (listen_slides (open_grid s))"
  have 1: "steady s ?s1"
    by (rule steady_trans [OF steady_open_grid steady_trans [OF steady_quiet [OF quiet_listen_slides] steady_size_cells]])
  have q: "quiet ?s1 (layout (overview_update (overview_layout (updateSlidesVisibility ?s1))))"
    by (rule quiet_trans [OF quiet_updateSlidesVisibility quiet_trans [OF quiet_overview_layout
          quiet_trans [OF quiet_overview_update quiet_layout]]])
  have "steady s (announce_overview ty ix (layout (overview_update (overview_layout (updateSlidesVisibility ?s1)))))" for ty ix
    unfolding announce_overview_def by (rule steady_trans [OF 1 steady_quiet [OF quiet_then(4) [OF q]]])
  then show ?thesis by (simp add: overview_activate_def Let_def)
qed

lemma quiet_clear_backgrounds: "quiet s (clear_backgrounds s)"
  unfolding clear_backgrounds_def by (intro quiet_doc same_sections_for_each same_sections_transform)

lemma steady_leave_grid: "steady s (leave_grid s)"
proof -
  let ?w = "wrapper (host s)"
  let ?s1 = "s\<lparr>overviewActive := False, doc := add_class ''overview-deactivating'' ?w (remove_class ''overview'' ?w (doc s))\<rparr>"
  have "same_sections w d (add_class ''overview-deactivating'' x (remove_class ''overview'' x d))" for w x d
    by (rule same_sections_trans [OF same_sections_class(2) same_sections_class(1)]) simp_all
  moreover have "auto_ok ?s1" if "auto_ok s"
    by (rule auto_ok_weaken [OF _ _ timers_ok_same _ that]) (auto simp: halted_def isPaused_def)
  ultimately have 1: "steady s ?s1" by (intro steady_mode) (simp_all add: same_slides_sections)
  let ?s2 = "?s1\<lparr>world := snd (setTimeout (TRemoveClass ''overview-deactivating'' ?w) 1 (world ?s1))\<rparr>"
  have 2: "steady s ?s2" by (rule steady_trans [OF 1 steady_quiet [OF quiet_world]]) (simp add: same_timers_set)
  show ?thesis unfolding leave_grid_def Let_def by (rule steady_trans [OF 2 steady_move_backgrounds]) simp
qed

lemma quiet_close_grid: "quiet (leave_grid s) (close_grid s)"
proof -
  have "page_ok w p (for_page clear_slide xs p)" for w p xs
    by (rule page_ok_for) (simp add: clear_slide_def page_ok_def)
  then show ?thesis unfolding close_grid_def Let_def
    by (intro quiet_transformSlides quiet_trans [OF quiet_on_page quiet_clear_backgrounds])
qed

lemma steady_close_grid: "steady s (close_grid s)"
  by (rule steady_trans [OF steady_leave_grid steady_quiet [OF quiet_close_grid]])

text \<open>Going to a place by numbers is safe.\<close>

lemma safe_slide:
  assumes "healthy s \<Longrightarrow> h \<noteq> NaN \<and> v \<noteq> NaN"
  shows "safe s (slide h v f origin s)"
proof (cases "healthy s")
  case True
  then show ?thesis using assms safe_navigator [OF slide_navigator] by blast
qed (simp add: safe_def steady_def)

lemma healthy_index: "healthy s \<Longrightarrow> indexh s \<noteq> NaN \<and> indexv s \<noteq> NaN"
  using live_index(4,5) healthyD(1) by blast

lemma indices_current: "ix_h (getIndices s None) = indexh s" "ix_v (getIndices s None) = indexv s"
  by (simp_all add: getIndices_def)

lemma safe_deactivate: "safe s (overview_deactivate s)"
proof -
  have "safe (close_grid s) (slide (ix_h (getIndices (close_grid s) None)) (ix_v (getIndices (close_grid s) None)) Undef Undef (close_grid s))"
    by (rule safe_slide) (simp add: indices_current healthy_index)
  then have 1: "safe s (slide (ix_h (getIndices (close_grid s) None)) (ix_v (getIndices (close_grid s) None)) Undef Undef (close_grid s))"
    by (rule safe_after [OF steady_close_grid])
  have 2: "steady t (announce_overview ty ix (cueAutoSlide (layout t)))" for t ty ix
    unfolding announce_overview_def
    by (rule steady_trans [OF steady_quiet [OF quiet_layout] steady_trans [OF steady_cue steady_quiet [OF quiet_dispatch]]])
  show ?thesis using safe_and_then [OF 1] 2 by (simp add: overview_deactivate_def Let_def safe_Returned)
qed

lemma safe_toggle: "safe s (overview_toggle override s)"
  by (simp add: overview_toggle_def safe_deactivate safe_Returned steady_activate split: option.split)

interpretation overview_switch: handler "overview_toggle override"
  by unfold_locales (rule safe_toggle)

interpretation overview_exit: handler overview_deactivate
  by unfold_locales (rule safe_deactivate)

end
