(* ===== verification/Objects.thy ===== *)
theory Objects
  imports Prelude
begin

text \<open>
  JavaScript objects used as tables: association lists, written by property and enumerated in
  the order of the language.
\<close>

text \<open>
  The properties of an object: writing one that is there replaces it, a new one is added behind
  the others; properties that are whole numbers come first when they are enumerated, in
  ascending order.
\<close>

fun put :: "string \<Rightarrow> 'a \<Rightarrow> (string \<times> 'a) list \<Rightarrow> (string \<times> 'a) list" where
  "put k v [] = [(k, v)]"
| "put k v ((j, u) # r) = (if j = k then (k, v) # r else (j, u) # put k v r)"

definition index_key :: "string \<Rightarrow> bool" where
  "index_key k = (k \<noteq> [] \<and> list_all is_digit k \<and> (k = ''0'' \<or> hd k \<noteq> CHR ''0''))"

definition own_properties :: "(string \<times> 'a) list \<Rightarrow> (string \<times> 'a) list" where
  "own_properties l =
     sort_key (\<lambda>(k, v). the_num (parseInt k)) (filter (\<lambda>(k, v). index_key k) l) @ filter (\<lambda>(k, v). \<not> index_key k) l"

section \<open>Reading and writing\<close>

lemma set_put: "set (put k v l) \<subseteq> insert (k, v) (set l)"
  by (induction l) (auto split: if_splits)

lemma keys_put:
  "k \<notin> fst ` set l \<Longrightarrow> map fst (put k v l) = map fst l @ [k]" "k \<in> fst ` set l \<Longrightarrow> map fst (put k v l) = map fst l"
  by (induction l) (force split: prod.splits)+

lemma filter_own_properties:
  assumes "filter P l = [x]"
  shows "filter P (own_properties l) = [x]"
proof -
  have "filter P (filter Q l) = filter Q [x]" for Q
    using arg_cong [OF assms, of "filter Q"] by (simp add: conj_commute)
  then show ?thesis by (simp add: own_properties_def filter_sort split: prod.split)
qed

lemma filter_put:
  assumes "\<And>v. P (k, v)" "\<And>j u. (j, u) \<in> set l \<Longrightarrow> P (j, u) \<Longrightarrow> j = k" "distinct (map fst l)"
  shows "filter P (put k v l) = [(k, v)]"
  using assms
proof (induction l)
  case (Cons x l)
  obtain j u where x: "x = (j, u)" by fastforce
  show ?case
  proof (cases "j = k")
    case True
    have "\<not> P y" if "y \<in> set l" for y
    proof
      assume "P y"
      then have "fst y = k" using Cons.prems(2) [of "fst y" "snd y"] that by simp
      then show False using Cons.prems(3) that True x by auto
    qed
    then show ?thesis using True x Cons.prems(1) by simp
  next
    case False
    then have "\<not> P (j, u)" using Cons.prems(2) x by auto
    moreover have "filter P (put k v l) = [(k, v)]"
    proof (rule Cons.IH)
      show "i = k" if "(i, w) \<in> set l" "P (i, w)" for i w using Cons.prems(2) [of i w] that by simp
    qed (use Cons.prems in auto)
    ultimately show ?thesis using False x by simp
  qed
qed simp

lemma put_new: "k \<notin> fst ` set l \<Longrightarrow> put k v l = l @ [(k, v)]"
  by (induction l) auto

lemma set_own_properties [simp]: "set (own_properties l) = set l"
  by (auto simp: own_properties_def)

lemma own_properties_Nil [simp]: "own_properties [] = []" "own_properties l = [] \<longleftrightarrow> l = []"
proof -
  show "own_properties [] = []" by (simp add: own_properties_def)
  show "own_properties l = [] \<longleftrightarrow> l = []" using set_own_properties [of l] by (metis set_empty)
qed

lemma length_own_properties [simp]: "length (own_properties l) = length l"
  using sum_length_filter_compl [of "\<lambda>(k, v). index_key k" l]
  by (simp add: own_properties_def split_def)

lemma distinct_own_properties: "distinct l \<Longrightarrow> distinct (own_properties l)"
  by (auto simp: own_properties_def)

end
