(* ===== verification/Keyboard.thy ===== *)
theory Keyboard
  imports Touch Pointer Overview Objects
begin

text \<open>
  \<open>controllers/keyboard.js\<close>: the shortcuts shown by the help, key bindings added at run
  time, and what a key does. The methods a binding may name are looked up in the public API, an
  argument of the handlers here; functions of the page that a key is bound to are effects.
\<close>

section \<open>Shortcuts and bindings\<close>

definition shortcut_rows :: "config \<Rightarrow> (string \<times> string) list" where
  "shortcut_rows c =
     (if cfg_navigationMode c = ''linear'' then
        [(''&#8594;  ,  &#8595;  ,  SPACE  ,  N  ,  L  ,  J'', ''Next slide''),
         (''&#8592;  ,  &#8593;  ,  P  ,  H  ,  K'', ''Previous slide'')]
      else
        [(''N  ,  SPACE'', ''Next slide''), (''P  ,  Shift SPACE'', ''Previous slide''),
         (''&#8592;  ,  H'', ''Navigate left''), (''&#8594;  ,  L'', ''Navigate right''),
         (''&#8593;  ,  K'', ''Navigate up''), (''&#8595;  ,  J'', ''Navigate down'')]) @
     [(''Alt + &#8592;/&#8593/&#8594;/&#8595;'', ''Navigate without fragments''),
      (''Shift + &#8592;/&#8593/&#8594;/&#8595;'', ''Jump to first/last slide''),
      (''B  ,  .'', ''Pause''), (''F'', ''Fullscreen''), (''ESC, O'', ''Slide overview'')]"

definition registerKeyboardShortcut :: "string \<Rightarrow> string \<Rightarrow> keyboard \<Rightarrow> keyboard" where
  "registerKeyboardShortcut k v kb = kb\<lparr>shortcuts := put k v (shortcuts kb)\<rparr>"

definition keyboard_configure :: "config \<Rightarrow> keyboard \<Rightarrow> keyboard" where
  "keyboard_configure c kb = fold (\<lambda>(k, v). registerKeyboardShortcut k v) (shortcut_rows c) kb"

definition addKeyBinding :: "string \<Rightarrow> string option \<Rightarrow> string option \<Rightarrow> kb_action \<Rightarrow> keyboard \<Rightarrow> keyboard" where
  "addKeyBinding code key description callback kb =
     kb\<lparr>bindings := put code \<lparr>bd_action = callback, bd_key = key, bd_description = description\<rparr> (bindings kb)\<rparr>"

definition removeKeyBinding :: "string \<Rightarrow> keyboard \<Rightarrow> keyboard" where
  "removeKeyBinding code kb = kb\<lparr>bindings := filter (\<lambda>(k, b). k \<noteq> code) (bindings kb)\<rparr>"

definition keyboard_bind :: "world \<Rightarrow> world" where
  "keyboard_bind w =
     addEventListener LDocument ''keypress'' ''onDocumentKeyPress''
       (addEventListener LDocument ''keydown'' ''onDocumentKeyDown'' w)"

definition keyboard_unbind :: "world \<Rightarrow> world" where
  "keyboard_unbind w =
     removeEventListener LDocument ''keypress'' ''onDocumentKeyPress''
       (removeEventListener LDocument ''keydown'' ''onDocumentKeyDown'' w)"

section \<open>Which keys are heard\<close>

text \<open>The element that has the focus of the browser.\<close>

record active_element =
  ae_editable :: bool
  ae_tag :: string
  ae_class :: string

definition uses_keyboard :: "active_element option \<Rightarrow> bool" where
  "uses_keyboard a =
     (case a of
        None \<Rightarrow> False
      | Some e \<Rightarrow>
          ae_editable e \<or>
          contains_str ''input'' (map to_lower (ae_tag e)) \<or> contains_str ''textarea'' (map to_lower (ae_tag e)) \<or>
          contains_str ''speaker-notes'' (map to_lower (ae_class e)))"

definition condition_allows :: "key_event \<Rightarrow> reveal \<Rightarrow> bool" where
  "condition_allows e s =
     (case cfg_keyboardCondition (cfg s) of
        KcFun f \<Rightarrow> f e
      | KcString c \<Rightarrow> c = ''focused'' \<longrightarrow> isFocused s
      | KcNone \<Rightarrow> True)"

definition isNavigationKey :: "int \<Rightarrow> bool" where
  "isNavigationKey code = (code \<in> {32, 37, 38, 39, 40, 78, 80})"

definition unusedModifier :: "key_event \<Rightarrow> bool" where
  "unusedModifier e =
     (\<not> (isNavigationKey (keyCode e) \<and> shiftKey e \<or> altKey e) \<and> (shiftKey e \<or> altKey e \<or> ctrlKey e \<or> metaKey e))"

definition key_map :: "config \<Rightarrow> (string \<times> kb_action) list" where
  "key_map c = (case cfg_keyboard c of KbMap l \<Rightarrow> l | KbBool b \<Rightarrow> [])"

definition resumeKeyCodes :: "config \<Rightarrow> jsnum list" where
  "resumeKeyCodes c =
     map Num [66, 86, 190, 191] @
     map (\<lambda>(k, a). parseInt k) (filter (\<lambda>(k, a). a = KbMethod ''togglePause'') (key_map c))"

definition resumes :: "config \<Rightarrow> int \<Rightarrow> bool" where
  "resumes c code = list_ex (\<lambda>k. js_seq k (Num code)) (resumeKeyCodes c)"

definition useLinearMode :: "reveal \<Rightarrow> bool" where
  "useLinearMode s = (cfg_navigationMode (cfg s) = ''linear'' \<or> \<not> hasHorizontalSlides s \<or> \<not> hasVerticalSlides s)"

section \<open>What a key does\<close>

type_synonym api = "string \<Rightarrow> (reveal \<Rightarrow> outcome) option"

definition run_action :: "api \<Rightarrow> kb_action \<Rightarrow> reveal \<Rightarrow> outcome" where
  "run_action api a s =
     (case a of
        KbCallback n \<Rightarrow> Returned (s\<lparr>world := log_effect (PageCallback n) (world s)\<rparr>)
      | KbMethod m \<Rightarrow> (case api m of Some f \<Rightarrow> f s | None \<Rightarrow> Returned s))"

definition bound_to :: "int \<Rightarrow> string \<times> kb_action \<Rightarrow> bool" where
  "bound_to code e = js_seq (parseInt (fst e)) (Num code)"

fun run_bound :: "api \<Rightarrow> int \<Rightarrow> (string \<times> kb_action) list \<Rightarrow> reveal \<Rightarrow> outcome" where
  "run_bound api code [] s = Returned s"
| "run_bound api code (e # es) s =
     and_then (if bound_to code e then run_action api (snd e) s else Returned s) (run_bound api code es)"

definition binding_map :: "reveal \<Rightarrow> (string \<times> kb_action) list" where
  "binding_map s = map (\<lambda>(k, b). (k, bd_action b)) (own_properties (bindings (keyboard_state s)))"

definition MAX_VALUE :: int where
  "MAX_VALUE = (2 ^ 53 - 1) * 2 ^ 971"

definition jump_last :: "reveal \<Rightarrow> outcome" where
  "jump_last s = slide (Num (int (length (getHorizontalSlides s)) - 1)) Undef Undef Undef s"

text \<open>An arrow: with shift to the end, in a linear deck one step, else in its direction.\<close>

definition arrow_key :: "key_event \<Rightarrow> bool \<Rightarrow> (reveal \<Rightarrow> outcome) \<Rightarrow> (bool \<Rightarrow> reveal \<Rightarrow> outcome) \<Rightarrow> (bool \<Rightarrow> reveal \<Rightarrow> outcome) \<Rightarrow>
    reveal \<Rightarrow> outcome" where
  "arrow_key e linearMode jump step direction s =
     (if shiftKey e then jump s
      else if \<not> overviewActive s \<and> linearMode then step (altKey e) s
      else direction (altKey e) s)"

definition space_key :: "key_event \<Rightarrow> reveal \<Rightarrow> outcome" where
  "space_key e s =
     and_then (if overviewActive s then overview_deactivate s else Returned s)
       (\<lambda>t. if shiftKey e then navigatePrev (altKey e) t else navigateNext (altKey e) t)"

definition fullscreen_key :: "reveal \<Rightarrow> outcome" where
  "fullscreen_key s =
     (let el = (if cfg_embedded (cfg s) then Some (viewport (host s)) else document_root s) in
      case el of
        Some x \<Rightarrow> Returned (s\<lparr>world := enterFullscreen x (world s)\<rparr>)
      | None \<Rightarrow> Returned s)"

definition system_key :: "key_event \<Rightarrow> bool \<Rightarrow> bool \<Rightarrow> reveal \<Rightarrow> outcome option" where
  "system_key e linearMode autoSlideWasPaused s =
     (let k = keyCode e in
      if k = 80 \<or> k = 33 then Some (navigatePrev (altKey e) s)
      else if k = 78 \<or> k = 34 then Some (navigateNext (altKey e) s)
      else if k = 72 \<or> k = 37 then Some (arrow_key e linearMode (slide (Num 0) Undef Undef Undef) navigatePrev navigateLeft s)
      else if k = 76 \<or> k = 39 then Some (arrow_key e linearMode jump_last navigateNext navigateRight s)
      else if k = 75 \<or> k = 38 then Some (arrow_key e linearMode (slide Undef (Num 0) Undef Undef) navigatePrev navigateUp s)
      else if k = 74 \<or> k = 40 then Some (arrow_key e linearMode (slide Undef (Num MAX_VALUE) Undef Undef) navigateNext navigateDown s)
      else if k = 36 then Some (slide (Num 0) Undef Undef Undef s)
      else if k = 35 then Some (jump_last s)
      else if k = 32 then Some (space_key e s)
      else if k \<in> {58, 59, 66, 86, 190, 191} then Some (Returned (togglePause None s))
      else if k = 70 then Some (fullscreen_key s)
      else if k = 65 then
        Some (Returned (if cfg_autoSlideStoppable (cfg s) then toggleAutoSlide (Some autoSlideWasPaused) s else s))
      else None)"

definition prevent_key :: "key_event \<Rightarrow> reveal \<Rightarrow> reveal" where
  "prevent_key e s = (if preventable e then prevent s else s)"

definition escape_key :: "key_event \<Rightarrow> reveal \<Rightarrow> outcome" where
  "escape_key e s =
     (let (closed, s1) = closeOverlay s in
      and_then (if \<not> closed then overview_toggle None s1 else Returned s1) (\<lambda>t. Returned (prevent_key e t)))"

definition default_key :: "key_event \<Rightarrow> bool \<Rightarrow> bool \<Rightarrow> reveal \<Rightarrow> outcome" where
  "default_key e linearMode autoSlideWasPaused s =
     (case system_key e linearMode autoSlideWasPaused s of
        Some r \<Rightarrow> and_then r (\<lambda>t. Returned (prevent_key e t))
      | None \<Rightarrow> if keyCode e = 27 \<or> keyCode e = 79 then escape_key e s else Returned s)"

definition trigger :: "api \<Rightarrow> key_event \<Rightarrow> bool \<Rightarrow> bool \<Rightarrow> reveal \<Rightarrow> outcome" where
  "trigger api e linearMode autoSlideWasPaused s =
     (let code = keyCode e in
      if list_ex (bound_to code) (key_map (cfg s))
      then and_then (run_bound api code (key_map (cfg s)) s) (\<lambda>t. Returned (prevent_key e t))
      else if list_ex (bound_to code) (binding_map s)
      then and_then (run_bound api code (binding_map s) s) (\<lambda>t. Returned (prevent_key e t))
      else default_key e linearMode autoSlideWasPaused s)"

definition onDocumentKeyDown :: "api \<Rightarrow> active_element option \<Rightarrow> key_event \<Rightarrow> reveal \<Rightarrow> outcome" where
  "onDocumentKeyDown api active e s =
     (if \<not> condition_allows e s then Returned s
      else
       (let autoSlideWasPaused = \<not> isAutoSliding s; s1 = onUserInput s in
        if uses_keyboard active \<or> unusedModifier e then Returned s1
        else if isPaused s1 \<and> \<not> resumes (cfg s1) (keyCode e) then Returned s1
        else and_then (trigger api e (useLinearMode s1) autoSlideWasPaused s1) (\<lambda>t. Returned (cueAutoSlide t))))"

definition triggerKey :: "api \<Rightarrow> active_element option \<Rightarrow> int \<Rightarrow> reveal \<Rightarrow> outcome" where
  "triggerKey api active code s =
     onDocumentKeyDown api active
       \<lparr>keyCode = code, shiftKey = False, altKey = False, ctrlKey = False, metaKey = False, preventable = False\<rparr> s"

definition onDocumentKeyPress :: "bool \<Rightarrow> int \<Rightarrow> reveal \<Rightarrow> reveal" where
  "onDocumentKeyPress shift charCode s = (if shift \<and> charCode = 63 then toggleHelp None s else s)"

section \<open>Keys are safe\<close>

lemma steady_prevent_key: "steady s (prevent_key e s)"
  by (simp add: prevent_key_def steady_prevent)

lemma safe_jump_last: "safe s (jump_last s)"
  unfolding jump_last_def by (rule safe_slide) simp

lemma safe_arrow_key:
  "safe s (jump s) \<Longrightarrow> (\<And>b. safe s (step b s)) \<Longrightarrow> (\<And>b. safe s (direction b s)) \<Longrightarrow> safe s (arrow_key e l jump step direction s)"
  by (simp add: arrow_key_def)

lemma safe_space_key: "safe s (space_key e s)"
proof -
  have "safe s (if overviewActive s then overview_deactivate s else Returned s)"
    by (simp add: safe_deactivate safe_Returned)
  from safe_and_then [OF this] show ?thesis by (simp add: space_key_def safe_moves)
qed

lemma safe_fullscreen_key: "safe s (fullscreen_key s)"
  by (simp add: fullscreen_key_def enterFullscreen_def Let_def safe_Returned steady_effect split: option.split)

lemma safe_system_key: "system_key e l b s = Some r \<Longrightarrow> safe s r"
  unfolding system_key_def Let_def
  by (auto simp: safe_moves safe_arrow_key safe_slide safe_jump_last safe_space_key safe_fullscreen_key safe_Returned
      steady_togglePause steady_toggleAutoSlide split: if_splits)

lemma steady_closed: "closeOverlay s = (b, t) \<Longrightarrow> steady s t"
  using steady_closeOverlay [of s] by simp

lemma safe_escape_key: "safe s (escape_key e s)"
proof -
  obtain b s1 where c: "closeOverlay s = (b, s1)" by fastforce
  have "safe s (if \<not> b then overview_toggle None s1 else Returned s1)"
    using steady_closed [OF c] safe_after [OF steady_closed [OF c] safe_toggle] by (simp add: safe_Returned)
  from safe_and_then [OF this safe_Returned [OF steady_prevent_key]] show ?thesis
    unfolding escape_key_def c Let_def prod.case .
qed

lemma safe_default_key: "safe s (default_key e l b s)"
proof (cases "system_key e l b s")
  case (Some r)
  from safe_and_then [OF safe_system_key [OF Some] safe_Returned [OF steady_prevent_key]] show ?thesis
    by (simp add: default_key_def Some)
qed (simp add: default_key_def safe_escape_key safe_Returned)

text \<open>
  The interface the keyboard needs of the public API: the methods a binding can name are safe.
\<close>

locale safe_api =
  fixes api :: api
  assumes api_safe: "api m = Some f \<Longrightarrow> safe s (f s)"
begin

lemma safe_action: "safe s (run_action api a s)"
  using api_safe
  by (simp add: run_action_def safe_Returned steady_effect split: kb_action.split option.split)

lemma safe_bound: "safe s (run_bound api code es s)"
proof (induction es arbitrary: s)
  case (Cons e es)
  have "safe s (if bound_to code e then run_action api (snd e) s else Returned s)"
    by (simp add: safe_action safe_Returned)
  from safe_and_then [OF this Cons.IH] show ?case by simp
qed (simp add: safe_Returned)

lemma safe_trigger: "safe s (trigger api e l b s)"
  using safe_and_then [OF safe_bound safe_Returned [OF steady_prevent_key]] safe_default_key
  by (simp add: trigger_def Let_def)

lemma safe_onDocumentKeyDown: "safe s (onDocumentKeyDown api active e s)"
proof -
  have 1: "steady s (onUserInput s)" by (rule steady_onUserInput)
  from safe_and_then [OF safe_after [OF 1 safe_trigger] safe_Returned [OF steady_cue]] show ?thesis
    using 1 by (simp add: onDocumentKeyDown_def Let_def safe_Returned)
qed

lemma key_handler: "handler (onDocumentKeyDown api active e)"
  by unfold_locales (rule safe_onDocumentKeyDown)

end

end
