(* ===== verification/Handlers.thy ===== *)
theory Handlers
  imports Keyboard
begin

text \<open>
  What else sets the deck in motion: the arrows of \<open>controllers/controls.js\<close>, clicks on the
  progress bar, on links and on the auto-slide player, the hash of the URL, messages of other
  windows, the window's own events and the timers of the deck (\<open>reveal.js\<close>,
  \<open>controllers/progress.js\<close>, \<open>controllers/location.js\<close>). Each is safe.
\<close>

section \<open>Arrows\<close>

definition arrow_click :: "(reveal \<Rightarrow> outcome) \<Rightarrow> reveal \<Rightarrow> outcome" where
  "arrow_click go s = go (onUserInput (prevent s))"

definition onNavigateLeftClicked :: "reveal \<Rightarrow> outcome" where
  "onNavigateLeftClicked =
     arrow_click (\<lambda>s. if cfg_navigationMode (cfg s) = ''linear'' then navigatePrev False s else navigateLeft False s)"

definition onNavigateRightClicked :: "reveal \<Rightarrow> outcome" where
  "onNavigateRightClicked =
     arrow_click (\<lambda>s. if cfg_navigationMode (cfg s) = ''linear'' then navigateNext False s else navigateRight False s)"

definition onNavigateUpClicked :: "reveal \<Rightarrow> outcome" where
  "onNavigateUpClicked = arrow_click (navigateUp False)"

definition onNavigateDownClicked :: "reveal \<Rightarrow> outcome" where
  "onNavigateDownClicked = arrow_click (navigateDown False)"

definition onNavigatePrevClicked :: "reveal \<Rightarrow> outcome" where
  "onNavigatePrevClicked = arrow_click (navigatePrev False)"

definition onNavigateNextClicked :: "reveal \<Rightarrow> outcome" where
  "onNavigateNextClicked = arrow_click (navigateNext False)"

section \<open>The progress bar\<close>

text \<open>
  The slide under a click; there is none past either end of the list, nor when the deck has no
  width (the quotient is then no finite number), and the indices of no slide are the current ones.
\<close>

definition clicked_slide :: "real \<Rightarrow> reveal \<Rightarrow> node option" where
  "clicked_slide clientX s =
     (let slides = getSlides s; slidesTotal = int (length slides);
          slideIndex = \<lfloor>clientX / getMaxWidth s * real_of_int slidesTotal\<rfloor>
      in if getMaxWidth s = 0 then None
         else arr_get slides (Num (if cfg_rtl (cfg s) then slidesTotal - slideIndex else slideIndex)))"

definition onProgressClicked :: "real \<Rightarrow> reveal \<Rightarrow> outcome" where
  "onProgressClicked clientX s =
     (let s1 = prevent (onUserInput s); ix = getIndices s1 (clicked_slide clientX s1)
      in slide (ix_h ix) (ix_v ix) Undef Undef s1)"

section \<open>Links, the player, saved states\<close>

definition hash_link :: "dom \<Rightarrow> node \<Rightarrow> bool" where
  "hash_link d x = (tag d x = ''a'' \<and> (case get_attr ''href'' d x of Some u \<Rightarrow> starts_with ''#'' u | None \<Rightarrow> False))"

definition onSlidesClicked :: "node \<Rightarrow> reveal \<Rightarrow> outcome" where
  "onSlidesClicked target s =
     (case closest (doc s) target (hash_link (doc s)) of
        None \<Rightarrow> Returned s
      | Some anchor \<Rightarrow>
          (case getIndicesFromHash s (the (get_attr ''href'' (doc s) anchor)) of
             None \<Rightarrow> Returned s
           | Some ix \<Rightarrow> and_then (slide (ix_h ix) (ix_v ix) (ix_f ix) Undef s) (\<lambda>t. Returned (prevent t))))"

definition onAutoSlidePlayerClick :: "reveal \<Rightarrow> outcome" where
  "onAutoSlidePlayerClick s =
     (if isLastSlide s \<and> \<not> cfg_loop (cfg s)
      then and_then (slide (Num 0) (Num 0) Undef Undef s) (\<lambda>t. Returned (resumeAutoSlide t))
      else if autoSlidePaused s then Returned (resumeAutoSlide s)
      else Returned (pauseAutoSlide s))"

text \<open>A saved state has been made by \<open>getState\<close>: its flags are booleans and its indices numbers.\<close>

definition setState :: "pstate \<Rightarrow> reveal \<Rightarrow> outcome" where
  "setState st s =
     and_then (slide (st_indexh st) (st_indexv st) (st_indexf st) Undef s)
       (\<lambda>t. let u = (if st_paused st \<noteq> isPaused t then togglePause (Some (st_paused st)) t else t)
            in if st_overview st \<noteq> overviewActive u then overview_toggle (Some (st_overview st)) u else Returned u)"

section \<open>Messages\<close>

text \<open>
  A message that starts and ends in braces is read as an object (\<open>None\<close> where the parser
  throws); the methods are looked up in the API, an argument.
\<close>

record message =
  msg_method :: string
  msg_args :: "jsval list"

definition blacklisted :: "string \<Rightarrow> bool" where
  "blacklisted m = list_ex (\<lambda>b. contains_str b m)
     [''registerPlugin'', ''registerKeyboardShortcut'', ''addKeyBinding'', ''addEventListener'', ''showPreview'']"

definition onPostMessage ::
    "(string \<Rightarrow> message option) \<Rightarrow> (string \<Rightarrow> jsval list \<Rightarrow> (reveal \<Rightarrow> outcome) option) \<Rightarrow> string \<Rightarrow> reveal \<Rightarrow> outcome" where
  "onPostMessage parse methods text s =
     (if text \<noteq> [] \<and> hd text = CHR ''{'' \<and> last text = CHR ''}'' then
        (case parse text of
           None \<Rightarrow> Threw SyntaxError s
         | Some m \<Rightarrow>
             (case methods (msg_method m) (msg_args m) of
                None \<Rightarrow> Returned s
              | Some call \<Rightarrow>
                  if msg_method m = [] \<or> blacklisted (msg_method m) then Returned s
                  else and_then (call s) (\<lambda>t. Returned (t\<lparr>world := dispatchPostMessage ''callback'' t\<rparr>))))
      else Returned s)"

section \<open>The window\<close>

definition onTransitionEnd :: "node \<Rightarrow> reveal \<Rightarrow> reveal" where
  "onTransitionEnd target s =
     (if transitionRunning s \<and> contains_str ''section'' (map to_lower (tag (doc s) target)) then
        (let s1 = s\<lparr>transitionRunning := False\<rparr>
         in dispatchEvent (EvSlide ''slidetransitionend'' (indexh s1) (indexv s1) (previousSlide s1) (currentSlide s1) Undef) s1)
      else s)"

definition onWindowResize :: "reveal \<Rightarrow> reveal" where
  "onWindowResize = layout"

text \<open>Whether the page is hidden, whether an element other than the body is active, and whether it can lose the focus.\<close>

definition onPageVisibilityChange :: "bool \<Rightarrow> bool \<Rightarrow> bool \<Rightarrow> reveal \<Rightarrow> reveal" where
  "onPageVisibilityChange hidden elsewhere blurs s =
     (if \<not> hidden \<and> elsewhere then
        s\<lparr>world := log_effect FocusBody (if blurs then log_effect BlurActive (world s) else world s)\<rparr>
      else s)"

definition onFullscreenChange :: "node option \<Rightarrow> reveal \<Rightarrow> reveal" where
  "onFullscreenChange element s =
     (if element = Some (wrapper (host s)) then s\<lparr>world := snd (setTimeout TFullscreen 1 (world s))\<rparr> else s)"

section \<open>Timers\<close>

text \<open>
  What a timer does when it fires. The delayed URL writer has lost its \<open>this\<close> and throws.
\<close>

definition auto_slide :: "reveal \<Rightarrow> outcome" where
  "auto_slide s =
     and_then
       (case cfg_autoSlideMethod (cfg s) of
          Some n \<Rightarrow> Returned (s\<lparr>world := log_effect (PageCallback n) (world s)\<rparr>)
        | None \<Rightarrow> navigateNext False s)
       (\<lambda>t. Returned (cueAutoSlide t))"

definition reset_stacks :: "reveal \<Rightarrow> reveal" where
  "reset_stacks s = s\<lparr>doc := for_each (\<lambda>x. setPreviousVerticalIndex x (Num 0)) (getVerticalStacks s) (doc s)\<rparr>"

definition announce_current :: "reveal \<Rightarrow> outcome" where
  "announce_current s =
     (case currentSlide s of
        Some c \<Rightarrow> Returned (announceStatus (getStatusText (host s) (doc s) c) s)
      | None \<Rightarrow> Threw TypeError s)"

definition announce_ready :: "reveal \<Rightarrow> reveal" where
  "announce_ready s =
     (let s1 = s\<lparr>doc := add_class ''ready'' (wrapper (host s))
                      (remove_class ''no-transition'' (slidesEl (host s)) (doc s))\<rparr>
      in dispatchEvent (EvSlide ''ready'' (indexh s1) (indexv s1) None (currentSlide s1) Undef) s1)"

fun fire :: "tcall \<Rightarrow> reveal \<Rightarrow> outcome" where
  "fire TAutoSlide s = auto_slide s"
| "fire (TReplaceState url) s = Returned (replaceState url s)"
| "fire TWriteURL s = Threw TypeError s"
| "fire THideCursor s = Returned (hideCursor s)"
| "fire TResetStacks s = Returned (reset_stacks s)"
| "fire TAnnounce s = announce_current s"
| "fire (TRemoveClass c x) s = Returned (s\<lparr>doc := remove_class c x (doc s)\<rparr>)"
| "fire (TAddClass c x) s = Returned (s\<lparr>doc := add_class c x (doc s)\<rparr>)"
| "fire TReady s = Returned (announce_ready s)"
| "fire TFullscreen s = Returned (focus_focus (layout s))"

text \<open>A timer that fires is not pending any more; the clock has reached it.\<close>

definition fire_timer :: "timer \<Rightarrow> reveal \<Rightarrow> outcome" where
  "fire_timer t s =
     fire (tcallback t) (s\<lparr>world := (clearTimeout (tid t) (world s))\<lparr>now := max (now (world s)) (tdue t)\<rparr>\<rparr>)"

section \<open>All of it is safe\<close>

lemma safe_arrow_click: "(\<And>t. safe t (go t)) \<Longrightarrow> safe s (arrow_click go s)"
  unfolding arrow_click_def by (rule safe_after [OF steady_trans [OF steady_prevent steady_onUserInput]])

lemma safe_arrows:
  "safe s (onNavigateLeftClicked s)" "safe s (onNavigateRightClicked s)" "safe s (onNavigateUpClicked s)"
  "safe s (onNavigateDownClicked s)" "safe s (onNavigatePrevClicked s)" "safe s (onNavigateNextClicked s)"
  unfolding onNavigateLeftClicked_def onNavigateRightClicked_def onNavigateUpClicked_def onNavigateDownClicked_def
    onNavigatePrevClicked_def onNavigateNextClicked_def
  by (rule safe_arrow_click; simp add: safe_moves)+

text \<open>Indices are never \<open>NaN\<close>: neither those of a slide nor those read from a hash.\<close>

lemma indices_numbers: "healthy s \<Longrightarrow> ix_h (getIndices s x) \<noteq> NaN \<and> ix_v (getIndices s x) \<noteq> NaN"
  using healthy_index [of s] by (cases x) (simp_all add: getIndices_def Let_def)

lemma or_zero_number [simp]: "or_zero a \<noteq> NaN"
  by (cases a) simp_all

lemma hash_numbers:
  assumes "healthy s" "getIndicesFromHash s h = Some ix"
  shows "ix_h ix \<noteq> NaN \<and> ix_v ix \<noteq> NaN"
  using assms indices_numbers [OF assms(1)]
  by (auto simp: getIndicesFromHash_def Let_def split: if_splits option.splits)

lemma safe_onProgressClicked: "safe s (onProgressClicked x s)"
  unfolding onProgressClicked_def Let_def
  by (rule safe_after [OF steady_trans [OF steady_onUserInput steady_prevent] safe_slide]) (rule indices_numbers)

lemma safe_to_indices:
  "getIndicesFromHash s h = Some ix \<Longrightarrow> safe s (slide (ix_h ix) (ix_v ix) f origin s)"
  by (rule safe_slide) (rule hash_numbers)

lemma safe_onSlidesClicked: "safe s (onSlidesClicked x s)"
  unfolding onSlidesClicked_def
  using safe_and_then [OF safe_to_indices safe_Returned [OF steady_prevent]]
  by (simp add: safe_Returned split: option.split)

lemma safe_readURL: "safe s (readURL s)"
  unfolding readURL_def Let_def using safe_to_indices safe_slide
  by (auto simp: safe_Returned split: option.split)

lemma safe_onAutoSlidePlayerClick: "safe s (onAutoSlidePlayerClick s)"
proof -
  have "safe s (slide (Num 0) (Num 0) Undef Undef s)" by (rule safe_slide) simp
  from safe_and_then [OF this safe_Returned [OF steady_resumeAutoSlide]] show ?thesis
    by (simp add: onAutoSlidePlayerClick_def safe_Returned steady_resumeAutoSlide steady_pauseAutoSlide)
qed

lemma safe_setState:
  assumes "st_indexh st \<noteq> NaN" "st_indexv st \<noteq> NaN"
  shows "safe s (setState st s)"
  unfolding setState_def
proof (rule safe_and_then [OF safe_slide])
  fix t
  let ?u = "if st_paused st \<noteq> isPaused t then togglePause (Some (st_paused st)) t else t"
  have "steady t ?u" by (simp add: steady_togglePause)
  then show "safe t (let u = ?u
            in if st_overview st \<noteq> overviewActive u then overview_toggle (Some (st_overview st)) u else Returned u)"
    unfolding Let_def using overview_switch.after by (simp add: safe_Returned)
qed (simp add: assms)

lemma steady_posted: "steady s t \<Longrightarrow> steady s (t\<lparr>world := dispatchPostMessage ty t\<rparr>)"
proof -
  have "quiet t (t\<lparr>world := dispatchPostMessage ty t\<rparr>)"
    by (rule quiet_world) (simp add: dispatchPostMessage_def)
  then show "steady s t \<Longrightarrow> steady s (t\<lparr>world := dispatchPostMessage ty t\<rparr>)"
    using steady_trans steady_quiet by blast
qed

lemma safe_onPostMessage:
  assumes "\<And>m args f s. methods m args = Some f \<Longrightarrow> safe s (f s)"
    and "text \<noteq> [] \<Longrightarrow> hd text = CHR ''{'' \<Longrightarrow> last text = CHR ''}'' \<Longrightarrow> parse text \<noteq> None"
  shows "safe s (onPostMessage parse methods text s)"
proof -
  have "safe s (and_then (f s) (\<lambda>t. Returned (t\<lparr>world := dispatchPostMessage ''callback'' t\<rparr>)))"
    if "methods m args = Some f" for m args f
    by (rule safe_and_then [OF assms(1) [OF that]]) (simp add: safe_Returned steady_posted)
  then show ?thesis using assms(2) by (auto simp: onPostMessage_def safe_Returned split: option.split)
qed

lemma steady_onTransitionEnd: "steady s (onTransitionEnd x s)"
  using steady_trans [OF steady_fields(5) steady_quiet [OF quiet_dispatch]]
  by (simp add: onTransitionEnd_def Let_def)

lemma steady_window:
  "steady s (onWindowResize s)" "steady s (onPageVisibilityChange a b c s)" "steady s (onFullscreenChange x s)"
  by (simp_all add: onWindowResize_def onPageVisibilityChange_def onFullscreenChange_def steady_quiet quiet_layout
      quiet_world same_timers_set same_timers_trans [OF same_timers_basic(2) same_timers_basic(2)])

section \<open>Timers are safe\<close>

lemma safe_auto_slide: "safe s (auto_slide s)"
proof -
  have "safe s (case cfg_autoSlideMethod (cfg s) of
          Some n \<Rightarrow> Returned (s\<lparr>world := log_effect (PageCallback n) (world s)\<rparr>)
        | None \<Rightarrow> navigateNext False s)"
    by (simp add: safe_moves safe_Returned steady_effect split: option.split)
  from safe_and_then [OF this safe_Returned [OF steady_cue]] show ?thesis unfolding auto_slide_def .
qed

lemma previous_frame:
  "keeps d (for_each (\<lambda>x. setPreviousVerticalIndex x v) xs d)"
  "has_class c (for_each (\<lambda>x. setPreviousVerticalIndex x v) xs d) = has_class c d"
  by (rule keeps_for_each for_each_frame; simp add: setPreviousVerticalIndex_def)+

lemma steady_reset_stacks: "steady s (reset_stacks s)"
proof (rule steady_moves)
  show "moves s (reset_stacks s)"
    unfolding reset_stacks_def
    by (intro moves_doc same_structure_for_each same_structure_previous)
  have "on_slide (reset_stacks s) = on_slide s"
    by (rule on_slide_kept) (simp_all add: reset_stacks_def previous_frame)
  then show "live s \<Longrightarrow> on_slide (reset_stacks s)" by (simp add: live_def)
qed

lemma safe_unhealthy: "\<not> healthy s \<Longrightarrow> safe s r"
  by (simp add: safe_def steady_def)

lemma quiet_announceStatus: "quiet s (announceStatus v s)"
  by (simp add: announceStatus_def quiet_doc)

lemma safe_announce_current: "safe s (announce_current s)"
proof (cases "healthy s")
  case True
  then obtain c where "currentSlide s = Some c" using healthyD(5) by (blast elim: on_slide_cases)
  then show ?thesis by (simp add: announce_current_def safe_Returned steady_quiet quiet_announceStatus)
qed (rule safe_unhealthy)

lemma steady_announce_ready: "steady s (announce_ready s)"
proof -
  have "quiet s (s\<lparr>doc := add_class ''ready'' x (remove_class ''no-transition'' y (doc s))\<rparr>)" for x y
    by (intro quiet_doc same_sections_trans [OF same_sections_class(2) same_sections_class(1)]) simp_all
  from quiet_trans [OF this quiet_dispatch] show ?thesis by (simp add: announce_ready_def Let_def steady_quiet)
qed

lemma safe_fire:
  assumes "c = TAutoSlide \<or> page_call c"
  shows "safe s (fire c s)"
  using assms
  by (cases c) (simp_all add: safe_auto_slide safe_announce_current safe_Returned steady_quiet quiet_replaceState steady_hideCursor
      steady_reset_stacks steady_announce_ready quiet_doc same_sections_class
      steady_trans [OF steady_quiet [OF quiet_layout] steady_focus(1)])

text \<open>A timer that is pending may fire.\<close>

lemma expired_timers:
  "timers ((clearTimeout i w)\<lparr>now := n\<rparr>) = filter (\<lambda>t. tid t \<noteq> i) (timers w)"
  "nextTimer ((clearTimeout i w)\<lparr>now := n\<rparr>) = nextTimer w"
  by (simp_all add: clearTimeout_def)

lemma steady_expire: "steady s (s\<lparr>world := (clearTimeout i (world s))\<lparr>now := n\<rparr>\<rparr>)"
proof (rule steady_mode)
  let ?w = "(clearTimeout i (world s))\<lparr>now := n\<rparr>"
  assume ok: "auto_ok s"
  have "wf_timers (world s) \<Longrightarrow> wf_timers ?w"
    by (auto simp: wf_timers_def expired_timers distinct_map intro: inj_on_subset)
  moreover have "calls_ok (world s) \<Longrightarrow> calls_ok ?w" by (simp add: calls_ok_def expired_timers list_all_iff)
  moreover have sub: "set (timers_of TAutoSlide ?w) \<subseteq> set (timers_of TAutoSlide (world s))"
    by (auto simp: timers_of_def expired_timers)
  ultimately have tk: "timers_ok (s\<lparr>world := ?w\<rparr>)"
    using ok by (auto simp: auto_ok_def timers_ok_def expired_timers)
  show "auto_ok (s\<lparr>world := ?w\<rparr>)"
    using ok tk sub by (auto simp: auto_ok_def halted_def isPaused_def)
qed simp_all

lemma safe_fire_timer:
  assumes "t \<in> set (timers (world s))"
  shows "safe s (fire_timer t s)"
proof (cases "healthy s")
  case True
  then have "calls_ok (world s)" using healthyD(4) by (simp add: auto_ok_def timers_ok_def)
  then have "tcallback t = TAutoSlide \<or> page_call (tcallback t)" using assms by (simp add: calls_ok_def list_all_iff)
  then show ?thesis unfolding fire_timer_def by (rule safe_after [OF steady_expire safe_fire])
qed (rule safe_unhealthy)

end
