(* ===== verification/Session.thy ===== *)
theory Session
  imports Handlers
begin

text \<open>
  A deck in use: what a user, the page, other windows and the deck's own timers can do to it, in
  any order. Everything reachable from a healthy deck is healthy, and nothing throws.
\<close>

section \<open>The public API without arguments\<close>

text \<open>
  The methods of the API (\<open>reveal.js\<close>, its table of functions) as a key binding calls them.
  Queries change nothing. Those that build the deck or take it down (\<open>initialize\<close>,
  \<open>configure\<close>, \<open>destroy\<close>, \<open>sync\<close>, \<open>shuffle\<close> and the listeners) are left to the argument.
\<close>

definition queries :: "string list" where
  "queries = [''availableRoutes'', ''availableFragments'', ''isFirstSlide'', ''isLastSlide'', ''isLastVerticalSlide'',
     ''isVerticalSlide'', ''isPaused'', ''isAutoSliding'', ''isSpeakerNotes'', ''isOverview'', ''isFocused'',
     ''isPrintingPDF'', ''isReady'', ''getState'', ''setState'', ''getProgress'', ''getIndices'', ''getSlidesAttributes'',
     ''getSlidePastCount'', ''getTotalSlides'', ''getPreviousSlide'', ''getCurrentSlide'', ''getSlideNotes'',
     ''getSlides'', ''getHorizontalSlides'', ''getVerticalSlides'', ''hasHorizontalSlides'', ''hasVerticalSlides'',
     ''hasNavigatedHorizontally'', ''hasNavigatedVertically'', ''getScale'', ''getConfig'', ''getQueryHash'', ''getSlidePath'',
     ''getRevealElement'', ''getSlidesElement'', ''getViewportElement'', ''getBackgroundsElement'', ''getPlugins'']"

definition moves_api :: "(string \<times> (reveal \<Rightarrow> outcome)) list" where
  "moves_api =
     [(''slide'', slide Undef Undef Undef Undef),
      (''left'', navigateLeft False), (''right'', navigateRight False), (''up'', navigateUp False),
      (''down'', navigateDown False), (''prev'', navigatePrev False), (''next'', navigateNext False),
      (''navigateLeft'', navigateLeft False), (''navigateRight'', navigateRight False), (''navigateUp'', navigateUp False),
      (''navigateDown'', navigateDown False), (''navigatePrev'', navigatePrev False), (''navigateNext'', navigateNext False),
      (''toggleOverview'', overview_toggle None)]"

definition modes_api :: "(string \<times> (reveal \<Rightarrow> reveal)) list" where
  "modes_api =
     [(''navigateFragment'', \<lambda>s. snd (goto Undef (Num 0) s)),
      (''prevFragment'', \<lambda>s. snd (fragments_prev s)), (''nextFragment'', \<lambda>s. snd (fragments_next s)),
      (''layout'', layout), (''toggleHelp'', toggleHelp None), (''hidePreview'', \<lambda>s. snd (closeOverlay s)),
      (''togglePause'', togglePause None), (''toggleAutoSlide'', toggleAutoSlide None)]"

definition deck_api :: "api \<Rightarrow> api" where
  "deck_api other m =
     (case map_of moves_api m of
        Some f \<Rightarrow> Some f
      | None \<Rightarrow>
          (case map_of modes_api m of
             Some g \<Rightarrow> Some (\<lambda>s. Returned (g s))
           | None \<Rightarrow> if m \<in> set queries then Some Returned else other m))"

lemma safe_moves_api: "(m, f) \<in> set moves_api \<Longrightarrow> safe s (f s)"
proof -
  have "safe s (slide Undef Undef Undef Undef s)" by (rule safe_slide) simp
  then have "list_all (\<lambda>(m, f). safe s (f s)) moves_api" by (simp add: moves_api_def safe_moves safe_toggle)
  then show "(m, f) \<in> set moves_api \<Longrightarrow> safe s (f s)" by (auto simp: list_all_iff)
qed

lemma steady_fragments: "steady s (snd (goto i k s))" "steady s (snd (fragments_prev s))" "steady s (snd (fragments_next s))"
  using fragment_goto.quiet by (simp_all add: fragments_prev_def fragments_next_def steady_quiet)

lemma safe_modes_api: "(m, g) \<in> set modes_api \<Longrightarrow> steady s (g s)"
proof -
  have "list_all (\<lambda>(m, g). steady s (g s)) modes_api"
    by (simp add: modes_api_def steady_fragments steady_quiet quiet_layout steady_toggleHelp steady_closeOverlay
        steady_togglePause steady_toggleAutoSlide)
  then show "(m, g) \<in> set modes_api \<Longrightarrow> steady s (g s)" by (auto simp: list_all_iff)
qed

lemma deck_api_safe:
  assumes "\<And>m f s. other m = Some f \<Longrightarrow> safe s (f s)" and "deck_api other m = Some f"
  shows "safe s (f s)"
  using assms(2)
  by (auto simp: deck_api_def assms(1) split: option.splits if_splits
      intro: safe_moves_api safe_Returned safe_modes_api dest!: map_of_SomeD)

interpretation deck_keys: safe_api "deck_api (\<lambda>_. None)"
  by unfold_locales (auto intro: deck_api_safe)

section \<open>Inputs\<close>

text \<open>
  What reaches the deck: its handlers with what they read of the event. Indices given to
  \<open>slide\<close> and those of a saved state are integers or left out.
\<close>

datatype arrow = ALeft | ARight | AUp | ADown | APrev | ANext

datatype input =
    KeyDown "active_element option" key_event
  | KeyPress bool int
  | Wheel int int
  | CursorMove
  | TouchStart touch_event
  | TouchMove touch_event
  | TouchEnd
  | Arrow arrow
  | ProgressClick real
  | SlidesClick node
  | PreviewClick node
  | OverlayClick string
  | PlayerClick
  | RevealDown
  | DocumentDown node
  | HashChange string
  | Posted message
  | Resize
  | TransitionEnd node
  | Visibility bool bool bool
  | Fullscreened "node option"
  | Goto "int option" "int option" jsnum
  | Restore int int jsnum bool bool

fun arrow_handler :: "arrow \<Rightarrow> reveal \<Rightarrow> outcome" where
  "arrow_handler ALeft = onNavigateLeftClicked"
| "arrow_handler ARight = onNavigateRightClicked"
| "arrow_handler AUp = onNavigateUpClicked"
| "arrow_handler ADown = onNavigateDownClicked"
| "arrow_handler APrev = onNavigatePrevClicked"
| "arrow_handler ANext = onNavigateNextClicked"

definition index_arg :: "int option \<Rightarrow> jsnum" where
  "index_arg a = (case a of Some i \<Rightarrow> Num i | None \<Rightarrow> Undef)"

fun react :: "api \<Rightarrow> input \<Rightarrow> reveal \<Rightarrow> outcome" where
  "react api (KeyDown active e) s = onDocumentKeyDown api active e s"
| "react api (KeyPress shift c) s = Returned (onDocumentKeyPress shift c s)"
| "react api (Wheel a b) s = onDocumentMouseScroll a b s"
| "react api CursorMove s = Returned (onDocumentCursorActive s)"
| "react api (TouchStart e) s = Returned (onTouchStart e s)"
| "react api (TouchMove e) s = onTouchMove e s"
| "react api TouchEnd s = Returned (onTouchEnd s)"
| "react api (Arrow a) s = arrow_handler a s"
| "react api (ProgressClick x) s = onProgressClicked x s"
| "react api (SlidesClick x) s = onSlidesClicked x s"
| "react api (PreviewClick x) s = Returned (onPreviewLinkClicked x s)"
| "react api (OverlayClick l) s = Returned (onOverlayClicked l s)"
| "react api PlayerClick s = onAutoSlidePlayerClick s"
| "react api RevealDown s = Returned (onRevealPointerDown s)"
| "react api (DocumentDown x) s = Returned (onDocumentPointerDown x s)"
| "react api (HashChange h) s = onWindowHashChange (s\<lparr>world := (world s)\<lparr>hash := h\<rparr>\<rparr>)"
| "react api (Posted m) s =
     onPostMessage (\<lambda>_. Some m) (\<lambda>name args. if args = [] then api name else None) ''{}'' s"
| "react api Resize s = Returned (onWindowResize s)"
| "react api (TransitionEnd x) s = Returned (onTransitionEnd x s)"
| "react api (Visibility a b c) s = Returned (onPageVisibilityChange a b c s)"
| "react api (Fullscreened x) s = Returned (onFullscreenChange x s)"
| "react api (Goto h v f) s = slide (index_arg h) (index_arg v) f Undef s"
| "react api (Restore h v f p ov) s =
     setState \<lparr>st_indexh = Num h, st_indexv = Num v, st_indexf = f, st_paused = p, st_overview = ov\<rparr> s"

lemma safe_arrow_handler: "safe s (arrow_handler a s)"
  by (cases a) (simp_all add: safe_arrows)

lemma steady_onDocumentKeyPress: "steady s (onDocumentKeyPress b c s)"
  by (simp add: onDocumentKeyPress_def steady_toggleHelp)

lemma safe_onWindowHashChange: "safe s (onWindowHashChange (s\<lparr>world := (world s)\<lparr>hash := h\<rparr>\<rparr>))"
  unfolding onWindowHashChange_def
  by (rule safe_after [OF steady_quiet [OF quiet_world [OF same_timers_basic(6)]] safe_readURL])

context safe_api
begin

lemma safe_react: "safe s (react api i s)"
proof (cases i)
  case (Posted m)
  have "safe s (onPostMessage (\<lambda>_. Some m) (\<lambda>name args. if args = [] then api name else None) ''{}'' s)"
    by (rule safe_onPostMessage) (auto simp: api_safe split: if_splits)
  then show ?thesis by (simp add: Posted)
next
  case (Goto h v f)
  then show ?thesis by (simp add: safe_slide index_arg_def split: option.split)
qed (simp_all add: safe_onDocumentKeyDown safe_Returned steady_onDocumentKeyPress safe_onDocumentMouseScroll
    steady_onDocumentCursorActive steady_touch safe_onTouchMove safe_arrow_handler safe_onProgressClicked
    safe_onSlidesClicked steady_onPreviewLinkClicked steady_onOverlayClicked safe_onAutoSlidePlayerClick
    steady_pointer_down safe_onWindowHashChange steady_window steady_onTransitionEnd safe_setState)

end

section \<open>Sessions\<close>

text \<open>One step of a deck: something reaches it, or a pending timer fires.\<close>

inductive deck_step :: "api \<Rightarrow> reveal \<Rightarrow> reveal \<Rightarrow> bool" where
  input: "deck_step api s (after (react api i s))"
| timer: "t \<in> set (timers (world s)) \<Longrightarrow> deck_step api s (after (fire_timer t s))"

inductive session :: "api \<Rightarrow> reveal \<Rightarrow> reveal \<Rightarrow> bool" for api s0 where
  start: "session api s0 s0"
| step: "session api s0 s \<Longrightarrow> deck_step api s t \<Longrightarrow> session api s0 t"

inductive_cases deck_stepE: "deck_step api s t"

context safe_api
begin

lemma steady_step: "deck_step api s t \<Longrightarrow> steady s t"
  by (elim deck_stepE) (use safe_react safe_fire_timer in \<open>auto simp: safe_def\<close>)

lemma steady_session: "session api s0 s \<Longrightarrow> steady s0 s"
proof (induction rule: session.induct)
  case (step s t)
  from step.IH steady_step [OF step.hyps(2)] show ?case by (rule steady_trans)
qed simp

lemma session_healthy: "session api s0 s \<Longrightarrow> healthy s0 \<Longrightarrow> healthy s"
  using steady_session by (simp add: steady_def)

lemma session_slides:
  assumes "session api s0 s" "healthy s0"
  shows "getHorizontalSlides s = getHorizontalSlides s0" "verticals (doc s) x = verticals (doc s0) x"
  using steady_session [OF assms(1)] assms(2)
  by (simp_all add: steady_def getHorizontalSlides_def verticals_def keeps_horizontal keeps_sections)

lemma session_returns:
  assumes "session api s0 s" "healthy s0"
  shows "returned (react api i s)" "t \<in> set (timers (world s)) \<Longrightarrow> returned (fire_timer t s)"
  using safe_react safe_fire_timer session_healthy [OF assms] by (auto simp: safe_def)

end

end
