(* ===== verification/SavedState.thy ===== *)
theory SavedState
  imports Session
begin

text \<open>
  Saving the state of a deck with \<open>getState\<close> and restoring it with \<open>setState\<close> (\<open>reveal.js\<close>):
  the position, the pause and the overview come back. On the way: opening and closing the
  overview keeps the position.
\<close>

section \<open>Staying on a slide\<close>

definition still :: "reveal \<Rightarrow> reveal \<Rightarrow> bool" where
  "still s t = (steady s t \<and> (healthy s \<longrightarrow> indexh t = indexh s \<and> indexv t = indexv s \<and> isPaused t = isPaused s))"

lemma still_trans: "still a b \<Longrightarrow> still b c \<Longrightarrow> still a c"
  using steady_trans by (auto simp: still_def) (simp add: steady_def)+

lemma still_quiet: "quiet s t \<Longrightarrow> still s t"
  using quietD(4,5) [of s t] quiet_paused [of s t] healthyD(2) by (simp add: still_def steady_quiet)

lemma still_cue: "still s (cueAutoSlide s)"
  by (simp add: still_def steady_cue isPaused_def)

lemma paused_append [simp]: "has_class c (appendChild p x d) = has_class c d"
  by (simp add: appendChild_def has_class_def fun_eq_iff)

lemma paused_classes [simp]:
  "has_class ''paused'' (add_class ''overview'' y d) x = has_class ''paused'' d x"
  "has_class ''paused'' (remove_class ''overview'' y d) x = has_class ''paused'' d x"
  "has_class ''paused'' (add_class ''overview-deactivating'' y d) x = has_class ''paused'' d x"
  by simp_all

lemma still_open_grid: "still s (open_grid s)"
  using steady_open_grid by (simp add: still_def open_grid_def Let_def isPaused_def cancelAutoSlide_def)

lemma still_size_cells: "still s (size_cells s)"
  using steady_size_cells by (simp add: still_def size_cells_def Let_def isPaused_def)

lemma activated:
  assumes "cfg_overview (cfg s)"
  shows "still s (overview_activate s)" "overviewActive (overview_activate s)"
proof -
  let ?s1 = "size_cells (listen_slides (open_grid s))"
  have 1: "still s ?s1"
    by (rule still_trans [OF still_open_grid still_trans [OF still_quiet [OF quiet_listen_slides] still_size_cells]])
  let ?s2 = "layout (overview_update (overview_layout (updateSlidesVisibility ?s1)))"
  have q: "quiet ?s1 ?s2"
    by (rule quiet_trans [OF quiet_updateSlidesVisibility quiet_trans [OF quiet_overview_layout
          quiet_trans [OF quiet_overview_update quiet_layout]]])
  have qe: "quiet ?s1 (announce_overview ty ix ?s2)" for ty ix
    unfolding announce_overview_def by (rule quiet_then(4) [OF q])
  show "still s (overview_activate s)"
    using still_trans [OF 1 still_quiet [OF qe]] by (simp add: overview_activate_def Let_def still_def)
  have "overviewActive ?s1" using quietD(13) [OF quiet_listen_slides]
    by (simp add: size_cells_def Let_def open_grid_def cancelAutoSlide_def)
  then show "overviewActive (overview_activate s)"
    using assms quietD(13) [OF qe] by (simp add: overview_activate_def Let_def)
qed

lemma still_close_grid: "still s (close_grid s)" "\<not> overviewActive (close_grid s)"
proof -
  have "still s (leave_grid s)"
    using steady_leave_grid by (simp add: still_def leave_grid_def Let_def isPaused_def)
  then show "still s (close_grid s)" using still_trans still_quiet [OF quiet_close_grid] by blast
  show "\<not> overviewActive (close_grid s)"
    using quietD(13) [OF quiet_close_grid] by (simp add: leave_grid_def Let_def)
qed

section \<open>Going back to a slide\<close>

text \<open>The position of a deck on a slide is one the bounds of \<open>updateSlides\<close> leave alone.\<close>

lemma position_kept:
  assumes "on_slide s" "indexh s = Num h" "indexv s = Num v"
  shows "wrapped loop (int (length (getHorizontalSlides s))) h = h"
    "landing_v loop (verticals (doc s) (getHorizontalSlides s ! nat h)) v = v"
  using assms by (auto elim!: on_slide_cases simp: wrapped_def landing_v_def)

lemma slides_kept:
  assumes "keeps (doc s) (doc t)" "host t = host s"
  shows "getHorizontalSlides t = getHorizontalSlides s" "verticals (doc t) x = verticals (doc s) x"
    "getSlide t a b = getSlide s a b"
proof -
  show hs: "getHorizontalSlides t = getHorizontalSlides s" using assms by (simp add: getHorizontalSlides_def keeps_horizontal)
  show vs: "verticals (doc t) x = verticals (doc s) x" for x using assms(1) by (simp add: verticals_def keeps_sections)
  show "getSlide t a b = getSlide s a b" unfolding getSlide_def hs vs ..
qed

lemma same_slide:
  assumes "on_slide s" "on_slide t" "keeps (doc s) (doc t)" "host t = host s" "indexh t = indexh s" "indexv t = indexv s"
  shows "currentSlide t = currentSlide s"
  using on_slide_getSlide [OF assms(1)] on_slide_getSlide [OF assms(2)] slides_kept(3) [OF assms(3,4)] assms(5,6) by simp

text \<open>Unless the page vetoes it, a deck with the same slides can be sent to the position of another.\<close>

lemma slide_back:
  assumes s: "on_slide s" and t: "healthy t" and same: "keeps (doc s) (doc t)" "host t = host s"
    and veto: "\<not> vetoes (host s) ''beforeslidechange'' (indexh s) (indexv s)"
  shows "\<exists>u. slide (indexh s) (indexv s) f origin t = Returned u \<and> steady t u \<and> indexh u = indexh s \<and>
    indexv u = indexv s \<and> isPaused u = isPaused t \<and> overviewActive u = overviewActive t"
proof -
  obtain h v where n: "indexh s = Num h" "indexv s = Num v" using s by (blast elim: on_slide_cases)
  let ?r = "slide (Num h) (Num v) f origin t"
  have ok: "deck_ok t" "\<not> isPrintingPDF (host t)" "on_slide t" using t by (simp_all add: healthy_def live_def)
  have "\<exists>u. ?r = Returned u \<and> on_slide u \<and> indexh u = Num h \<and> indexv u = Num v"
  proof (rule slide_lands_core [where x = "Num v" and b = v, OF ok(1,2)])
    show "getHorizontalSlides t \<noteq> []" using ok(3) by (auto elim: on_slide_cases)
    show "\<not> vetoes (host t) ''beforeslidechange'' (or_undef (Num h) (indexh t)) (or_undef (Num v) (indexv t))"
      using veto by (simp add: n same or_undef_def)
    show "verticals (doc t) p = []" if "currentSlide t = Some p" for p using on_slide_leaf(1) [OF ok(3,1) that] .
    show "h = wrapped (cfg_loop (cfg t)) (int (length (getHorizontalSlides t))) h"
      using position_kept(1) [OF s n] by (simp add: slides_kept [OF same])
    show "v = landing_v (cfg_loop (cfg t)) (verticals (doc t) (getHorizontalSlides t ! nat h)) v"
      using position_kept(2) [OF s n] by (simp add: slides_kept [OF same])
  qed (simp_all add: or_undef_def wanted_v_def resume_vertical_def)
  then obtain u where u: "?r = Returned u" "indexh u = Num h" "indexv u = Num v" by blast
  have m: "moves t u" using moves_slide [of t "Num h" "Num v" f origin] u(1) by simp
  have "safe t ?r" by (rule safe_slide) simp
  then have "steady t u" using u(1) by (simp add: safe_def)
  moreover have "isPaused u = isPaused t" using slide_move.keeps_pause [OF ok(1), of "Num h" "Num v" f origin] u(1) by simp
  moreover have "overviewActive u = overviewActive t" using movesD(2) [OF m ok(1)] by (simp add: same_deck_def)
  ultimately show ?thesis using u n by auto
qed

section \<open>What restoring does\<close>

lemma still_togglePause: "cfg_pause (cfg s) \<Longrightarrow> isPaused (togglePause (Some p) s) = p"
  by (simp add: togglePause_def isPaused_pause isPaused_resume)

lemma togglePause_frame:
  "indexh (togglePause (Some p) s) = indexh s" "indexv (togglePause (Some p) s) = indexv s"
  "overviewActive (togglePause (Some p) s) = overviewActive s"
  by (simp_all add: togglePause_def pause_def resume_def Let_def)

text \<open>Leaving the overview slides to the position it shows: where the deck is.\<close>

lemma deactivated:
  assumes h: "healthy s" and o: "cfg_overview (cfg s)"
    and veto: "\<not> vetoes (host s) ''beforeslidechange'' (indexh s) (indexv s)"
  shows "\<exists>u. overview_deactivate s = Returned u \<and> still s u \<and> \<not> overviewActive u"
proof -
  let ?g = "close_grid s"
  have g: "still s ?g" "steady s ?g" "\<not> overviewActive ?g" using still_close_grid by (simp_all add: still_def)
  then have hg: "healthy ?g" "host ?g = host s" "indexh ?g = indexh s" "indexv ?g = indexv s"
    using h by (simp_all add: still_def steady_def)
  have "keeps (doc ?g) (doc ?g)" by simp
  from slide_back [OF healthyD(5) [OF hg(1)] hg(1) this refl, of Undef Undef]
  obtain u where u: "slide (indexh ?g) (indexv ?g) Undef Undef ?g = Returned u" "steady ?g u" "indexh u = indexh ?g"
    "indexv u = indexv ?g" "isPaused u = isPaused ?g" "overviewActive u = overviewActive ?g"
    using veto hg by auto
  have "still ?g u" using u by (simp add: still_def)
  then have su: "still s u" using g(1) still_trans by blast
  have 2: "still u (announce_overview ty ix (cueAutoSlide (layout u)))" for ty ix
    unfolding announce_overview_def
    by (rule still_trans [OF still_quiet [OF quiet_layout] still_trans [OF still_cue still_quiet [OF quiet_dispatch]]])
  have "overviewActive (announce_overview ty ix (cueAutoSlide (layout u))) = overviewActive u" for ty ix
    using quietD(13) [OF quiet_layout] by (simp add: announce_overview_def)
  then show ?thesis using u(1,6) g(3) o still_trans [OF su 2] by (simp add: overview_deactivate_def Let_def indices_current)
qed

text \<open>C12: Restoring a saved state on a deck with the same slides and options, wherever it is and
  whatever its mode, brings back the position, the current slide, the pause and the overview,
  unless the page vetoes the move.\<close>

theorem state_round_trip:
  assumes "healthy s" and "healthy t" and "keeps (doc s) (doc t)" and "host t = host s"
    and "cfg_pause (cfg t)" and "cfg_overview (cfg t)"
    and "\<not> vetoes (host s) ''beforeslidechange'' (indexh s) (indexv s)"
  shows "\<exists>u. setState (getState s) t = Returned u \<and> indexh u = indexh s \<and> indexv u = indexv s \<and>
    currentSlide u = currentSlide s \<and> isPaused u = isPaused s \<and> overviewActive u = overviewActive s"
proof -
  let ?st = "getState s"
  have st: "st_indexh ?st = indexh s" "st_indexv ?st = indexv s" "st_paused ?st = isPaused s" "st_overview ?st = overviewActive s"
    by (simp_all add: getState_def Let_def indices_current)
  obtain u where u: "slide (indexh s) (indexv s) (st_indexf ?st) Undef t = Returned u" "steady t u"
    "indexh u = indexh s" "indexv u = indexv s"
    using slide_back [OF healthyD(5) [OF assms(1)] assms(2-4,7)] by blast
  let ?v = "if st_paused ?st \<noteq> isPaused u then togglePause (Some (st_paused ?st)) u else u"
  have hu: "healthy u" "cfg u = cfg t" "host u = host s" "keeps (doc t) (doc u)"
    using u(2) assms(2,4) by (simp_all add: steady_def)
  have "steady u ?v" by (simp add: steady_togglePause)
  then have v: "healthy ?v" "cfg ?v = cfg t" "host ?v = host s" "keeps (doc u) (doc ?v)" "indexh ?v = indexh s"
    "indexv ?v = indexv s" "isPaused ?v = isPaused s"
    using hu u(3,4) st(3) assms(5) by (simp_all add: steady_def togglePause_frame still_togglePause)
  let ?w = "if st_overview ?st \<noteq> overviewActive ?v then overview_toggle (Some (st_overview ?st)) ?v else Returned ?v"
  have "\<exists>w. ?w = Returned w \<and> still ?v w \<and> overviewActive w = overviewActive s"
    using activated [of ?v] deactivated [OF v(1)] v assms(6,7) unfolding st(4) overview_toggle_def
    by (auto simp: still_def)
  then obtain w where w: "?w = Returned w" "still ?v w" "overviewActive w = overviewActive s" by blast
  then have sw: "healthy w" "host w = host s" "keeps (doc ?v) (doc w)" "indexh w = indexh s" "indexv w = indexv s"
    "isPaused w = isPaused s" using v by (simp_all add: still_def steady_def)
  have "keeps (doc s) (doc w)" using assms(3) hu(4) v(4) sw(3) keeps_trans by blast
  then have "currentSlide w = currentSlide s" using same_slide healthyD(5) assms(1) sw by blast
  moreover have "setState ?st t = Returned w" by (simp only: setState_def st(1,2) u(1) and_then.simps Let_def w(1))
  ultimately show ?thesis using sw w(3) by blast
qed

theorem state_round_trip_witness:
  "\<exists>u. setState (getState (sample_at 2 0 8)) (sample_at 0 0 4) = Returned u \<and> indexh u = Num 2 \<and> currentSlide u = Some 8"
proof -
  have k: "keeps (doc (sample_at 2 0 8)) (doc (sample_at 0 0 4))"
    unfolding sample_at_def by (rule keepsI) simp_all
  have c: "host (sample_at 0 0 4) = host (sample_at 2 0 8)"
    "cfg_pause (cfg (sample_at 0 0 4))" "cfg_overview (cfg (sample_at 0 0 4))"
    "\<not> vetoes (host (sample_at 2 0 8)) ''beforeslidechange'' (indexh (sample_at 2 0 8)) (indexv (sample_at 2 0 8))"
    "indexh (sample_at 2 0 8) = Num 2" "currentSlide (sample_at 2 0 8) = Some 8"
    by (simp_all add: sample_at_def sample_defs default_config_def)
  show ?thesis using state_round_trip [OF healthy_sample(2,1) k c(1-4)] c(5,6) by auto
qed

end
