(* ===== verification/KeyBindings.thy ===== *)
theory KeyBindings
  imports SavedState
begin

text \<open>
  What follows for the keyboard (\<open>controllers/keyboard.js\<close>): a binding added at run time is the
  one that runs, a paused deck hears only the keys that resume it, and \<open>B\<close> pauses and resumes.
\<close>

section \<open>Running bindings\<close>

lemma run_bound_filter: "run_bound api code es s = run_bound api code (filter (bound_to code) es) s"
proof (induction es arbitrary: s)
  case (Cons e es)
  have "run_bound api code es = run_bound api code (filter (bound_to code) es)" using Cons.IH by (rule ext)
  then show ?case by simp
qed simp

lemma and_then_Returned [simp]: "and_then r Returned = r"
  by (cases r) simp_all

lemma run_bound_single:
  assumes "filter (bound_to code) es = [e]"
  shows "run_bound api code es s = run_action api (snd e) s"
proof -
  have "bound_to code e" using assms by (auto simp: filter_eq_Cons_iff)
  moreover have "run_bound api code [] = Returned" by (rule ext) simp
  ultimately show ?thesis using run_bound_filter [of api code es s] by (simp add: assms)
qed

text \<open>The run-time bindings are keyed by texts; no two read as the same key code.\<close>

definition bindings_ok :: "keyboard \<Rightarrow> bool" where
  "bindings_ok kb = (distinct (map fst (bindings kb)) \<and>
     list_all (\<lambda>(k, b). case parseInt k of Num i \<Rightarrow> k = show_int i | _ \<Rightarrow> True) (bindings kb))"

lemma filter_added:
  assumes "bindings_ok kb"
  shows "filter (\<lambda>(k, b). js_seq (parseInt k) (Num code)) (bindings (addKeyBinding (show_int code) key desc c kb)) =
    [(show_int code, \<lparr>bd_action = c, bd_key = key, bd_description = desc\<rparr>)]"
proof -
  have "j = show_int code" if "(j, u) \<in> set (bindings kb)" "js_seq (parseInt j) (Num code)" for j u
  proof -
    have "parseInt j = Num code" using that(2) by (cases "parseInt j") simp_all
    then show ?thesis using assms that(1) by (fastforce simp: bindings_ok_def list_all_iff)
  qed
  then show ?thesis using assms unfolding addKeyBinding_def
    by (simp add: bindings_ok_def) (rule filter_put; auto)
qed

lemma bindings_ok_add:
  assumes "bindings_ok kb"
  shows "bindings_ok (addKeyBinding (show_int code) key desc c kb)"
proof -
  let ?b = "\<lparr>bd_action = c, bd_key = key, bd_description = desc\<rparr>"
  have "distinct (map fst (put (show_int code) ?b (bindings kb)))"
    using assms keys_put [of "show_int code" "bindings kb" ?b]
    by (cases "show_int code \<in> fst ` set (bindings kb)") (simp_all add: bindings_ok_def)
  then show ?thesis
    using assms set_put [of "show_int code" ?b "bindings kb"]
    by (force simp: bindings_ok_def addKeyBinding_def list_all_iff)
qed

lemma bindings_ok_remove: "bindings_ok kb \<Longrightarrow> bindings_ok (removeKeyBinding code kb)"
  by (auto simp: bindings_ok_def removeKeyBinding_def list_all_iff distinct_map intro: inj_on_subset)

lemma bound_binding_map:
  assumes "bindings_ok (keyboard_state s)"
  shows "filter (bound_to code)
      (binding_map (s\<lparr>keyboard_state := addKeyBinding (show_int code) key desc c (keyboard_state s)\<rparr>)) = [(show_int code, c)]"
proof -
  let ?l = "bindings (addKeyBinding (show_int code) key desc c (keyboard_state s))"
  let ?P = "\<lambda>(k, b::binding). js_seq (parseInt k) (Num code)"
  have f: "bound_to code \<circ> (\<lambda>(k, b). (k, bd_action b)) = ?P"
    by (auto simp: bound_to_def fun_eq_iff)
  have "filter ?P (own_properties ?l) = [(show_int code, \<lparr>bd_action = c, bd_key = key, bd_description = desc\<rparr>)]"
    by (rule filter_own_properties [OF filter_added [OF assms]])
  then show ?thesis by (simp add: binding_map_def filter_map f)
qed

lemma bound_ex: "filter (bound_to code) es = [e] \<Longrightarrow> list_ex (bound_to code) es"
  by (auto simp: list_ex_iff filter_eq_Cons_iff)

section \<open>What a key does\<close>

lemma user_input_frame [simp]:
  "cfg (onUserInput s) = cfg s" "isPaused (onUserInput s) = isPaused s" "keyboard_state (onUserInput s) = keyboard_state s"
  by (simp_all add: onUserInput_def pauseAutoSlide_def setPlaying_def Let_def isPaused_def dispatchEvent_def)

lemma sample_not_paused [simp]: "\<not> isPaused (sample_at h v x)" "isPaused (s\<lparr>keyboard_state := k\<rparr>) = isPaused s"
  by (simp_all add: isPaused_def) (simp add: sample_at_def sample_defs, simp add: has_class_def)

text \<open>C38: A key binding added at run time is the one that runs: when the deck hears the key and the
  configuration does not bind it, exactly the bound action runs, whatever was bound to the key
  before and whatever the deck itself would do on it; the next auto-slide is cued afterwards.\<close>

theorem added_binding_runs:
  assumes "bindings_ok (keyboard_state s)"
    and "t = s\<lparr>keyboard_state := addKeyBinding (show_int (keyCode e)) key desc c (keyboard_state s)\<rparr>"
    and "condition_allows e t" and "\<not> uses_keyboard active" and "\<not> unusedModifier e" and "\<not> isPaused t"
    and "\<not> list_ex (bound_to (keyCode e)) (key_map (cfg t))"
  shows "onDocumentKeyDown api active e t =
    and_then (run_action api c (onUserInput t)) (\<lambda>u. Returned (cueAutoSlide (prevent_key e u)))"
proof -
  have "binding_map (onUserInput t) = binding_map t" by (simp add: binding_map_def)
  then have f: "filter (bound_to (keyCode e)) (binding_map (onUserInput t)) = [(show_int (keyCode e), c)]"
    using bound_binding_map [OF assms(1)] assms(2) by simp
  have "and_then (and_then r (\<lambda>u. Returned (prevent_key e u))) (\<lambda>u. Returned (cueAutoSlide u)) =
      and_then r (\<lambda>u. Returned (cueAutoSlide (prevent_key e u)))" for r by (cases r) simp_all
  then show ?thesis
    using assms(3-7) bound_ex [OF f] run_bound_single [OF f]
    by (simp add: onDocumentKeyDown_def trigger_def Let_def)
qed

theorem added_binding_runs_witness:
  "\<exists>e t. keyCode e = 78 \<and> onDocumentKeyDown (deck_api (\<lambda>_. None)) None e t =
    Returned (cueAutoSlide (prevent_key e ((onUserInput t)\<lparr>world := log_effect (PageCallback 7) (world (onUserInput t))\<rparr>)))"
proof -
  let ?e = "\<lparr>keyCode = 78, shiftKey = False, altKey = False, ctrlKey = False, metaKey = False, preventable = True\<rparr>"
  let ?s = "sample_at 0 0 4"
  let ?t = "?s\<lparr>keyboard_state := addKeyBinding (show_int (keyCode ?e)) None None (KbCallback 7) (keyboard_state ?s)\<rparr>"
  have "bindings_ok (keyboard_state ?s)" "condition_allows ?e ?t" "\<not> uses_keyboard None" "\<not> unusedModifier ?e"
    "\<not> list_ex (bound_to (keyCode ?e)) (key_map (cfg ?t))"
    by (simp_all add: bindings_ok_def sample_at_def sample_defs condition_allows_def uses_keyboard_def unusedModifier_def
        key_map_def)
  from added_binding_runs [OF this(1) refl this(2-4) _ this(5), of "deck_api (\<lambda>_. None)"]
  show ?thesis by (intro exI conjI) (auto simp: run_action_def)
qed

text \<open>A paused deck ignores every key but those that resume it: such a key leaves the deck as any
  other user input does.\<close>

lemma paused_key_ignored:
  assumes "isPaused s" and "\<not> resumes (cfg s) (keyCode e)"
  shows "onDocumentKeyDown api active e s = Returned (if condition_allows e s then onUserInput s else s)"
  using assms by (simp add: onDocumentKeyDown_def Let_def)

text \<open>The key \<open>B\<close> pauses and resumes the deck, whether it is paused or not, unless it is bound to
  something else.\<close>

lemma pause_key_toggles:
  assumes "keyCode e = 66" and "condition_allows e s" and "\<not> uses_keyboard active" and "\<not> unusedModifier e"
    and "cfg_pause (cfg s)" and "\<not> list_ex (bound_to 66) (key_map (cfg s) @ binding_map s)"
  shows "\<exists>t. onDocumentKeyDown api active e s = Returned t \<and> isPaused t = (\<not> isPaused s)"
proof -
  let ?u = "onUserInput s"
  have r: "resumes (cfg s) 66" by (simp add: resumes_def resumeKeyCodes_def)
  have "binding_map ?u = binding_map s" by (simp add: binding_map_def)
  then have "trigger api e l b ?u = Returned (prevent_key e (togglePause None ?u))" for l b
    using assms(1,6) by (simp add: trigger_def default_key_def system_key_def Let_def)
  moreover have "isPaused (cueAutoSlide (prevent_key e (togglePause None ?u))) = (\<not> isPaused s)"
  proof -
    have "isPaused (cueAutoSlide x) = isPaused x" "isPaused (prevent_key e x) = isPaused x" for x
      by (simp_all add: isPaused_def prevent_key_def prevent_def)
    then show ?thesis using assms(5) by (simp add: togglePause_def isPaused_pause isPaused_resume)
  qed
  ultimately show ?thesis using assms r by (simp add: onDocumentKeyDown_def Let_def)
qed

end
