(* ===== verification/Paths.thy ===== *)
theory Paths
  imports Dom
begin

text \<open>
  Chains of ancestors in a well-formed document: they have no cycles, any two ancestors of an
  element are comparable, and cutting elements off cuts the chains at them.
\<close>

lemma path_suffix:
  assumes "wf_dom d" "x < nextNode d" "y \<in> set (path d x)"
  shows "\<exists>us. path d x = us @ y # path d y"
  using assms(2,3)
proof (induction "path d x" arbitrary: x)
  case (Cons p ps)
  have p: "path d p = ps" "p < nextNode d"
    using wf_domD(4) [OF assms(1) Cons.prems(1)] wf_domD(3) [OF assms(1) Cons.prems(1), of p] Cons.hyps(2)
    by (metis, metis list.set_intros(1))
  show ?case
  proof (cases "y = p")
    case True
    then show ?thesis using Cons.hyps(2) p(1) by (metis append_Nil)
  next
    case False
    then have "y \<in> set (path d p)" using Cons.prems(2) Cons.hyps(2) p(1) by (metis set_ConsD)
    then obtain us where "path d p = us @ y # path d y" using Cons.hyps(1) p by metis
    then show ?thesis using Cons.hyps(2) p(1) by (metis append_Cons)
  qed
qed simp

lemma path_split:
  assumes "wf_dom d" "x < nextNode d" "path d x = us @ y # vs"
  shows "path d y = vs"
  using assms(2,3)
proof (induction us arbitrary: x)
  case Nil
  then have "path d x = y # vs" by simp
  then show ?case by (rule wf_domD(4) [OF assms(1) Nil.prems(1)])
next
  case (Cons u us)
  then have p: "path d x = u # us @ y # vs" by simp
  have "u < nextNode d" by (rule wf_domD(3) [OF assms(1) Cons.prems(1)]) (simp add: p)
  then show ?case by (rule Cons.IH) (rule wf_domD(4) [OF assms(1) Cons.prems(1) p])
qed

lemma path_acyclic: "wf_dom d \<Longrightarrow> x < nextNode d \<Longrightarrow> x \<notin> set (path d x)"
proof
  assume "wf_dom d" "x < nextNode d" "x \<in> set (path d x)"
  then obtain us where "path d x = us @ x # path d x" using path_suffix by blast
  then show False by (metis length_append length_Cons less_not_refl not_add_less2 less_add_Suc2)
qed

lemma path_comparable:
  assumes "wf_dom d" "x < nextNode d" "a \<in> set (path d x)" "b \<in> set (path d x)"
  shows "a = b \<or> a \<in> set (path d b) \<or> b \<in> set (path d a)"
proof -
  obtain us vs where "path d x = us @ a # path d a" "path d x = vs @ b # path d b"
    using path_suffix assms by metis
  then have "us @ a # path d a = vs @ b # path d b" by simp
  then show ?thesis by (auto simp: append_eq_append_conv2 Cons_eq_append_conv append_eq_Cons_conv) (metis in_set_conv_decomp)+
qed

text \<open>What lies between an element and one below it: the child on the way, and what is below that.\<close>

lemma between_child:
  assumes d: "wf_dom d" "x < nextNode d" "r < nextNode d" and c: "c \<in> set (childNodes d r)" "c \<in> set (path d x)"
    and y: "y \<in> set (path d x)"
  shows "r \<in> set (path d y) \<longleftrightarrow> y = c \<or> c \<in> set (path d y)"
proof -
  have pc: "path d c = r # path d r" using c(1) by (simp add: childNodes_def)
  have yn: "y < nextNode d" using wf_domD(3) [OF d(1,2) y] .
  show ?thesis
  proof
    assume ry: "r \<in> set (path d y)"
    have "y \<notin> set (path d c)"
    proof
      assume "y \<in> set (path d c)"
      then consider "y = r" | "y \<in> set (path d r)" using pc by auto
      then show False
      proof cases
        case 1
        then show False using ry path_acyclic d by blast
      next
        case 2
        then have "r \<in> set (path d r)" using path_trans [OF d(1)] ry d(3) by blast
        then show False using path_acyclic d by blast
      qed
    qed
    then show "y = c \<or> c \<in> set (path d y)" using path_comparable [OF d(1,2) y c(2)] by blast
  next
    assume "y = c \<or> c \<in> set (path d y)"
    then show "r \<in> set (path d y)" using pc path_trans [OF d(1)] yn by auto
  qed
qed

lemma child_below:
  assumes "wf_dom d" "x < nextNode d" "r \<in> set (path d x)"
  shows "\<exists>c. path d c = r # path d r \<and> (c = x \<or> c \<in> set (path d x))"
  using assms(2,3)
proof (induction "path d x" arbitrary: x)
  case (Cons p ps)
  have p: "path d p = ps" "p < nextNode d" "path d x = p # ps"
    using wf_domD(4) [OF assms(1) Cons.prems(1)] wf_domD(3) [OF assms(1) Cons.prems(1), of p] Cons.hyps(2)
    by (metis, metis list.set_intros(1), metis)
  show ?case
  proof (cases "r = p")
    case False
    then have "r \<in> set (path d p)" using Cons.prems(2) p by simp
    from Cons.hyps(1) [OF p(1) [symmetric] p(2) this] show ?thesis using p(1,3) by auto
  qed (use p in auto)
qed simp

text \<open>A document whose elements have all their ancestors in it.\<close>

definition rooted :: "dom \<Rightarrow> bool" where
  "rooted d = (wf_dom d \<and> list_all (\<lambda>x. set (path d x) \<subseteq> set (order d)) (order d))"

lemma rootedD: "rooted d \<Longrightarrow> wf_dom d" "rooted d \<Longrightarrow> x \<in> set (order d) \<Longrightarrow> x < nextNode d"
  "rooted d \<Longrightarrow> x \<in> set (order d) \<Longrightarrow> y \<in> set (path d x) \<Longrightarrow> y \<in> set (order d)"
  using wf_domD(2) by (auto simp: rooted_def list_all_iff)


section \<open>Cutting elements off\<close>

text \<open>What is left of a chain of ancestors: it ends at the first element cut off.\<close>

definition up_to :: "node list \<Rightarrow> node list \<Rightarrow> node list" where
  "up_to cs p = takeWhile (\<lambda>y. y \<notin> set cs) p @ take 1 (dropWhile (\<lambda>y. y \<notin> set cs) p)"

lemma up_to_Nil [simp]: "up_to cs [] = []" "up_to [] p = p"
  by (induction p) (simp_all add: up_to_def)

lemma up_to_Cons: "up_to cs (y # p) = (if y \<in> set cs then [y] else y # up_to cs p)"
  by (simp add: up_to_def)

lemma up_to_up_to: "up_to cs (up_to [c] p) = up_to (c # cs) p"
  by (induction p) (simp_all add: up_to_Cons)

lemma up_to_disjoint: "set p \<inter> set cs = {} \<Longrightarrow> up_to cs p = p"
  by (induction p) (simp_all add: up_to_Cons)

lemma up_to_prefix: "p = us @ y # vs \<Longrightarrow> set us \<inter> set cs = {} \<Longrightarrow> y \<in> set cs \<Longrightarrow> up_to cs p = us @ [y]"
  by (induction us arbitrary: p) (simp_all add: up_to_Cons)

lemma path_removeNode: "path (removeNode c d) x = (if x = c then [] else up_to [c] (path d x))"
proof -
  have "up_to [c] p = (if c \<in> set p then takeWhile (\<lambda>y. y \<noteq> c) p @ [c] else p)" for p
    by (induction p) (auto simp: up_to_Cons)
  then show ?thesis by (simp add: removeNode_def repath_def)
qed

lemma path_remove_all: "path (for_each removeNode cs d) x = (if x \<in> set cs then [] else up_to cs (path d x))"
proof (induction cs arbitrary: d)
  case (Cons c cs)
  then show ?case by (auto simp: path_removeNode up_to_up_to)
qed simp

lemma remove_all_frame [simp]:
  "order (for_each removeNode cs d) = order d" "tag (for_each removeNode cs d) = tag d"
  "attr (for_each removeNode cs d) = attr d" "cls (for_each removeNode cs d) = cls d"
  by (induction cs arbitrary: d) (simp_all add: removeNode_def)

lemma is_desc_remove_all:
  assumes wf: "wf_dom d" "w < nextNode d" "x < nextNode d" and below: "\<And>c. c \<in> set cs \<Longrightarrow> is_desc d w c"
  shows "is_desc (for_each removeNode cs d) w x \<longleftrightarrow> is_desc d w x \<and> x \<notin> set cs \<and> set (path d x) \<inter> set cs = {}"
proof (cases "x \<notin> set cs \<and> set (path d x) \<inter> set cs \<noteq> {}")
  case True
  then have "\<exists>y\<in>set (path d x). y \<in> set cs" by blast
  then obtain us y vs where p: "path d x = us @ y # vs" "y \<in> set cs" "\<forall>z\<in>set us. z \<notin> set cs"
    by (elim split_list_first_propE)
  then have cut: "path (for_each removeNode cs d) x = us @ [y]"
    using True path_remove_all [of cs d x] up_to_prefix [OF p(1) _ p(2)] by (auto simp: disjoint_iff)
  have y: "y \<in> set (path d x)" "y < nextNode d" "w \<in> set (path d y)"
    using p wf_domD(3) [OF wf(1,3), of y] below by (auto simp: is_desc_def)
  have "w \<notin> set (us @ [y])"
  proof
    assume "w \<in> set (us @ [y])"
    moreover have "w \<noteq> y" using y path_acyclic [OF wf(1), of y] by blast
    ultimately obtain us1 us2 where us: "us = us1 @ w # us2" by (auto simp: in_set_conv_decomp)
    have "path d w = us2 @ y # vs" using path_split [OF wf(1,3), of us1 w] p(1) us by simp
    then have "y \<in> set (path d w)" by simp
    then have "w \<in> set (path d w)" using path_trans [OF wf(1,2)] y(3) by blast
    then show False using path_acyclic wf by blast
  qed
  then show ?thesis using cut True by (simp add: is_desc_def disjoint_iff)
next
  case False
  then show ?thesis using up_to_disjoint [of "path d x" cs] by (auto simp: is_desc_def path_remove_all)
qed

end
