(* ===== verification/Render.thy ===== *)
theory Render
  imports Overlay Paths
begin

text \<open>
  Setting up the document before the first slide is shown: the viewport, the removal of hidden
  slides, and the elements the controllers create in \<open>render\<close>; \<open>refs\<close> keeps what they find. White
  space between the buttons of the controls is left out.
\<close>

section \<open>The viewport\<close>

definition documentElement :: "dom \<Rightarrow> node option" where
  "documentElement d = first_opt (filter (\<lambda>x. tag d x = ''html'' \<and> path d x = []) (order d))"

definition document_body :: "dom \<Rightarrow> node option" where
  "document_body d = (case documentElement d of
       Some r \<Rightarrow> first_opt (filter (\<lambda>x. tag d x = ''body'') (childNodes d r))
     | None \<Rightarrow> None)"

definition own_viewport :: "reveal \<Rightarrow> node option" where
  "own_viewport s =
     (if cfg_embedded (cfg s)
      then Some (case closest (doc s) (wrapper (host s)) (has_class ''reveal-viewport'' (doc s)) of
                   Some x \<Rightarrow> x | None \<Rightarrow> wrapper (host s))
      else document_body (doc s))"

definition mark_full_page :: "reveal \<Rightarrow> reveal" where
  "mark_full_page s =
     (if cfg_embedded (cfg s) then s
      else case documentElement (doc s) of
          Some r \<Rightarrow> s\<lparr>doc := add_class ''reveal-full-page'' r (doc s)\<rparr>
        | None \<Rightarrow> s)"

text \<open>A document that is not embedded has a body; the class of a missing one cannot be written.\<close>

definition setViewport :: "reveal \<Rightarrow> outcome" where
  "setViewport s =
     (let s1 = mark_full_page s in
      case own_viewport s of
        Some x \<Rightarrow> Returned (s1\<lparr>host := (host s1)\<lparr>viewport := x\<rparr>, doc := add_class ''reveal-viewport'' x (doc s1)\<rparr>)
      | None \<Rightarrow> Threw TypeError s1)"

section \<open>Hidden slides\<close>

definition hidden_slide :: "dom \<Rightarrow> node \<Rightarrow> bool" where
  "hidden_slide d x = (is_section d x \<and> get_attr ''data-visibility'' d x = Some ''hidden'')"

definition removeHiddenSlides :: "reveal \<Rightarrow> reveal" where
  "removeHiddenSlides s =
     (if cfg_showHiddenSlides (cfg s) then s
      else s\<lparr>doc := for_each removeNode (queryAll (doc s) (wrapper (host s)) (hidden_slide (doc s))) (doc s)\<rparr>)"

section \<open>The elements of the controllers\<close>

definition new_child :: "string \<Rightarrow> string \<Rightarrow> node \<Rightarrow> dom \<Rightarrow> node \<times> dom" where
  "new_child tagname classname p d =
     (let (n, d1) = createElement tagname d in (n, appendChild p n (add_class classname n d1)))"

definition backgrounds_render :: "reveal \<Rightarrow> reveal" where
  "backgrounds_render s =
     (let (n, d) = new_child ''div'' ''backgrounds'' (wrapper (host s)) (doc s)
      in s\<lparr>doc := d, refs := (refs s)\<lparr>backgroundsEl := n\<rparr>\<rparr>)"

definition slideNumber_render :: "reveal \<Rightarrow> reveal" where
  "slideNumber_render s =
     (let (n, d) = new_child ''div'' ''slide-number'' (wrapper (host s)) (doc s)
      in s\<lparr>doc := d, refs := (refs s)\<lparr>slideNumberEl := Some n\<rparr>\<rparr>)"

definition progress_render :: "reveal \<Rightarrow> reveal" where
  "progress_render s =
     (let (n, d) = new_child ''div'' ''progress'' (wrapper (host s)) (doc s);
          (b, d1) = createElement ''span'' d
      in s\<lparr>doc := appendChild n b d1, refs := (refs s)\<lparr>progressEl := n, progressBar := Some b\<rparr>\<rparr>)"

definition notes_render :: "reveal \<Rightarrow> reveal" where
  "notes_render s =
     (let (n, d) = createElement ''div'' (doc s);
          d1 = set_attr ''tabindex'' ''0'' n (set_attr ''data-prevent-swipe'' [] n (add_class ''speaker-notes'' n d))
      in s\<lparr>doc := appendChild (wrapper (host s)) n d1, refs := (refs s)\<lparr>notesEl := Some n\<rparr>\<rparr>)"

text \<open>The markup of the controls: four buttons with an arrow each.\<close>

definition controls_button :: "node \<Rightarrow> string \<times> string \<Rightarrow> dom \<Rightarrow> dom" where
  "controls_button el e d =
     (let (classname, label) = e; (b, d1) = new_child ''button'' classname el d
      in snd (new_child ''div'' ''controls-arrow'' b (set_attr ''aria-label'' label b d1)))"

definition controls_buttons :: "bool \<Rightarrow> (string \<times> string) list" where
  "controls_buttons rtl =
     [(''navigate-left'', if rtl then ''next slide'' else ''previous slide''),
      (''navigate-right'', if rtl then ''previous slide'' else ''next slide''),
      (''navigate-up'', ''above slide''), (''navigate-down'', ''below slide'')]"

definition find_controls :: "node \<Rightarrow> node \<Rightarrow> dom \<Rightarrow> refs \<Rightarrow> refs" where
  "find_controls w el d r =
     (let all = (\<lambda>c. queryAll d w (has_class c d)); own = (\<lambda>c. hd (queryAll d el (has_class c d)))
      in r\<lparr>controlsEl := el,
           controlsLeft := all ''navigate-left'', controlsRight := all ''navigate-right'',
           controlsUp := all ''navigate-up'', controlsDown := all ''navigate-down'',
           controlsPrev := all ''navigate-prev'', controlsNext := all ''navigate-next'',
           controlsRightArrow := own ''navigate-right'', controlsLeftArrow := own ''navigate-left'',
           controlsDownArrow := own ''navigate-down''\<rparr>)"

definition controls_render :: "reveal \<Rightarrow> reveal" where
  "controls_render s =
     (let (el, d) = createElement ''aside'' (doc s);
          d1 = fold (controls_button el) (controls_buttons (cfg_rtl (cfg s))) (add_class ''controls'' el d);
          d2 = appendChild (wrapper (host s)) el d1
      in s\<lparr>doc := d2, refs := find_controls (wrapper (host s)) el d2 (refs s)\<rparr>)"

text \<open>A status element that is there already is taken over.\<close>

definition createStatusElement :: "reveal \<Rightarrow> node \<times> dom" where
  "createStatusElement s =
     (let w = wrapper (host s) in
      case querySel (doc s) w (has_class ''aria-status'' (doc s)) of
        Some x \<Rightarrow> (x, doc s)
      | None \<Rightarrow>
         (let (n, d) = createElement ''div'' (doc s);
              d1 = set_style ''clip'' (Css ''rect( 1px, 1px, 1px, 1px )'') n
                    (set_style ''overflow'' (Css ''hidden'') n (set_style ''width'' (Px 1) n
                     (set_style ''height'' (Px 1) n (set_style ''position'' (Css ''absolute'') n d))));
              d2 = set_attr ''aria-atomic'' ''true'' n (set_attr ''aria-live'' ''polite'' n (add_class ''aria-status'' n d1))
          in (n, appendChild w n d2)))"

definition resume_button :: "config \<Rightarrow> string" where
  "resume_button c = (if cfg_controls c then ''<button class=\"resume-button\">Resume presentation</button>'' else [])"

definition create_pause_overlay :: "reveal \<Rightarrow> reveal" where
  "create_pause_overlay s =
     (let (n, d) = createSingletonNode (wrapper (host s)) ''div'' ''pause-overlay'' (resume_button (cfg s)) (doc s)
      in s\<lparr>doc := d, refs := (refs s)\<lparr>pauseOverlay := n\<rparr>\<rparr>)"

definition create_status :: "reveal \<Rightarrow> reveal" where
  "create_status s =
     (let (n, d) = createStatusElement s
      in s\<lparr>doc := set_attr ''role'' ''application'' (wrapper (host s)) d, refs := (refs s)\<lparr>statusElement := n\<rparr>\<rparr>)"

definition setupDOM :: "reveal \<Rightarrow> reveal" where
  "setupDOM s =
     (let w = wrapper (host s);
          d = add_class ''no-transition'' (slidesEl (host s)) (doc s);
          s1 = s\<lparr>doc := (if isMobile (host s) then add_class else remove_class) ''no-hover'' w d\<rparr>
      in create_status (create_pause_overlay (notes_render (progress_render (controls_render
           (slideNumber_render (backgrounds_render s1)))))))"

section \<open>Listeners of the whole page\<close>

definition setupFullscreen :: "world \<Rightarrow> world" where
  "setupFullscreen w =
     addEventListener LDocument ''webkitfullscreenchange'' ''onFullscreenChange''
       (addEventListener LDocument ''fullscreenchange'' ''onFullscreenChange'' w)"

definition setupPostMessage :: "config \<Rightarrow> world \<Rightarrow> world" where
  "setupPostMessage c w = (if cfg_postMessage c then addEventListener LWindow ''message'' ''onPostMessage'' w else w)"

section \<open>The slides that are left\<close>

text \<open>C37: Once the hidden slides are removed, exactly those elements are left in the deck that were in it, are
  no hidden slide and are inside none.\<close>

theorem hidden_slides_gone:
  assumes "wf_page (wrapper (host s)) (doc s)" "x \<in> set (order (doc s))" "\<not> cfg_showHiddenSlides (cfg s)"
  shows "is_desc (doc (removeHiddenSlides s)) (wrapper (host s)) x \<longleftrightarrow> is_desc (doc s) (wrapper (host s)) x \<and>
    (\<forall>y\<in>set (x # path (doc s) x). y \<in> set (order (doc s)) \<and> is_desc (doc s) (wrapper (host s)) y \<longrightarrow> \<not> hidden_slide (doc s) y)"
proof -
  let ?d = "doc s" and ?w = "wrapper (host s)"
  let ?hs = "queryAll ?d ?w (hidden_slide ?d)"
  have hs: "y \<in> set ?hs \<longleftrightarrow> y \<in> set (order ?d) \<and> is_desc ?d ?w y \<and> hidden_slide ?d y" for y by (simp add: queryAll_def)
  have wf: "wf_dom ?d" "?w < nextNode ?d" "x < nextNode ?d" using assms(1,2) wf_domD(2) by (auto simp: wf_page_def)
  have "is_desc (for_each removeNode ?hs ?d) ?w x \<longleftrightarrow> is_desc ?d ?w x \<and> x \<notin> set ?hs \<and> set (path ?d x) \<inter> set ?hs = {}"
    by (rule is_desc_remove_all [OF wf]) (simp add: hs)
  also have "\<dots> \<longleftrightarrow> is_desc ?d ?w x \<and> (\<forall>y\<in>set (x # path ?d x). y \<notin> set ?hs)" by auto
  also have "\<dots> \<longleftrightarrow> is_desc ?d ?w x \<and> (\<forall>y\<in>set (x # path ?d x). y \<in> set (order ?d) \<and> is_desc ?d ?w y \<longrightarrow> \<not> hidden_slide ?d y)"
    unfolding hs by blast
  finally show ?thesis using assms(3) by (simp add: removeHiddenSlides_def)
qed

theorem hidden_slides_gone_witness: "is_desc (doc (removeHiddenSlides sample)) 2 6"
proof -
  have w: "wf_page (wrapper (host sample)) (doc sample)"
    using sample_wf by (simp add: wf_page_def sample_def sample_host_def) (simp add: sample_dom_def)
  have "is_desc (doc (removeHiddenSlides sample)) (wrapper (host sample)) 6 \<longleftrightarrow> is_desc (doc sample) (wrapper (host sample)) 6 \<and>
    (\<forall>y\<in>set (6 # path (doc sample) 6). y \<in> set (order (doc sample)) \<and> is_desc (doc sample) (wrapper (host sample)) y \<longrightarrow>
       \<not> hidden_slide (doc sample) y)"
    by (rule hidden_slides_gone [OF w]) (simp_all add: sample_def sample_dom_def default_config_def)
  then show ?thesis by (simp add: sample_def sample_host_def sample_dom_def is_desc_def hidden_slide_def get_attr_def)
qed

end
