(* ===== verification/Listeners.thy ===== *)
theory Listeners
  imports Session Render
begin

text \<open>
  Binding and unbinding the input of the deck: \<open>addEventListeners\<close> and \<open>removeEventListeners\<close> of
  \<open>reveal.js\<close>, and what they make of the set of listeners.
\<close>

section \<open>Listeners\<close>

definition listens :: "bool \<Rightarrow> (world \<Rightarrow> world) \<Rightarrow> reveal \<Rightarrow> reveal" where
  "listens b f s = (if b then s\<lparr>world := f (world s)\<rparr> else s)"

fun truthy_kb :: "kb_config \<Rightarrow> bool" where
  "truthy_kb (KbBool b) = b"
| "truthy_kb (KbMap m) = True"

definition page_listeners :: "(ltarget \<Rightarrow> string \<Rightarrow> string \<Rightarrow> world \<Rightarrow> world) \<Rightarrow> reveal \<Rightarrow> world \<Rightarrow> world" where
  "page_listeners f s w =
     f (LNode (pauseOverlay (refs s))) ''click'' ''resume''
       (f (LNode (slidesEl (host s))) ''transitionend'' ''onTransitionEnd''
         (f (LNode (slidesEl (host s))) ''click'' ''onSlidesClicked'' w))"

definition addEventListeners :: "pointer_support \<Rightarrow> reveal \<Rightarrow> reveal" where
  "addEventListeners p s =
     (let c = cfg s; h = host s; r = refs s;
          s1 = listens True (addEventListener LWindow ''resize'' ''onWindowResize'') (s\<lparr>eventsAreBound := True\<rparr>);
          s2 = listens (cfg_touch c) (touch_bind p (wrapper h)) s1;
          s3 = listens (truthy_kb (cfg_keyboard c)) keyboard_bind s2;
          s4 = listens (cfg_progress c) (progress_bind c r) s3;
          s5 = listens (cfg_respondToHashChanges c) location_bind s4;
          s6 = focus_bind (listens True (controls_bind h r) s5);
          s7 = listens True (page_listeners addEventListener s) s6
      in listens (cfg_focusBodyOnPageVisibilityChange c)
           (addEventListener LDocument ''visibilitychange'' ''onPageVisibilityChange'') s7)"

definition removeEventListeners :: "reveal \<Rightarrow> reveal" where
  "removeEventListeners s =
     (let c = cfg s; h = host s; r = refs s;
          s1 = focus_unbind (listens True (touch_unbind (wrapper h)) (s\<lparr>eventsAreBound := False\<rparr>));
          s2 = listens True keyboard_unbind s1;
          s3 = listens True (controls_unbind r) s2;
          s4 = listens True (progress_unbind c r) s3;
          s5 = listens True location_unbind s4;
          s6 = listens True (removeEventListener LWindow ''resize'' ''onWindowResize'') s5
      in listens True (page_listeners removeEventListener s) s6)"

section \<open>What is bound\<close>

text \<open>The listeners of the navigation arrows for one kind of event, and those of the whole deck.\<close>

definition arrow_listeners :: "refs \<Rightarrow> string \<Rightarrow> listener set" where
  "arrow_listeners r ty =
     (\<lambda>x. (LNode x, ty, ''onNavigateLeftClicked'')) ` set (controlsLeft r) \<union>
     (\<lambda>x. (LNode x, ty, ''onNavigateRightClicked'')) ` set (controlsRight r) \<union>
     (\<lambda>x. (LNode x, ty, ''onNavigateUpClicked'')) ` set (controlsUp r) \<union>
     (\<lambda>x. (LNode x, ty, ''onNavigateDownClicked'')) ` set (controlsDown r) \<union>
     (\<lambda>x. (LNode x, ty, ''onNavigatePrevClicked'')) ` set (controlsPrev r) \<union>
     (\<lambda>x. (LNode x, ty, ''onNavigateNextClicked'')) ` set (controlsNext r)"

definition touch_listeners :: "node \<Rightarrow> pointer_support \<Rightarrow> listener set" where
  "touch_listeners el p = (\<lambda>(ty, h). (LNode el, ty, h)) ` set (touch_events p)"

definition keyboard_listeners :: "listener set" where
  "keyboard_listeners = {(LDocument, ''keydown'', ''onDocumentKeyDown''), (LDocument, ''keypress'', ''onDocumentKeyPress'')}"

definition progress_listeners :: "config \<Rightarrow> refs \<Rightarrow> listener set" where
  "progress_listeners c r = (if cfg_progress c then {(LNode (progressEl r), ''click'', ''onProgressClicked'')} else {})"

definition hash_listener :: listener where
  "hash_listener = (LWindow, ''hashchange'', ''onWindowHashChange'')"

definition resize_listener :: listener where
  "resize_listener = (LWindow, ''resize'', ''onWindowResize'')"

definition page_handlers :: "reveal \<Rightarrow> listener set" where
  "page_handlers s =
     {(LNode (slidesEl (host s)), ''click'', ''onSlidesClicked''),
      (LNode (slidesEl (host s)), ''transitionend'', ''onTransitionEnd''), (LNode (pauseOverlay (refs s)), ''click'', ''resume'')}"

definition focus_listener :: "reveal \<Rightarrow> listener" where
  "focus_listener s = (LNode (wrapper (host s)), ''pointerdown'', ''onRevealPointerDown'')"

definition visibility_listener :: listener where
  "visibility_listener = (LDocument, ''visibilitychange'', ''onPageVisibilityChange'')"

definition bound_listeners :: "pointer_support \<Rightarrow> reveal \<Rightarrow> listener set" where
  "bound_listeners p s =
     {resize_listener} \<union> (if cfg_touch (cfg s) then touch_listeners (wrapper (host s)) p else {}) \<union>
     (if truthy_kb (cfg_keyboard (cfg s)) then keyboard_listeners else {}) \<union> progress_listeners (cfg s) (refs s) \<union>
     (if cfg_respondToHashChanges (cfg s) then {hash_listener} else {}) \<union>
     (arrow_listeners (refs s) ''touchstart'' \<union> (if isAndroid (host s) then {} else arrow_listeners (refs s) ''click'')) \<union>
     (if cfg_embedded (cfg s) then {focus_listener s} else {}) \<union> page_handlers s \<union>
     (if cfg_focusBodyOnPageVisibilityChange (cfg s) then {visibility_listener} else {})"

definition unbound_listeners :: "reveal \<Rightarrow> listener set" where
  "unbound_listeners s =
     (\<Union>p. touch_listeners (wrapper (host s)) p) \<union> {focus_listener s, (LDocument, ''pointerdown'', ''onDocumentPointerDown'')} \<union>
     keyboard_listeners \<union> (arrow_listeners (refs s) ''touchstart'' \<union> arrow_listeners (refs s) ''click'') \<union>
     progress_listeners (cfg s) (refs s) \<union> {hash_listener} \<union> {resize_listener} \<union> page_handlers s"

lemma diff_diff: "A - B - C = A - (B \<union> C)"
  by blast

lemma listeners_add_remove [simp]:
  "listeners (addEventListener t ty h w) = insert (t, ty, h) (listeners w)"
  "listeners (removeEventListener t ty h w) = listeners w - {(t, ty, h)}"
  by (simp_all add: addEventListener_def removeEventListener_def)

lemma listeners_controls_type:
  "listeners (controls_bind_type r ty w) = listeners w \<union> arrow_listeners r ty"
  "listeners (controls_unbind_type r ty w) = listeners w - arrow_listeners r ty"
proof -
  have im: "{(LNode x, ty, h) |x. x \<in> set xs} = (\<lambda>x. (LNode x, ty, h)) ` set xs" for h :: string and xs by blast
  show "listeners (controls_bind_type r ty w) = listeners w \<union> arrow_listeners r ty"
    by (simp only: controls_bind_type_def listeners_bind_all im arrow_listeners_def Un_assoc)
  show "listeners (controls_unbind_type r ty w) = listeners w - arrow_listeners r ty"
    by (simp only: controls_unbind_type_def listeners_unbind_all im arrow_listeners_def diff_diff Un_assoc)
qed

lemma listeners_touch:
  "listeners (touch_bind p el w) = listeners w \<union> touch_listeners el p"
  "listeners (touch_unbind el w) = listeners w - (\<Union>p. touch_listeners el p)"
proof -
  have add: "listeners (fold (\<lambda>(ty, h). addEventListener (LNode el) ty h) es w) = listeners w \<union> (\<lambda>(ty, h). (LNode el, ty, h)) ` set es" for es w
    by (induction es arbitrary: w) auto
  have rem: "listeners (fold (\<lambda>(ty, h). removeEventListener (LNode el) ty h) es w) = listeners w - (\<lambda>(ty, h). (LNode el, ty, h)) ` set es" for es w
    by (induction es arbitrary: w) auto
  show "listeners (touch_bind p el w) = listeners w \<union> touch_listeners el p"
    by (simp add: touch_bind_def touch_listeners_def add)
  have u: "UNIV = {PointerEvents, MSPointerEvents, TouchEvents}" using pointer_support.exhaust by blast
  have all: "(\<Union>p. touch_listeners el p) = touch_listeners el PointerEvents \<union> (touch_listeners el MSPointerEvents \<union> touch_listeners el TouchEvents)"
    by (simp only: u UN_insert UN_empty Un_empty_right)
  show "listeners (touch_unbind el w) = listeners w - (\<Union>p. touch_listeners el p)"
    unfolding all touch_unbind_def rem by (simp only: touch_listeners_def set_append image_Un Un_assoc)
qed

lemma listens_frame [simp]:
  "cfg (listens b f s) = cfg s" "host (listens b f s) = host s" "refs (listens b f s) = refs s" "doc (listens b f s) = doc s"
  "world (listens b f s) = (if b then f (world s) else world s)"
  by (simp_all add: listens_def)

lemma focus_bind_frame [simp]:
  "cfg (focus_bind s) = cfg s" "host (focus_bind s) = host s" "refs (focus_bind s) = refs s" "doc (focus_bind s) = doc s"
  "cfg (focus_unbind s) = cfg s" "host (focus_unbind s) = host s" "refs (focus_unbind s) = refs s" "doc (focus_unbind s) = doc s"
  by (simp_all add: focus_bind_def focus_unbind_def)

lemma bindings_frame [simp]:
  "cfg (addEventListeners p s) = cfg s" "host (addEventListeners p s) = host s" "refs (addEventListeners p s) = refs s"
  "doc (addEventListeners p s) = doc s"
  "cfg (removeEventListeners s) = cfg s" "host (removeEventListeners s) = host s" "refs (removeEventListeners s) = refs s"
  "doc (removeEventListeners s) = doc s"
  by (simp_all add: addEventListeners_def removeEventListeners_def Let_def)

lemma listeners_parts:
  "listeners (page_listeners addEventListener s w) = listeners w \<union> page_handlers s"
  "listeners (page_listeners removeEventListener s w) = listeners w - page_handlers s"
  "listeners (keyboard_bind w) = listeners w \<union> keyboard_listeners"
  "listeners (keyboard_unbind w) = listeners w - keyboard_listeners"
  "listeners (progress_bind c r w) = listeners w \<union> progress_listeners c r"
  "listeners (progress_unbind c r w) = listeners w - progress_listeners c r"
  "listeners (location_bind w) = listeners w \<union> {hash_listener}"
  "listeners (location_unbind w) = listeners w - {hash_listener}"
  by (auto simp: page_listeners_def page_handlers_def keyboard_bind_def keyboard_unbind_def keyboard_listeners_def
      progress_bind_def progress_unbind_def progress_listeners_def location_bind_def location_unbind_def hash_listener_def)

lemma listeners_controls:
  "listeners (controls_bind h r w) = listeners w \<union> (arrow_listeners r ''touchstart'' \<union> (if isAndroid h then {} else arrow_listeners r ''click''))"
  "listeners (controls_unbind r w) = listeners w - (arrow_listeners r ''touchstart'' \<union> arrow_listeners r ''click'')"
  by (simp_all add: controls_bind_def controls_unbind_def listeners_controls_type diff_diff Un_assoc)

lemma listeners_focus:
  "listeners (world (focus_bind s)) = listeners (world s) \<union> (if cfg_embedded (cfg s) then {focus_listener s} else {})"
  "listeners (world (focus_unbind s)) = listeners (world s) - {focus_listener s, (LDocument, ''pointerdown'', ''onDocumentPointerDown'')}"
  by (auto simp: focus_bind_def focus_unbind_def focus_listener_def)

lemma listeners_bound: "listeners (world (addEventListeners p s)) = listeners (world s) \<union> bound_listeners p s"
proof -
  have r: "listeners (addEventListener LWindow ''resize'' ''onWindowResize'' w) = listeners w \<union> {resize_listener}"
    and v: "listeners (addEventListener LDocument ''visibilitychange'' ''onPageVisibilityChange'' w) = listeners w \<union> {visibility_listener}" for w
    by (simp_all add: resize_listener_def visibility_listener_def)
  have if_world: "listeners (if b then f w else w) = listeners w \<union> (if b then A else {})" if "\<And>w. listeners (f w) = listeners w \<union> A" for b f w A
    using that by simp
  have p: "(if cfg_progress c then progress_listeners c r else {}) = progress_listeners c r" for c r by (simp add: progress_listeners_def)
  have same: "focus_listener (listens b f t) = focus_listener t" "page_handlers (listens b f t) = page_handlers t"
    "cfg (s\<lparr>eventsAreBound := e\<rparr>) = cfg s" "world (s\<lparr>eventsAreBound := e\<rparr>) = world s"
    "focus_listener (s\<lparr>eventsAreBound := e\<rparr>) = focus_listener s" for b f t e
    by (simp_all add: focus_listener_def page_handlers_def)
  note part = if_world [OF r] if_world [OF v] if_world [OF listeners_touch(1)] if_world [OF listeners_parts(3)] if_world [OF listeners_parts(5)]
    if_world [OF listeners_parts(7)] if_world [OF listeners_controls(1)] if_world [OF listeners_parts(1)]
  show ?thesis
    by (simp only: addEventListeners_def Let_def listens_frame part listeners_parts listeners_controls(1) r
        listeners_focus(1) p same if_True bound_listeners_def Un_assoc)
qed

lemma listeners_unbound: "listeners (world (removeEventListeners s)) = listeners (world s) - unbound_listeners s"
proof -
  have r: "listeners (removeEventListener LWindow ''resize'' ''onWindowResize'' w) = listeners w - {resize_listener}" for w
    by (simp add: resize_listener_def)
  have same: "focus_listener (listens b f t) = focus_listener t" "world (s\<lparr>eventsAreBound := e\<rparr>) = world s"
    "focus_listener (s\<lparr>eventsAreBound := e\<rparr>) = focus_listener s" for b f t e
    by (simp_all add: focus_listener_def)
  show ?thesis
    by (simp only: removeEventListeners_def Let_def listens_frame listeners_focus(2) same if_True unbound_listeners_def
        listeners_touch(2) listeners_parts listeners_controls(2) r diff_diff Un_assoc)
qed

section \<open>Binding and unbinding\<close>

lemma visibility_is_no_other: "visibility_listener \<notin> unbound_listeners s"
proof -
  have "visibility_listener \<notin> touch_listeners el p" "visibility_listener \<notin> arrow_listeners r ty"
    "visibility_listener \<notin> keyboard_listeners" "visibility_listener \<notin> progress_listeners c r"
    "visibility_listener \<notin> page_handlers s" "visibility_listener \<noteq> hash_listener" "visibility_listener \<noteq> focus_listener s"
    "visibility_listener \<noteq> resize_listener" for el p r ty c
    by (auto simp: visibility_listener_def touch_listeners_def arrow_listeners_def keyboard_listeners_def progress_listeners_def
        page_handlers_def hash_listener_def focus_listener_def resize_listener_def)
  then show ?thesis by (simp add: unbound_listeners_def) (simp add: visibility_listener_def)
qed

lemma bound_unbound: "bound_listeners p s \<subseteq> unbound_listeners s \<union> {visibility_listener}"
  unfolding bound_listeners_def unbound_listeners_def
  by (intro Un_least) (simp_all split: if_split, blast+)

lemma visibility_bound: "visibility_listener \<in> bound_listeners p s \<longleftrightarrow> cfg_focusBodyOnPageVisibilityChange (cfg s)"
proof -
  have "bound_listeners p s - (if cfg_focusBodyOnPageVisibilityChange (cfg s) then {visibility_listener} else {}) \<subseteq> unbound_listeners s"
    unfolding bound_listeners_def unbound_listeners_def by (simp split: if_split) blast
  then show ?thesis using visibility_is_no_other [of s] by (auto simp: bound_listeners_def split: if_splits)
qed

text \<open>C36: Unbinding the input of the deck takes away every listener that binding it has added, except
  that for changes of the visibility of the page; the listeners of others stay.\<close>

theorem unbinding_undoes_binding:
  "listeners (world (removeEventListeners (addEventListeners p s))) =
     listeners (world s) - unbound_listeners s \<union>
     (if cfg_focusBodyOnPageVisibilityChange (cfg s) then {visibility_listener} else {})"
proof -
  have "unbound_listeners (addEventListeners p s) = unbound_listeners s"
    by (simp add: unbound_listeners_def page_handlers_def focus_listener_def)
  then have l: "listeners (world (removeEventListeners (addEventListeners p s))) =
      (listeners (world s) \<union> bound_listeners p s) - unbound_listeners s"
    by (simp only: listeners_unbound listeners_bound)
  show ?thesis
    using bound_unbound [of p s] visibility_bound [of p s] visibility_is_no_other [of s] unfolding l
    by (cases "cfg_focusBodyOnPageVisibilityChange (cfg s)") (simp_all, blast+)
qed

end
