(* ===== verification/Backdrop.thy ===== *)
theory Backdrop
  imports Paths Backgrounds
begin

text \<open>
  Creating the backgrounds anew (\<open>create\<close> of \<open>controllers/backgrounds.js\<close>) leaves the slides
  alone: what is cleared and what is built hangs apart from the sections.
\<close>

section \<open>Elements apart from the slides\<close>

definition apart :: "dom \<Rightarrow> node \<Rightarrow> bool" where
  "apart d x = (x < nextNode d \<and> \<not> is_section d x \<and> (\<forall>y\<in>set (sections d). x \<notin> set (path d y)))"

lemma apart_kept:
  assumes "same_sections w d d'" "wf_page w d" "apart d x"
  shows "apart d' x"
proof -
  have k: "keeps d d'" "nextNode d \<le> nextNode d'" "tag d' x = tag d x"
    using assms by (simp_all add: same_sections_def apart_def)
  have "sections d' = sections d" using k(1) by (simp add: keeps_def)
  moreover have "path d' y = path d y" if "y \<in> set (sections d)" for y by (rule keepsD(1) [OF k(1) that])
  ultimately show ?thesis using assms(3) k by (simp add: apart_def is_section_def del: sections_in)
qed

lemma apart_fresh:
  assumes "createElement t d = (n, d1)" "t \<noteq> ''section''" "wf_page w d"
  shows "apart d1 n" "n \<noteq> w" "x < nextNode d \<Longrightarrow> n \<notin> set (path d x) \<and> x \<noteq> n"
proof -
  note e = createElement_simps [OF assms(1)]
  show no: "x < nextNode d \<Longrightarrow> n \<notin> set (path d x) \<and> x \<noteq> n" for x
    using assms(3) wf_domD(3) e(1) by (auto simp: wf_page_def)
  show "n \<noteq> w" using assms(3) e(1) by (simp add: wf_page_def)
  have "n \<notin> set (path d1 y)" if "y \<in> set (sections d1)" for y
    using that no [of y] assms(3) wf_domD(2) by (auto simp: e wf_page_def)
  then show "apart d1 n" by (simp add: apart_def is_section_def e assms(2) del: sections_in)
qed

lemma same_sections_set_classes:
  assumes "wf_page w d \<Longrightarrow> apart d x \<and> x \<noteq> w"
  shows "same_sections w d (set_classes c x d)"
proof (cases "wf_page w d")
  case wf: True
  have f: "order (set_classes c x d) = order d" "path (set_classes c x d) = path d" "tag (set_classes c x d) = tag d"
    "nextNode (set_classes c x d) = nextNode d" "bgOf (set_classes c x d) = bgOf d" "bgContentOf (set_classes c x d) = bgContentOf d"
    "attr (set_classes c x d) = attr d"
    by (simp_all add: set_classes_def)
  have h: "has_class k (set_classes c x d) y = has_class k d y" if "y \<noteq> x" for k y
    using that by (simp add: has_class_def set_classes_def)
  have s: "is_section (set_classes c x d) = is_section d" by (simp add: is_section_def fun_eq_iff f)
  have x: "apart d x" "x \<noteq> w" using assms [OF wf] by simp_all
  have "has_class k (set_classes c x d) z = has_class k d z" if "y \<in> set (sections d)" "z \<in> set (path d y)" for k y z
    using that x(1) by (intro h) (auto simp: apart_def simp del: sections_in)
  then have "keeps d (set_classes c x d)" by (simp add: keeps_def sections_def s f)
  moreover have "wf_page w (set_classes c x d)" using wf wf_dom_cong [OF f(1-6)] f(4) by (simp add: wf_page_def)
  moreover have "has_class k (set_classes c x d) y = has_class k d y" if "is_section d y" for k y
    using that x h by (cases "y = x") (simp_all add: apart_def)
  ultimately show ?thesis using x h f by (simp add: same_sections_def get_attr_def)
qed (simp add: same_sections_def)

lemma same_sections_clear:
  assumes "wf_page w d \<Longrightarrow> \<forall>y\<in>set (sections d). x \<notin> set (path d y)"
  shows "same_sections w d (clearNode x d)"
proof (cases "wf_page w d")
  case wf: True
  let ?d = "clearNode x d"
  have f: "order ?d = order d" "tag ?d = tag d" "nextNode ?d = nextNode d" "bgOf ?d = bgOf d" "bgContentOf ?d = bgContentOf d"
    "attr ?d = attr d" "cls ?d = cls d"
    "path ?d y = (if x \<in> set (path d y) then takeWhile (\<lambda>z. z \<noteq> x) (path d y) else path d y)" for y
    by (simp_all add: clearNode_def)
  then have h: "has_class k ?d = has_class k d" "is_section ?d = is_section d" "bg_node ?d = bg_node d" for k
    by (simp_all add: fun_eq_iff has_class_def is_section_def bg_node_def)
  have sub: "set (path ?d y) \<subseteq> set (path d y)" for y by (auto simp: f dest: set_takeWhileD)
  have w: "wf_dom d" using wf by (simp add: wf_page_def)
  have "path ?d p = ps" if "y < nextNode d" "path ?d y = p # ps" for y p ps
  proof -
    note y = that
    obtain qs where q: "path d y = p # qs" using y(2) by (cases "path d y") (auto simp: f split: if_splits)
    then have "path d p = qs" using wf_domD(4) [OF w y(1)] by blast
    then show ?thesis using q y(2) by (auto simp: f split: if_splits)
  qed
  then have "wf_dom ?d" using wf_domD [OF w] sub unfolding wf_dom_def h f(1-5) by blast
  moreover have "keeps d ?d" using assms [OF wf] by (simp add: keeps_def sections_def h f)
  ultimately show ?thesis using wf by (simp add: same_sections_def wf_page_def h f get_attr_def)
qed (simp add: same_sections_def)

lemma same_sections_bg:
  assumes bg: "wf_page w d \<Longrightarrow> bg_node d a \<and> bg_node d b"
    and f: "order e = order d" "path e = path d" "tag e = tag d" "cls e = cls d" "attr e = attr d" "nextNode e = nextNode d"
    and b: "\<And>y. bgOf e y = (if y = x then Some a else bgOf d y)" "\<And>y. bgContentOf e y = (if y = x then Some b else bgContentOf d y)"
  shows "same_sections w d e"
proof (cases "wf_page w d")
  case wf: True
  have h: "is_section e = is_section d" "has_class k e = has_class k d" "bg_node e = bg_node d" for k
    by (simp_all add: fun_eq_iff is_section_def has_class_def bg_node_def f)
  have w: "wf_dom d" using wf by (simp add: wf_page_def)
  have "bg_node d z" if "bgOf e y = Some z \<or> bgContentOf e y = Some z" for y z
  proof (cases "y = x")
    case True
    then show ?thesis using that bg [OF wf] by (auto simp: b)
  next
    case False
    then show ?thesis using that wf_domD(5,6) [OF w, of y z] by (auto simp: b)
  qed
  then have "wf_dom e" using wf_domD(1-4) [OF w] unfolding wf_dom_def h f by blast
  moreover have "keeps d e" by (rule keepsI) (simp_all add: f h)
  ultimately show ?thesis using wf by (simp add: same_sections_def wf_page_def h f get_attr_def)
qed (simp add: same_sections_def)

section \<open>Drawing a background\<close>

lemma same_sections_when_set: "(\<And>v d. same_sections w d (f v d)) \<Longrightarrow> same_sections w d (when_set v f d)"
  by (simp add: when_set_def)

lemma same_sections_then: "same_sections w d e \<Longrightarrow> (\<And>d. same_sections w d (f d)) \<Longrightarrow> same_sections w d (f e)"
  by (rule same_sections_trans)

lemma same_sections_remove_attrs:
  assumes "list_all (\<lambda>a. \<not> kept_attr a) as"
  shows "same_sections w d (remove_attrs as x d)"
  using assms unfolding remove_attrs_def
proof (induction as arbitrary: d)
  case (Cons a as)
  have 1: "same_sections w d (remove_attr a x d)" using Cons.prems by (intro same_sections_attr) simp
  have 2: "same_sections w (remove_attr a x d) (fold (\<lambda>a. remove_attr a x) as (remove_attr a x d))"
    by (rule Cons.IH) (use Cons.prems in simp)
  show ?case using same_sections_trans [OF 1 2] by simp
qed simp

lemma same_sections_clear_styles: "same_sections w d (clear_styles ks x d)"
  unfolding clear_styles_def
proof (induction ks arbitrary: d)
  case (Cons k ks)
  show ?case using same_sections_trans [OF same_sections_attr(3) Cons.IH] by simp
qed simp

lemma same_sections_write_background: "same_sections w d (write_background b preload slide element content d)"
proof -
  have attr: "same_sections w d (set_attr ''data-background-hash'' v x d)" "same_sections w d (set_attr ''data-preload'' v x d)"
    "same_sections w d (set_attr ''data-background-image'' v x d)" "same_sections w d (set_attr ''data-background-size'' v x d)"
    "same_sections w d (set_attr ''data-background-transition'' v x d)" for v x d
    by simp_all
  have cond: "same_sections w d (if c then f d else d)" if "\<And>d. same_sections w d (f d)" for c f d using that by simp
  have image: "same_sections w d (if c then set_attr ''data-background-image'' v x d else set_style k u y d)" for c v x k u y d by simp
  show ?thesis unfolding write_background_def Let_def
    by (rule same_sections_then [where f = "when_set _ _"],
        rule same_sections_then [where f = "when_set _ _"],
        rule same_sections_then [where f = "when_set _ _"],
        rule same_sections_then [where f = "when_set _ _"],
        rule same_sections_then [where f = "\<lambda>d. if _ then set_attr _ _ _ d else d"],
        rule same_sections_then [where f = "when_set _ _"],
        rule same_sections_then [where f = "when_set _ _"],
        rule same_sections_then [where f = "when_set _ _"],
        rule same_sections_then [where f = "when_set _ _"],
        rule same_sections_then [where f = "\<lambda>d. if _ then set_attr _ _ _ d else d"],
        (rule same_sections_when_set image attr cond same_sections_attr(3) | assumption)+)
qed

lemma same_sections_render:
  assumes "wf_page w d \<Longrightarrow> \<forall>y\<in>set (sections d). content \<notin> set (path d y)"
  shows "same_sections w d (render_background h x el content d)"
proof (cases "wf_page w d")
  case wf: True
  let ?d1 = "clear_styles [''backgroundSize'', ''backgroundRepeat'', ''backgroundPosition'', ''backgroundImage'', ''opacity''] content
       (clear_styles [''backgroundColor''] el
        (remove_attrs [''data-loaded'', ''data-background-hash'', ''data-background-size'', ''data-background-transition''] el
         (remove_class ''has-light-background'' x (remove_class ''has-dark-background'' x d))))"
  have "same_sections w d (remove_class ''has-light-background'' x (remove_class ''has-dark-background'' x d))"
    by (rule same_sections_trans [OF same_sections_class(2) same_sections_class(2)]) simp_all
  from same_sections_trans [OF this same_sections_remove_attrs]
  have "same_sections w d (remove_attrs [''data-loaded'', ''data-background-hash'', ''data-background-size'', ''data-background-transition''] el
      (remove_class ''has-light-background'' x (remove_class ''has-dark-background'' x d)))" by simp
  from same_sections_trans [OF same_sections_trans [OF this same_sections_clear_styles] same_sections_clear_styles]
  have 1: "same_sections w d ?d1" .
  then have "keeps d ?d1" using wf by (simp add: same_sections_def)
  then have "\<forall>y\<in>set (sections ?d1). content \<notin> set (path ?d1 y)" using assms [OF wf] by (simp add: keeps_def del: sections_in)
  then have 2: "same_sections w d (clearNode content ?d1)" by (intro same_sections_trans [OF 1] same_sections_clear)
  have 3: "same_sections w d (write_background b p x el content (clearNode content ?d1))" for b p
    by (rule same_sections_trans [OF 2 same_sections_write_background])
  have k: "page_class k" if "contrast_class c = Some k" for c k
    using that by (auto simp: contrast_class_def split: if_splits option.splits)
  show ?thesis
    unfolding render_background_def reset_background_def Let_def
    using 3 same_sections_trans [OF 3 same_sections_class(1) [OF k]] by (simp split: option.split)
qed (simp add: same_sections_def)

section \<open>Creating the backgrounds\<close>

lemma appendChild_fields:
  "tag (appendChild p c d) = tag d" "cls (appendChild p c d) = cls d" "attr (appendChild p c d) = attr d"
  "nextNode (appendChild p c d) = nextNode d" "bgOf (appendChild p c d) = bgOf d" "bgContentOf (appendChild p c d) = bgContentOf d"
  "set (order (appendChild p c d)) = set (order d)"
  "path (appendChild p c d) = repath d c (p # path d p)"
  by (auto simp: appendChild_def set_insert_after_last subtree_def in_subtree_def)

lemma repath_other: "x \<noteq> c \<Longrightarrow> c \<notin> set (path d x) \<Longrightarrow> repath d c up x = path d x"
  by (simp add: repath_def)

text \<open>A new element put below another: the chains of the others stay.\<close>

lemma fresh_child:
  assumes wf: "wf_page w d" and n: "createElement ''div'' d = (n, d1)" and p: "p < nextNode d"
    and e: "e = appendChild p n (set_classes k n d1)"
  shows "same_sections w d e" "apart e n" "n = nextNode d" "nextNode e = Suc (nextNode d)" "tag e n = ''div''"
    and "x < nextNode d \<Longrightarrow> path e x = path d x" "path e n = p # path d p" "set (order e) = insert n (set (order d))"
proof -
  note n0 = createElement_simps(1) [OF n] and c = createElement_simps(2-6) [OF n]
  let ?d1 = "set_classes k n d1"
  have f: "path ?d1 = path d1" "tag ?d1 = tag d1" "nextNode ?d1 = nextNode d1" "order ?d1 = order d1"
    by (simp_all add: set_classes_def)
  have s1: "same_sections w d d1" by (rule same_sections_create [OF n]) simp
  have wf1: "wf_page w d1" using s1 wf by (simp add: same_sections_def)
  have a1: "apart d1 n" "n \<noteq> w" using apart_fresh [OF n _ wf] by simp_all
  have s2: "same_sections w d1 ?d1" by (rule same_sections_set_classes) (simp add: a1)
  have old: "n \<notin> set (path d x) \<and> x \<noteq> n" if "x < nextNode d" for x using apart_fresh(3) [OF n _ wf that] by simp
  have "\<not> in_subtree ?d1 n p" using old [OF p] by (simp add: in_subtree_def f c)
  moreover have "\<not> is_section ?d1 x" if "x \<in> set (order ?d1)" "in_subtree ?d1 n x" for x
  proof (cases "x = n")
    case False
    then have "x < nextNode d" using that(1) wf wf_domD(2) by (auto simp: f c wf_page_def)
    then show ?thesis using that(2) old [of x] False by (simp add: in_subtree_def f c)
  qed (simp add: is_section_def f c)
  moreover have "p < nextNode ?d1" "n < nextNode ?d1" using p by (simp_all add: f c) (simp add: n0)
  ultimately have s3: "same_sections w ?d1 e" unfolding e by (intro same_sections_append) blast
  have s13: "same_sections w d1 e" by (rule same_sections_trans [OF s2 s3])
  show "same_sections w d e" by (rule same_sections_trans [OF s1 s13])
  show "apart e n" by (rule apart_kept [OF s13 wf1 a1(1)])
  show "n = nextNode d" by (rule n0)
  show "nextNode e = Suc (nextNode d)" "tag e n = ''div''" "set (order e) = insert n (set (order d))"
    by (simp_all add: e appendChild_fields f c)
  show "path e x = path d x" if "x < nextNode d"
    using old [OF that] by (simp add: e appendChild_fields(8) repath_def f c)
  show "path e n = p # path d p" using old [OF p] by (simp add: e appendChild_fields(8) repath_def f c)
qed

text \<open>A background: two new elements, one inside the other, put below the container.\<close>

lemma background_elements:
  assumes wf: "wf_page w d" and c: "container < nextNode d"
    and el: "createElement ''div'' d = (el, d1)" and content: "createElement ''div'' (set_classes k el d1) = (content, d3)"
    and d4: "d4 = appendChild container el (appendChild el content (set_classes k' content d3))"
  shows "same_sections w d d4" "apart d4 el" "apart d4 content"
proof -
  let ?d2 = "set_classes k el d1" and ?d4 = "appendChild el content (set_classes k' content d3)"
  note n1 = createElement_simps(1) [OF el] and e1 = createElement_simps(2-6) [OF el]
  have s1: "same_sections w d d1" by (rule same_sections_create [OF el]) simp
  have wf1: "wf_page w d1" using s1 wf by (simp add: same_sections_def)
  have a1: "apart d1 el" "el \<noteq> w" using apart_fresh [OF el _ wf] by simp_all
  have s2: "same_sections w d1 ?d2" by (rule same_sections_set_classes) (simp add: a1)
  have wf2: "wf_page w ?d2" using s2 wf1 by (simp add: same_sections_def)
  have f: "path ?d2 = path d1" "nextNode ?d2 = nextNode d1" "order ?d2 = order d1" "tag ?d2 = tag d1" by (simp_all add: set_classes_def)
  have less: "el < nextNode ?d2" by (simp add: f e1) (simp add: n1)
  note child = fresh_child [OF wf2 content less refl]
  have old: "path ?d4 x = path d x" "el \<notin> set (path d x)" if "x < nextNode d" for x
    using child(6) [where x = x] apart_fresh(3) [OF el _ wf that] that by (simp_all add: f e1)
  have wf4: "wf_page w ?d4" using child(1) wf2 by (simp add: same_sections_def)
  have "\<not> is_section ?d4 x" if "x \<in> set (order ?d4)" "in_subtree ?d4 el x" for x
  proof -
    have "x \<in> set (order d) \<or> x = el \<or> x = content" using that(1) child(8) by (auto simp: f e1)
    moreover have "\<not> (x \<in> set (order d))"
    proof
      assume "x \<in> set (order d)"
      then have "x < nextNode d" using wf wf_domD(2) by (simp add: wf_page_def)
      then show False using that(2) old n1 by (auto simp: in_subtree_def)
    qed
    moreover have "tag ?d4 el = ''div''" using child(1) wf2 less by (simp add: same_sections_def f e1)
    ultimately show ?thesis using child(5) by (auto simp: is_section_def)
  qed
  moreover have "\<not> in_subtree ?d4 el container" using old [OF c] c n1 by (simp add: in_subtree_def)
  ultimately have s3: "same_sections w ?d4 d4"
    unfolding d4 using c less child(4) by (intro same_sections_append) (simp add: f e1)
  note s13 = same_sections_trans [OF s2 same_sections_trans [OF child(1) s3]]
  show "same_sections w d d4" by (rule same_sections_trans [OF s1 s13])
  show "apart d4 el" by (rule apart_kept [OF s13 wf1 a1(1)])
  show "apart d4 content" by (rule apart_kept [OF s3 wf4 child(2)])
qed

lemma createBackground_apart:
  assumes wf: "wf_page w d" and c: "container < nextNode d" and r: "createBackground h x container d = (el, d')"
  shows "same_sections w d d'" "apart d' el"
proof -
  let ?k = "insert ''slide-background'' (cls d x - {''past'', ''present'', ''future''})"
  obtain el0 d1 where e: "createElement ''div'' d = (el0, d1)" by fastforce
  obtain content d3 where co: "createElement ''div'' (set_classes ?k el0 d1) = (content, d3)" by fastforce
  let ?d4 = "appendChild container el0 (appendChild el0 content (set_classes {''slide-background-content''} content d3))"
  let ?d5 = "?d4\<lparr>bgOf := (bgOf ?d4)(x := Some el0), bgContentOf := (bgContentOf ?d4)(x := Some content)\<rparr>"
  note els = background_elements [OF wf c e co refl]
  have el: "el0 = el" "render_background h x el0 content ?d5 = d'"
    using r unfolding createBackground_def e Let_def prod.case co prod.inject by blast+
  have f: "order ?d5 = order ?d4" "path ?d5 = path ?d4" "tag ?d5 = tag ?d4" "cls ?d5 = cls ?d4" "attr ?d5 = attr ?d4"
    "nextNode ?d5 = nextNode ?d4" "bgOf ?d5 y = (if y = x then Some el0 else bgOf ?d4 y)"
    "bgContentOf ?d5 y = (if y = x then Some content else bgContentOf ?d4 y)" for y
    by simp_all
  have "bg_node ?d4 el0 \<and> bg_node ?d4 content" using els(2,3) by (simp add: bg_node_def apart_def)
  then have s45: "same_sections w ?d4 ?d5" by (intro same_sections_bg [OF _ f]) blast
  have s5: "same_sections w d ?d5" by (rule same_sections_trans [OF els(1) s45])
  have wf4: "wf_page w ?d4" using els(1) wf by (simp add: same_sections_def)
  have wf5: "wf_page w ?d5" using s5 wf by (simp add: same_sections_def)
  have a5: "apart ?d5 content" "apart ?d5 el0" using apart_kept [OF s45 wf4 els(3)] apart_kept [OF s45 wf4 els(2)] by blast+
  have s6: "same_sections w ?d5 d'" unfolding el(2) [symmetric] by (rule same_sections_render) (use a5 in \<open>simp add: apart_def del: sections_in\<close>)
  show "same_sections w d d'" by (rule same_sections_trans [OF s5 s6])
  show "apart d' el" unfolding el(1) [symmetric] by (rule apart_kept [OF s6 wf5 a5(2)])
qed

lemma same_sections_column:
  assumes c: "wf_page w d \<Longrightarrow> container < nextNode d"
  shows "same_sections w d (create_column h container x d)"
proof (cases "wf_page w d")
  case wf: True
  obtain stack d1 where s: "createBackground h x container d = (stack, d1)" by fastforce
  note bg = createBackground_apart [OF wf c [OF wf] s]
  have wf1: "wf_page w d1" using bg(1) wf by (simp add: same_sections_def)
  have "same_sections w e (for_each (\<lambda>v d. add_class ''stack'' stack (snd (createBackground h v stack d))) vs e)"
    if "wf_page w e" "apart e stack" for vs e
    using that
  proof (induction vs arbitrary: e)
    case (Cons v vs)
    obtain b e1 where b: "createBackground h v stack e = (b, e1)" by fastforce
    have "stack < nextNode e" using Cons.prems(2) by (simp add: apart_def)
    note one = createBackground_apart(1) [OF Cons.prems(1) this b]
    have wf1: "wf_page w e1" using one Cons.prems(1) by (simp add: same_sections_def)
    have a1: "apart e1 stack" by (rule apart_kept [OF one Cons.prems])
    have two: "same_sections w e1 (add_class ''stack'' stack e1)"
      by (rule same_sections_nonsection) (use a1 in \<open>simp_all add: apart_def\<close>)
    have wf2: "wf_page w (add_class ''stack'' stack e1)" using wf1 by simp
    show ?case
      using same_sections_trans [OF same_sections_trans [OF one two] Cons.IH [OF wf2 apart_kept [OF two wf1 a1]]] by (simp add: b)
  qed simp
  from same_sections_trans [OF bg(1) this [OF wf1 bg(2)]] show ?thesis
    unfolding create_column_def s Let_def prod.case .
qed (simp add: same_sections_def)

lemma same_sections_parallax: "same_sections w d (parallax_styles c x d)"
  unfolding parallax_styles_def
  by (rule same_sections_trans [OF same_sections_trans [OF same_sections_trans [OF same_sections_attr(3) same_sections_attr(3)]
        same_sections_attr(3)] same_sections_attr(3)])

lemma quiet_backgrounds_create: "quiet s (backgrounds_create s)"
proof -
  let ?el = "backgroundsEl (refs s)" and ?w = "wrapper (host s)"
  let ?d1 = "add_class ''no-transition'' ?el (clearNode ?el (doc s))"
  let ?d2 = "for_each (create_column (host s) ?el) (getHorizontalSlides s) ?d1"
  have columns: "same_sections ?w d (for_each (create_column (host s) ?el) xs d)" if "?el < nextNode d" for xs d
    using that
  proof (induction xs arbitrary: d)
    case (Cons x xs)
    have 1: "same_sections ?w d (create_column (host s) ?el x d)" by (rule same_sections_column) (rule Cons.prems)
    show ?case
    proof (cases "wf_page ?w d")
      case True
      then have "?el < nextNode (create_column (host s) ?el x d)" using 1 Cons.prems by (simp add: same_sections_def)
      from same_sections_trans [OF 1 Cons.IH [OF this]] show ?thesis by simp
    qed (simp add: same_sections_def)
  qed simp
  have s2: "same_sections ?w (doc s) ?d2" if ok: "bg_ok s"
  proof -
    have "\<forall>y\<in>set (sections (doc s)). ?el \<notin> set (path (doc s) y)"
      using bg_okD(3) [OF ok] by (simp add: in_subtree_def del: sections_in)
    then have "same_sections ?w (doc s) (clearNode ?el (doc s))" by (intro same_sections_clear)
    then have 1: "same_sections ?w (doc s) ?d1" by (rule same_sections_trans) (simp add: same_sections_class)
    have "?el < nextNode ?d1" using bg_okD(1) [OF ok] by (simp add: clearNode_def)
    from same_sections_trans [OF 1 columns [OF this]] show ?thesis .
  qed
  have s3: "same_sections ?w (doc s) (parallax_styles c ?el ?d2)" if "bg_ok s" for c
    by (rule same_sections_trans [OF s2 [OF that] same_sections_parallax])
  have s4: "same_sections ?w (doc s) (remove_class ''has-parallax-background'' ?w (set_style ''backgroundImage'' (Css []) ?el ?d2))"
    if "bg_ok s"
    by (rule same_sections_trans [OF same_sections_trans [OF s2 [OF that] same_sections_attr(3)] same_sections_class(2)]) simp
  have t: "same_timers (world s) (snd (setTimeout (TAddClass ''has-parallax-background'' ?w) 1 (world s)))"
    by (rule same_timers_set) simp
  have "quiet s (s\<lparr>doc := d, world := wd\<rparr>)" if "bg_ok s \<Longrightarrow> same_sections ?w (doc s) d" "same_timers (world s) wd" for d wd
    using that by (simp add: quiet_def quiet_timer_world quiet_page_of_def)
  from this [OF s3 t] this [OF s4 same_timers_refl] show ?thesis
    unfolding backgrounds_create_def Let_def by simp
qed

end
