(* ===== verification/Sync.thy ===== *)
theory Sync
  imports Listeners Backdrop
begin

text \<open>
  \<open>sync\<close> and \<open>syncSlide\<close> of \<open>reveal.js\<close>: bringing the page in line with the document and the options
  when either has changed. A healthy deck stays healthy, on the slide it was on.
\<close>

section \<open>Synchronising\<close>

text \<open>Auto-sliding that is \<open>false\<close> counts as no duration.\<close>

definition global_duration :: "config \<Rightarrow> real" where
  "global_duration c = (case cfg_autoSlide c of Some a \<Rightarrow> real_of_int a | None \<Rightarrow> 0)"

definition sync_pages :: "reveal \<Rightarrow> reveal" where
  "sync_pages s = updateSlidesVisibility (progress_update (controls_update (sortAll (writeURL None (backgrounds_create s)))))"

definition sync_notes :: "reveal \<Rightarrow> reveal" where
  "sync_notes s = slideNumber_update (backgrounds_update True (notes_updateVisibility (notes_update s)))"

definition sync_media :: "reveal \<Rightarrow> reveal" where
  "sync_media s =
     (let s1 = s\<lparr>doc := formatEmbeddedContent (host s) (doc s)\<rparr>
      in if cfg_autoPlayMedia (cfg s1) = Some False
         then on_page (stopEmbeddedContent (currentSlide s1) False) s1
         else on_page (startEmbeddedContent (cfg s1) (host s1) (currentSlide s1)) s1)"

definition sync :: "pointer_support \<Rightarrow> reveal \<Rightarrow> reveal" where
  "sync p s =
     (let s1 = layout (addEventListeners p (removeEventListeners s));
          s2 = cueAutoSlide (s1\<lparr>autoSlide := global_duration (cfg s1)\<rparr>);
          s3 = sync_media (sync_notes (sync_pages s2))
      in if overviewActive s3 then overview_layout s3 else s3)"

text \<open>A slide without a background, such as one added since, cannot be synchronised alone.\<close>

definition syncSlide :: "node \<Rightarrow> reveal \<Rightarrow> outcome" where
  "syncSlide x s =
     (case backgrounds_sync (host s) x (doc s) of
        None \<Rightarrow> Threw TypeError s
      | Some d \<Rightarrow>
          (let s1 = snd (fragments_sync x (s\<lparr>doc := d\<rparr>));
               s2 = on_page (slideContent_load (cfg s1) (host s1) False x) s1
           in Returned (notes_update (backgrounds_update False s2))))"

section \<open>The deck stays as it is\<close>

lemma quiet_listens: "quiet s t \<Longrightarrow> (\<And>w. same_timers w (f w)) \<Longrightarrow> quiet s (listens b f t)"
  by (cases b) (simp_all add: listens_def quiet_trans [OF _ quiet_world])

lemma same_timers_all:
  "same_timers w (bind_all ty h xs w)" "same_timers w (unbind_all ty h xs w)"
  unfolding bind_all_def unbind_all_def by (rule same_timers_fold; rule same_timers_basic)+

lemma same_timers_controls:
  "same_timers w (controls_bind h r w)" "same_timers w (controls_unbind r w)"
  unfolding controls_bind_def controls_unbind_def
  by (rule same_timers_fold;
      unfold controls_bind_type_def controls_unbind_type_def;
      intro same_timers_all same_timers_trans [OF _ same_timers_all(1)] same_timers_trans [OF _ same_timers_all(2)])+

lemma same_timers_inputs:
  "same_timers w (touch_bind p x w)" "same_timers w (touch_unbind x w)"
  "same_timers w (keyboard_bind w)" "same_timers w (keyboard_unbind w)"
  "same_timers w (progress_bind c r w)" "same_timers w (progress_unbind c r w)"
  "same_timers w (location_bind w)" "same_timers w (location_unbind w)"
  "same_timers w (page_listeners addEventListener s w)" "same_timers w (page_listeners removeEventListener s w)"
proof -
  show "same_timers w (touch_bind p x w)" unfolding touch_bind_def by (rule same_timers_fold) (simp split: prod.split)
  show "same_timers w (touch_unbind x w)" unfolding touch_unbind_def by (rule same_timers_fold) (simp split: prod.split)
qed (simp_all add: keyboard_bind_def keyboard_unbind_def progress_bind_def progress_unbind_def location_bind_def
    location_unbind_def page_listeners_def same_timers_cong)

lemma quiet_bound_flag: "quiet s (s\<lparr>eventsAreBound := b\<rparr>)"
  by (simp add: quiet_def same_nav_def quiet_page_of_def quiet_timer_def timers_ok_def)

lemma quiet_focus_bind: "quiet s t \<Longrightarrow> quiet s (focus_bind t)" "quiet s t \<Longrightarrow> quiet s (focus_unbind t)"
  by (auto simp: focus_bind_def focus_unbind_def same_timers_cong intro: quiet_trans [OF _ quiet_world])

lemma quiet_addEventListeners: "quiet s (addEventListeners p s)"
  unfolding addEventListeners_def Let_def
  by (intro quiet_listens quiet_focus_bind quiet_bound_flag same_timers_basic same_timers_inputs same_timers_controls)

lemma quiet_removeEventListeners: "quiet s (removeEventListeners s)"
  unfolding removeEventListeners_def Let_def
  by (intro quiet_listens quiet_focus_bind quiet_bound_flag same_timers_basic same_timers_inputs same_timers_controls)

lemma quiet_sortAll: "quiet s (sortAll s)"
proof -
  have "same_sections w d (sort_slide x d)" for w x d unfolding sort_slide_def by (rule same_sections_sort)
  then have "same_sections w d (for_each sort_slide xs d)" for w xs d by (rule same_sections_for_each)
  then show ?thesis unfolding sortAll_def
    by (intro quiet_doc same_sections_for_each) (simp add: Let_def \<open>\<And>w x d. same_sections w d (sort_slide x d)\<close>)
qed

lemma quiet_sync_pages: "quiet s (sync_pages s)"
proof -
  note q1 = quiet_trans [OF quiet_backgrounds_create quiet_writeURL]
  note q2 = quiet_trans [OF quiet_trans [OF quiet_trans [OF q1 quiet_sortAll] quiet_controls_update] quiet_progress_update]
  show ?thesis unfolding sync_pages_def by (rule quiet_trans [OF q2 quiet_updateSlidesVisibility])
qed

lemma quiet_sync_notes: "quiet s (sync_notes s)"
  unfolding sync_notes_def
  by (rule quiet_trans [OF quiet_trans [OF quiet_trans [OF quiet_notes_update quiet_notes_updateVisibility]
        quiet_backgrounds_update] quiet_slideNumber_update])

lemma quiet_sync_media: "quiet s (sync_media s)"
proof -
  let ?s1 = "s\<lparr>doc := formatEmbeddedContent (host s) (doc s)\<rparr>"
  have 1: "quiet s ?s1" by (rule quiet_doc [OF same_sections_format])
  have 2: "quiet s (on_page (stopEmbeddedContent x b) ?s1)" "quiet s (on_page (startEmbeddedContent c h x) ?s1)" for x b c h
    by (rule quiet_trans [OF 1 quiet_on_page], rule page_ok_stopEmbeddedContent,
        rule quiet_trans [OF 1 quiet_on_page], rule page_ok_startEmbeddedContent)
  show ?thesis unfolding sync_media_def Let_def using 2 by simp
qed

lemma steady_duration: "steady s (s\<lparr>autoSlide := a\<rparr>)"
  by (rule steady_same) simp_all

lemma steady_sync: "steady s (sync p s)"
proof -
  let ?s1 = "layout (addEventListeners p (removeEventListeners s))"
  have 1: "quiet s ?s1" by (rule quiet_trans [OF quiet_trans [OF quiet_removeEventListeners quiet_addEventListeners] quiet_layout])
  let ?s2 = "cueAutoSlide (?s1\<lparr>autoSlide := global_duration (cfg ?s1)\<rparr>)"
  have 2: "steady s ?s2" by (rule steady_trans [OF steady_trans [OF steady_quiet [OF 1] steady_duration] steady_cue])
  have 3: "quiet ?s2 (sync_media (sync_notes (sync_pages ?s2)))" (is "quiet _ ?s3")
    by (rule quiet_trans [OF quiet_trans [OF quiet_sync_pages quiet_sync_notes] quiet_sync_media])
  have "quiet ?s2 (if overviewActive ?s3 then overview_layout ?s3 else ?s3)"
    using 3 quiet_trans [OF 3 quiet_overview_layout] by simp
  then show ?thesis unfolding sync_def Let_def by (rule steady_trans [OF 2 steady_quiet])
qed

section \<open>The position\<close>

text \<open>What is shown: the indices and the current slide.\<close>

definition same_place :: "reveal \<Rightarrow> reveal \<Rightarrow> bool" where
  "same_place s t = (indexh t = indexh s \<and> indexv t = indexv s \<and> currentSlide t = currentSlide s)"

lemma same_place_trans: "same_place a b \<Longrightarrow> same_place b c \<Longrightarrow> same_place a c"
  by (simp add: same_place_def)

lemma same_place_quiet: "quiet s t \<Longrightarrow> same_place s t"
  by (simp add: quiet_def same_nav_def same_place_def)

lemma same_place_sync: "same_place s (sync p s)"
proof -
  let ?s1 = "layout (addEventListeners p (removeEventListeners s))"
  have 1: "quiet s ?s1" by (rule quiet_trans [OF quiet_trans [OF quiet_removeEventListeners quiet_addEventListeners] quiet_layout])
  let ?s2 = "cueAutoSlide (?s1\<lparr>autoSlide := global_duration (cfg ?s1)\<rparr>)"
  have 2: "same_place ?s1 ?s2" by (simp add: same_place_def)
  have 3: "quiet ?s2 (sync_media (sync_notes (sync_pages ?s2)))" (is "quiet _ ?s3")
    by (rule quiet_trans [OF quiet_trans [OF quiet_sync_pages quiet_sync_notes] quiet_sync_media])
  have "quiet ?s2 (if overviewActive ?s3 then overview_layout ?s3 else ?s3)"
    using 3 quiet_trans [OF 3 quiet_overview_layout] by simp
  then show ?thesis unfolding sync_def Let_def
    by (rule same_place_trans [OF same_place_trans [OF same_place_quiet [OF 1] 2] same_place_quiet])
qed

text \<open>A slide can be synchronised alone exactly when its background has been created.\<close>

lemma syncSlide_returns:
  "returned (syncSlide x s) \<longleftrightarrow> bgOf (doc s) x \<noteq> None \<and> bgContentOf (doc s) x \<noteq> None"
  by (simp add: syncSlide_def backgrounds_sync_def Let_def split: option.split)

section \<open>Upkeep through the API\<close>

text \<open>The methods that bind the input or synchronise the page, called by a key or a message.\<close>

definition upkeep_api :: "pointer_support \<Rightarrow> api" where
  "upkeep_api p m =
     (if m = ''sync'' then Some (\<lambda>s. Returned (sync p s))
      else if m = ''addEventListeners'' then Some (\<lambda>s. Returned (addEventListeners p s))
      else if m = ''removeEventListeners'' then Some (\<lambda>s. Returned (removeEventListeners s)) else None)"

lemma upkeep_api_safe: "upkeep_api p m = Some f \<Longrightarrow> safe s (f s)"
  using steady_sync steady_quiet [OF quiet_addEventListeners] steady_quiet [OF quiet_removeEventListeners]
  by (auto simp: upkeep_api_def split: if_splits)

interpretation upkeep: safe_api "deck_api (upkeep_api p)" for p
  by unfold_locales (auto intro: deck_api_safe upkeep_api_safe)

end
