(* ===== verification/AnimateMatch.thy ===== *)
theory AnimateMatch
  imports Slides Util
begin

text \<open>
  Which elements of two slides the auto-animation of \<open>controllers/autoanimate.js\<close> pairs: by key,
  and among elements with one key by position.
\<close>

section \<open>Options\<close>

text \<open>A property to animate; its value at either end may be given.\<close>

record style_spec =
  ss_property :: string
  ss_from :: "string option"
  ss_to :: "string option"

definition plain_style :: "string \<Rightarrow> style_spec" where
  "plain_style p = \<lparr>ss_property = p, ss_from = None, ss_to = None\<rparr>"

text \<open>The options of a pair, those not given are absent.\<close>

record pair_options =
  po_scale :: bool
  po_translate :: bool
  po_styles :: "style_spec list option"
  po_measured_locally :: bool
  po_delay :: "real option"
  po_duration :: "real option"
  po_easing :: "string option"

definition no_options :: pair_options where
  "no_options = \<lparr>po_scale = True, po_translate = True, po_styles = None, po_measured_locally = False,
     po_delay = None, po_duration = None, po_easing = None\<rparr>"

record pair =
  pr_from :: node
  pr_to :: node
  pr_options :: pair_options

section \<open>Matching by key\<close>

text \<open>
  The table of elements by key is an object with the properties all objects have: looking one of
  these up finds a function, to which nothing can be pushed.
\<close>

definition object_properties :: "string list" where
  "object_properties = [''constructor'', ''toString'', ''toLocaleString'', ''valueOf'', ''hasOwnProperty'',
     ''isPrototypeOf'', ''propertyIsEnumerable'', ''__proto__'', ''__defineGetter__'', ''__defineSetter__'',
     ''__lookupGetter__'', ''__lookupSetter__'']"

type_synonym table = "string \<Rightarrow> node option list"

definition push_from :: "(node \<Rightarrow> string) \<Rightarrow> node \<Rightarrow> table \<Rightarrow> table" where
  "push_from key x m = (if key x \<noteq> [] then m(key x := m (key x) @ [Some x]) else m)"

definition slot :: "node option list \<Rightarrow> nat \<Rightarrow> node option" where
  "slot fs j = (if j < length fs then fs ! j else None)"

text \<open>The element at the same place, else the last one; whichever is taken is gone.\<close>

definition take_from :: "node option list \<Rightarrow> nat \<Rightarrow> node option \<times> node option list" where
  "take_from fs j =
     (case slot fs j of
        Some x \<Rightarrow> (Some x, fs[j := None])
      | None \<Rightarrow>
          (case slot fs (length fs - 1) of
             Some x \<Rightarrow> (Some x, fs[length fs - 1 := None])
           | None \<Rightarrow> (None, fs)))"

text \<open>The elements still to take, how many elements of the other slide each key has had, and the pairs.\<close>

definition match_to :: "(node \<Rightarrow> string) \<Rightarrow> pair_options \<Rightarrow> node \<Rightarrow> table \<times> (string \<Rightarrow> nat) \<times> pair list \<Rightarrow>
    table \<times> (string \<Rightarrow> nat) \<times> pair list" where
  "match_to key opts y st =
     (case st of (m, seen, ps) \<Rightarrow>
        let k = key y; (found, fs) = take_from (m k) (seen k) in
        (m(k := fs), seen(k := Suc (seen k)),
         case found of Some x \<Rightarrow> ps @ [\<lparr>pr_from = x, pr_to = y, pr_options = opts\<rparr>] | None \<Rightarrow> ps))"

definition findAutoAnimateMatches ::
    "(node \<Rightarrow> string) \<Rightarrow> pair_options \<Rightarrow> node list \<Rightarrow> node list \<Rightarrow> pair list \<Rightarrow> error + pair list" where
  "findAutoAnimateMatches key opts froms tos ps =
     (if list_ex (\<lambda>x. key x \<in> set object_properties) (froms @ tos) then Inl TypeError
      else Inr (snd (snd (fold (match_to key opts) tos (fold (push_from key) froms (\<lambda>_. []), \<lambda>_. 0, ps)))))"

text \<open>What that amounts to: the j-th element with a key goes with the j-th of the other slide.\<close>

fun by_position :: "(node \<Rightarrow> string) \<Rightarrow> pair_options \<Rightarrow> node list \<Rightarrow> node list \<Rightarrow> node list \<Rightarrow> pair list" where
  "by_position key opts froms seen [] = []"
| "by_position key opts froms seen (y # ys) =
     (let candidates = filter (\<lambda>x. key x = key y) froms; j = length (filter (\<lambda>z. key z = key y) seen)
      in (if key y \<noteq> [] \<and> j < length candidates
          then [\<lparr>pr_from = candidates ! j, pr_to = y, pr_options = opts\<rparr>] else []) @
         by_position key opts froms (seen @ [y]) ys)"

definition remaining :: "node list \<Rightarrow> nat \<Rightarrow> node option list" where
  "remaining xs n = map (\<lambda>i. if i < n then None else Some (xs ! i)) [0..<length xs]"

lemma length_remaining [simp]: "length (remaining xs n) = length xs"
  by (simp add: remaining_def)

lemma nth_remaining [simp]: "i < length xs \<Longrightarrow> remaining xs n ! i = (if i < n then None else Some (xs ! i))"
  by (simp add: remaining_def)

lemma remaining_0: "remaining xs 0 = map Some xs"
  by (rule nth_equalityI) simp_all

text \<open>The last element has been taken by the time it would be a substitute.\<close>

lemma take_remaining:
  "take_from (remaining xs n) n =
     (if n < length xs then (Some (xs ! n), remaining xs (Suc n)) else (None, remaining xs (Suc n)))"
proof (cases "n < length xs")
  case True
  moreover have "(remaining xs n)[n := None] = remaining xs (Suc n)"
    by (rule nth_equalityI) (auto simp: nth_list_update less_Suc_eq)
  ultimately show ?thesis by (simp add: take_from_def slot_def)
next
  case False
  moreover from False have "remaining xs n = remaining xs (Suc n)" by (intro nth_equalityI) auto
  ultimately show ?thesis by (auto simp: take_from_def slot_def)
qed

lemma table_from: "fold (push_from key) froms m k = m k @ (if k = [] then [] else map Some (filter (\<lambda>x. key x = k) froms))"
  by (induction froms arbitrary: m) (auto simp: push_from_def)

lemma match_fold:
  assumes "\<And>k. m k = (if k = [] then [] else remaining (filter (\<lambda>x. key x = k) froms) (seen k))"
    and "\<And>k. seen k = length (filter (\<lambda>z. key z = k) before)"
  shows "snd (snd (fold (match_to key opts) tos (m, seen, ps))) = ps @ by_position key opts froms before tos"
  using assms
proof (induction tos arbitrary: m seen ps before)
  case (Cons y ys)
  let ?k = "key y" and ?c = "filter (\<lambda>x. key x = key y) froms"
  let ?m = "m(?k := snd (take_from (m ?k) (seen ?k)))" and ?seen = "seen(?k := Suc (seen ?k))"
  have m': "?m k = (if k = [] then [] else remaining (filter (\<lambda>x. key x = k) froms) (?seen k))" for k
    using Cons.prems(1) by (auto simp: take_remaining) (simp add: take_from_def slot_def)
  have s': "?seen k = length (filter (\<lambda>z. key z = k) (before @ [y]))" for k using Cons.prems(2) by auto
  have "fst (take_from (m ?k) (seen ?k)) =
      (if ?k \<noteq> [] \<and> seen ?k < length ?c then Some (?c ! seen ?k) else None)"
    using Cons.prems(1) [of ?k] by (cases "?k = []") (simp_all add: take_remaining, simp add: take_from_def slot_def)
  then have "match_to key opts y (m, seen, ps) =
      (?m, ?seen, ps @ (if ?k \<noteq> [] \<and> seen ?k < length ?c then [\<lparr>pr_from = ?c ! seen ?k, pr_to = y, pr_options = opts\<rparr>] else []))"
    by (simp add: match_to_def split_beta Let_def)
  moreover have "snd (snd (fold (match_to key opts) ys (?m, ?seen, qs))) = qs @ by_position key opts froms (before @ [y]) ys" for qs
    by (rule Cons.IH) (rule m', rule s')
  ultimately have "snd (snd (fold (match_to key opts) (y # ys) (m, seen, ps))) =
      ps @ (if ?k \<noteq> [] \<and> seen ?k < length ?c then [\<lparr>pr_from = ?c ! seen ?k, pr_to = y, pr_options = opts\<rparr>] else []) @
      by_position key opts froms (before @ [y]) ys"
    by (simp only: fold_simps append_assoc)
  then show ?case using Cons.prems(2) [of ?k] by (simp add: Let_def del: fold_simps)
qed simp

text \<open>C18: Between two slides the j-th element with a key is animated from the j-th element with that key
  on the other slide when there is one, and not at all otherwise; the last element never stands
  in for a missing one. Keys that all objects have as properties make the matching throw.\<close>

theorem matches_by_position:
  "findAutoAnimateMatches key opts froms tos ps =
     (if list_ex (\<lambda>x. key x \<in> set object_properties) (froms @ tos) then Inl TypeError
      else Inr (ps @ by_position key opts froms [] tos))"
proof -
  have "snd (snd (fold (match_to key opts) tos (fold (push_from key) froms (\<lambda>_. []), \<lambda>_. 0, ps))) =
      ps @ by_position key opts froms [] tos"
    by (rule match_fold) (simp_all add: table_from remaining_0)
  then show ?thesis by (simp add: findAutoAnimateMatches_def)
qed

text \<open>No element is paired twice by one matching.\<close>

lemma by_position_from:
  "p \<in> set (by_position key opts froms seen ys) \<Longrightarrow>
     pr_to p \<in> set ys \<and> pr_from p \<in> set froms \<and> key (pr_from p) = key (pr_to p)"
proof (induction ys arbitrary: seen)
  case (Cons y ys)
  let ?c = "filter (\<lambda>x. key x = key y) froms" and ?j = "length (filter (\<lambda>z. key z = key y) seen)"
  have "?c ! ?j \<in> set froms \<and> key (?c ! ?j) = key y" if "?j < length ?c"
    using nth_mem [OF that] by simp
  then show ?case using Cons by (auto simp: Let_def split: if_splits)
qed simp

lemma by_position_to: "distinct ys \<Longrightarrow> distinct (map pr_to (by_position key opts froms seen ys))"
proof (induction ys arbitrary: seen)
  case (Cons y ys)
  then show ?case using by_position_from [of _ key opts froms "seen @ [y]" ys] by (auto simp: Let_def)
qed simp

section \<open>Pairs of two slides\<close>

text \<open>
  What the layout engine says of the elements, beside the document: the text of an element as it
  is rendered, and all text in it.
\<close>

record texts =
  innerText :: "node \<Rightarrow> string"
  textContent :: "node \<Rightarrow> string"

definition tagged_key :: "dom \<Rightarrow> string \<Rightarrow> node \<Rightarrow> string" where
  "tagged_key d v x = tag d x @ '':::'' @ v"

definition or_null :: "string option \<Rightarrow> string" where
  "or_null v = (case v of Some s \<Rightarrow> s | None \<Rightarrow> ''null'')"

definition media_src :: "dom \<Rightarrow> node \<Rightarrow> string" where
  "media_src d x =
     (case get_attr ''src'' d x of
        Some u \<Rightarrow> if u \<noteq> [] then u else or_null (get_attr ''data-src'' d x)
      | None \<Rightarrow> or_null (get_attr ''data-src'' d x))"

definition text_node :: "dom \<Rightarrow> node \<Rightarrow> bool" where
  "text_node d x = (tag d x \<in> {''h1'', ''h2'', ''h3'', ''h4'', ''h5'', ''h6'', ''p'', ''li''})"

definition media_node :: "dom \<Rightarrow> node \<Rightarrow> bool" where
  "media_node d x = (tag d x \<in> {''img'', ''video'', ''iframe''})"

definition code_node :: "dom \<Rightarrow> node \<Rightarrow> bool" where
  "code_node d x = (tag d x = ''pre'')"

text \<open>Lines of highlighted code, and their numbers.\<close>

definition in_highlighted :: "dom \<Rightarrow> node \<Rightarrow> bool" where
  "in_highlighted d x = list_ex (has_class ''hljs'' d) (path d x)"

definition code_line :: "dom \<Rightarrow> node \<Rightarrow> bool" where
  "code_line d x = (has_class ''hljs-ln-code'' d x \<and> in_highlighted d x)"

definition line_number :: "dom \<Rightarrow> node \<Rightarrow> bool" where
  "line_number d x = (has_class ''hljs-ln-line'' d x \<and> has_attr ''data-line-number'' d x \<and> in_highlighted d x)"

definition match_in :: "dom \<Rightarrow> node \<Rightarrow> node \<Rightarrow> (node \<Rightarrow> bool) \<Rightarrow> (node \<Rightarrow> string) \<Rightarrow> pair_options \<Rightarrow> pair list \<Rightarrow>
    error + pair list" where
  "match_in d a b sel key opts ps = findAutoAnimateMatches key opts (queryAll d a sel) (queryAll d b sel) ps"

definition bind_pairs :: "error + pair list \<Rightarrow> (pair list \<Rightarrow> error + pair list) \<Rightarrow> error + pair list" where
  "bind_pairs r f = (case r of Inl e \<Rightarrow> Inl e | Inr ps \<Rightarrow> f ps)"

definition slide_matches :: "texts \<Rightarrow> dom \<Rightarrow> node \<Rightarrow> node \<Rightarrow> error + pair list" where
  "slide_matches tx d a b =
     bind_pairs (bind_pairs (bind_pairs
       (match_in d a b (has_attr ''data-id'' d) (\<lambda>x. tagged_key d (or_null (get_attr ''data-id'' d x)) x) no_options [])
       (match_in d a b (text_node d) (\<lambda>x. tagged_key d (innerText tx x) x) no_options))
       (match_in d a b (media_node d) (\<lambda>x. tagged_key d (media_src d x) x) no_options))
       (match_in d a b (code_node d) (\<lambda>x. tagged_key d (innerText tx x) x) no_options)"

text \<open>
  The pairs found so far get their options, those of code add the pairs of their lines; the pairs
  added on the way are not visited.
\<close>

definition lines_options :: "style_spec list \<Rightarrow> pair_options" where
  "lines_options ss = no_options\<lparr>po_scale := False, po_styles := Some ss, po_measured_locally := True\<rparr>"

fun refine_pairs :: "texts \<Rightarrow> dom \<Rightarrow> pair list \<Rightarrow> pair list \<Rightarrow> pair list \<Rightarrow> error + pair list" where
  "refine_pairs tx d [] refined added = Inr (refined @ added)"
| "refine_pairs tx d (p # ps) refined added =
     (if text_node d (pr_from p)
      then refine_pairs tx d ps (refined @ [p\<lparr>pr_options := no_options\<lparr>po_scale := False\<rparr>\<rparr>]) added
      else if code_node d (pr_from p) then
       (case bind_pairs
          (match_in d (pr_from p) (pr_to p) (code_line d) (textContent tx) (lines_options []) added)
          (match_in d (pr_from p) (pr_to p) (line_number d) (\<lambda>x. or_null (get_attr ''data-line-number'' d x))
             (lines_options [plain_style ''width''])) of
          Inl e \<Rightarrow> Inl e
        | Inr added' \<Rightarrow>
            refine_pairs tx d ps
              (refined @ [p\<lparr>pr_options := no_options\<lparr>po_scale := False,
                 po_styles := Some [plain_style ''width'', plain_style ''height'']\<rparr>\<rparr>]) added')
      else refine_pairs tx d ps (refined @ [p]) added)"

definition getAutoAnimatePairs :: "texts \<Rightarrow> dom \<Rightarrow> node \<Rightarrow> node \<Rightarrow> error + pair list" where
  "getAutoAnimatePairs tx d a b = bind_pairs (slide_matches tx d a b) (\<lambda>ps. refine_pairs tx d ps [] [])"

section \<open>No element twice\<close>

text \<open>Of the pairs with one target only the first is kept.\<close>

fun first_pairs :: "node list \<Rightarrow> pair list \<Rightarrow> pair list" where
  "first_pairs reserved [] = []"
| "first_pairs reserved (p # ps) =
     (if pr_to p \<notin> set reserved then p # first_pairs (reserved @ [pr_to p]) ps else first_pairs reserved ps)"

definition getAutoAnimatableElements ::
    "(node \<Rightarrow> node \<Rightarrow> pair list) option \<Rightarrow> texts \<Rightarrow> dom \<Rightarrow> node \<Rightarrow> node \<Rightarrow> error + pair list" where
  "getAutoAnimatableElements matcher tx d a b =
     bind_pairs (case matcher of Some f \<Rightarrow> Inr (f a b) | None \<Rightarrow> getAutoAnimatePairs tx d a b)
       (\<lambda>ps. Inr (first_pairs [] ps))"

lemma first_pairs_distinct:
  "distinct (map pr_to (first_pairs reserved ps)) \<and> pr_to ` set (first_pairs reserved ps) \<inter> set reserved = {}"
proof (induction ps arbitrary: reserved)
  case (Cons p ps)
  show ?case using Cons [of reserved] Cons [of "reserved @ [pr_to p]"] by auto
qed simp

lemma first_pairs_cover: "pr_to ` set (first_pairs reserved ps) = pr_to ` set ps - set reserved"
  by (induction ps arbitrary: reserved) auto

text \<open>C19: Whatever the matcher returns, each element of the new slide is animated at most once, and an
  element is animated whenever some pair asks for it.\<close>

theorem animated_once:
  assumes "getAutoAnimatableElements matcher tx d a b = Inr qs"
  shows "distinct (map pr_to qs) \<and>
    (\<exists>ps. (case matcher of Some f \<Rightarrow> Inr (f a b) | None \<Rightarrow> getAutoAnimatePairs tx d a b) = Inr ps \<and>
       pr_to ` set qs = pr_to ` set ps)"
proof -
  obtain ps where ps: "(case matcher of Some f \<Rightarrow> Inr (f a b) | None \<Rightarrow> getAutoAnimatePairs tx d a b) = Inr ps" "qs = first_pairs [] ps"
    using assms by (auto simp: getAutoAnimatableElements_def bind_pairs_def split: sum.splits)
  then show ?thesis using first_pairs_distinct [of "[]" ps] first_pairs_cover [of "[]" ps] by (intro conjI exI) simp_all
qed

theorem animated_once_witness:
  "\<exists>qs. getAutoAnimatableElements (Some (\<lambda>a b. [\<lparr>pr_from = 9, pr_to = 11, pr_options = no_options\<rparr>,
       \<lparr>pr_from = 10, pr_to = 11, pr_options = no_options\<rparr>]))
     \<lparr>innerText = \<lambda>x. [], textContent = \<lambda>x. []\<rparr> sample_dom 4 8 = Inr qs \<and> distinct (map pr_to qs)"
proof -
  have "getAutoAnimatableElements (Some (\<lambda>a b. [\<lparr>pr_from = 9, pr_to = 11, pr_options = no_options\<rparr>,
       \<lparr>pr_from = 10, pr_to = 11, pr_options = no_options\<rparr>]))
     \<lparr>innerText = \<lambda>x. [], textContent = \<lambda>x. []\<rparr> sample_dom 4 8 = Inr [\<lparr>pr_from = 9, pr_to = 11, pr_options = no_options\<rparr>]"
    by (simp add: getAutoAnimatableElements_def bind_pairs_def)
  from animated_once [OF this] this show ?thesis by blast
qed

end
