(* ===== verification/AutoAnimate.thy ===== *)
theory AutoAnimate
  imports AnimateMatch Position Objects Paths
begin

text \<open>
  \<open>controllers/autoanimate.js\<close>: the options of an animation, the styles each pair of elements
  is animated by, the elements without a partner, and the run of an animation from one slide to
  the next. Styles keep their structure; the style sheet is a list of rules. What the layout
  engine measures is an argument; font sizes and the scale of the deck are not zero.
\<close>

section \<open>Options\<close>

record animation_config =
  ac_easing :: string
  ac_duration :: real
  ac_unmatched :: bool
  ac_styles :: "style_spec list"
  ac_matcher :: "(node \<Rightarrow> node \<Rightarrow> pair list) option"

definition default_animation :: animation_config where
  "default_animation = \<lparr>ac_easing = ''ease'', ac_duration = 1, ac_unmatched = True,
     ac_styles = map plain_style [''opacity'', ''color'', ''background-color'', ''padding'', ''font-size'', ''line-height'',
       ''letter-spacing'', ''border-width'', ''border-color'', ''border-radius'', ''outline'', ''outline-offset''],
     ac_matcher = None\<rparr>"

text \<open>A time is \<open>None\<close> when it was not readable as a number.\<close>

record animation_options =
  ao_easing :: string
  ao_duration :: "real option"
  ao_delay :: "real option"

definition default_options :: "animation_config \<Rightarrow> animation_options" where
  "default_options c = \<lparr>ao_easing = ac_easing c, ao_duration = Some (ac_duration c), ao_delay = Some 0\<rparr>"

definition data_text :: "string \<Rightarrow> dom \<Rightarrow> node \<Rightarrow> string" where
  "data_text a d x = (case get_attr a d x of Some v \<Rightarrow> v | None \<Rightarrow> [])"

definition own_options :: "dom \<Rightarrow> node \<Rightarrow> animation_options \<Rightarrow> animation_options" where
  "own_options d x o0 =
     (let easing = data_text ''data-auto-animate-easing'' d x;
          duration = data_text ''data-auto-animate-duration'' d x;
          delay = data_text ''data-auto-animate-delay'' d x;
          o1 = (if easing \<noteq> [] then o0\<lparr>ao_easing := easing\<rparr> else o0);
          o2 = (if duration \<noteq> [] then o1\<lparr>ao_duration := parseFloat duration\<rparr> else o1)
      in if delay \<noteq> [] then o2\<lparr>ao_delay := parseFloat delay\<rparr> else o2)"

definition target :: "dom \<Rightarrow> node \<Rightarrow> bool" where
  "target d x = has_attr ''data-auto-animate-target'' d x"

text \<open>The options of an element's animated ancestors, the outermost first.\<close>

fun parent_options :: "dom \<Rightarrow> node list \<Rightarrow> animation_options \<Rightarrow> animation_options" where
  "parent_options d [] o0 = o0"
| "parent_options d (p # ps) o0 = (let o1 = parent_options d ps o0 in if target d p then own_options d p o1 else o1)"

definition getAutoAnimateOptions :: "animation_config \<Rightarrow> dom \<Rightarrow> node \<Rightarrow> animation_options option \<Rightarrow> animation_options" where
  "getAutoAnimateOptions c d x inherited =
     own_options d x (parent_options d (path d x) (case inherited of Some o0 \<Rightarrow> o0 | None \<Rightarrow> default_options c))"

section \<open>The properties of an element\<close>

record rect =
  rc_x :: real
  rc_y :: real
  rc_width :: real
  rc_height :: real

text \<open>What the layout engine says of an element.\<close>

record measures =
  boundingRect :: "dom \<Rightarrow> node \<Rightarrow> rect"
  offsetRect :: "dom \<Rightarrow> node \<Rightarrow> rect"
  computedStyle :: "dom \<Rightarrow> node \<Rightarrow> string \<Rightarrow> string"
  className :: "dom \<Rightarrow> node \<Rightarrow> string"

definition scale_rect :: "real \<Rightarrow> rect \<Rightarrow> rect" where
  "scale_rect k r = \<lparr>rc_x = rc_x r * k, rc_y = rc_y r * k, rc_width = rc_width r * k, rc_height = rc_height r * k\<rparr>"

definition js_round :: "real \<Rightarrow> real" where
  "js_round r = real_of_int \<lfloor>r + 1 / 2\<rfloor>"

definition round_to :: "real \<Rightarrow> real \<Rightarrow> real" where
  "round_to n r = js_round (r * n) / n"

definition getLocalBoundingBox :: "measures \<Rightarrow> real \<Rightarrow> dom \<Rightarrow> node \<Rightarrow> rect" where
  "getLocalBoundingBox m k d x =
     (let r = scale_rect k (offsetRect m d x) in
      \<lparr>rc_x = round_to 100 (rc_x r), rc_y = round_to 100 (rc_y r),
       rc_width = round_to 100 (rc_width r), rc_height = round_to 100 (rc_height r)\<rparr>)"

text \<open>
  A style is text or a number; one given by the matcher is an object, which equals nothing else.
  A factor of a scale is \<open>None\<close> when it is a quotient by zero.
\<close>

datatype style_value = SvText string | SvNumber real | SvGiven string
  | SvTransform "(real \<times> real) option" "(real option \<times> real option) option"
  | SvTransition "real option" string "real option"

type_synonym styles = "(string \<times> style_value) list"

record props =
  pp_rect :: "rect option"
  pp_styles :: styles

datatype side = From | To

definition line_height :: "measures \<Rightarrow> dom \<Rightarrow> node \<Rightarrow> real option" where
  "line_height m d x =
     (case (parseFloat (computedStyle m d x ''line-height''), parseFloat (computedStyle m d x ''font-size'')) of
        (Some a, Some b) \<Rightarrow> Some (a / b)
      | _ \<Rightarrow> None)"

definition style_of :: "measures \<Rightarrow> dom \<Rightarrow> side \<Rightarrow> node \<Rightarrow> style_spec \<Rightarrow> style_value" where
  "style_of m d sd x ss =
     (case (sd, ss_from ss, ss_to ss) of
        (From, Some v, _) \<Rightarrow> SvGiven v
      | (To, _, Some v) \<Rightarrow> SvGiven v
      | _ \<Rightarrow>
          (case (if ss_property ss = ''line-height'' then line_height m d x else None) of
             Some r \<Rightarrow> SvNumber r
           | None \<Rightarrow> SvText (computedStyle m d x (ss_property ss))))"

definition add_style :: "measures \<Rightarrow> dom \<Rightarrow> side \<Rightarrow> node \<Rightarrow> style_spec \<Rightarrow> styles \<Rightarrow> styles" where
  "add_style m d sd x ss l = (let v = style_of m d sd x ss in if v = SvText [] then l else put (ss_property ss) v l)"

definition measured :: "pair_options \<Rightarrow> bool" where
  "measured po = (po_translate po \<or> po_scale po)"

definition getAutoAnimatableProperties ::
    "animation_config \<Rightarrow> bool \<Rightarrow> real \<Rightarrow> measures \<Rightarrow> dom \<Rightarrow> side \<Rightarrow> node \<Rightarrow> pair_options \<Rightarrow> props" where
  "getAutoAnimatableProperties c center k m d sd x po =
     \<lparr>pp_rect =
        (if measured po then
           Some (if po_measured_locally po then getLocalBoundingBox m k d x
                 else if center then boundingRect m d x
                 else scale_rect k (offsetRect m d x))
         else None),
      pp_styles = fold (add_style m d sd x) (case po_styles po of Some l \<Rightarrow> l | None \<Rightarrow> ac_styles c) []\<rparr>"

section \<open>Animating a pair\<close>

definition fragment_styles :: "string list" where
  "fragment_styles = [''fade-down'', ''fade-up'', ''fade-right'', ''fade-left'', ''fade-out'', ''fade-in-then-out'',
     ''fade-in-then-semi-out'', ''semi-fade-out'', ''current-visible'', ''shrink'', ''grow'']"

text \<open>The first match of the expression for fragment styles in a class attribute, else the empty text.\<close>

fun fragment_style :: "string \<Rightarrow> string" where
  "fragment_style [] = []"
| "fragment_style (c # cs) =
     (case find (\<lambda>f. starts_with f (c # cs)) fragment_styles of Some f \<Rightarrow> f | None \<Rightarrow> fragment_style cs)"

definition ratio :: "real \<Rightarrow> real \<Rightarrow> real option" where
  "ratio a b = (if b = 0 then None else Some (a / b))"

text \<open>The horizontal factor is rounded twice, the vertical one not at all, as in the source.\<close>

definition transform_of :: "real \<Rightarrow> pair_options \<Rightarrow> rect \<Rightarrow> rect \<Rightarrow> style_value option" where
  "transform_of k po a b =
     (let dx = round_to 1000 ((rc_x a - rc_x b) / k); dy = round_to 1000 ((rc_y a - rc_y b) / k);
          sx = map_option (round_to 1000) (map_option (round_to 1000) (ratio (rc_width a) (rc_width b)));
          sy = ratio (rc_height a) (rc_height b);
          translate = po_translate po \<and> (dx \<noteq> 0 \<or> dy \<noteq> 0);
          scale = po_scale po \<and> (sx \<noteq> Some 0 \<or> sy \<noteq> Some 0)
      in if translate \<or> scale
         then Some (SvTransform (if translate then Some (dx, dy) else None) (if scale then Some (sx, sy) else None))
         else None)"

fun same_value :: "style_value \<Rightarrow> style_value \<Rightarrow> bool" where
  "same_value (SvGiven a) v = False"
| "same_value u v = (u = v)"

fun unwrap :: "style_value \<Rightarrow> style_value" where
  "unwrap (SvGiven v) = SvText v"
| "unwrap v = v"

text \<open>
  Only what changes is animated. A property with no value at the start makes the comparison
  throw.
\<close>

fun changed_styles :: "styles \<Rightarrow> styles \<Rightarrow> error + (styles \<times> styles)" where
  "changed_styles [] froms = Inr ([], froms)"
| "changed_styles ((p, v) # r) froms =
     (case map_of froms p of
        None \<Rightarrow> Inl TypeError
      | Some u \<Rightarrow>
          if same_value v u then changed_styles r froms
          else (case changed_styles r (put p (unwrap u) froms) of
                  Inl e \<Rightarrow> Inl e
                | Inr (tos, froms') \<Rightarrow> Inr ((p, unwrap v) # tos, froms')))"

datatype css_rule = StartRule string styles | EndRule string styles "string list"
  | FadeRule string "real option" "real option"

definition pair_rules :: "string \<Rightarrow> animation_options \<Rightarrow> styles \<Rightarrow> styles \<Rightarrow> css_rule list" where
  "pair_rules i o1 froms tos =
     (if tos = [] then []
      else [StartRule i (put ''transition'' (SvText ''none'') froms),
            EndRule i (put ''transition'' (SvTransition (ao_duration o1) (ao_easing o1) (ao_delay o1)) tos) (map fst tos)])"

definition pair_animation_options :: "pair_options \<Rightarrow> animation_options \<Rightarrow> animation_options" where
  "pair_animation_options po o0 =
     (let o1 = (case po_delay po of Some t \<Rightarrow> o0\<lparr>ao_delay := Some t\<rparr> | None \<Rightarrow> o0);
          o2 = (case po_duration po of Some t \<Rightarrow> o1\<lparr>ao_duration := Some t\<rparr> | None \<Rightarrow> o1)
      in case po_easing po of Some e \<Rightarrow> o2\<lparr>ao_easing := e\<rparr> | None \<Rightarrow> o2)"

text \<open>A fragment is not faded as well; one that was shown already with the same style is shown at once.\<close>

definition keep_fragment :: "measures \<Rightarrow> bool \<Rightarrow> node \<Rightarrow> node \<Rightarrow> dom \<Rightarrow> dom" where
  "keep_fragment m forward a b d =
     (if has_class ''fragment'' d b \<and> has_class ''fragment'' d a \<and>
         fragment_style (className m d a) = fragment_style (className m d b) \<and> forward
      then add_class ''disabled'' b (add_class ''visible'' b d) else d)"

definition drop_style :: "string \<Rightarrow> styles \<Rightarrow> styles" where
  "drop_style p l = filter (\<lambda>(q, v). q \<noteq> p) l"

definition with_transform :: "real \<Rightarrow> pair_options \<Rightarrow> props \<Rightarrow> props \<Rightarrow> styles \<times> styles" where
  "with_transform k po fp tp =
     (case (pp_rect fp, pp_rect tp) of
        (Some a, Some b) \<Rightarrow>
          (case transform_of k po a b of
             Some t \<Rightarrow> (put ''transform-origin'' (SvText ''top left'') (put ''transform'' t (pp_styles fp)),
                        put ''transform'' (SvText ''none'') (pp_styles tp))
           | None \<Rightarrow> (pp_styles fp, pp_styles tp))
      | _ \<Rightarrow> (pp_styles fp, pp_styles tp))"

text \<open>The deck as an animation sees it: its options, scale, and whether it centres its slides.\<close>

record stage =
  sg_config :: animation_config
  sg_center :: bool
  sg_scale :: real
  sg_measures :: measures
  sg_texts :: "dom \<Rightarrow> texts"
  sg_forward :: bool

definition pair_props :: "stage \<Rightarrow> dom \<Rightarrow> side \<Rightarrow> node \<Rightarrow> pair_options \<Rightarrow> props" where
  "pair_props g = getAutoAnimatableProperties (sg_config g) (sg_center g) (sg_scale g) (sg_measures g)"

definition autoAnimateElements ::
    "stage \<Rightarrow> animation_options \<Rightarrow> nat \<Rightarrow> pair \<Rightarrow> dom \<Rightarrow> (error + css_rule list) \<times> dom" where
  "autoAnimateElements g o0 n p d =
     (let a = pr_from p; b = pr_to p; po = pr_options p; i = show_nat n;
          d1 = set_attr ''data-auto-animate-target'' i b (set_attr ''data-auto-animate-target'' [] a d);
          o1 = pair_animation_options po (getAutoAnimateOptions (sg_config g) d1 b (Some o0));
          fp = pair_props g d1 From a po; tp0 = pair_props g d1 To b po;
          tp = (if has_class ''fragment'' d1 b then tp0\<lparr>pp_styles := drop_style ''opacity'' (pp_styles tp0)\<rparr> else tp0);
          d2 = keep_fragment (sg_measures g) (sg_forward g) a b d1;
          (froms, tos) = with_transform (sg_scale g) po fp tp
      in case changed_styles tos froms of
           Inl e \<Rightarrow> (Inl e, d2)
         | Inr (tos', froms') \<Rightarrow> (Inr (pair_rules i o1 froms' tos'), d2))"

section \<open>Elements without a partner\<close>

text \<open>Children that are not animated and contain nothing that is; inside the others, the same.\<close>

definition holds_target :: "dom \<Rightarrow> node \<Rightarrow> bool" where
  "holds_target d x = (querySel d x (target d) \<noteq> None)"

function getUnmatchedAutoAnimateElements :: "dom \<Rightarrow> node \<Rightarrow> node list" where
  "getUnmatchedAutoAnimateElements d r =
     concat (map (\<lambda>x. (if \<not> target d x \<and> \<not> holds_target d x then [x] else []) @
                      (if holds_target d x then getUnmatchedAutoAnimateElements d x else []))
       (filter (is_element d) (childNodes d r)))"
  by pat_completeness auto
termination
  by (relation "measure (\<lambda>(d, x). depth_bound d - length (path d x))") (auto simp: childNodes_depth)

declare getUnmatchedAutoAnimateElements.simps [simp del]

section \<open>Running and resetting\<close>

text \<open>The style sheet, if there is one, with its rules; the counter; the slides whose animation starts with the next frame.\<close>

record animator =
  an_sheet :: "node option"
  an_rules :: "css_rule list"
  an_counter :: nat
  an_frames :: "node list"

definition createStyleSheet :: "dom \<Rightarrow> node \<times> dom" where
  "createStyleSheet d =
     (let (n, d1) = createElement ''style'' d in
      (n, case first_opt (filter (\<lambda>x. tag d1 x = ''head'') (order d1)) of Some h \<Rightarrow> appendChild h n d1 | None \<Rightarrow> d1))"

definition started :: "dom \<Rightarrow> node \<Rightarrow> bool" where
  "started d x = (case get_attr ''data-auto-animate'' d x of Some v \<Rightarrow> v \<noteq> [] | None \<Rightarrow> False)"

definition clear_marks :: "node \<Rightarrow> dom \<Rightarrow> dom" where
  "clear_marks w d =
     (let d1 = for_each (\<lambda>x. set_attr ''data-auto-animate'' [] x) (queryAll d w (started d)) d
      in for_each (\<lambda>x. remove_attr ''data-auto-animate-target'' x) (queryAll d1 w (target d1)) d1)"

definition autoAnimate_reset :: "node \<Rightarrow> animator \<Rightarrow> dom \<Rightarrow> animator \<times> dom" where
  "autoAnimate_reset w a d =
     (let d1 = clear_marks w d in
      case an_sheet a of
        Some n \<Rightarrow> if parentNode d1 n \<noteq> None then (a\<lparr>an_sheet := None\<rparr>, removeNode n d1) else (a, d1)
      | None \<Rightarrow> (a, d1))"

definition may_animate :: "node list \<Rightarrow> dom \<Rightarrow> node \<Rightarrow> node \<Rightarrow> bool" where
  "may_animate slides d a b =
     (has_attr ''data-auto-animate'' d a \<and> has_attr ''data-auto-animate'' d b \<and>
      get_attr ''data-auto-animate-id'' d a = get_attr ''data-auto-animate-id'' d b \<and>
      \<not> has_attr ''data-auto-animate-restart'' d (if index_of a slides < index_of b slides then b else a))"

fun animate_pairs :: "stage \<Rightarrow> animation_options \<Rightarrow> nat \<Rightarrow> pair list \<Rightarrow> dom \<Rightarrow> (error + css_rule list) \<times> nat \<times> dom" where
  "animate_pairs g o0 n [] d = (Inr [], n, d)"
| "animate_pairs g o0 n (p # ps) d =
     (case autoAnimateElements g o0 n p d of
        (Inl e, d1) \<Rightarrow> (Inl e, Suc n, d1)
      | (Inr rs, d1) \<Rightarrow>
          (case animate_pairs g o0 (Suc n) ps d1 of
             (Inl e, r) \<Rightarrow> (Inl e, r)
           | (Inr rs', r) \<Rightarrow> (Inr (rs @ rs'), r)))"

text \<open>An element with times of its own fades by a rule of its own; \<open>NaN\<close> differs from every time.\<close>

definition differs :: "real option \<Rightarrow> real option \<Rightarrow> bool" where
  "differs a b = (a = None \<or> a \<noteq> b)"

fun fade_unmatched :: "stage \<Rightarrow> animation_options \<Rightarrow> nat \<Rightarrow> node list \<Rightarrow> dom \<Rightarrow> css_rule list \<times> nat \<times> dom" where
  "fade_unmatched g o0 n [] d = ([], n, d)"
| "fade_unmatched g o0 n (x # xs) d =
     (let o1 = getAutoAnimateOptions (sg_config g) d x (Some o0);
          own = differs (ao_duration o1) (ao_duration o0) \<or> differs (ao_delay o1) (ao_delay o0);
          i = (if own then ''unmatched-'' @ show_nat n else ''unmatched'');
          (rs, r) = fade_unmatched g o0 (if own then Suc n else n) xs (set_attr ''data-auto-animate-target'' i x d)
      in ((if own then [FadeRule i (ao_duration o1) (ao_delay o1)] else []) @ rs, r))"

definition fades_unmatched :: "animation_config \<Rightarrow> dom \<Rightarrow> node \<Rightarrow> bool" where
  "fades_unmatched c d b = (get_attr ''data-auto-animate-unmatched'' d b \<noteq> Some ''false'' \<and> ac_unmatched c)"

definition fade_rest :: "stage \<Rightarrow> animation_options \<Rightarrow> nat \<Rightarrow> node \<Rightarrow> dom \<Rightarrow> css_rule list \<times> nat \<times> dom" where
  "fade_rest g o0 n b d =
     (if fades_unmatched (sg_config g) d b then
       (let (rs, r) = fade_unmatched g o0 n (getUnmatchedAutoAnimateElements d b) d
        in (rs @ [FadeRule ''unmatched'' (map_option (\<lambda>t. t * 8 / 10) (ao_duration o0))
                    (map_option (\<lambda>t. t * 2 / 10) (ao_duration o0))], r))
      else ([], n, d))"

text \<open>A slide out of the view distance is shown while it is measured; an exception leaves it so.\<close>

definition measure_pairs :: "stage \<Rightarrow> animation_options \<Rightarrow> nat \<Rightarrow> node \<Rightarrow> node \<Rightarrow> dom \<Rightarrow> (error + css_rule list) \<times> nat \<times> dom" where
  "measure_pairs g o0 n a b d =
     (case getAutoAnimatableElements (ac_matcher (sg_config g)) (sg_texts g d) d a b of
        Inl e \<Rightarrow> (Inl e, n, d)
      | Inr ps \<Rightarrow> animate_pairs g o0 n ps d)"

definition measure_shown :: "string \<Rightarrow> stage \<Rightarrow> animation_options \<Rightarrow> nat \<Rightarrow> node \<Rightarrow> node \<Rightarrow> dom \<Rightarrow>
    (error + css_rule list) \<times> nat \<times> dom" where
  "measure_shown display g o0 n a b d =
     (if get_style ''display'' d a = Some (Css ''none'') then
       (case measure_pairs g o0 n a b (set_style ''display'' (Css display) a d) of
          (Inl e, k, d1) \<Rightarrow> (Inl e, k, d1)
        | (Inr css, k, d1) \<Rightarrow> (Inr css, k, set_style ''display'' (Css ''none'') a d1))
      else measure_pairs g o0 n a b d)"

text \<open>A run, given the slides of the deck; the event tells the page about it. An exception ends it.\<close>

definition autoAnimate_run :: "stage \<Rightarrow> node \<Rightarrow> string \<Rightarrow> node list \<Rightarrow> node \<Rightarrow> node \<Rightarrow> animator \<Rightarrow> dom \<Rightarrow>
    (error + event list) \<times> animator \<times> dom" where
  "autoAnimate_run g0 w display slides a b st d =
     (let (st1, d1) = autoAnimate_reset w st d; g = g0\<lparr>sg_forward := index_of a slides < index_of b slides\<rparr> in
      if may_animate slides d1 a b then
       (let (n, d2) = (case an_sheet st1 of Some n \<Rightarrow> (n, d1) | None \<Rightarrow> createStyleSheet d1);
            st2 = st1\<lparr>an_sheet := Some n\<rparr>;
            o0 = getAutoAnimateOptions (sg_config g) d2 b None;
            d3 = set_attr ''data-auto-animate'' ''pending'' b (set_attr ''data-auto-animate'' ''pending'' a d2);
            (r, k, d4) = measure_shown display g o0 (an_counter st2) a b d3
        in case r of
             Inl e \<Rightarrow> (Inl e, st2\<lparr>an_counter := k\<rparr>, d4)
           | Inr css \<Rightarrow>
               (case fade_rest g o0 k b d4 of
                  (fades, k', d5) \<Rightarrow>
                    (Inr [Ev ''autoanimate'' w],
                     st2\<lparr>an_rules := css @ fades, an_counter := k', an_frames := an_frames st2 @ [b]\<rparr>, d5)))
      else (Inr [], st1, d1))"

text \<open>The next frame: the animation starts if it has not been reset meanwhile.\<close>

definition start_frame :: "animator \<Rightarrow> dom \<Rightarrow> animator \<times> dom" where
  "start_frame st d =
     (case an_frames st of
        [] \<Rightarrow> (st, d)
      | b # bs \<Rightarrow> (st\<lparr>an_frames := bs\<rparr>, if an_sheet st \<noteq> None then set_attr ''data-auto-animate'' ''running'' b d else d))"

section \<open>Properties\<close>

definition unmatched :: "dom \<Rightarrow> node \<Rightarrow> node \<Rightarrow> bool" where
  "unmatched d r x = (x \<in> set (order d) \<and> is_element d x \<and> r \<in> set (path d x) \<and> \<not> target d x \<and> \<not> holds_target d x \<and>
     list_all (\<lambda>y. r \<in> set (path d y) \<longrightarrow> is_element d y \<and> holds_target d y) (path d x))"

lemma unmatched_step:
  assumes "rooted d" and "r \<in> set (order d)"
  shows "unmatched d r x \<longleftrightarrow> (\<exists>c\<in>set (childNodes d r). is_element d c \<and>
    (x = c \<and> \<not> target d c \<and> \<not> holds_target d c \<or> holds_target d c \<and> unmatched d c x))" (is "_ \<longleftrightarrow> ?step")
proof
  have r: "r < nextNode d" and wf: "wf_dom d" using assms rootedD by blast+
  have no_r: "r \<notin> set (path d r)" by (rule path_acyclic [OF wf r])
  have child: "c \<in> set (order d) \<and> path d c = r # path d r" if "c \<in> set (childNodes d r)" for c
    using that by (simp add: childNodes_def)
  {
    assume ?step
    then obtain c where c: "c \<in> set (childNodes d r)" "is_element d c"
      and x: "x = c \<and> \<not> target d c \<and> \<not> holds_target d c \<or> holds_target d c \<and> unmatched d c x" by blast
    from x show "unmatched d r x"
    proof (elim disjE conjE)
      assume x: "x = c" "\<not> target d c" "\<not> holds_target d c"
      have "r \<notin> set (path d y)" if "y \<in> set (path d x)" for y
        using that child [OF c(1)] x(1) no_r path_trans [OF wf r, of y r] by auto
      then show ?thesis using x c(2) child [OF c(1)] by (auto simp: unmatched_def list_all_iff)
    next
      assume h: "holds_target d c" and u: "unmatched d c x"
      then have x: "x < nextNode d" "c \<in> set (path d x)" using rootedD(2) [OF assms(1)] by (auto simp: unmatched_def)
      have "r \<in> set (path d x)" using path_trans [OF wf x] child [OF c(1)] by simp
      moreover have "is_element d y \<and> holds_target d y" if "y \<in> set (path d x)" "r \<in> set (path d y)" for y
        using between_child [OF wf x(1) r c(1) x(2) that(1)] that u c(2) h by (auto simp: unmatched_def list_all_iff)
      ultimately show ?thesis using u by (auto simp: unmatched_def list_all_iff)
    qed
  next
    assume u: "unmatched d r x"
    then have x: "x < nextNode d" "r \<in> set (path d x)" "x \<in> set (order d)" using rootedD(2) [OF assms(1)] by (auto simp: unmatched_def)
    obtain c where c: "path d c = r # path d r" "c = x \<or> c \<in> set (path d x)" using child_below [OF wf x(1,2)] by blast
    have ch: "c \<in> set (childNodes d r)" using c x(3) rootedD(3) [OF assms(1) x(3)] by (auto simp: childNodes_def)
    have "is_element d y \<and> holds_target d y" if "c \<in> set (path d x)" "y \<in> set (path d x)" "c \<in> set (path d y)" for y
      using between_child [OF wf x(1) r ch that(1,2)] that u by (auto simp: unmatched_def list_all_iff)
    then show ?step using c u ch by (cases "c = x") (auto simp: unmatched_def list_all_iff intro!: bexI [OF _ ch])
  }
qed



text \<open>Clearing the marks of an earlier run.\<close>

lemma marks_order [simp]: "order (clear_marks w d) = order d" "path (clear_marks w d) = path d"
  by (simp_all add: clear_marks_def Let_def for_each_frame [of order] for_each_frame [of path])

lemma attr_for_each:
  "get_attr a (for_each (\<lambda>x. set_attr b v x) xs d) y = (if y \<in> set xs \<and> a = b then Some v else get_attr a d y)"
  "get_attr a (for_each (\<lambda>x. remove_attr b x) xs d) y = (if y \<in> set xs \<and> a = b then None else get_attr a d y)"
  by (induction xs arbitrary: d) auto

lemma cleared:
  assumes "x \<in> set (order d)" "is_desc d w x"
  shows "\<not> started (clear_marks w d) x" "\<not> target (clear_marks w d) x"
proof -
  let ?d1 = "for_each (\<lambda>x. set_attr ''data-auto-animate'' [] x) (queryAll d w (started d)) d"
  have o: "order ?d1 = order d" "path ?d1 = path d" by (simp_all add: for_each_frame [of order] for_each_frame [of path])
  have "get_attr ''data-auto-animate'' (clear_marks w d) x = get_attr ''data-auto-animate'' ?d1 x"
    by (simp add: clear_marks_def Let_def attr_for_each)
  moreover have "x \<in> set (queryAll d w (started d)) \<longleftrightarrow> started d x" using assms by (simp add: queryAll_def)
  ultimately show "\<not> started (clear_marks w d) x" by (simp add: started_def attr_for_each split: option.split)
  have q: "x \<in> set (queryAll e w (target e)) \<longleftrightarrow> target e x" if "order e = order d" "path e = path d" for e
    using assms that by (simp add: queryAll_def is_desc_def)
  have "x \<in> set (queryAll ?d1 w (target ?d1)) \<longleftrightarrow> target ?d1 x" by (rule q [OF o])
  moreover have tg: "target e x \<longleftrightarrow> get_attr ''data-auto-animate-target'' e x \<noteq> None" for e
    by (simp add: target_def has_attr_def get_attr_def)
  ultimately show "\<not> target (clear_marks w d) x"
    unfolding clear_marks_def Let_def by (simp only: tg attr_for_each(2) split: if_split) simp
qed

lemma removed_below:
  assumes "is_desc (removeNode c d) w x"
  shows "is_desc d w x"
  using assms by (auto simp: is_desc_def removeNode_def repath_def dest: set_takeWhileD split: if_splits)

text \<open>After a reset no slide and no element of the deck bears a trace of an animation: none is marked
  as pending or running, and none as the target of a rule.\<close>

lemma reset_clears:
  "queryAll (snd (autoAnimate_reset w a d)) w (started (snd (autoAnimate_reset w a d))) = [] \<and>
   queryAll (snd (autoAnimate_reset w a d)) w (target (snd (autoAnimate_reset w a d))) = []"
proof -
  let ?d1 = "clear_marks w d" and ?d2 = "snd (autoAnimate_reset w a d)"
  have d2: "?d2 = ?d1 \<or> (\<exists>n. ?d2 = removeNode n ?d1)"
    by (auto simp: autoAnimate_reset_def Let_def split: option.split)
  have "\<not> started ?d2 x \<and> \<not> target ?d2 x" if "x \<in> set (order ?d2)" "is_desc ?d2 w x" for x
  proof -
    have "x \<in> set (order d)" "is_desc d w x"
      using d2 that removed_below [of _ ?d1 w x] by (auto simp: removeNode_def is_desc_def)
    then have "\<not> started ?d1 x" "\<not> target ?d1 x" by (rule cleared)+
    then show ?thesis using d2 by (auto simp: removeNode_def started_def target_def get_attr_def has_attr_def)
  qed
  then show ?thesis by (auto simp: queryAll_def filter_empty_conv)
qed

text \<open>
  Whether the size changes is tested by comparing the factors with zero instead of one: elements that
  have not changed at all are given a transformation and so an animation.
\<close>

lemma unchanged_is_scaled:
  "rc_width r \<noteq> 0 \<Longrightarrow> rc_height r \<noteq> 0 \<Longrightarrow> transform_of k no_options r r = Some (SvTransform None (Some (Some 1, Some 1)))"
  by (simp add: transform_of_def no_options_def Let_def ratio_def round_to_def js_round_def)

end
