(* ===== verification/Plugins.thy ===== *)
theory Plugins
  imports Objects
begin

text \<open>
  \<open>controllers/plugins.js\<close> with \<open>utils/loader.js\<close>: plugins are registered, the scripts the deck
  depends on are loaded, the plugins are initialised one after the other (each may take its time),
  and the deck starts. What the browser and the plugins answer are the events of a state machine.
\<close>

section \<open>Data\<close>

text \<open>What calling \<open>init\<close> does: there is none, it returns at once, or it returns a promise.\<close>

datatype init = NoInit | InitNow | InitLater

record plugin =
  pl_name :: nat
  pl_id :: "string option"
  pl_init :: init
  pl_destroys :: bool

text \<open>A plugin is given as an object, by a function that makes it, or with its id as an argument of its own.\<close>

datatype registration = Instance plugin | Factory plugin | Named string plugin

fun made :: "registration \<Rightarrow> plugin" where
  "made (Instance p) = p"
| "made (Factory p) = p"
| "made (Named i p) = p\<lparr>pl_id := Some i\<rparr>"

text \<open>
  A dependency: whether its condition holds (or it has none), whether it may come late, the plugin
  it is when it has an id, and the script it is loaded from otherwise.
\<close>

record dependency =
  dep_wanted :: bool
  dep_async :: bool
  dep_plugin :: "plugin option"
  dep_src :: "string option"
  dep_callback :: "nat option"

datatype phase = Idle | Loading | Loaded

datatype loader_event = Initialised plugin | Called nat | Requested string | Started | Destroyed plugin | Warned

record loader =
  phase :: phase
  registered :: "(string \<times> plugin) list"
  asyncDependencies :: "dependency list"
  scriptsToLoad :: int
  pending :: "dependency list"
  pluginValues :: "plugin list"
  nextPlugin :: nat
  waiting :: bool
  happened :: "loader_event list"

definition idle :: loader where
  "idle = \<lparr>phase = Idle, registered = [], asyncDependencies = [], scriptsToLoad = 0, pending = [],
     pluginValues = [], nextPlugin = 0, waiting = False, happened = []\<rparr>"

definition happens :: "loader_event list \<Rightarrow> loader \<Rightarrow> loader" where
  "happens es st = st\<lparr>happened := happened st @ es\<rparr>"

section \<open>Registering\<close>

definition registerPlugin :: "registration \<Rightarrow> loader \<Rightarrow> loader" where
  "registerPlugin r st =
     (let p = made r in
      case pl_id p of
        None \<Rightarrow> happens [Warned] st
      | Some i \<Rightarrow>
          if i \<notin> fst ` set (registered st) then
            (let st1 = st\<lparr>registered := put i p (registered st)\<rparr>
             in if phase st1 = Loaded \<and> pl_init p \<noteq> NoInit then happens [Initialised p] st1 else st1)
          else happens [Warned] st)"

definition getPlugin :: "string \<Rightarrow> loader \<Rightarrow> plugin option" where
  "getPlugin i st = map_of (registered st) i"

definition hasPlugin :: "string \<Rightarrow> loader \<Rightarrow> bool" where
  "hasPlugin i st = (getPlugin i st \<noteq> None)"

section \<open>Initialising\<close>

text \<open>The promise of the async load is resolved already: the deck starts.\<close>

definition loadAsync :: "loader \<Rightarrow> loader" where
  "loadAsync st =
     happens (map (\<lambda>d. Requested (case dep_src d of Some u \<Rightarrow> u | None \<Rightarrow> ''undefined'')) (asyncDependencies st) @ [Started])
       (st\<lparr>phase := Loaded\<rparr>)"

text \<open>The plugins not initialised yet, in turn; the first that returns a promise is waited for.\<close>

fun initNextPlugin :: "plugin list \<Rightarrow> loader \<Rightarrow> loader" where
  "initNextPlugin [] st = loadAsync st"
| "initNextPlugin (p # ps) st =
     (let st1 = st\<lparr>nextPlugin := Suc (nextPlugin st)\<rparr> in
      case pl_init p of
        NoInit \<Rightarrow> initNextPlugin ps st1
      | InitNow \<Rightarrow> initNextPlugin ps (happens [Initialised p] st1)
      | InitLater \<Rightarrow> (happens [Initialised p] st1)\<lparr>waiting := True\<rparr>)"

definition initPlugins :: "loader \<Rightarrow> loader" where
  "initPlugins st =
     (let ps = map snd (own_properties (registered st))
      in initNextPlugin ps (st\<lparr>pluginValues := ps, nextPlugin := 0\<rparr>))"

text \<open>The promise of the plugin waited for is fulfilled.\<close>

definition afterPlugInitialized :: "loader \<Rightarrow> loader" where
  "afterPlugInitialized st = initNextPlugin (drop (nextPlugin st) (pluginValues st)) (st\<lparr>waiting := False\<rparr>)"

section \<open>Loading\<close>

definition called :: "dependency \<Rightarrow> loader_event list" where
  "called d = (case dep_callback d of Some n \<Rightarrow> [Called n] | None \<Rightarrow> [])"

definition scriptLoadedCallback :: "dependency option \<Rightarrow> loader \<Rightarrow> loader" where
  "scriptLoadedCallback d st =
     (let st1 = happens (case d of Some s \<Rightarrow> called s | None \<Rightarrow> []) st;
          st2 = st1\<lparr>scriptsToLoad := scriptsToLoad st1 - 1\<rparr>
      in if scriptsToLoad st2 = 0 then initPlugins st2 else st2)"

definition load_script :: "dependency \<Rightarrow> loader \<Rightarrow> loader" where
  "load_script d st =
     (case dep_plugin d of
        Some p \<Rightarrow> scriptLoadedCallback (Some d) (registerPlugin (Instance p) st)
      | None \<Rightarrow>
          (case dep_src d of
             Some u \<Rightarrow> (happens [Requested u] st)\<lparr>pending := pending st @ [d]\<rparr>
           | None \<Rightarrow> scriptLoadedCallback None (happens [Warned] st)))"

definition load :: "registration list \<Rightarrow> dependency list \<Rightarrow> loader \<Rightarrow> loader" where
  "load plugins dependencies st =
     (let st1 = fold registerPlugin plugins (st\<lparr>phase := Loading\<rparr>);
          wanted = filter dep_wanted dependencies;
          scripts = filter (\<lambda>d. \<not> dep_async d) wanted;
          st2 = st1\<lparr>asyncDependencies := asyncDependencies st1 @ filter dep_async wanted\<rparr>
      in if scripts = [] then initPlugins st2
         else fold load_script scripts (st2\<lparr>scriptsToLoad := int (length scripts)\<rparr>))"

definition plugins_destroy :: "loader \<Rightarrow> loader" where
  "plugins_destroy st =
     (happens (map Destroyed (filter pl_destroys (map snd (own_properties (registered st))))) st)
       \<lparr>registered := [], asyncDependencies := []\<rparr>"

section \<open>Loading as a state machine\<close>

text \<open>The script of a dependency has been loaded, or has failed to: the callback is the same.\<close>

definition script_loaded :: "dependency \<Rightarrow> loader \<Rightarrow> loader" where
  "script_loaded d st = scriptLoadedCallback (Some d) (st\<lparr>pending := remove1 d (pending st)\<rparr>)"

inductive progress_step :: "loader \<Rightarrow> loader \<Rightarrow> bool" where
  script: "d \<in> set (pending st) \<Longrightarrow> progress_step st (script_loaded d st)"
| promise: "waiting st \<Longrightarrow> progress_step st (afterPlugInitialized st)"

inductive loads :: "registration list \<Rightarrow> dependency list \<Rightarrow> loader \<Rightarrow> bool" for ps ds where
  start: "loads ps ds (load ps ds idle)"
| progress: "loads ps ds st \<Longrightarrow> progress_step st t \<Longrightarrow> loads ps ds t"
| register: "loads ps ds st \<Longrightarrow> loads ps ds (registerPlugin r st)"

inductive_cases progress_stepE: "progress_step st t"

section \<open>The order of initialisation\<close>

fun inits :: "loader_event list \<Rightarrow> plugin list" where
  "inits [] = []"
| "inits (e # es) = (case e of Initialised p \<Rightarrow> p # inits es | _ \<Rightarrow> inits es)"

abbreviation has_init :: "plugin \<Rightarrow> bool" where
  "has_init p \<equiv> pl_init p \<noteq> NoInit"

lemma inits_append [simp]: "inits (es @ fs) = inits es @ inits fs"
  by (induction es) (simp_all split: loader_event.split)

lemma inits_quiet [simp]: "inits (map (\<lambda>d. Requested (f d)) ds) = []"
  by (induction ds) simp_all

definition table_ok :: "loader \<Rightarrow> bool" where
  "table_ok st = (distinct (map fst (registered st)) \<and> list_all (\<lambda>(i, p). pl_id p = Some i) (registered st))"

text \<open>
  Before the scripts are there nothing has been initialised; while a plugin is waited for those
  before it have been, in their order; when the deck starts all have been that were registered
  when the last script arrived.
\<close>

definition initialising :: "loader \<Rightarrow> bool" where
  "initialising st = (table_ok st \<and> phase st = Loading \<and> pending st = [] \<and> Started \<notin> set (happened st) \<and>
     nextPlugin st \<le> length (pluginValues st) \<and>
     inits (happened st) = filter has_init (take (nextPlugin st) (pluginValues st)) \<and>
     distinct (map pl_id (pluginValues st)) \<and> set (pluginValues st) \<subseteq> snd ` set (registered st))"

definition fetching :: "loader \<Rightarrow> bool" where
  "fetching st = (table_ok st \<and> phase st = Loading \<and> \<not> waiting st \<and> inits (happened st) = [] \<and> Started \<notin> set (happened st))"

definition running :: "loader \<Rightarrow> bool" where
  "running st = (table_ok st \<and> phase st = Loaded \<and> \<not> waiting st \<and> pending st = [] \<and> Started \<in> set (happened st) \<and>
     inits (takeWhile (\<lambda>e. e \<noteq> Started) (happened st)) = filter has_init (pluginValues st) \<and>
     distinct (map pl_id (inits (happened st))) \<and> set (inits (happened st)) \<subseteq> snd ` set (registered st))"

definition loader_ok :: "loader \<Rightarrow> bool" where
  "loader_ok st = (fetching st \<and> pending st \<noteq> [] \<and> scriptsToLoad st = int (length (pending st)) \<or>
     initialising st \<and> waiting st \<or> running st)"

lemma registerPlugin_cases:
  obtains (same) "registerPlugin r st = happens [Warned] st"
  | (new) i p where "pl_id p = Some i" "i \<notin> fst ` set (registered st)"
      "registerPlugin r st = happens (if phase st = Loaded \<and> has_init p then [Initialised p] else [])
         (st\<lparr>registered := registered st @ [(i, p)]\<rparr>)"
proof (cases "pl_id (made r)")
  case (Some i)
  then show ?thesis using that
    by (cases "i \<in> fst ` set (registered st)") (auto simp: registerPlugin_def Let_def put_new happens_def)
qed (use that in \<open>simp add: registerPlugin_def\<close>)

lemma happens_simps [simp]:
  "happened (happens es st) = happened st @ es" "phase (happens es st) = phase st" "registered (happens es st) = registered st"
  "pending (happens es st) = pending st" "waiting (happens es st) = waiting st" "nextPlugin (happens es st) = nextPlugin st"
  "pluginValues (happens es st) = pluginValues st" "scriptsToLoad (happens es st) = scriptsToLoad st"
  "asyncDependencies (happens es st) = asyncDependencies st"
  by (simp_all add: happens_def)

lemma registerPlugin_frame [simp]:
  "phase (registerPlugin r st) = phase st" "pending (registerPlugin r st) = pending st"
  "waiting (registerPlugin r st) = waiting st" "nextPlugin (registerPlugin r st) = nextPlugin st"
  "pluginValues (registerPlugin r st) = pluginValues st" "scriptsToLoad (registerPlugin r st) = scriptsToLoad st"
  by (cases rule: registerPlugin_cases [of r st]; simp)+

lemma table_ok_register: "table_ok st \<Longrightarrow> table_ok (registerPlugin r st)"
  by (cases rule: registerPlugin_cases [of r st]) (auto simp: table_ok_def)

lemma fetching_register: "fetching st \<Longrightarrow> fetching (registerPlugin r st)"
  using table_ok_register [of st r]
  by (cases rule: registerPlugin_cases [of r st]) (auto simp: fetching_def)

lemma loader_ok_register: "loader_ok st \<Longrightarrow> loader_ok (registerPlugin r st)"
proof -
  have 1: "initialising (registerPlugin r st)" if "initialising st"
    using that table_ok_register [of st r]
    by (cases rule: registerPlugin_cases [of r st]) (auto simp: initialising_def)
  have 2: "running (registerPlugin r st)" if run: "running st"
  proof (cases rule: registerPlugin_cases [of r st])
    case same
    then show ?thesis using run by (auto simp: running_def table_ok_def)
  next
    case (new i p)
    have "pl_id p \<notin> pl_id ` set (inits (happened st))"
    proof
      assume "pl_id p \<in> pl_id ` set (inits (happened st))"
      then obtain q where q: "q \<in> set (inits (happened st))" "pl_id q = Some i" using new(1) by auto
      moreover have "set (inits (happened st)) \<subseteq> snd ` set (registered st)" using run by (simp add: running_def)
      ultimately have "q \<in> snd ` set (registered st)" by blast
      then show False using q(2) run new(2) by (force simp: running_def table_ok_def list_all_iff)
    qed
    then show ?thesis using run table_ok_register [of st r] new by (auto simp: running_def)
  qed
  show "loader_ok st \<Longrightarrow> loader_ok (registerPlugin r st)"
    using 1 2 fetching_register by (auto simp: loader_ok_def)
qed

lemma loader_ok_initNext:
  assumes "initialising st" "\<not> waiting st" "ps = drop (nextPlugin st) (pluginValues st)"
  shows "loader_ok (initNextPlugin ps st)"
  using assms
proof (induction ps arbitrary: st)
  case Nil
  then have "nextPlugin st = length (pluginValues st)" by (simp add: initialising_def)
  then have i: "inits (happened st) = filter has_init (pluginValues st)" using Nil.prems(1) by (simp add: initialising_def)
  have no: "Started \<notin> set (happened st)" using Nil.prems(1) by (simp add: initialising_def)
  have b: "takeWhile (\<lambda>e. e \<noteq> Started) (happened st @ rs @ [Started]) = happened st @ rs" if "Started \<notin> set rs" for rs
    using no that takeWhile_append2 [of "happened st @ rs" "\<lambda>e. e \<noteq> Started" "[Started]"] by fastforce
  have "distinct (map pl_id (filter has_init (pluginValues st)))" "set (filter has_init (pluginValues st)) \<subseteq> snd ` set (registered st)"
    using Nil.prems(1) by (auto simp: initialising_def distinct_map_filter)
  moreover have "table_ok st" "pending st = []" using Nil.prems(1) by (simp_all add: initialising_def)
  ultimately have "running (loadAsync st)"
    using Nil.prems(2) i b unfolding running_def loadAsync_def by (simp add: table_ok_def image_iff)
  then show ?case by (simp add: loader_ok_def)
next
  case (Cons p ps)
  let ?n = "nextPlugin st" and ?vs = "pluginValues st"
  have n: "?n < length ?vs" using Cons.prems(3) by (metis drop_all linorder_not_less list.distinct(1))
  have p: "p = ?vs ! ?n" "ps = drop (Suc ?n) ?vs" using Cons.prems(3) Cons_nth_drop_Suc [OF n] by (metis list.inject)+
  have t: "take (Suc ?n) ?vs = take ?n ?vs @ [p]" using n p(1) by (simp add: take_Suc_conv_app_nth)
  show ?case
  proof (cases "pl_init p")
    case NoInit
    have "loader_ok (initNextPlugin ps (st\<lparr>nextPlugin := Suc ?n\<rparr>))"
      using Cons.prems n t p(2) NoInit by (intro Cons.IH) (simp_all add: initialising_def table_ok_def)
    then show ?thesis by (simp add: NoInit)
  next
    case InitNow
    have "loader_ok (initNextPlugin ps (happens [Initialised p] (st\<lparr>nextPlugin := Suc ?n\<rparr>)))"
      using Cons.prems n t p(2) InitNow by (intro Cons.IH) (simp_all add: initialising_def table_ok_def)
    then show ?thesis by (simp add: InitNow)
  next
    case InitLater
    then show ?thesis using Cons.prems(1,2) n t by (simp add: loader_ok_def initialising_def table_ok_def)
  qed
qed

lemma loader_ok_initPlugins:
  assumes "fetching st" "pending st = []"
  shows "loader_ok (initPlugins st)"
proof -
  let ?ps = "map snd (own_properties (registered st))"
  have "map pl_id (map snd l) = map Some (map fst l)" if "\<forall>(i, p)\<in>set l. pl_id p = Some i" for l :: "(string \<times> plugin) list"
    using that by (induction l) auto
  then have "map pl_id ?ps = map Some (map fst (own_properties (registered st)))"
    using assms(1) by (auto simp: fetching_def table_ok_def list_all_iff)
  moreover have "distinct (map fst (own_properties (registered st)))"
    using assms(1) distinct_own_properties distinct_map by (auto simp: fetching_def table_ok_def distinct_map)
  ultimately have "distinct (map pl_id ?ps)" by (simp only: distinct_map) simp
  then have "initialising (st\<lparr>pluginValues := ?ps, nextPlugin := 0\<rparr>)"
    using assms by (auto simp: initialising_def fetching_def table_ok_def)
  then show ?thesis unfolding initPlugins_def Let_def
    by (rule loader_ok_initNext) (use assms in \<open>simp_all add: fetching_def\<close>)
qed

lemma fetching_happens: "fetching st \<Longrightarrow> inits es = [] \<Longrightarrow> Started \<notin> set es \<Longrightarrow> fetching (happens es st)"
  by (simp add: fetching_def table_ok_def)

lemma fetching_fields: "fetching (st\<lparr>scriptsToLoad := n\<rparr>) = fetching st" "fetching (st\<lparr>pending := ds\<rparr>) = fetching st"
  "fetching (st\<lparr>asyncDependencies := ds\<rparr>) = fetching st"
  by (simp_all add: fetching_def table_ok_def)

lemma called_quiet [simp]: "inits (called d) = []" "Started \<notin> set (called d)"
  by (simp_all add: called_def split: option.split)

text \<open>One script less to wait for: either the plugins' turn has come or more scripts are to come.\<close>

lemma callback_counts:
  assumes "fetching st" "scriptsToLoad st = int (n + length (pending st)) + 1"
  shows "if n = 0 \<and> pending st = [] then loader_ok (scriptLoadedCallback d st)
    else fetching (scriptLoadedCallback d st) \<and> pending (scriptLoadedCallback d st) = pending st \<and>
      scriptsToLoad (scriptLoadedCallback d st) = int (n + length (pending st))"
proof -
  let ?st = "(happens (case d of Some s \<Rightarrow> called s | None \<Rightarrow> []) st)"
  have f: "fetching ?st" using assms(1) by (intro fetching_happens) (simp_all split: option.split)
  then have "fetching (?st\<lparr>scriptsToLoad := scriptsToLoad ?st - 1\<rparr>)" by (simp add: fetching_fields)
  then have "loader_ok (initPlugins (?st\<lparr>scriptsToLoad := scriptsToLoad ?st - 1\<rparr>))" if "pending st = []"
    using that by (intro loader_ok_initPlugins) simp_all
  moreover have z: "scriptsToLoad st - 1 = 0 \<longleftrightarrow> n = 0 \<and> pending st = []" "scriptsToLoad st - 1 = int (n + length (pending st))"
    using assms(2) by (cases "pending st"; auto)+
  ultimately show ?thesis using f unfolding scriptLoadedCallback_def Let_def
    by (simp only: happens_simps loader.simps z(1) simp_thms split: if_split) (auto simp: fetching_fields z(2))
qed

lemma loader_ok_scripts:
  assumes "fetching st" "scriptsToLoad st = int (length ds + length (pending st))" "ds \<noteq> [] \<or> pending st \<noteq> []"
  shows "loader_ok (fold load_script ds st)"
  using assms
proof (induction ds arbitrary: st)
  case (Cons d ds)
  have count: "loader_ok (fold load_script ds (scriptLoadedCallback x u))"
    if "fetching u" "pending u = pending st" "scriptsToLoad u = scriptsToLoad st" for u x
  proof -
    have "scriptsToLoad u = int (length ds + length (pending u)) + 1" using that Cons.prems(2) by simp
    note c = callback_counts [OF that(1) this, of x]
    show ?thesis
    proof (cases "ds = [] \<and> pending u = []")
      case True
      then show ?thesis using c by simp
    next
      case False
      then show ?thesis using c by (intro Cons.IH) (auto split: if_splits)
    qed
  qed
  have reg: "loader_ok (fold load_script ds (scriptLoadedCallback (Some d) (registerPlugin (Instance p) st)))" for p
    using Cons.prems(1) by (intro count) (simp_all add: fetching_register)
  have bad: "loader_ok (fold load_script ds (scriptLoadedCallback None (happens [Warned] st)))"
    using Cons.prems(1) by (intro count) (simp_all add: fetching_happens)
  have req: "loader_ok (fold load_script ds ((happens [Requested u] st)\<lparr>pending := pending st @ [d]\<rparr>))" for u
    using Cons.prems by (intro Cons.IH) (simp_all add: fetching_happens fetching_fields)
  show ?case using reg bad req by (simp add: load_script_def [of d] split: option.split)
qed (simp add: loader_ok_def)

lemma fetching_registers: "fetching st \<Longrightarrow> fetching (fold registerPlugin ps st)"
  by (induction ps arbitrary: st) (simp_all add: fetching_register)

lemma pending_registers [simp]: "pending (fold registerPlugin ps st) = pending st"
  by (induction ps arbitrary: st) simp_all

lemma loader_ok_load: "loader_ok (load ps ds idle)"
proof -
  let ?st = "fold registerPlugin ps (idle\<lparr>phase := Loading\<rparr>)"
  have "fetching (idle\<lparr>phase := Loading\<rparr>)" by (simp add: fetching_def idle_def table_ok_def)
  then have f: "fetching ?st" by (rule fetching_registers)
  have p: "pending ?st = []" by (simp add: idle_def)
  show ?thesis
    using f p by (simp add: load_def Let_def loader_ok_initPlugins loader_ok_scripts fetching_fields)
qed

lemma loader_ok_progress:
  assumes "loader_ok st" "progress_step st t"
  shows "loader_ok t"
proof -
  consider (script) d where "d \<in> set (pending st)" "t = script_loaded d st"
    | (promise) "waiting st" "t = afterPlugInitialized st"
    using assms(2) by (rule progress_stepE)
  then show ?thesis
  proof cases
    case script
    then have f: "fetching st" "scriptsToLoad st = int (length (pending st))"
      using assms(1) by (auto simp: loader_ok_def initialising_def running_def)
    let ?st = "st\<lparr>pending := remove1 d (pending st)\<rparr>"
    have "length (pending st) = Suc (length (remove1 d (pending st)))" using script(1)
      by (simp add: length_remove1) (metis length_pos_if_in_set Suc_pred)
    then have "fetching ?st" "scriptsToLoad ?st = int (0 + length (pending ?st)) + 1" using f by (simp_all add: fetching_fields)
    from callback_counts [OF this, of "Some d"] show ?thesis
      using script(2) by (auto simp: script_loaded_def loader_ok_def split: if_splits)
  next
    case promise
    then have "initialising st" using assms(1) by (auto simp: loader_ok_def fetching_def running_def)
    then have "initialising (st\<lparr>waiting := False\<rparr>)" by (simp add: initialising_def table_ok_def)
    then show ?thesis unfolding promise(2) afterPlugInitialized_def by (rule loader_ok_initNext) simp_all
  qed
qed

lemma loads_ok: "loads ps ds st \<Longrightarrow> loader_ok st"
  by (induction rule: loads.induct) (simp_all add: loader_ok_load loader_ok_register loader_ok_progress)

section \<open>Loading ends\<close>

text \<open>The steps still to come at most: scripts to arrive, plugins to wait for.\<close>

definition work :: "loader \<Rightarrow> nat" where
  "work st = (if waiting st then Suc (length (pluginValues st) - nextPlugin st)
     else if pending st = [] then 0 else length (pending st) + length (registered st))"

lemma work_initNext:
  assumes "\<not> waiting st" "pending st = []" "ps = drop (nextPlugin st) (pluginValues st)"
  shows "work (initNextPlugin ps st) \<le> length ps"
  using assms
proof (induction ps arbitrary: st)
  case (Cons p ps)
  have d: "ps = drop (Suc (nextPlugin st)) (pluginValues st)" using Cons.prems(3) by (metis drop_Suc list.sel(3) tl_drop)
  have step: "work (initNextPlugin ps u) \<le> Suc (length ps)"
    if "waiting u = waiting st" "pending u = pending st" "nextPlugin u = Suc (nextPlugin st)" "pluginValues u = pluginValues st" for u
    using Cons.prems(1,2) d that by (intro le_SucI Cons.IH) simp_all
  have l: "length ps = length (pluginValues st) - Suc (nextPlugin st)" using d by simp
  show ?case
  proof (cases "pl_init p")
    case InitLater
    then show ?thesis by (simp add: work_def l)
  qed (simp_all add: step)
qed (simp add: loadAsync_def work_def)

lemma work_progress:
  assumes "loader_ok st" "progress_step st t"
  shows "work t < work st"
proof -
  consider (script) d where "d \<in> set (pending st)" "t = script_loaded d st"
    | (promise) "waiting st" "t = afterPlugInitialized st"
    using assms(2) by (rule progress_stepE)
  then show ?thesis
  proof cases
    case script
    then have f: "\<not> waiting st" "scriptsToLoad st = int (length (pending st))" "pending st \<noteq> []"
      using assms(1) by (auto simp: loader_ok_def initialising_def running_def fetching_def)
    have l: "length (pending st) = Suc (length (remove1 d (pending st)))" using script(1)
      by (simp add: length_remove1) (metis length_pos_if_in_set Suc_pred)
    let ?u = "(happens (called d) (st\<lparr>pending := remove1 d (pending st)\<rparr>))\<lparr>scriptsToLoad := scriptsToLoad st - 1\<rparr>"
    have t: "t = (if remove1 d (pending st) = [] then initPlugins ?u else ?u)"
      using script(2) f(2) l by (auto simp: script_loaded_def scriptLoadedCallback_def Let_def)
    have "work (initPlugins ?u) \<le> length (registered st)" if "remove1 d (pending st) = []"
      unfolding initPlugins_def Let_def
      by (rule order_trans [OF work_initNext]) (use f(1) that in simp_all)
    moreover have "work ?u < work st" if "remove1 d (pending st) \<noteq> []" using that f(1,3) l by (simp add: work_def)
    moreover have "work st > length (registered st)" using f(1,3) by (simp add: work_def)
    ultimately show ?thesis unfolding t using le_less_trans by (simp split: if_split) blast
  next
    case promise
    then have "pending st = []" using assms(1) by (auto simp: loader_ok_def fetching_def initialising_def running_def)
    then have "work t \<le> length (drop (nextPlugin st) (pluginValues st))"
      unfolding promise(2) afterPlugInitialized_def by (intro work_initNext) simp_all
    then show ?thesis using promise(1) by (simp add: work_def [of st])
  qed
qed

lemma loading_progress:
  assumes "loader_ok st" "phase st \<noteq> Loaded"
  shows "\<exists>t. progress_step st t"
proof (cases "waiting st")
  case True
  then show ?thesis using promise by blast
next
  case False
  then have "pending st \<noteq> []" using assms by (auto simp: loader_ok_def running_def)
  then show ?thesis using script [of "hd (pending st)" st] by auto
qed

lemma loading_reaches: "loader_ok st \<Longrightarrow> \<exists>t. progress_step\<^sup>*\<^sup>* st t \<and> phase t = Loaded"
proof (induction "work st" arbitrary: st rule: less_induct)
  case less
  show ?case
  proof (cases "phase st = Loaded")
    case False
    then obtain u where u: "progress_step st u" using loading_progress less.prems by blast
    then obtain t where "progress_step\<^sup>*\<^sup>* u t" "phase t = Loaded"
      using less.hyps [OF work_progress [OF less.prems u]] loader_ok_progress [OF less.prems u] by blast
    then show ?thesis using u converse_rtranclp_into_rtranclp by metis
  qed blast
qed

lemma work_steps: "(progress_step ^^ n) st t \<Longrightarrow> loader_ok st \<Longrightarrow> n + work t \<le> work st"
proof (induction n arbitrary: t)
  case (Suc n)
  then obtain u where u: "(progress_step ^^ n) st u" "progress_step u t" by auto
  have ok: "loader_ok v" if "(progress_step ^^ k) st v" for k v
    using that Suc.prems(2) by (induction k arbitrary: v) (auto intro: loader_ok_progress)
  have "n + work u \<le> work st" using Suc.IH u(1) Suc.prems(2) by blast
  then show ?case using work_progress [OF ok [OF u(1)] u(2)] by simp
qed simp

section \<open>What was given is initialised\<close>

definition knows :: "string \<Rightarrow> loader \<Rightarrow> bool" where
  "knows i st = (if phase st = Loaded \<or> waiting st then \<exists>p\<in>set (pluginValues st). pl_id p = Some i
     else i \<in> fst ` set (registered st))"

lemma register_keys: "fst ` set (registered st) \<subseteq> fst ` set (registered (registerPlugin r st))"
  by (cases rule: registerPlugin_cases [of r st]) auto

lemma knows_register: "knows i st \<Longrightarrow> knows i (registerPlugin r st)"
  using register_keys [of st r] by (auto simp: knows_def split: if_splits)

lemma initNext_frame [simp]: "pluginValues (initNextPlugin ps st) = pluginValues st"
  "phase (initNextPlugin ps st) = Loaded \<or> waiting (initNextPlugin ps st)"
proof (induction ps arbitrary: st)
  case (Cons p ps)
  {
    case 1
    show ?case using Cons.IH(1) by (cases "pl_init p") (simp_all)
  next
    case 2
    show ?case using Cons.IH(2) by (cases "pl_init p") (simp_all add: Let_def)
  }
qed (simp_all add: loadAsync_def)

lemma knows_initPlugins:
  assumes "table_ok st" "i \<in> fst ` set (registered st)"
  shows "knows i (initPlugins st)"
proof -
  from assms(2) obtain p where "(i, p) \<in> set (registered st)" by auto
  then have "p \<in> set (map snd (own_properties (registered st)))" "pl_id p = Some i"
    using assms(1) by (force simp: table_ok_def list_all_iff)+
  then show ?thesis unfolding knows_def initPlugins_def Let_def by auto
qed

lemma knows_callback:
  assumes "table_ok st" "i \<in> fst ` set (registered st)" "phase st = Loading" "\<not> waiting st"
  shows "knows i (scriptLoadedCallback d st)"
proof -
  have "knows i (initPlugins ((happens es st)\<lparr>scriptsToLoad := n\<rparr>))" for es n
    using assms by (intro knows_initPlugins) (simp_all add: table_ok_def)
  moreover have "knows i ((happens es st)\<lparr>scriptsToLoad := n\<rparr>)" for es n
    using assms by (simp add: knows_def)
  ultimately show ?thesis by (simp add: scriptLoadedCallback_def Let_def)
qed

lemma fetching_callback: "table_ok st \<Longrightarrow> phase st = Loading \<Longrightarrow> \<not> waiting st \<Longrightarrow>
  scriptsToLoad st \<noteq> 1 \<Longrightarrow> phase (scriptLoadedCallback d st) = Loading \<and> \<not> waiting (scriptLoadedCallback d st)"
  by (simp add: scriptLoadedCallback_def Let_def)

lemma knows_script:
  assumes "loader_ok st" "d \<in> set (pending st)" "knows i st"
  shows "knows i (script_loaded d st)"
proof -
  have "fetching st" using assms(1,2) by (auto simp: loader_ok_def initialising_def running_def)
  then show ?thesis unfolding script_loaded_def using assms(3)
    by (intro knows_callback) (simp_all add: fetching_def table_ok_def knows_def)
qed

lemma knows_promise: "waiting st \<Longrightarrow> knows i st \<Longrightarrow> knows i (afterPlugInitialized st)"
  using initNext_frame(2) by (fastforce simp: knows_def afterPlugInitialized_def)

lemma knows_progress: "loader_ok st \<Longrightarrow> progress_step st t \<Longrightarrow> knows i st \<Longrightarrow> knows i t"
  by (elim progress_stepE) (simp_all add: knows_script knows_promise)

text \<open>While the scripts are asked for, too.\<close>

definition keyed :: "string \<Rightarrow> loader \<Rightarrow> bool" where
  "keyed i st = (fetching st \<and> i \<in> fst ` set (registered st))"

lemma keyed_knows: "keyed i st \<Longrightarrow> knows i st"
  by (simp add: keyed_def fetching_def knows_def)

lemma keyed_register: "keyed i st \<Longrightarrow> keyed i (registerPlugin r st)"
  using register_keys [of st r] fetching_register by (auto simp: keyed_def)

lemma keyed_callback: "keyed i st \<Longrightarrow> scriptsToLoad st \<noteq> 1 \<Longrightarrow> keyed i (scriptLoadedCallback d st)"
  by (auto simp: keyed_def scriptLoadedCallback_def Let_def fetching_fields fetching_happens split: option.split)

lemma knows_scripts:
  assumes "keyed i st" "scriptsToLoad st = int (length ds + length (pending st))"
  shows "knows i (fold load_script ds st)"
  using assms
proof (induction ds arbitrary: st)
  case (Cons d ds)
  have cb: "knows i (fold load_script ds (scriptLoadedCallback x u))"
    if u: "keyed i u" "pending u = pending st" "scriptsToLoad u = scriptsToLoad st" for u x
  proof (cases "scriptsToLoad u = 1")
    case True
    then have "ds = []" using u Cons.prems(2) by (cases ds) simp_all
    then show ?thesis using u by (simp add: knows_callback keyed_def fetching_def)
  next
    case False
    have "pending (scriptLoadedCallback x u) = pending u" "scriptsToLoad (scriptLoadedCallback x u) = scriptsToLoad u - 1"
      using False by (simp_all add: scriptLoadedCallback_def Let_def)
    then show ?thesis using keyed_callback [OF u(1) False] u Cons.prems(2) by (intro Cons.IH) simp_all
  qed
  have reg: "knows i (fold load_script ds (scriptLoadedCallback (Some d) (registerPlugin (Instance p) st)))" for p
    using Cons.prems(1) by (intro cb) (simp_all add: keyed_register)
  have bad: "knows i (fold load_script ds (scriptLoadedCallback None (happens [Warned] st)))"
    using Cons.prems(1) by (intro cb) (simp_all add: keyed_def fetching_happens)
  have req: "knows i (fold load_script ds ((happens [Requested u] st)\<lparr>pending := pending st @ [d]\<rparr>))" for u
    using Cons.prems by (intro Cons.IH) (simp_all add: keyed_def fetching_happens fetching_fields)
  show ?case using reg bad req by (simp add: load_script_def [of d] split: option.split)
qed (simp add: keyed_knows)

lemma keyed_registers:
  assumes "fetching st" "r \<in> set ps" "pl_id (made r) = Some i"
  shows "keyed i (fold registerPlugin ps st)"
proof -
  have keep: "keyed i st \<Longrightarrow> keyed i (fold registerPlugin rs st)" for rs st
    by (induction rs arbitrary: st) (simp_all add: keyed_register)
  have "keyed i (registerPlugin r u)" if "fetching u" for u
  proof -
    have "i \<in> fst ` set (registered (registerPlugin r u))"
      using assms(3) by (auto simp: registerPlugin_def Let_def put_new)
    then show ?thesis using fetching_register [OF that] by (simp add: keyed_def)
  qed
  then show ?thesis using assms(1,2)
    by (induction ps arbitrary: st) (auto simp: fetching_register intro: keep)
qed

lemma knows_load:
  assumes "r \<in> set ps" "pl_id (made r) = Some i"
  shows "knows i (load ps ds idle)"
proof -
  let ?st = "fold registerPlugin ps (idle\<lparr>phase := Loading\<rparr>)"
  have "fetching (idle\<lparr>phase := Loading\<rparr>)" by (simp add: fetching_def idle_def table_ok_def)
  then have k: "keyed i ?st" using assms by (rule keyed_registers)
  then have "knows i (initPlugins (?st\<lparr>asyncDependencies := as\<rparr>))" for as
    by (intro knows_initPlugins) (simp_all add: keyed_def fetching_def table_ok_def)
  moreover have "pending ?st = []" by (simp add: idle_def)
  moreover have "keyed i (?st\<lparr>asyncDependencies := as, scriptsToLoad := n\<rparr>)" for as n
    using k by (simp add: keyed_def fetching_fields)
  ultimately show ?thesis unfolding load_def Let_def by (simp add: knows_scripts)
qed

lemma knows_given:
  assumes "loads ps ds st" "r \<in> set ps" "pl_id (made r) = Some i"
  shows "knows i st"
  using assms(1)
  by (induction rule: loads.induct) (auto simp: knows_load [OF assms(2,3)] intro: knows_progress knows_register loads_ok)

section \<open>Properties\<close>


text \<open>C15: However plugins are registered and scripts arrive, no plugin id is initialised twice.\<close>

theorem plugin_initialised_once:
  assumes "loads ps ds st"
  shows "distinct (map pl_id (inits (happened st)))"
proof -
  have "distinct (map pl_id (filter has_init (take n vs)))" if "distinct (map pl_id vs)" for n vs
    using that by (simp add: distinct_map_filter take_map [symmetric])
  then show ?thesis using loads_ok [OF assms] by (auto simp: loader_ok_def fetching_def initialising_def running_def)
qed


text \<open>
  A plugin registered while another is being initialised is neither among those to initialise nor
  initialised on the spot: it never is.
\<close>

definition slow_plugin :: plugin where
  "slow_plugin = \<lparr>pl_name = 1, pl_id = Some ''slow'', pl_init = InitLater, pl_destroys = False\<rparr>"

definition late_plugin :: plugin where
  "late_plugin = \<lparr>pl_name = 2, pl_id = Some ''late'', pl_init = InitNow, pl_destroys = False\<rparr>"

definition late_state :: loader where
  "late_state = afterPlugInitialized (registerPlugin (Instance late_plugin) (load [Instance slow_plugin] [] idle))"

lemma late_loads: "loads [Instance slow_plugin] [] late_state"
proof -
  have "waiting (registerPlugin (Instance late_plugin) (load [Instance slow_plugin] [] idle))" by code_simp
  from progress_step.promise [OF this] show ?thesis
    unfolding late_state_def by (rule loads.progress [OF loads.register [OF loads.start]])
qed

lemma late_plugin_forgotten:
  "loads [Instance slow_plugin] [] late_state \<and> phase late_state = Loaded \<and> getPlugin ''late'' late_state = Some late_plugin \<and>
   inits (happened late_state) = [slow_plugin]"
proof -
  have "phase late_state = Loaded" "getPlugin ''late'' late_state = Some late_plugin" "inits (happened late_state) = [slow_plugin]"
    by code_simp+
  then show ?thesis using late_loads by simp
qed


theorem plugin_initialised_once_witness: "distinct (map pl_id (inits (happened late_state)))"
  using plugin_initialised_once [OF late_loads] .


end
