(* ===== verification/Playback.thy ===== *)
theory Playback
  imports AutoSlide
begin

text \<open>
  \<open>components/playback.js\<close>: the play and pause button of auto-sliding, drawn on a canvas frame by
  frame. The drawing is the list of calls made on the canvas; an arc with an angle that is no number
  draws nothing. The deck keeps of the player whether it is playing (\<open>setPlaying\<close> in AutoSlide).
\<close>

section \<open>Drawing\<close>

datatype canvas_op = Save | Restore | ClearRect real real real real | BeginPath | Arc real real real real real
  | FillStyle string | StrokeStyle string | LineWidth real | Fill | Stroke | Translate real real
  | FillRect real real real real | MoveTo real real | LineTo real real

text \<open>
  The player: its elements, its state (the progress may be \<open>NaN\<close>, \<open>None\<close>), how many
  animation frames it has asked for that have not come yet, and the calls made on the canvas.
\<close>

record playback =
  canvas :: node
  container :: node
  playing :: bool
  progress_shown :: "real option"
  progressOffset :: real
  frames :: nat
  drawn :: "canvas_op list"

definition diameter :: real where
  "diameter = 100"

definition diameter2 :: real where
  "diameter2 = diameter / 2"

definition thickness :: real where
  "thickness = 6"

definition draw_track :: "real \<Rightarrow> canvas_op list" where
  "draw_track radius =
     [BeginPath, Arc diameter2 diameter2 (radius + 4) 0 (pi * 2), FillStyle ''rgba( 0, 0, 0, 0.4 )'', Fill,
      BeginPath, Arc diameter2 diameter2 radius 0 (pi * 2), LineWidth thickness,
      StrokeStyle ''rgba( 255, 255, 255, 0.2 )'', Stroke]"

definition turn :: "real \<Rightarrow> real" where
  "turn p = - (pi / 2) + p * (pi * 2)"

definition draw_progress :: "real \<Rightarrow> real \<Rightarrow> real option \<Rightarrow> canvas_op list" where
  "draw_progress radius offset p =
     [BeginPath] @ (case p of Some v \<Rightarrow> [Arc diameter2 diameter2 radius (turn offset) (turn v)] | None \<Rightarrow> []) @
     [LineWidth thickness, StrokeStyle ''#fff'', Stroke]"

definition draw_icon :: "bool \<Rightarrow> real \<Rightarrow> canvas_op list" where
  "draw_icon play iconSize =
     Translate (diameter2 - iconSize / 2) (diameter2 - iconSize / 2) #
     (if play then [FillStyle ''#fff'', FillRect 0 0 (iconSize / 2 - 4) iconSize,
        FillRect (iconSize / 2 + 4) 0 (iconSize / 2 - 4) iconSize]
      else [BeginPath, Translate 4 0, MoveTo 0 0, LineTo (iconSize - 4) (iconSize / 2), LineTo 0 iconSize,
        FillStyle ''#fff'', Fill])"

definition render :: "playback \<Rightarrow> playback" where
  "render p =
     (let progress = (if playing p then progress_shown p else Some 0);
          radius = diameter2 - thickness;
          offset = progressOffset p + (1 - progressOffset p) * (1 / 10)
      in p\<lparr>progressOffset := offset,
           drawn := drawn p @ [Save, ClearRect 0 0 diameter diameter] @ draw_track radius @
             (if playing p then draw_progress radius offset progress else []) @ draw_icon (playing p) 28 @ [Restore]\<rparr>)"

section \<open>Playing\<close>

text \<open>What \<open>progressCheck\<close> returns is an argument; the next frame is asked for, not waited for.\<close>

definition animate :: "real option \<Rightarrow> playback \<Rightarrow> playback" where
  "animate check p =
     (let p1 = p\<lparr>progress_shown := check\<rparr>;
          p2 = (case (progress_shown p, check) of
                  (Some b, Some v) \<Rightarrow> if 8 / 10 < b \<and> v < 2 / 10 then p1\<lparr>progressOffset := v\<rparr> else p1
                | _ \<Rightarrow> p1);
          p3 = render p2
      in if playing p3 then p3\<lparr>frames := Suc (frames p3)\<rparr> else p3)"

definition playback_setPlaying :: "real option \<Rightarrow> bool \<Rightarrow> playback \<Rightarrow> playback" where
  "playback_setPlaying check v p =
     (let wasPlaying = playing p; p1 = p\<lparr>playing := v\<rparr>
      in if \<not> wasPlaying \<and> playing p1 then animate check p1 else render p1)"

definition animation_frame :: "real option \<Rightarrow> playback \<Rightarrow> playback" where
  "animation_frame check p = animate check (p\<lparr>frames := frames p - 1\<rparr>)"

text \<open>The function the deck gives the player; dividing by no duration gives an infinity or \<open>NaN\<close>.\<close>

definition progressCheck :: "reveal \<Rightarrow> real option" where
  "progressCheck s =
     (let t = real_of_int (now (world s) - autoSlideStartTime s) in
      if autoSlide s \<noteq> 0 then Some (min (max (t / autoSlide s) 0) 1)
      else if t = 0 then None else Some (if 0 < t then 1 else 0))"

section \<open>The player on the page\<close>

definition new_playback :: "node \<Rightarrow> dom \<Rightarrow> playback \<times> dom" where
  "new_playback el d =
     (let (c, d1) = createElement ''canvas'' d;
          d2 = set_style ''height'' (Px 50) c (set_style ''width'' (Px 50) c
                 (set_attr ''height'' ''100'' c (set_attr ''width'' ''100'' c (add_class ''playback'' c d1))));
          d3 = appendChild el c d2
      in (render \<lparr>canvas = c, container = el, playing = False, progress_shown = Some 0, progressOffset = 1,
            frames = 0, drawn = []\<rparr>, d3))"

definition playback_on :: "string \<Rightarrow> string \<Rightarrow> playback \<Rightarrow> world \<Rightarrow> world" where
  "playback_on type listener p w = addEventListener (LNode (canvas p)) type listener w"

definition playback_off :: "string \<Rightarrow> string \<Rightarrow> playback \<Rightarrow> world \<Rightarrow> world" where
  "playback_off type listener p w = removeEventListener (LNode (canvas p)) type listener w"

text \<open>\<open>removeChild\<close> throws when the canvas has been moved out of its container.\<close>

definition playback_destroy :: "playback \<Rightarrow> dom \<Rightarrow> error + (playback \<times> dom)" where
  "playback_destroy p d =
     (let p1 = p\<lparr>playing := False\<rparr> in
      case parentNode d (canvas p) of
        None \<Rightarrow> Inr (p1, d)
      | Some x \<Rightarrow> if x = container p then Inr (p1, removeNode (canvas p) d) else Inl DOMException)"

section \<open>The player over time\<close>

text \<open>The deck starts and stops it, frames it has asked for come, and it is destroyed.\<close>

inductive player_step :: "reveal \<Rightarrow> playback \<Rightarrow> playback \<Rightarrow> bool" where
  set: "player_step s p (playback_setPlaying (progressCheck s) v p)"
| frame: "0 < frames p \<Longrightarrow> player_step s p (animation_frame (progressCheck s) p)"
| destroy: "playback_destroy p d = Inr (p', d') \<Longrightarrow> player_step s p p'"

inductive plays :: "playback \<Rightarrow> bool" where
  new: "plays (fst (new_playback c d))"
| step: "plays p \<Longrightarrow> player_step s p q \<Longrightarrow> plays q"

inductive_cases player_stepE: "player_step s p q"

definition op_ok :: "canvas_op \<Rightarrow> bool" where
  "op_ok x = (case x of
      Arc a b r from to \<Rightarrow> 0 \<le> r \<and> a + r \<le> diameter \<and> b + r \<le> diameter \<and> - (pi / 2) \<le> from \<and> from \<le> 2 * pi \<and> - (pi / 2) \<le> to \<and> to \<le> 2 * pi
    | FillRect a b w h \<Rightarrow> 0 \<le> w \<and> 0 \<le> h
    | _ \<Rightarrow> True)"

definition in_unit :: "real \<Rightarrow> bool" where
  "in_unit x = (0 \<le> x \<and> x \<le> 1)"

definition player_ok :: "playback \<Rightarrow> bool" where
  "player_ok p = (in_unit (progressOffset p) \<and> (\<forall>v. progress_shown p = Some v \<longrightarrow> in_unit v) \<and>
     list_all op_ok (drawn p) \<and> (playing p \<longrightarrow> 0 < frames p))"

lemma in_unit_ease: "in_unit x \<Longrightarrow> in_unit (x + (1 - x) * (1 / 10))"
proof -
  assume "in_unit x"
  then have "0 \<le> x" "x \<le> 1" by (simp_all add: in_unit_def)
  then show ?thesis unfolding in_unit_def by argo
qed

lemma turn_bounds: "in_unit x \<Longrightarrow> - (pi / 2) \<le> turn x \<and> turn x \<le> 2 * pi"
proof
  assume x: "in_unit x"
  then have "0 \<le> x * (pi * 2)" "x * (pi * 2) \<le> 1 * (pi * 2)" by (auto simp: in_unit_def intro: mult_right_mono)
  then show "- (pi / 2) \<le> turn x" "turn x \<le> 2 * pi" using pi_gt_zero unfolding turn_def by linarith+
qed

lemma sizes: "diameter = 100" "diameter2 = 50" "thickness = 6"
  by (simp_all add: diameter_def diameter2_def thickness_def)

lemma op_ok_track: "list_all op_ok (draw_track (diameter2 - thickness))"
proof -
  have "- (pi / 2) \<le> 0" "pi * 2 \<le> 2 * pi" "0 \<le> pi * 2" "- (pi / 2) \<le> pi * 2" using pi_gt_zero by linarith+
  then show ?thesis by (simp add: draw_track_def op_ok_def sizes)
qed

lemma op_ok_progress:
  assumes "in_unit x" and "\<forall>v. p = Some v \<longrightarrow> in_unit v"
  shows "list_all op_ok (draw_progress (diameter2 - thickness) x p)"
  using assms turn_bounds by (cases p) (simp_all add: draw_progress_def op_ok_def sizes)

lemma op_ok_icon: "list_all op_ok (draw_icon b 28)"
  by (simp add: draw_icon_def op_ok_def)

lemma render_frame [simp]:
  "playing (render p) = playing p" "frames (render p) = frames p" "progress_shown (render p) = progress_shown p"
  "progressOffset (render p) = progressOffset p + (1 - progressOffset p) * (1 / 10)"
  "canvas (render p) = canvas p" "container (render p) = container p"
  by (simp_all add: render_def Let_def)

definition drawn_ok :: "playback \<Rightarrow> bool" where
  "drawn_ok p = (in_unit (progressOffset p) \<and> (\<forall>v. progress_shown p = Some v \<longrightarrow> in_unit v) \<and> list_all op_ok (drawn p))"

lemma drawn_ok_render: "drawn_ok p \<Longrightarrow> drawn_ok (render p)"
proof -
  assume p: "drawn_ok p"
  then have "in_unit (progressOffset p + (1 - progressOffset p) * (1 / 10))" "\<forall>v. progress_shown p = Some v \<longrightarrow> in_unit v"
    "list_all op_ok (drawn p)" using in_unit_ease unfolding drawn_ok_def by blast+
  with op_ok_progress [OF this(1,2)] show ?thesis
    unfolding drawn_ok_def render_frame render_def Let_def
    by (simp add: op_ok_track op_ok_icon) (simp add: op_ok_def)
qed

lemma progressCheck_unit: "progressCheck s = Some v \<Longrightarrow> in_unit v"
  by (auto simp: progressCheck_def Let_def in_unit_def split: if_splits)

lemma drawn_ok_animate:
  assumes "drawn_ok p" "\<forall>v. check = Some v \<longrightarrow> in_unit v"
  shows "drawn_ok (animate check p)"
proof -
  let ?p1 = "p\<lparr>progress_shown := check\<rparr>"
  let ?p2 = "case (progress_shown p, check) of (Some b, Some v) \<Rightarrow> if 8 / 10 < b \<and> v < 2 / 10 then ?p1\<lparr>progressOffset := v\<rparr> else ?p1 | _ \<Rightarrow> ?p1"
  have "drawn_ok ?p2" using assms by (auto simp: drawn_ok_def split: option.split)
  then have "drawn_ok (render ?p2)" by (rule drawn_ok_render)
  moreover have "drawn_ok (q\<lparr>frames := n\<rparr>) = drawn_ok q" for q n by (simp add: drawn_ok_def)
  ultimately show ?thesis unfolding animate_def Let_def by simp
qed

lemma playing_animate [simp]: "playing (animate check p) = playing p"
  by (simp add: animate_def Let_def split: option.split)

lemma frames_animate [simp]: "frames (animate check p) = frames p + (if playing p then 1 else 0)"
  by (simp add: animate_def Let_def split: option.split)

lemma setPlaying_playback [simp]:
  "playing (playback_setPlaying check v p) = v"
  "frames (playback_setPlaying check v p) = frames p + (if v \<and> \<not> playing p then 1 else 0)"
  by (simp_all add: playback_setPlaying_def Let_def)

lemma animation_frame_frames [simp]:
  "playing (animation_frame check p) = playing p"
  "frames (animation_frame check p) = frames p - 1 + (if playing p then 1 else 0)"
  by (simp_all add: animation_frame_def)

lemma destroy_frames:
  "playback_destroy p d = Inr (p', d') \<Longrightarrow> p' = p\<lparr>playing := False\<rparr>"
  by (auto simp: playback_destroy_def Let_def split: option.splits if_splits)

lemma drawn_ok_fields: "drawn_ok (p\<lparr>playing := b\<rparr>) = drawn_ok p" "drawn_ok (p\<lparr>frames := n\<rparr>) = drawn_ok p"
  by (simp_all add: drawn_ok_def)

lemma drawn_ok_step:
  assumes "drawn_ok p" and "player_step s p q"
  shows "drawn_ok q"
proof -
  have check: "\<forall>v. progressCheck s = Some v \<longrightarrow> in_unit v" using progressCheck_unit by blast
  from assms(2) consider (set) v where "q = playback_setPlaying (progressCheck s) v p"
    | (frame) "q = animation_frame (progressCheck s) p"
    | (destroy) d d' where "playback_destroy p d = Inr (q, d')"
    by (rule player_stepE)
  then show ?thesis
  proof cases
    case (set v)
    then show ?thesis using assms(1) check
      by (simp add: playback_setPlaying_def Let_def drawn_ok_animate drawn_ok_render drawn_ok_fields)
  next
    case frame
    then show ?thesis using assms(1) check by (simp add: animation_frame_def drawn_ok_animate drawn_ok_fields)
  next
    case destroy
    then show ?thesis using assms(1) destroy_frames [OF destroy] by (simp add: drawn_ok_fields)
  qed
qed

lemma playing_step:
  assumes "player_step s p q" and "playing p \<Longrightarrow> 0 < frames p" and "playing q"
  shows "0 < frames q"
  using assms(1)
  by (rule player_stepE) (use assms(2,3) destroy_frames in \<open>auto dest: destroy_frames\<close>)

lemma drawn_ok_new: "drawn_ok (fst (new_playback c d))"
proof -
  have "drawn_ok \<lparr>canvas = x, container = c, playing = False, progress_shown = Some 0, progressOffset = 1, frames = 0, drawn = []\<rparr>" for x
    by (simp add: drawn_ok_def in_unit_def)
  then show ?thesis by (simp add: new_playback_def Let_def drawn_ok_render split: prod.split)
qed

lemma new_idle: "\<not> playing (fst (new_playback c d))"
  by (simp add: new_playback_def Let_def split: prod.split)

section \<open>Properties\<close>



section \<open>Ending the animation\<close>

text \<open>A player that is stopped lets the frames it has asked for come, and asks for no more.\<close>

lemma stopped_player_ends:
  "\<not> playing p \<Longrightarrow> frames (fold animation_frame checks p) = frames p - length checks"
  by (induction checks arbitrary: p) simp_all

text \<open>A frame never ends an animation that plays. A player stopped and started again between two
  frames thus runs two animations ever after, each asking for its own frames.\<close>

lemma running_player_goes_on:
  "playing p \<Longrightarrow> 0 < frames p \<Longrightarrow> frames (fold animation_frame checks p) = frames p"
  by (induction checks arbitrary: p) simp_all

lemma two_animations:
  "frames (fold animation_frame checks (playback_setPlaying a True (playback_setPlaying b False
     (playback_setPlaying c True (fst (new_playback el d)))))) = 2"
proof -
  have "frames (fst (new_playback el d)) = 0" by (simp add: new_playback_def Let_def split: prod.split)
  then show ?thesis using new_idle by (subst running_player_goes_on) simp_all
qed

end
