(* ===== verification/Setup.thy ===== *)
theory Setup
  imports Sync AutoAnimate Plugins Playback
begin

text \<open>
  The life of a deck, from \<open>reveal.js\<close>: \<open>initialize\<close> loads the plugins, \<open>start\<close> sets up the page,
  \<open>configure\<close> applies the options (at any time), \<open>destroy\<close> takes everything down. Here the deck is
  put together with the parts that keep a state of their own: the auto-animation, the plugin
  loader, and the player of auto-sliding (created and removed here; whether it plays is
  \<open>autoSlidePlaying\<close> of the deck).
\<close>

record app =
  deck :: reveal
  animation :: animator
  plugin_loader :: loader
  player :: "playback option"
  support :: pointer_support

text \<open>An operation on the whole deck returns it, or throws and leaves what it has written so far.\<close>

datatype result = Done app | Failed error app

fun bind_result :: "result \<Rightarrow> (app \<Rightarrow> result) \<Rightarrow> result" where
  "bind_result (Done a) f = f a"
| "bind_result (Failed e a) f = Failed e a"

fun result_app :: "result \<Rightarrow> app" where
  "result_app (Done a) = a"
| "result_app (Failed e a) = a"

definition with_deck :: "outcome \<Rightarrow> app \<Rightarrow> result" where
  "with_deck r a = (case r of Returned s \<Rightarrow> Done (a\<lparr>deck := s\<rparr>) | Threw e s \<Rightarrow> Failed e (a\<lparr>deck := s\<rparr>))"

section \<open>Shuffling\<close>

text \<open>
  The random numbers are a list of choices, a choice of \<open>n\<close> slides being the next number modulo \<open>n\<close>
  (none left counts as 0). Vertical slides are shuffled within their stack; the depth bounds how
  far sections nest.
\<close>

definition random_slide :: "node list \<Rightarrow> nat list \<Rightarrow> node" where
  "random_slide slides rs = slides ! ((case rs of r # _ \<Rightarrow> r | [] \<Rightarrow> 0) mod length slides)"

fun shuffle_slides :: "nat \<Rightarrow> node list \<Rightarrow> nat list \<times> dom \<Rightarrow> nat list \<times> dom" where
  "shuffle_slides 0 slides a = a"
| "shuffle_slides (Suc depth) slides a =
     fold (\<lambda>x (rs, d).
        let y = random_slide slides rs;
            d1 = (case parentNode d x of
                    Some p \<Rightarrow> if parentNode d y = Some p then insertBefore p x y d else d
                  | None \<Rightarrow> d);
            vs = verticals d1 x
        in if vs = [] then (tl rs, d1) else shuffle_slides depth vs (tl rs, d1)) slides a"

definition shuffle :: "nat list \<Rightarrow> reveal \<Rightarrow> reveal" where
  "shuffle rs s = s\<lparr>doc := snd (shuffle_slides (length (order (doc s))) (getHorizontalSlides s) (rs, doc s))\<rparr>"

section \<open>Options\<close>

definition dimension_text :: "dimension \<Rightarrow> css" where
  "dimension_text z = (case z of DNum w \<Rightarrow> Px w | DPercent p \<Rightarrow> Css (show_int p @ ''%px''))"

text \<open>The class of the transition before is replaced; a class that is no token is refused.\<close>

definition configure_transition :: "string \<Rightarrow> reveal \<Rightarrow> outcome" where
  "configure_transition old s =
     (let w = wrapper (host s) in
      if \<not> token_ok old then Threw DOMException s
      else (let s1 = s\<lparr>doc := remove_class old w (doc s)\<rparr> in
        if \<not> token_ok (cfg_transition (cfg s1)) then Threw DOMException s1
        else Returned (s1\<lparr>doc :=
          set_style ''--slide-height'' (dimension_text (cfg_height (cfg s1))) (viewport (host s1))
           (set_style ''--slide-width'' (dimension_text (cfg_width (cfg s1))) (viewport (host s1))
            (set_attr ''data-background-transition'' (cfg_backgroundTransition (cfg s1)) w
             (set_attr ''data-transition-speed'' (cfg_transitionSpeed (cfg s1)) w
              (add_class (cfg_transition (cfg s1)) w (doc s1)))))\<rparr>)))"

definition configure_classes :: "reveal \<Rightarrow> reveal" where
  "configure_classes s =
     (let w = wrapper (host s); c = cfg s
      in s\<lparr>doc := toggleClass w ''center'' (cfg_center c) (toggleClass w ''rtl'' (cfg_rtl c)
            (toggleClass w ''embedded'' (cfg_embedded c) (doc s)))\<rparr>)"

definition any_link :: "reveal \<Rightarrow> node \<Rightarrow> bool" where
  "any_link s x = is_tag [''a''] (doc s) x"

definition preview_off :: "reveal \<Rightarrow> node \<Rightarrow> bool" where
  "preview_off s x = (get_attr ''data-preview-link'' (doc s) x = Some ''false'')"

definition preview_on :: "reveal \<Rightarrow> node \<Rightarrow> bool" where
  "preview_on s x = (has_attr ''data-preview-link'' (doc s) x \<and> \<not> preview_off s x)"

definition configure_previews :: "reveal \<Rightarrow> reveal" where
  "configure_previews s =
     (if cfg_previewLinks (cfg s) then (let s1 = enablePreviewLinks (any_link s) s in disablePreviewLinks (preview_off s1) s1)
      else (let s1 = disablePreviewLinks (any_link s) s in enablePreviewLinks (preview_on s1) s1))"

definition configure_mode :: "reveal \<Rightarrow> reveal" where
  "configure_mode s =
     (let w = wrapper (host s) in
      s\<lparr>doc := if cfg_navigationMode (cfg s) \<noteq> ''default''
               then set_attr ''data-navigation-mode'' (cfg_navigationMode (cfg s)) w (doc s)
               else remove_attr ''data-navigation-mode'' w (doc s)\<rparr>)"

definition configure_controllers :: "config \<Rightarrow> reveal \<Rightarrow> reveal" where
  "configure_controllers old s =
     (let s1 = progress_configure (controls_configure (pointer_configure (focus_configure (notes_configure s))));
          s2 = s1\<lparr>keyboard_state := keyboard_configure (cfg s1) (keyboard_state s1)\<rparr>
      in slideNumber_configure (fragments_configure old s2))"

section \<open>The player\<close>

definition remove_player :: "app \<Rightarrow> result" where
  "remove_player a =
     (case player a of
        None \<Rightarrow> Done a
      | Some p \<Rightarrow>
         (case playback_destroy p (doc (deck a)) of
            Inl e \<Rightarrow> Failed e a
          | Inr (q, d) \<Rightarrow> Done (a\<lparr>deck := (deck a)\<lparr>doc := d, autoSlidePlayer := False\<rparr>, player := None\<rparr>)))"

definition create_player :: "app \<Rightarrow> app" where
  "create_player a =
     (let s = deck a; (p, d) = new_playback (wrapper (host s)) (doc s);
          s1 = s\<lparr>doc := d, world := playback_on ''click'' ''onAutoSlidePlayerClick'' p (world s),
            autoSlidePlayer := True, autoSlidePlaying := False, autoSlidePaused := False\<rparr>
      in a\<lparr>deck := s1, player := Some p\<rparr>)"

definition wants_player :: "nat \<Rightarrow> config \<Rightarrow> bool" where
  "wants_player slides c = (1 < slides \<and> global_duration c \<noteq> 0 \<and> cfg_autoSlideStoppable c)"

definition reset_animation :: "app \<Rightarrow> app" where
  "reset_animation a =
     (let s = deck a; (an, d) = autoAnimate_reset (wrapper (host s)) (animation a) (doc s)
      in a\<lparr>deck := s\<lparr>doc := d\<rparr>, animation := an\<rparr>)"

section \<open>Configuring\<close>

definition on_deck :: "(reveal \<Rightarrow> reveal) \<Rightarrow> app \<Rightarrow> app" where
  "on_deck f a = a\<lparr>deck := f (deck a)\<rparr>"

text \<open>What comes before the player, and what comes after.\<close>

definition configure_page :: "nat list \<Rightarrow> reveal \<Rightarrow> reveal" where
  "configure_page rs s =
     (let s1 = configure_classes (if cfg_shuffle (cfg s) then shuffle rs s else s);
          s2 = (if \<not> cfg_pause (cfg s1) then resume s1 else s1)
      in configure_previews s2)"

definition configure_rest :: "config \<Rightarrow> nat \<Rightarrow> app \<Rightarrow> app" where
  "configure_rest old slides a =
     (let a1 = (if wants_player slides (cfg (deck a)) then create_player a else a)
      in on_deck (\<lambda>s. sync (support a) (configure_controllers old (configure_mode s))) a1)"

definition configure :: "(config \<Rightarrow> config) option \<Rightarrow> nat list \<Rightarrow> app \<Rightarrow> result" where
  "configure options rs a =
     (let old = cfg (deck a);
          s = (case options of Some f \<Rightarrow> (deck a)\<lparr>cfg := f old\<rparr> | None \<Rightarrow> deck a);
          a1 = a\<lparr>deck := s\<rparr>; slides = length (queryAll (doc s) (wrapper (host s)) (slides_sel (doc s)))
      in if \<not> ready s then Done a1
         else bind_result (with_deck (configure_transition (cfg_transition old) s) a1)
           (\<lambda>a2. bind_result (remove_player (reset_animation (on_deck (configure_page rs) a2)))
              (\<lambda>a3. Done (configure_rest old slides a3))))"

section \<open>Starting\<close>

text \<open>
  The steps of \<open>start\<close>. When the deck is printed its input is unbound again, and the layout for the
  printer (theory \<open>Print\<close>) begins; it runs over the frames that follow.
\<close>

definition prepare :: "reveal \<Rightarrow> reveal" where
  "prepare s =
     (let s1 = setupDOM (removeHiddenSlides (s\<lparr>ready := True\<rparr>))
      in resetVerticalSlides (s1\<lparr>world := setupFullscreen (setupPostMessage (cfg s1) (world s1))\<rparr>))"

definition finish_start :: "reveal \<Rightarrow> reveal" where
  "finish_start s =
     (let s1 = backgrounds_update True s;
          s2 = s1\<lparr>world := snd (setTimeout TReady 1 (world s1))\<rparr>
      in if isPrintingPDF (host s2) then removeEventListeners s2 else s2)"

definition start_deck :: "nat list \<Rightarrow> app \<Rightarrow> result" where
  "start_deck rs a =
     bind_result (configure None rs (on_deck prepare a))
       (\<lambda>a1. bind_result (with_deck (readURL (deck a1)) a1) (\<lambda>a2. Done (on_deck finish_start a2)))"

text \<open>
  \<open>initialize\<close> composes the options (those of the constructor, of the call and of the query string
  are functions on the options before), and throws a message when the deck or its slides are missing.
\<close>

definition no_root :: string where
  "no_root = ''Unable to find presentation root (<div class=\"reveal\">).''"

definition no_slides :: string where
  "no_slides = ''Unable to find slides container (<div class=\"slides\">).''"

definition initialize ::
  "node option \<Rightarrow> (config \<Rightarrow> config) list \<Rightarrow> registration list \<Rightarrow> dependency list \<Rightarrow> app \<Rightarrow> string + result" where
  "initialize revealElement options ps ds a =
     (case revealElement of
        None \<Rightarrow> Inl no_root
      | Some w \<Rightarrow>
         (case querySel (doc (deck a)) w (has_class ''slides'' (doc (deck a))) of
            None \<Rightarrow> Inl no_slides
          | Some sl \<Rightarrow>
              (let s = deck a;
                   s1 = s\<lparr>host := (host s)\<lparr>wrapper := w, slidesEl := sl\<rparr>, cfg := fold (\<lambda>f c. f c) options (cfg s)\<rparr>
               in Inr (bind_result (with_deck (setViewport s1) a)
                    (\<lambda>a1. Done (on_deck (\<lambda>s. s\<lparr>world := addEventListener LWindow ''load'' ''layout'' (world s)\<rparr>)
                       (a1\<lparr>plugin_loader := load ps ds (plugin_loader a1)\<rparr>)))))))"

section \<open>Destroying\<close>

definition page_unlistened :: "world \<Rightarrow> world" where
  "page_unlistened w =
     removeEventListener LWindow ''load'' ''layout''
      (removeEventListener LWindow ''message'' ''onPostMessage''
       (removeEventListener LDocument ''visibilitychange'' ''onPageVisibilityChange''
        (removeEventListener LDocument ''webkitfullscreenchange'' ''onFullscreenChange''
         (removeEventListener LDocument ''fullscreenchange'' ''onFullscreenChange'' w))))"

definition remove_optional :: "node option \<Rightarrow> dom \<Rightarrow> dom" where
  "remove_optional x d = (case x of Some n \<Rightarrow> removeNode n d | None \<Rightarrow> d)"

text \<open>The controllers, in their order: notes, focus, pointer, controls, progress, backgrounds, slide number.\<close>

definition destroy_controllers :: "reveal \<Rightarrow> reveal" where
  "destroy_controllers s =
     (let s1 = pointer_destroy (focus_destroy (s\<lparr>doc := remove_optional (notesEl (refs s)) (doc s)\<rparr>))
      in s1\<lparr>world := controls_unbind (refs s1) (world s1),
           doc := remove_optional (slideNumberEl (refs s1)) (removeNode (backgroundsEl (refs s1))
             (removeNode (progressEl (refs s1)) (removeNode (controlsEl (refs s1)) (doc s1))))\<rparr>)"

definition clean_slide :: "node \<Rightarrow> dom \<Rightarrow> dom" where
  "clean_slide x d =
     remove_attr ''aria-hidden'' x (remove_attr ''hidden'' x (remove_style ''top'' x (remove_style ''display'' x d)))"

definition remove_styles :: "string list \<Rightarrow> node \<Rightarrow> dom \<Rightarrow> dom" where
  "remove_styles ks x d = fold (\<lambda>k. remove_style k x) ks d"

definition remove_classes :: "string list \<Rightarrow> node \<Rightarrow> dom \<Rightarrow> dom" where
  "remove_classes cs x d = fold (\<lambda>c. remove_class c x) cs d"

definition undo_page :: "reveal \<Rightarrow> reveal" where
  "undo_page s =
     (let h = host s; w = wrapper h;
          d1 = removeNode (statusElement (refs s)) (removeNode (pauseOverlay (refs s)) (doc s));
          d2 = (case documentElement d1 of Some r \<Rightarrow> remove_class ''reveal-full-page'' r d1 | None \<Rightarrow> d1);
          d3 = remove_attr ''data-background-transition'' w (remove_attr ''data-transition-speed'' w
                 (remove_classes [''ready'', ''center'', ''has-horizontal-slides'', ''has-vertical-slides''] w d2));
          d4 = remove_styles [''--slide-width'', ''--slide-height''] (viewport h) (remove_class ''reveal-viewport'' (viewport h) d3);
          d5 = remove_styles [''width'', ''height'', ''zoom'', ''left'', ''top'', ''bottom'', ''right'', ''transform''] (slidesEl h) d4
      in s\<lparr>doc := for_each clean_slide (queryAll d5 w (slides_sel d5)) d5\<rparr>)"

definition destroy_deck :: "app \<Rightarrow> app" where
  "destroy_deck a =
     (let s1 = cancelAutoSlide (removeEventListeners (deck a));
          s2 = destroy_controllers (disablePreviewLinks (any_link s1) s1);
          s3 = s2\<lparr>world := page_unlistened (world s2)\<rparr>
      in a\<lparr>deck := undo_page s3, plugin_loader := plugins_destroy (plugin_loader a)\<rparr>)"

end
