(* ===== verification/Configure.thy ===== *)
theory Configure
  imports Setup
begin

text \<open>
  Applying options to a running deck keeps it healthy, on the slide it was on: every step of
  \<open>configure\<close> leaves the slides and the position alone.
\<close>

section \<open>Steps that stay in place\<close>

definition stays :: "reveal \<Rightarrow> reveal \<Rightarrow> bool" where
  "stays s t = (steady s t \<and> same_place s t)"

lemma stays_refl [simp]: "stays s s" by (simp add: stays_def same_place_def)

lemma stays_trans [trans]: "stays a b \<Longrightarrow> stays b c \<Longrightarrow> stays a c"
  unfolding stays_def using steady_trans same_place_trans by blast

lemma stays_quiet: "quiet s t \<Longrightarrow> stays s t"
  by (simp add: stays_def steady_quiet same_place_quiet)

lemma stays_if: "stays s t \<Longrightarrow> stays s u \<Longrightarrow> stays s (if b then t else u)"
  by simp

lemma stays_sync: "stays s (sync p s)"
  by (simp add: stays_def steady_sync same_place_sync)

lemma healthy_cfg: "healthy (s\<lparr>cfg := c\<rparr>) = healthy s"
proof -
  let ?t = "s\<lparr>cfg := c\<rparr>"
  have "page_wf ?t = page_wf s" by (simp add: page_wf_def bg_ok_def helpers_def)
  moreover have "auto_ok ?t = auto_ok s" by (simp add: auto_ok_def timers_ok_def halted_def isPaused_def)
  moreover have "states_ok ?t = states_ok s" by (simp add: states_ok_def)
  moreover have "getHorizontalSlides ?t = getHorizontalSlides s" by (simp add: getHorizontalSlides_def)
  then have "on_slide ?t = on_slide s" "housed ?t = housed s"
    by (simp_all add: on_slide_def housed_def Let_def split: jsnum.split)
  ultimately show ?thesis by (simp add: healthy_def live_def deck_ok_def)
qed

section \<open>The page\<close>

lemma stays_transition:
  assumes "page_class old" "page_class (cfg_transition (cfg s))"
  shows "stays s (after (configure_transition old s))"
proof -
  let ?w = "wrapper (host s)"
  have 1: "same_sections ?w (doc s) (remove_class old ?w (doc s))" by (rule same_sections_class(2) [OF assms(1)])
  have 2: "same_sections ?w (doc s) (add_class (cfg_transition (cfg s)) ?w (remove_class old ?w (doc s)))"
    by (rule same_sections_trans [OF 1 same_sections_class(1) [OF assms(2)]])
  have attr: "same_sections w d (set_attr ''data-transition-speed'' v x d)" "same_sections w d (set_attr ''data-background-transition'' v x d)" for w d v x
    by simp_all
  note 3 = same_sections_trans [OF same_sections_trans [OF same_sections_trans [OF same_sections_trans [OF 2 attr(1)] attr(2)]
      same_sections_attr(3)] same_sections_attr(3)]
  show ?thesis unfolding configure_transition_def Let_def
    using stays_quiet [OF quiet_doc [OF 1]] stays_quiet [OF quiet_doc [OF 3]] by simp
qed

lemma stays_classes: "stays s (configure_classes s)"
proof -
  have t: "same_sections w d (toggleClass x k b d)" if "page_class k" for w d x k b
    using that by (simp add: toggleClass_def same_sections_class)
  have k: "page_class ''embedded''" "page_class ''rtl''" "page_class ''center''"
    by (simp_all add: page_class_def position_classes_def)
  note c = same_sections_trans [OF same_sections_trans [OF t [OF k(1)] t [OF k(2)]] t [OF k(3)]]
  show ?thesis unfolding configure_classes_def Let_def by (rule stays_quiet [OF quiet_doc [OF c]])
qed

lemma stays_resume: "stays s (resume s)"
  by (simp add: stays_def steady_resume) (simp add: same_place_def resume_def Let_def)

lemma quiet_previews: "quiet s (enablePreviewLinks sel s)" "quiet s (disablePreviewLinks sel s)"
  unfolding enablePreviewLinks_def disablePreviewLinks_def
  by (rule quiet_world [OF same_timers_fold], rule same_timers_basic)+

lemma stays_previews: "stays s (configure_previews s)"
  unfolding configure_previews_def Let_def
  using stays_quiet [OF quiet_trans [OF quiet_previews(1) quiet_previews(2)]] stays_quiet [OF quiet_trans [OF quiet_previews(2) quiet_previews(1)]]
  by simp

lemma stays_page: "\<not> cfg_shuffle (cfg s) \<Longrightarrow> stays s (configure_page rs s)"
proof -
  assume "\<not> cfg_shuffle (cfg s)"
  then have e: "configure_page rs s =
      configure_previews (if cfg_pause (cfg (configure_classes s)) then configure_classes s else resume (configure_classes s))"
    by (simp add: configure_page_def Let_def)
  have "stays s (if b then configure_classes s else resume (configure_classes s))" for b
    using stays_classes stays_trans [OF stays_classes stays_resume] by simp
  from stays_trans [OF this stays_previews] show ?thesis unfolding e .
qed

section \<open>The controllers\<close>

lemma stays_mode: "stays s (configure_mode s)"
  unfolding configure_mode_def Let_def by (rule stays_quiet [OF quiet_doc]) simp

lemma quiet_configures:
  "quiet s (notes_configure s)" "quiet s (controls_configure s)" "quiet s (progress_configure s)" "quiet s (slideNumber_configure s)"
proof -
  show "quiet s (notes_configure s)" by (simp add: notes_configure_def quiet_doc split: option.split)
  show "quiet s (progress_configure s)" by (simp add: progress_configure_def quiet_doc)
  show "quiet s (slideNumber_configure s)" by (simp add: slideNumber_configure_def quiet_doc Let_def split: option.split)
  have a: "same_sections w d (set_attr ''data-controls-layout'' v x d)" "same_sections w d (set_attr ''data-controls-back-arrows'' v x d)" for w d v x
    by simp_all
  show "quiet s (controls_configure s)" unfolding controls_configure_def Let_def
    by (rule quiet_doc [OF same_sections_trans [OF same_sections_trans [OF same_sections_attr(3) a(1)] a(2)]])
qed

lemma quiet_fragments_configure: "quiet s (fragments_configure old s)"
proof -
  have "same_sections w d (show_fragment x d)" "same_sections w d (hide_fragment x d)" for w d x
    unfolding show_fragment_def hide_fragment_def
    by (rule same_sections_trans [OF same_sections_class(1) same_sections_class(2)], simp, simp,
        rule same_sections_trans [OF same_sections_class(2) same_sections_class(2)], simp, simp)
  then have "quiet s (fragments_disable s)" "quiet s (fragments_enable s)"
    unfolding fragments_disable_def fragments_enable_def by (simp_all add: quiet_doc same_sections_for_each)
  then show ?thesis by (simp add: fragments_configure_def)
qed

lemma stays_inputs: "stays s (focus_configure s)" "stays s (pointer_configure s)"
proof -
  show "stays s (focus_configure s)"
    by (simp add: stays_def steady_focus_configure)
      (simp add: same_place_def focus_configure_def focus_blur_def focus_focus_def focus_unbind_def)
  show "stays s (pointer_configure s)"
    by (simp add: stays_def steady_pointer_configure) (simp add: same_place_def pointer_configure_def showCursor_def Let_def)
qed

lemma stays_keyboard: "stays s (s\<lparr>keyboard_state := k\<rparr>)"
  by (simp add: stays_def same_place_def)

lemma stays_controllers: "stays s (configure_controllers old s)"
proof -
  note 1 = stays_trans [OF stays_trans [OF stays_quiet [OF quiet_configures(1)] stays_inputs(1)] stays_inputs(2)]
  note 2 = stays_trans [OF stays_trans [OF 1 stays_quiet [OF quiet_configures(2)]] stays_quiet [OF quiet_configures(3)]]
  note 3 = stays_trans [OF 2 stays_keyboard]
  show ?thesis unfolding configure_controllers_def Let_def
    by (rule stays_trans [OF stays_trans [OF 3 stays_quiet [OF quiet_fragments_configure]] stays_quiet [OF quiet_configures(4)]])
qed

section \<open>The parts of the deck\<close>

text \<open>Neither the style sheet of the auto-animation nor the canvas of the player holds a slide.\<close>

definition extras :: "app \<Rightarrow> node list" where
  "extras a = (case an_sheet (animation a) of Some n \<Rightarrow> [n] | None \<Rightarrow> []) @ (case player a of Some p \<Rightarrow> [canvas p] | None \<Rightarrow> [])"

definition clear_of_slides :: "dom \<Rightarrow> node \<Rightarrow> bool" where
  "clear_of_slides d n = (\<forall>x\<in>set (sections d). \<not> in_subtree d n x)"

definition app_ok :: "app \<Rightarrow> bool" where
  "app_ok a = (healthy (deck a) \<and> (\<forall>n\<in>set (extras a). clear_of_slides (doc (deck a)) n))"

definition app_stays :: "app \<Rightarrow> app \<Rightarrow> bool" where
  "app_stays a b = (app_ok a \<longrightarrow> app_ok b \<and> getHorizontalSlides (deck b) = getHorizontalSlides (deck a) \<and>
     cfg (deck b) = cfg (deck a) \<and> same_place (deck a) (deck b))"

lemma app_stays_refl [simp]: "app_stays a a" by (simp add: app_stays_def same_place_def)

lemma app_stays_trans [trans]: "app_stays a b \<Longrightarrow> app_stays b c \<Longrightarrow> app_stays a c"
  unfolding app_stays_def same_place_def by simp

lemma clear_keeps: "keeps d d' \<Longrightarrow> clear_of_slides d n \<Longrightarrow> clear_of_slides d' n"
proof -
  assume k: "keeps d d'" and c: "clear_of_slides d n"
  have "sections d' = sections d" using k by (simp add: keeps_def)
  moreover have "path d' x = path d x" if "x \<in> set (sections d)" for x by (rule keepsD(1) [OF k that])
  ultimately show "clear_of_slides d' n" using c by (simp add: clear_of_slides_def in_subtree_def del: sections_in)
qed

lemma app_stays_deck:
  assumes "stays (deck a) s" and "set (extras b) \<subseteq> set (extras a) \<union> N" and "deck b = s"
    and new: "\<And>n. n \<in> N \<Longrightarrow> healthy (deck a) \<Longrightarrow> clear_of_slides (doc s) n"
  shows "app_stays a b"
  unfolding app_stays_def
proof
  assume ok: "app_ok a"
  then have h: "healthy (deck a)" by (simp add: app_ok_def)
  have st: "steady (deck a) s" "same_place (deck a) s" using assms(1) by (simp_all add: stays_def)
  have t: "healthy s" "cfg s = cfg (deck a)" "host s = host (deck a)" "keeps (doc (deck a)) (doc s)"
    using st(1) h by (simp_all add: steady_def)
  have "clear_of_slides (doc s) n" if "n \<in> set (extras b)" for n
    using that assms(2) ok new h clear_keeps [OF t(4)] by (auto simp: app_ok_def)
  moreover have "getHorizontalSlides s = getHorizontalSlides (deck a)"
    using t(3,4) by (simp add: getHorizontalSlides_def keeps_horizontal)
  ultimately show "app_ok b \<and> getHorizontalSlides (deck b) = getHorizontalSlides (deck a) \<and> cfg (deck b) = cfg (deck a) \<and>
      same_place (deck a) (deck b)"
    using t st(2) assms(3) by (simp add: app_ok_def)
qed

lemma app_stays_on_deck: "(\<And>s. stays s (f s)) \<Longrightarrow> app_stays a (on_deck f a)"
  by (rule app_stays_deck [where N = "{}"]) (simp_all add: on_deck_def extras_def)

text \<open>Taking an element off that holds no slide.\<close>

lemma stays_detach:
  assumes clear: "healthy s \<Longrightarrow> clear_of_slides (doc s) n" and t: "same_sections (wrapper (host s)) (doc s) d"
  shows "stays s (s\<lparr>doc := removeNode n d\<rparr>)"
proof (cases "healthy s")
  case True
  then have "wf_page (wrapper (host s)) (doc s)" using healthyD(2) by (simp add: page_wf_def)
  then have "keeps (doc s) d" using t by (simp add: same_sections_def)
  then have "clear_of_slides d n" by (rule clear_keeps) (rule clear [OF True])
  then have "same_sections (wrapper (host s)) d (removeNode n d)"
    by (intro same_sections_remove) (simp add: clear_of_slides_def del: sections_in)
  then show ?thesis by (rule stays_quiet [OF quiet_doc [OF same_sections_trans [OF t]]])
next
  case False
  then show ?thesis by (simp add: stays_def steady_def same_place_def)
qed

lemma stays_player_fields:
  "stays s (s\<lparr>autoSlidePlayer := b\<rparr>)" "stays s (s\<lparr>autoSlidePlaying := b\<rparr>)" "stays s (s\<lparr>autoSlidePaused := False\<rparr>)"
proof -
  show "stays s (s\<lparr>autoSlidePlayer := b\<rparr>)" "stays s (s\<lparr>autoSlidePlaying := b\<rparr>)"
    by (simp_all add: stays_def same_place_def steady_same)
  let ?t = "s\<lparr>autoSlidePaused := False\<rparr>"
  have "steady s ?t"
  proof (rule steady_mode)
    show "auto_ok ?t" if "auto_ok s"
      by (rule auto_ok_weaken [OF _ _ _ _ that]) (auto simp: timers_ok_def halted_def isPaused_def)
  qed simp_all
  then show "stays s ?t" by (simp add: stays_def same_place_def)
qed

lemma app_stays_reset_animation: "app_stays a (reset_animation a)"
proof -
  let ?s = "deck a" and ?w = "wrapper (host (deck a))"
  let ?d1 = "clear_marks ?w (doc ?s)"
  have attr: "same_sections w d (set_attr ''data-auto-animate'' [] x d)" "same_sections w d (remove_attr ''data-auto-animate-target'' x d)" for w d x
    by simp_all
  have 1: "same_sections ?w (doc ?s) ?d1"
    unfolding clear_marks_def Let_def
    by (rule same_sections_trans [OF same_sections_for_each [OF attr(1)] same_sections_for_each [OF attr(2)]])
  obtain an d where r: "autoAnimate_reset ?w (animation a) (doc ?s) = (an, d)" by fastforce
  have b: "reset_animation a = a\<lparr>deck := ?s\<lparr>doc := d\<rparr>, animation := an\<rparr>" by (simp add: reset_animation_def r Let_def)
  show ?thesis
  proof (cases "d = ?d1")
    case True
    have "an_sheet an = an_sheet (animation a) \<or> an_sheet an = None"
      using r by (auto simp: autoAnimate_reset_def Let_def split: option.splits if_splits)
    then have "set (extras (reset_animation a)) \<subseteq> set (extras a) \<union> {}" by (auto simp: extras_def b)
    moreover have "stays ?s (?s\<lparr>doc := d\<rparr>)" unfolding True by (rule stays_quiet [OF quiet_doc [OF 1]])
    ultimately show ?thesis by (intro app_stays_deck [where N = "{}"]) (simp_all add: b)
  next
    case False
    then obtain n where n: "an_sheet (animation a) = Some n" "d = removeNode n ?d1" "an_sheet an = None"
      using r by (auto simp: autoAnimate_reset_def Let_def split: option.splits if_splits)
    have "app_stays a (reset_animation a)" if ok: "app_ok a"
    proof (rule app_stays_deck [where N = "{}"])
      have "clear_of_slides (doc ?s) n" using ok n(1) by (simp add: app_ok_def extras_def)
      then show "stays ?s (?s\<lparr>doc := d\<rparr>)" unfolding n(2) by (intro stays_detach 1)
    qed (auto simp: b extras_def n)
    then show ?thesis by (auto simp: app_stays_def)
  qed
qed

lemma app_stays_remove_player: "app_stays a (result_app (remove_player a))"
proof (cases "player a")
  case (Some p)
  show ?thesis
  proof (cases "playback_destroy p (doc (deck a))")
    case (Inr r)
    obtain q d where r: "r = (q, d)" by fastforce
    let ?b = "a\<lparr>deck := (deck a)\<lparr>doc := d, autoSlidePlayer := False\<rparr>, player := None\<rparr>"
    have b: "result_app (remove_player a) = ?b" by (simp add: remove_player_def Some Inr r)
    have "app_stays a ?b" if ok: "app_ok a"
    proof (rule app_stays_deck [where N = "{}"])
      have "clear_of_slides (doc (deck a)) (canvas p)" using ok Some by (simp add: app_ok_def extras_def)
      moreover have "d = doc (deck a) \<or> d = removeNode (canvas p) (doc (deck a))"
        using Inr r by (auto simp: playback_destroy_def Let_def split: option.splits if_splits)
      ultimately have "stays (deck a) ((deck a)\<lparr>doc := d\<rparr>)"
        using stays_detach [OF _ same_sections_refl] by auto
      from stays_trans [OF this stays_player_fields(1)]
      show "stays (deck a) ((deck a)\<lparr>doc := d, autoSlidePlayer := False\<rparr>)" by simp
    qed (simp_all add: extras_def)
    then show ?thesis unfolding b by (auto simp: app_stays_def)
  qed (simp add: remove_player_def Some)
qed (simp add: remove_player_def)

lemma app_stays_create_player: "app_stays a (create_player a)"
proof -
  let ?s = "deck a" and ?w = "wrapper (host (deck a))"
  obtain c d1 where c: "createElement ''canvas'' (doc ?s) = (c, d1)" by fastforce
  let ?d2 = "set_style ''height'' (Px 50) c (set_style ''width'' (Px 50) c
    (set_attr ''height'' ''100'' c (set_attr ''width'' ''100'' c (add_class ''playback'' c d1))))"
  let ?d = "appendChild ?w c ?d2"
  obtain p where p: "new_playback ?w (doc ?s) = (p, ?d)" "canvas p = c"
    by (simp add: new_playback_def c Let_def)
  have attr: "same_sections w d (set_attr ''width'' v x d)" "same_sections w d (set_attr ''height'' v x d)" for w d v x
    by simp_all
  have "page_class ''playback''" by (simp add: page_class_def position_classes_def)
  note dress = same_sections_trans [OF same_sections_trans [OF same_sections_trans [OF same_sections_trans
    [OF same_sections_class(1) [OF this] attr(1)] attr(2)] same_sections_attr(3)] same_sections_attr(3)]
  have ss: "same_sections ?w (doc ?s) ?d"
    by (rule same_sections_new_child [OF c _ _ _ _ _ dress]) (simp_all add: wf_page_def)
  let ?wd = "playback_on ''click'' ''onAutoSlidePlayerClick'' p (world ?s)"
  let ?t = "?s\<lparr>doc := ?d, world := ?wd, autoSlidePlayer := True, autoSlidePlaying := False, autoSlidePaused := False\<rparr>"
  have "same_timers (world ?s) ?wd" by (simp add: playback_on_def)
  from stays_quiet [OF quiet_page [OF ss this]]
  have st: "stays ?s ?t"
    using stays_trans [OF stays_trans [OF stays_trans [OF _ stays_player_fields(1)] stays_player_fields(2)] stays_player_fields(3)]
    by simp
  have clear: "clear_of_slides (doc ?t) c" if "healthy ?s"
  proof -
    have wf: "wf_page ?w (doc ?s)" using that healthyD(2) by (simp add: page_wf_def)
    have k: "keeps (doc ?s) ?d" using ss wf by (simp add: same_sections_def)
    have "clear_of_slides (doc ?s) c" using fresh_not_above [OF wf c] by (simp add: clear_of_slides_def del: sections_in)
    from clear_keeps [OF k this] show ?thesis by simp
  qed
  have b: "create_player a = a\<lparr>deck := ?t, player := Some p\<rparr>" by (simp add: create_player_def p Let_def)
  show ?thesis
  proof (rule app_stays_deck [where N = "{c}"])
    show "stays ?s ?t" by (rule st)
  qed (use clear p(2) in \<open>auto simp: b extras_def\<close>)
qed

lemma app_stays_rest: "app_stays a (configure_rest old n a)"
proof -
  have 1: "app_stays a (if b then create_player a else a)" for b using app_stays_create_player by simp
  have "stays s (sync p (configure_controllers old (configure_mode s)))" for s p
    by (rule stays_trans [OF stays_trans [OF stays_mode stays_controllers] stays_sync])
  from app_stays_trans [OF 1 app_stays_on_deck [OF this]] show ?thesis
    unfolding configure_rest_def Let_def .
qed

section \<open>Properties\<close>

lemma result_bind: "(\<And>b. r = Done b \<Longrightarrow> app_stays b (result_app (f b))) \<Longrightarrow> app_stays (result_app r) (result_app (bind_result r f))"
  by (cases r) simp_all

lemma configure_stays:
  assumes "s = (deck a)\<lparr>cfg := c\<rparr>" "page_class (cfg_transition (cfg (deck a)))" "page_class (cfg_transition c)" "\<not> cfg_shuffle c"
    and "c = (case options of Some f \<Rightarrow> f (cfg (deck a)) | None \<Rightarrow> cfg (deck a))"
  shows "app_stays (a\<lparr>deck := s\<rparr>) (result_app (configure options rs a))"
proof (cases "ready s")
  case True
  let ?a1 = "a\<lparr>deck := s\<rparr>" and ?old = "cfg (deck a)" and ?n = "length (queryAll (doc s) (wrapper (host s)) (slides_sel (doc s)))"
  let ?r1 = "with_deck (configure_transition (cfg_transition ?old) s) ?a1"
  have s: "(case options of Some f \<Rightarrow> (deck a)\<lparr>cfg := f ?old\<rparr> | None \<Rightarrow> deck a) = s"
    using assms(1,5) by (simp split: option.splits)
  have c: "configure options rs a = bind_result ?r1 (\<lambda>a2. bind_result (remove_player (reset_animation (on_deck (configure_page rs) a2)))
      (\<lambda>a3. Done (configure_rest ?old ?n a3)))"
    unfolding configure_def Let_def s using True by simp
  have "cfg s = c" using assms(1) by simp
  then have t: "stays s (after (configure_transition (cfg_transition ?old) s))"
    using assms(2,3) by (intro stays_transition) simp_all
  have r1: "result_app ?r1 = ?a1\<lparr>deck := after (configure_transition (cfg_transition ?old) s)\<rparr>"
    by (cases "configure_transition (cfg_transition ?old) s") (simp_all add: with_deck_def)
  have 1: "app_stays ?a1 (result_app ?r1)"
    unfolding r1 by (rule app_stays_deck [where N = "{}"]) (simp_all add: t extras_def)
  have 2: "app_stays b (result_app (bind_result (remove_player (reset_animation (on_deck (configure_page rs) b)))
      (\<lambda>a3. Done (configure_rest ?old ?n a3))))" if b: "?r1 = Done b" for b
  proof -
    have "cfg (deck b) = c"
      using b \<open>cfg s = c\<close> by (auto simp: with_deck_def configure_transition_def Let_def split: outcome.splits if_splits)
    then have "stays (deck b) (configure_page rs (deck b))" using assms(4) by (intro stays_page) simp
    then have "app_stays b (on_deck (configure_page rs) b)"
      by (intro app_stays_deck [where N = "{}"]) (simp_all add: on_deck_def extras_def)
    from app_stays_trans [OF app_stays_trans [OF this app_stays_reset_animation] app_stays_remove_player]
    show ?thesis by (rule app_stays_trans) (rule result_bind, simp add: app_stays_rest)
  qed
  show ?thesis unfolding c by (rule app_stays_trans [OF 1 result_bind]) (rule 2)
next
  case False
  have "result_app (configure options rs a) = a\<lparr>deck := s\<rparr>"
    using False assms(1,5) by (auto simp: configure_def Let_def split: option.splits)
  then show ?thesis by simp
qed

text \<open>C14: Applying options to a healthy deck, at whatever moment, leaves it healthy, with its slides and on
  the slide it was on, even where the operation throws. (The transitions are class names the
  engine does not use itself, and the slides are not to be shuffled.)\<close>

theorem configure_keeps_place:
  assumes "app_ok a" and "page_class (cfg_transition (cfg (deck a)))" and "page_class (cfg_transition (f (cfg (deck a))))"
    and "\<not> cfg_shuffle (f (cfg (deck a)))"
  shows "app_ok (result_app (configure (Some f) rs a)) \<and> same_place (deck a) (deck (result_app (configure (Some f) rs a))) \<and>
    getHorizontalSlides (deck (result_app (configure (Some f) rs a))) = getHorizontalSlides (deck a)"
proof -
  let ?s = "(deck a)\<lparr>cfg := f (cfg (deck a))\<rparr>"
  have "app_ok (a\<lparr>deck := ?s\<rparr>)" using assms(1) by (simp add: app_ok_def healthy_cfg extras_def)
  moreover have "app_stays (a\<lparr>deck := ?s\<rparr>) (result_app (configure (Some f) rs a))"
    by (rule configure_stays [OF refl assms(2,3,4)]) simp
  ultimately show ?thesis by (simp add: app_stays_def same_place_def getHorizontalSlides_def)
qed

definition sample_app :: app where
  "sample_app = \<lparr>deck = sample_at 0 0 4, animation = \<lparr>an_sheet = None, an_rules = [], an_counter = 0, an_frames = []\<rparr>,
     plugin_loader = idle, player = None, support = PointerEvents\<rparr>"

lemma sample_app_ok: "app_ok sample_app"
  using healthy_sample(1) by (simp add: app_ok_def sample_app_def extras_def)

theorem configure_keeps_place_witness:
  "healthy (deck (result_app (configure (Some (\<lambda>c. c\<lparr>cfg_rtl := True\<rparr>)) [] sample_app)))"
proof -
  have c: "cfg (deck sample_app) = default_config" by (simp add: sample_app_def sample_at_def sample_def)
  have "page_class ''slide''" by (simp add: page_class_def position_classes_def)
  then have "app_ok (result_app (configure (Some (\<lambda>c. c\<lparr>cfg_rtl := True\<rparr>)) [] sample_app))"
    using configure_keeps_place [OF sample_app_ok, of "\<lambda>c. c\<lparr>cfg_rtl := True\<rparr>" "[]"] by (simp add: c default_config_def)
  then show ?thesis by (simp add: app_ok_def)
qed

section \<open>Shuffling\<close>

text \<open>Shuffling moves the slides under the indices: on a deck of two slides, swapped when it is on the
  first, the current slide is then not the one the indices name.\<close>

definition two_slides :: dom where
  "two_slides = sample_dom\<lparr>order := [0, 1, 2, 3, 4, 8], path := (\<lambda>x. if x = 4 \<or> x = 8 then [3, 2, 1, 0]
     else if x = 3 then [2, 1, 0] else if x = 2 then [1, 0] else if x = 1 then [0] else [])\<rparr>"

lemma shuffle_two:
  "queryAll two_slides 2 (horizontal_sel two_slides) = [4, 8]"
  "let d = snd (shuffle_slides 6 [4, 8] ([1, 0], two_slides)) in queryAll d 2 (horizontal_sel d) = [8, 4]"
  by code_simp+

lemma shuffle_loses_position:
  assumes "s = (sample_at 0 0 4)\<lparr>doc := two_slides\<rparr>"
  shows "getHorizontalSlides s ! 0 = 4" "currentSlide (shuffle [1, 0] s) = Some 4" "indexh (shuffle [1, 0] s) = Num 0"
    "getHorizontalSlides (shuffle [1, 0] s) ! 0 = 8"
proof -
  have w: "wrapper (host s) = 2" "doc s = two_slides" by (simp_all add: assms sample_at_def sample_def sample_host_def)
  have h: "getHorizontalSlides s = [4, 8]" by (simp add: getHorizontalSlides_def w shuffle_two(1))
  have "length (order two_slides) = 6" by (simp add: two_slides_def)
  then show "getHorizontalSlides (shuffle [1, 0] s) ! 0 = 8"
    using shuffle_two(2) by (simp add: shuffle_def h w Let_def) (simp add: getHorizontalSlides_def w Let_def)
  show "getHorizontalSlides s ! 0 = 4" by (simp add: h)
  show "currentSlide (shuffle [1, 0] s) = Some 4" "indexh (shuffle [1, 0] s) = Num 0"
    by (simp_all add: shuffle_def assms sample_at_def)
qed

end
