(* ===== verification/Grid.thy ===== *)
theory Grid
  imports Position
begin

text \<open>
  What the moves of the deck promise to someone who only sees which slide is shown: a walk on a
  grid of cells, one column for each horizontal slide, that remembers at which cell each column
  was left. \<open>slide\<close> and the four directions of \<open>reveal.js\<close> refine the walk.
\<close>

section \<open>The walk\<close>

text \<open>
  A column of height zero is a horizontal slide without vertical slides. A fixed column names the
  vertical slide it is entered at. In a row-wise deck a horizontal step stays in its row, which is
  so in the navigation mode \<open>grid\<close> and while the overview is open.
\<close>

record grid =
  g_loop :: bool
  g_linear :: bool
  g_rtl :: bool
  g_rowwise :: bool
  g_columns :: "nat list"
  g_fixed :: "bool list"

record walker =
  at_h :: int
  at_v :: int
  memory :: "int list"

datatype heading = GoTo int int | LeftOne | RightOne | UpOne | DownOne

definition width :: "grid \<Rightarrow> int" where
  "width g = int (length (g_columns g))"

definition height :: "grid \<Rightarrow> int \<Rightarrow> int" where
  "height g h = int (g_columns g ! nat h)"

text \<open>Leaving a column is remembered; entering one goes to where it was left. Past the last
  column (a looping deck walks on to the first) nothing is remembered.\<close>

definition leave :: "grid \<Rightarrow> walker \<Rightarrow> int list" where
  "leave g w = (if height g (at_h w) = 0 \<or> g_fixed g ! nat (at_h w) then memory w
     else (memory w)[nat (at_h w) := at_v w])"

definition recall :: "grid \<Rightarrow> walker \<Rightarrow> int \<Rightarrow> int" where
  "recall g w a = (if g_rowwise g then at_v w else if 0 \<le> a \<and> a < width g then memory w ! nat a else 0)"

definition settle :: "grid \<Rightarrow> int \<Rightarrow> int \<Rightarrow> walker \<Rightarrow> walker" where
  "settle g a b w =
     (let h = wrapped (g_loop g) (width g) a
      in \<lparr>at_h = h, at_v = (if height g h = 0 then 0 else wrapped (g_loop g) (height g h) b), memory = leave g w\<rparr>)"

definition can_descend :: "grid \<Rightarrow> walker \<Rightarrow> bool" where
  "can_descend g w = (at_v w < height g (at_h w) - 1 \<or> g_loop g \<and> 1 < height g (at_h w))"

definition can_ascend :: "grid \<Rightarrow> walker \<Rightarrow> bool" where
  "can_ascend g w = (0 < at_v w \<or> g_loop g \<and> 1 < height g (at_h w))"

definition can_advance :: "grid \<Rightarrow> walker \<Rightarrow> bool" where
  "can_advance g w = (at_h w < width g - 1 \<or> 1 < width g \<and> (g_loop g \<or> g_linear g \<and> can_descend g w))"

definition can_retreat :: "grid \<Rightarrow> walker \<Rightarrow> bool" where
  "can_retreat g w = (0 < at_h w \<or> 1 < width g \<and> (g_loop g \<or> g_linear g \<and> can_ascend g w))"

definition advance :: "grid \<Rightarrow> walker \<Rightarrow> walker" where
  "advance g w = (if can_advance g w then settle g (at_h w + 1) (recall g w (at_h w + 1)) w else w)"

definition retreat :: "grid \<Rightarrow> walker \<Rightarrow> walker" where
  "retreat g w = (if can_retreat g w then settle g (at_h w - 1) (recall g w (at_h w - 1)) w else w)"

fun walk :: "grid \<Rightarrow> heading \<Rightarrow> walker \<Rightarrow> walker" where
  "walk g (GoTo a b) w = settle g a b w"
| "walk g LeftOne w = (if g_rtl g then advance g w else retreat g w)"
| "walk g RightOne w = (if g_rtl g then retreat g w else advance g w)"
| "walk g UpOne w = (if can_ascend g w then settle g (at_h w) (at_v w - 1) w else w)"
| "walk g DownOne w = (if can_descend g w then settle g (at_h w) (at_v w + 1) w else w)"

section \<open>The deck as a walker\<close>

fun take_step :: "heading \<Rightarrow> reveal \<Rightarrow> outcome" where
  "take_step (GoTo a b) s = slide (Num a) (Num b) Undef Undef s"
| "take_step LeftOne s = navigateLeft True s"
| "take_step RightOne s = navigateRight True s"
| "take_step UpOne s = navigateUp True s"
| "take_step DownOne s = navigateDown True s"

fun take_steps :: "heading list \<Rightarrow> reveal \<Rightarrow> outcome" where
  "take_steps [] s = Returned s"
| "take_steps (x # xs) s = and_then (take_step x s) (take_steps xs)"

definition left_at :: "dom \<Rightarrow> node \<Rightarrow> int" where
  "left_at d x = (if verticals d x = [] then 0 else the_num (getPreviousVerticalIndex d (Some x)))"

definition grid_of :: "reveal \<Rightarrow> grid" where
  "grid_of s =
     (let d = doc s; hs = getHorizontalSlides s; mode = cfg_navigationMode (cfg s)
      in \<lparr>g_loop = cfg_loop (cfg s), g_linear = (mode = ''linear''), g_rtl = cfg_rtl (cfg s),
          g_rowwise = (mode = ''grid'' \<or> overviewActive s),
          g_columns = map (\<lambda>x. length (verticals d x)) hs, g_fixed = map (has_attr ''data-start-indexv'' d) hs\<rparr>)"

definition walker_of :: "reveal \<Rightarrow> walker" where
  "walker_of s = \<lparr>at_h = the_num (indexh s), at_v = the_num (indexv s),
     memory = map (left_at (doc s)) (getHorizontalSlides s)\<rparr>"

text \<open>The decks the walk describes: live ones, with their stacks marked, and no listener that
  vetoes a move. Positioning the slides marks the stacks.\<close>

definition stacks_marked :: "reveal \<Rightarrow> bool" where
  "stacks_marked s = (\<forall>x\<in>set (getHorizontalSlides s). verticals (doc s) x \<noteq> [] \<longrightarrow> has_class ''stack'' (doc s) x)"

definition walkable :: "reveal \<Rightarrow> bool" where
  "walkable s = (live s \<and> stacks_marked s \<and> (\<forall>h v. \<not> vetoes (host s) ''beforeslidechange'' h v))"

section \<open>What a move remembers\<close>

text \<open>Apart from the column that is left, a move writes none of the attributes in which the deck
  remembers, and it takes no stack's mark away.\<close>

definition index_attrs :: "string list" where
  "index_attrs = [''data-start-indexv'', ''data-previous-indexv'']"

definition mindful :: "reveal \<Rightarrow> reveal \<Rightarrow> bool" where
  "mindful s t = (moves s t \<and> (deck_ok s \<longrightarrow> (\<forall>x\<in>set (sections (doc s)).
     list_all (\<lambda>a. get_attr a (doc t) x = get_attr a (doc s) x) index_attrs \<and>
     (has_class ''stack'' (doc s) x \<longrightarrow> has_class ''stack'' (doc t) x))))"

lemma moves_sections: "moves s t \<Longrightarrow> deck_ok s \<Longrightarrow> sections (doc t) = sections (doc s)"
  using same_deck_wf(2) [of s t] movesD(2) [of s t] by (simp add: deck_ok_def keeps_def)

lemma mindful_moves: "mindful s t \<Longrightarrow> moves s t"
  by (simp add: mindful_def)

lemma mindful_attr:
  assumes "mindful s t" "deck_ok s" "x \<in> set (sections (doc s))" "a \<in> set index_attrs"
  shows "get_attr a (doc t) x = get_attr a (doc s) x"
  using assms unfolding mindful_def list_all_iff by blast

lemma mindful_stack:
  assumes "mindful s t" "deck_ok s" "x \<in> set (sections (doc s))" "has_class ''stack'' (doc s) x"
  shows "has_class ''stack'' (doc t) x"
  using assms unfolding mindful_def by blast

lemma mindful_trans [trans]:
  assumes "mindful a b" "mindful b c"
  shows "mindful a c"
  unfolding mindful_def
proof (intro conjI impI ballI)
  show "moves a c" using assms mindful_moves moves_trans by blast
  assume ok: "deck_ok a"
  have b: "deck_ok b" using movesD(1) [OF mindful_moves [OF assms(1)] ok] .
  fix x assume x: "x \<in> set (sections (doc a))"
  then have xb: "x \<in> set (sections (doc b))" by (simp only: moves_sections [OF mindful_moves [OF assms(1)] ok])
  show "list_all (\<lambda>k. get_attr k (doc c) x = get_attr k (doc a) x) index_attrs"
    using mindful_attr [OF assms(1) ok x] mindful_attr [OF assms(2) b xb] by (simp only: list_all_iff) simp
  assume "has_class ''stack'' (doc a) x"
  then show "has_class ''stack'' (doc c) x" by (rule mindful_stack [OF assms(2) b xb mindful_stack [OF assms(1) ok x]])
qed

lemma mindfulI:
  assumes "moves s t"
    and "\<And>a x. a \<in> set index_attrs \<Longrightarrow> get_attr a (doc t) x = get_attr a (doc s) x"
    and "\<And>x. has_class ''stack'' (doc s) x \<Longrightarrow> has_class ''stack'' (doc t) x"
  shows "mindful s t"
  using assms unfolding mindful_def list_all_iff by blast

lemma mindful_doc: "mindful s u \<Longrightarrow> moves s t \<Longrightarrow> doc t = doc u \<Longrightarrow> mindful s t"
  by (simp add: mindful_def)

lemma mindful_quiet:
  assumes "quiet s t"
  shows "mindful s t"
  unfolding mindful_def
proof (intro conjI impI ballI)
  show "moves s t" by (rule moves_quiet [OF assms])
  assume ok: "deck_ok s"
  then have wf: "page_wf s" by (simp add: deck_ok_def)
  have ss: "same_sections (wrapper (host s)) (doc s) (doc t)" by (rule quiet_sections [OF assms wf])
  have w: "wf_page (wrapper (host s)) (doc s)" using wf by (simp add: page_wf_def)
  fix x assume x: "x \<in> set (sections (doc s))"
  then show "list_all (\<lambda>a. get_attr a (doc t) x = get_attr a (doc s) x) index_attrs"
    using ss w by (simp add: index_attrs_def same_sections_def)
  assume "has_class ''stack'' (doc s) x"
  then show "has_class ''stack'' (doc t) x" using quiet_position [OF assms wf x] by (simp add: position_classes_def)
qed

lemma mindful_fields:
  assumes "moves s t" "doc t = doc s"
  shows "mindful s t"
  using assms by (simp add: mindfulI)

text \<open>The same for what is written while the slides are positioned.\<close>

definition recalls :: "dom \<Rightarrow> dom \<Rightarrow> bool" where
  "recalls d e = (list_all (\<lambda>a. get_attr a e = get_attr a d) index_attrs \<and>
     (\<forall>x. has_class ''stack'' d x \<longrightarrow> has_class ''stack'' e x))"

lemma recalls_refl [simp]: "recalls d d" by (simp add: recalls_def index_attrs_def)

lemma recalls_trans: "recalls a b \<Longrightarrow> recalls b c \<Longrightarrow> recalls a c"
  by (simp add: recalls_def index_attrs_def)

lemma recalls_fold: "(\<And>e d. recalls d (f e d)) \<Longrightarrow> recalls d (fold f es d)"
  by (induction es arbitrary: d) (auto intro: recalls_trans)

lemma recalls_positioned: "recalls (doc s) (positioned i slides s index)"
proof -
  have "recalls d (position_slide c pr ix fw bw e d)" for c pr ix fw bw e d
    by (simp add: recalls_def index_attrs_def position_slide_def mark_stack_def hide_slide_def split_beta Let_def
        fragments_in_class fun_eq_iff)
  then show ?thesis by (simp add: positioned_def position_slides_def split_beta Let_def recalls_fold)
qed

lemma recalls_show: "recalls d (show_slide el d)"
  by (simp add: recalls_def index_attrs_def show_slide_def fun_eq_iff)

lemma recalls_shown: "recalls (doc s) (show_slide el (positioned i slides s index))"
  by (rule recalls_trans [OF recalls_positioned recalls_show])

lemma mindful_recalls: "moves s t \<Longrightarrow> recalls (doc s) (doc t) \<Longrightarrow> mindful s t"
  by (simp add: mindfulI recalls_def list_all_iff)

lemma mindful_updateSlides: "mindful s (state_of (updateSlides ax index s))"
proof (rule mindful_recalls [OF moves_updateSlides])
  let ?slides = "select_slides ax s"
  show "recalls (doc s) (doc (state_of (updateSlides ax index s)))"
  proof (cases "?slides = []")
    case False
    show ?thesis
    proof (cases "\<exists>k. index = Num k")
      case True
      then obtain k where k: "index = Num k" ..
      obtain i d el wd where "updateSlides ax (Num k) s =
          Inr (Num i, s\<lparr>doc := show_slide el (positioned (Num i) ?slides s (Num k)), world := wd,
            stateArr := stateArr s @ slide_words d el\<rparr>)"
        using updateSlides_Num [OF refl False refl refl refl] by metis
      then show ?thesis by (simp add: k recalls_shown)
    next
      case no: False
      then have "index \<notin> range Num" by blast
      then show ?thesis using updateSlides_no_number [OF refl False] by (simp add: recalls_positioned)
    qed
  qed (simp add: updateSlides_none)
qed

lemma mindful_enter_slide: "mindful s (state_of (enter_slide hs h v s))"
proof -
  let ?u1 = "updateSlides Horizontal (or_undef h (indexh s)) (s\<lparr>stateArr := []\<rparr>)"
  have 1: "mindful s (state_of ?u1)"
    by (rule mindful_trans [OF mindful_fields [OF moves_fields(6)] mindful_updateSlides]) simp
  show ?thesis
  proof (cases ?u1)
    case (Inl e)
    then show ?thesis using 1 by (cases e) (simp add: enter_slide_def Let_def)
  next
    case (Inr p)
    obtain ih s1 where p: "p = (ih, s1)" by fastforce
    let ?s2 = "s1\<lparr>indexh := ih\<rparr>"
    let ?u2 = "updateSlides Vertical (or_undef v (indexv s1)) ?s2"
    have "mindful s s1" using 1 Inr p by simp
    then have "mindful s ?s2" by (rule mindful_trans [OF _ mindful_fields [OF moves_fields(1)]]) simp
    then have 2: "mindful s (state_of ?u2)" by (rule mindful_trans [OF _ mindful_updateSlides])
    show ?thesis
    proof (cases ?u2)
      case (Inl e)
      then show ?thesis using 2 \<open>?u1 = Inr p\<close> p by (cases e) (simp add: enter_slide_def Let_def)
    next
      case (Inr q)
      obtain iv s2 where q: "q = (iv, s2)" by fastforce
      have m2: "mindful s s2" using 2 Inr q by simp
      have "doc (state_of (enter_slide hs h v s)) = doc s2"
        using Inr \<open>?u1 = Inr p\<close> p q by (simp add: enter_slide_def Let_def split: option.split)
      then show ?thesis by (rule mindful_doc [OF m2 moves_enter_slide])
    qed
  qed
qed

lemma mindful_start_transition: "mindful s (start_transition m s)"
  by (rule mindfulI [OF moves_start_transition]) (simp_all add: start_transition_def Let_def)

lemma mindful_leave_previous: "mindful s (leave_previous s)"
  by (rule mindfulI [OF moves_leave_previous]) (simp_all add: leave_previous_def index_attrs_def Let_def split: option.split, auto)

lemma mindful_finish: "mindful s (finish_slide animated m origin s)"
proof -
  have "quiet s (update_controllers (switch_content m (announce_change m origin s)))"
    by (rule quiet_trans [OF quiet_announce_change quiet_trans [OF quiet_switch_content quiet_update_controllers]])
  then show ?thesis unfolding finish_slide_def
    by (rule mindful_trans [OF mindful_quiet mindful_trans [OF mindful_fields [OF moves_cue] mindful_quiet [OF quiet_run_animation]]])
      simp
qed

text \<open>The state in which a move has noted where it leaves.\<close>

definition departed :: "jsnum \<Rightarrow> jsnum \<Rightarrow> jsnum \<Rightarrow> reveal \<Rightarrow> reveal" where
  "departed h v origin s =
     (let s1 = dispatchEvent (EvSlide ''beforeslidechange'' (or_undef h (indexh s)) (or_undef v (indexv s)) None None origin) s
      in remember_vertical (s1\<lparr>previousSlide := currentSlide s1\<rparr>))"

lemma moves_departed: "moves s (departed h v origin s)"
  unfolding departed_def Let_def
  by (rule moves_trans [OF moves_quiet [OF quiet_dispatch] moves_trans [OF moves_fields(3) moves_remember]])

lemma doc_departed:
  "doc (departed h v origin s) =
     (case currentSlide s of
        None \<Rightarrow> doc s
      | Some p \<Rightarrow>
         (case parentNode (doc s) p of
            None \<Rightarrow> doc s
          | Some stack \<Rightarrow>
              if has_class ''stack'' (doc s) stack then setPreviousVerticalIndex stack (indexv s) (doc s) else doc s))"
  and stateArr_departed: "stateArr (departed h v origin s) = stateArr s"
proof -
  let ?e = "EvSlide ''beforeslidechange'' (or_undef h (indexh s)) (or_undef v (indexv s)) None None origin"
  obtain w where w: "dispatchEvent ?e s = s\<lparr>world := w\<rparr>" using dispatchEvent_world by blast
  show "doc (departed h v origin s) =
     (case currentSlide s of
        None \<Rightarrow> doc s
      | Some p \<Rightarrow>
         (case parentNode (doc s) p of
            None \<Rightarrow> doc s
          | Some stack \<Rightarrow>
              if has_class ''stack'' (doc s) stack then setPreviousVerticalIndex stack (indexv s) (doc s) else doc s))"
    "stateArr (departed h v origin s) = stateArr s"
    by (simp_all add: departed_def Let_def w remember_vertical_def split: option.split)
qed

lemma mindful_slide:
  assumes ok: "deck_ok s" and nv: "\<not> vetoes (host s) ''beforeslidechange'' (or_undef h (indexh s)) (or_undef v (indexv s))"
    and ne: "getHorizontalSlides s \<noteq> []"
  shows "mindful (departed h v origin s) (after (slide h v f origin s))"
proof -
  let ?e = "EvSlide ''beforeslidechange'' (or_undef h (indexh s)) (or_undef v (indexv s)) None None origin"
  obtain w where w: "dispatchEvent ?e s = s\<lparr>world := w\<rparr>" using dispatchEvent_world by blast
  let ?s2 = "(dispatchEvent ?e s)\<lparr>previousSlide := currentSlide (dispatchEvent ?e s)\<rparr>"
  let ?sR = "departed h v origin s"
  let ?r = "enter_slide (getHorizontalSlides ?s2) h (resume_vertical h v ?s2) ?sR"
  have hs: "getHorizontalSlides ?s2 = getHorizontalSlides s" by (simp add: w getHorizontalSlides_def)
  have sR: "remember_vertical ?s2 = ?sR" by (simp add: departed_def Let_def)
  have 3: "mindful ?sR (state_of ?r)" by (rule mindful_enter_slide)
  show ?thesis
  proof (cases ?r)
    case (Inl x)
    then show ?thesis using 3 nv ne by (cases x) (simp add: slide_def Let_def hs [symmetric] sR)
  next
    case (Inr p)
    obtain m s3 where p: "p = (m, s3)" by fastforce
    let ?s5 = "leave_previous (show_deck f (start_transition m s3))"
    have 5: "mindful ?sR ?s5" using 3 Inr p
      by (auto intro: mindful_trans [OF _ mindful_trans [OF mindful_start_transition
            mindful_trans [OF mindful_quiet [OF quiet_show_deck] mindful_leave_previous]]])
    have okR: "deck_ok ?sR" using movesD(1) [OF moves_departed ok] .
    have "mv_states m = stateArr s" using Inr p
      by (auto simp: enter_slide_def Let_def stateArr_departed split: sum.splits option.splits prod.splits)
    then have olds: "list_all word_ok (mv_states m)" using ok by (simp add: deck_ok_def states_ok_def)
    have "deck_ok ?s5" using movesD(1) [OF mindful_moves [OF 5] okR] .
    then have "list_all word_ok (stateArr ?s5)" by (simp add: deck_ok_def states_ok_def)
    then obtain s6 where c: "change_states (mv_states m) ?s5 = Returned s6" "quiet ?s5 s6"
      using change_states_ok olds by blast
    have "mindful ?sR (finish_slide (auto_animated m s3) m origin s6)"
      by (rule mindful_trans [OF 5 mindful_trans [OF mindful_quiet [OF c(2)] mindful_finish]])
    then show ?thesis using Inr p c nv ne by (simp add: slide_def Let_def hs [symmetric] sR)
  qed
qed

section \<open>Landing on a cell\<close>

definition index_value :: "string option \<Rightarrow> jsnum" where
  "index_value a = (case a of None \<Rightarrow> Num 0 | Some v \<Rightarrow> if v = [] then Num 0 else parseInt v)"

lemma left_at_stack:
  assumes "verticals d x \<noteq> []" "has_class ''stack'' d x"
  shows "left_at d x = the_num (index_value (if has_attr ''data-start-indexv'' d x
    then get_attr ''data-start-indexv'' d x else get_attr ''data-previous-indexv'' d x))"
  using assms by (simp add: left_at_def getPreviousVerticalIndex_def index_value_def Let_def)

lemma horizontal_sections: "x \<in> set (getHorizontalSlides s) \<Longrightarrow> x \<in> set (sections (doc s))"
  using select_slides_sections [of x Horizontal s] by simp

lemma mindful_left_at:
  assumes m: "mindful s t" and ok: "deck_ok s" and x: "x \<in> set (sections (doc s))"
    and st: "verticals (doc s) x \<noteq> [] \<Longrightarrow> has_class ''stack'' (doc s) x"
  shows "left_at (doc t) x = left_at (doc s) x"
proof -
  have "page_wf s" using ok by (simp add: deck_ok_def)
  then have v: "verticals (doc t) x = verticals (doc s) x"
    using slides_same_structure(2) movesD(2) [OF mindful_moves [OF m] ok] by (simp add: same_deck_def)
  have a: "get_attr ''data-start-indexv'' (doc t) x = get_attr ''data-start-indexv'' (doc s) x"
    "get_attr ''data-previous-indexv'' (doc t) x = get_attr ''data-previous-indexv'' (doc s) x"
    using mindful_attr [OF m ok x] by (simp_all add: index_attrs_def)
  show ?thesis
  proof (cases "verticals (doc s) x = []")
    case False
    note st' = st [OF False]
    show ?thesis
      using left_at_stack [OF False st'] left_at_stack [of "doc t" x] v False mindful_stack [OF m ok x st'] a
      by (simp add: has_attr_iff)
  qed (simp add: left_at_def v)
qed

lemma grid_of_moves:
  assumes m: "moves s t" and ok: "deck_ok s"
  shows "grid_of t = grid_of s"
proof -
  have sd: "same_deck s t" by (rule movesD(2) [OF m ok])
  have wf: "page_wf s" using ok by (simp add: deck_ok_def)
  have st: "same_structure (wrapper (host s)) (doc s) (doc t)" and h: "host t = host s" "cfg t = cfg s"
    "overviewActive t = overviewActive s" using sd by (simp_all add: same_deck_def)
  note sl = slides_same_structure [OF st wf h(1)]
  have "slide_attrs_kept (doc s) (doc t) x" if "x \<in> set (sections (doc s))" for x
    using st that wf unfolding same_structure_def page_wf_def by blast
  then have "has_attr ''data-start-indexv'' (doc t) x = has_attr ''data-start-indexv'' (doc s) x"
    if "x \<in> set (getHorizontalSlides s)" for x
    using horizontal_sections [OF that] by (simp add: slide_attrs_kept_def has_attr_iff del: sections_in)
  then show ?thesis by (simp add: grid_of_def Let_def sl h)
qed

lemma grid_of_at:
  assumes "i < length (getHorizontalSlides s)"
  shows "height (grid_of s) (int i) = int (length (verticals (doc s) (getHorizontalSlides s ! i)))"
    "g_fixed (grid_of s) ! i = has_attr ''data-start-indexv'' (doc s) (getHorizontalSlides s ! i)"
  using assms by (simp_all add: height_def grid_of_def Let_def)

lemma grid_of_simps [simp]:
  "width (grid_of s) = int (length (getHorizontalSlides s))" "g_loop (grid_of s) = cfg_loop (cfg s)"
  "g_rtl (grid_of s) = cfg_rtl (cfg s)" "g_linear (grid_of s) = (cfg_navigationMode (cfg s) = ''linear'')"
  "g_rowwise (grid_of s) = (cfg_navigationMode (cfg s) = ''grid'' \<or> overviewActive s)"
  by (simp_all add: width_def grid_of_def Let_def)

lemma walker_of_simps [simp]:
  "at_h (walker_of s) = the_num (indexh s)" "at_v (walker_of s) = the_num (indexv s)"
  "memory (walker_of s) = map (left_at (doc s)) (getHorizontalSlides s)"
  by (simp_all add: walker_of_def)

text \<open>The parent of a vertical slide is its stack, that of another slide is no section.\<close>

lemma parent_of_current:
  assumes ok: "states_ok s" and x: "x \<in> set (getHorizontalSlides s)"
  shows "y \<in> set (verticals (doc s) x) \<Longrightarrow> parentNode (doc s) y = Some x"
    and "\<exists>r. parentNode (doc s) x = Some r \<and> \<not> is_section (doc s) r"
proof -
  have hx: "horizontal_sel (doc s) x" and sx: "x \<in> set (sections (doc s))"
    using x horizontal_sections by (simp_all add: horizontal_in)
  have sec: "is_section (doc s) x" using hx by (simp add: horizontal_sel_def)
  show "parentNode (doc s) y = Some x" if "y \<in> set (verticals (doc s) x)"
    using nested_path(1) [OF ok that sec] by (simp add: parentNode_def)
  obtain r rs where p: "path (doc s) x = r # rs" "has_class ''slides'' (doc s) r"
    using hx by (auto simp: horizontal_sel_def split: list.splits)
  have "nesting_ok (doc s) x" using ok sx unfolding states_ok_def by blast
  then have "\<not> is_section (doc s) r" using p by (simp add: nesting_ok_def)
  then show "\<exists>r. parentNode (doc s) x = Some r \<and> \<not> is_section (doc s) r" using p by (simp add: parentNode_def)
qed

lemma left_at_noted:
  assumes "verticals d x \<noteq> []" "has_class ''stack'' d x"
  shows "left_at (setPreviousVerticalIndex x (Num v) d) y =
    (if y = x \<and> \<not> has_attr ''data-start-indexv'' d x then v else left_at d y)"
proof -
  let ?e = "setPreviousVerticalIndex x (Num v) d"
  have k: "verticals ?e z = verticals d z" "has_class c ?e z = has_class c d z" for z c
    by (simp_all add: setPreviousVerticalIndex_def verticals_def queryAll_def is_desc_def is_section_def)
  have a: "get_attr a ?e z = (if z = x \<and> a = ''data-previous-indexv'' then Some (show_int v) else get_attr a d z)" for a z
    by (simp add: setPreviousVerticalIndex_def)
  have "show_int v \<noteq> []"
  proof
    assume "show_int v = []"
    then have "parseInt (show_int v) = NaN" by (simp del: parseInt_show_int)
    then show False by simp
  qed
  then have i: "index_value (Some (show_int v)) = Num v" by (simp add: index_value_def)
  show ?thesis
  proof (cases "y = x")
    case True
    then show ?thesis using left_at_stack [of ?e x] left_at_stack [OF assms] assms by (simp add: k a i has_attr_iff)
  next
    case False
    then show ?thesis by (simp add: left_at_def k getPreviousVerticalIndex_def a has_attr_iff Let_def)
  qed
qed

lemma departed_memory:
  assumes w: "walkable s"
  shows "map (left_at (doc (departed h v origin s))) (getHorizontalSlides s) = leave (grid_of s) (walker_of s)"
proof -
  have ok: "deck_ok s" and st: "states_ok s" and os: "on_slide s" and mk: "stacks_marked s"
    using w by (simp_all add: walkable_def live_def deck_ok_def)
  let ?d = "doc s" and ?hs = "getHorizontalSlides s"
  from os show ?thesis
  proof (cases rule: on_slide_cases)
  case (1 k j ch)
  note p = 1
  have kn: "nat k < length ?hs" using p(3,4) by simp
  then have chs: "ch \<in> set ?hs" using p(5) by simp
  have dist: "distinct ?hs" using distinct_select [of s Horizontal] ok by (simp add: deck_ok_def)
  note par = parent_of_current [OF st chs]
  have ht: "height (grid_of s) k = int (length (verticals ?d ch))"
    "g_fixed (grid_of s) ! nat k = has_attr ''data-start-indexv'' ?d ch"
    using grid_of_at [OF kn] p(3,5) by simp_all
  show ?thesis
  proof (cases "verticals ?d ch = []")
    case True
    then have cur: "currentSlide s = Some ch" using p(9) by (simp add: slide_at_def)
    obtain r where r: "parentNode ?d ch = Some r" "\<not> is_section ?d r" using par(2) by blast
    have e: "doc (departed h v origin s) = ?d \<or> doc (departed h v origin s) = setPreviousVerticalIndex r (Num j) ?d"
      by (simp add: doc_departed cur r p(2))
    have "left_at (setPreviousVerticalIndex r (Num j) ?d) x = left_at ?d x" if "x \<in> set ?hs" for x
    proof -
      have "x \<noteq> r" using that r(2) by (auto simp: horizontal_in horizontal_sel_def)
      then show ?thesis
        by (simp add: left_at_def getPreviousVerticalIndex_def setPreviousVerticalIndex_def has_attr_iff
            verticals_def queryAll_def is_desc_def is_section_def Let_def)
    qed
    then have "map (left_at (doc (departed h v origin s))) ?hs = map (left_at ?d) ?hs" using e by auto
    then show ?thesis using True ht p(1) by (simp add: leave_def)
  next
    case False
    have "slide_at ?d ch j \<in> set (verticals ?d ch)" using p(6,8) False by (simp add: slide_at_def nat_less_iff)
    then have pa: "parentNode ?d (slide_at ?d ch j) = Some ch" by (rule par(1))
    have sc: "has_class ''stack'' ?d ch" using mk chs False by (simp add: stacks_marked_def)
    have e: "doc (departed h v origin s) = setPreviousVerticalIndex ch (Num j) ?d"
      by (simp add: doc_departed p(9) pa sc p(2))
    have "map (left_at (doc (departed h v origin s))) ?hs =
        (if has_attr ''data-start-indexv'' ?d ch then map (left_at ?d) ?hs else (map (left_at ?d) ?hs)[nat k := j])"
    proof (rule nth_equalityI)
      fix i assume "i < length (map (left_at (doc (departed h v origin s))) ?hs)"
      then have i: "i < length ?hs" by simp
      then have "?hs ! i = ch \<longleftrightarrow> i = nat k" using nth_eq_iff_index_eq [OF dist i kn] p(5) by simp
      then show "map (left_at (doc (departed h v origin s))) ?hs ! i =
          (if has_attr ''data-start-indexv'' ?d ch then map (left_at ?d) ?hs else (map (left_at ?d) ?hs)[nat k := j]) ! i"
        using i by (simp add: e left_at_noted [OF False sc] nth_list_update)
    qed simp
    then show ?thesis using False ht p(1,2) by (simp add: leave_def)
  qed
qed
qed

lemma slide_settles:
  assumes w: "walkable s" and h: "or_undef h (indexh s) = Num a" and v: "wanted_v h v s = Num c"
    and b: "verticals (doc s) (getHorizontalSlides s ! nat (wrapped (cfg_loop (cfg s)) (int (length (getHorizontalSlides s))) a)) \<noteq> []
      \<Longrightarrow> c = b"
  shows "\<exists>t. slide h v f origin s = Returned t \<and> walkable t \<and> grid_of t = grid_of s \<and>
    walker_of t = settle (grid_of s) a b (walker_of s)"
proof -
  let ?hs = "getHorizontalSlides s"
  let ?i = "wrapped (cfg_loop (cfg s)) (int (length ?hs)) a"
  let ?vs = "verticals (doc s) (?hs ! nat ?i)"
  have l: "live s" and ok: "deck_ok s" and os: "on_slide s" and np: "\<not> isPrintingPDF (host s)" and mk: "stacks_marked s"
    and nv: "\<And>h v. \<not> vetoes (host s) ''beforeslidechange'' h v"
    using w by (simp_all add: walkable_def live_def)
  have ne: "?hs \<noteq> []" using os by (auto elim: on_slide_cases)
  have leaf: "verticals (doc s) p = []" if "currentSlide s = Some p" for p
    using on_slide_leaf(1) [OF os] that l by (simp add: live_def)
  obtain t where t: "slide h v f origin s = Returned t" "on_slide t" "indexh t = Num ?i"
    "indexv t = Num (landing_v (cfg_loop (cfg s)) ?vs c)"
    using slide_lands_core [OF ok np ne nv leaf h v refl disjI1 [OF refl] refl] by blast
  have m: "moves s t" using moves_slide [of s h v f origin] t(1) by simp
  have okt: "deck_ok t" by (rule movesD(1) [OF m ok])
  have sd: "same_deck s t" by (rule movesD(2) [OF m ok])
  then have ho: "host t = host s" by (simp add: same_deck_def)
  have hs: "getHorizontalSlides t = ?hs" "verticals (doc t) x = verticals (doc s) x" for x
    using slides_same_structure [OF _ _ ho] sd ok by (simp_all add: same_deck_def deck_ok_def)
  let ?sR = "departed h v origin s"
  have mR: "mindful ?sR t" using mindful_slide [OF ok nv ne, of h v origin f] t(1) by simp
  have okR: "deck_ok ?sR" by (rule movesD(1) [OF moves_departed ok])
  have sdR: "same_deck s ?sR" by (rule movesD(2) [OF moves_departed ok])
  then have hsR: "getHorizontalSlides ?sR = ?hs" "verticals (doc ?sR) x = verticals (doc s) x" for x
    using slides_same_structure [of s ?sR] ok by (simp_all add: same_deck_def deck_ok_def)
  have stR: "has_class c (doc ?sR) x = has_class c (doc s) x" for c x
    by (simp add: doc_departed setPreviousVerticalIndex_def split: option.split)
  have marked: "has_class ''stack'' (doc ?sR) x" if "x \<in> set ?hs" "verticals (doc s) x \<noteq> []" for x
    using mk that by (simp add: stR stacks_marked_def)
  have sec: "x \<in> set (sections (doc ?sR))" if "x \<in> set ?hs" for x
    using that horizontal_sections [of x ?sR] hsR(1) by simp
  have mem: "map (left_at (doc t)) ?hs = map (left_at (doc ?sR)) ?hs"
  proof (rule map_cong [OF refl])
    fix x assume x: "x \<in> set ?hs"
    show "left_at (doc t) x = left_at (doc ?sR) x"
      using marked [OF x] by (intro mindful_left_at [OF mR okR sec [OF x]]) (simp add: hsR)
  qed
  have mt: "stacks_marked t"
    using marked mindful_stack [OF mR okR sec] by (simp add: stacks_marked_def hs)
  have "walkable t" using t(2) okt np nv mt ho by (simp add: walkable_def live_def)
  moreover have "walker_of t = settle (grid_of s) a b (walker_of s)"
  proof -
    have i: "0 \<le> ?i" "?i < int (length ?hs)" using wrapped_bounds [of "int (length ?hs)"] ne by simp_all
    then have "height (grid_of s) ?i = int (length ?vs)" using grid_of_at(1) [of "nat ?i" s] by (simp add: nat_less_iff)
    moreover have "landing_v (cfg_loop (cfg s)) ?vs c = landing_v (cfg_loop (cfg s)) ?vs b"
      using b by (cases "?vs = []") (simp_all add: landing_v_def)
    ultimately show ?thesis
      by (simp add: walker_of_def settle_def Let_def t hs mem departed_memory [OF w] landing_v_def)
  qed
  ultimately show ?thesis using t(1) grid_of_moves [OF m ok] by blast
qed

section \<open>One step\<close>

lemma walkable_through [simp]: "through_fragments True step s = (True, s)"
  by (simp add: through_fragments_def)

lemma routes_of:
  assumes w: "walkable s"
  shows "r_up (availableRoutes False s) = can_ascend (grid_of s) (walker_of s)"
    "r_down (availableRoutes False s) = can_descend (grid_of s) (walker_of s)"
    "r_left (availableRoutes False s) =
      (if cfg_rtl (cfg s) then can_advance (grid_of s) (walker_of s) else can_retreat (grid_of s) (walker_of s))"
    "r_right (availableRoutes False s) =
      (if cfg_rtl (cfg s) then can_retreat (grid_of s) (walker_of s) else can_advance (grid_of s) (walker_of s))"
proof -
  have os: "on_slide s" and st: "states_ok s" using w by (simp_all add: walkable_def live_def deck_ok_def)
  from os have "r_up (availableRoutes False s) = can_ascend (grid_of s) (walker_of s) \<and>
    r_down (availableRoutes False s) = can_descend (grid_of s) (walker_of s) \<and>
    r_left (availableRoutes False s) =
      (if cfg_rtl (cfg s) then can_advance (grid_of s) (walker_of s) else can_retreat (grid_of s) (walker_of s)) \<and>
    r_right (availableRoutes False s) =
      (if cfg_rtl (cfg s) then can_retreat (grid_of s) (walker_of s) else can_advance (grid_of s) (walker_of s))"
  proof (cases rule: on_slide_cases)
    case (1 h v ch)
    have "presentVerticalSlides s = verticals (doc s) ch" by (rule vertical_selection [OF st refl 1(3,4,10,5)])
    moreover have "height (grid_of s) h = int (length (verticals (doc s) ch))"
      using grid_of_at(1) [of "nat h" s] 1(3,4,5) by (simp add: nat_less_iff)
    ultimately show ?thesis using 1(1,2)
      by (auto simp: availableRoutes_def Let_def can_ascend_def can_descend_def can_advance_def can_retreat_def)
  qed
  then show "r_up (availableRoutes False s) = can_ascend (grid_of s) (walker_of s)"
    "r_down (availableRoutes False s) = can_descend (grid_of s) (walker_of s)"
    "r_left (availableRoutes False s) =
      (if cfg_rtl (cfg s) then can_advance (grid_of s) (walker_of s) else can_retreat (grid_of s) (walker_of s))"
    "r_right (availableRoutes False s) =
      (if cfg_rtl (cfg s) then can_retreat (grid_of s) (walker_of s) else can_advance (grid_of s) (walker_of s))"
    by blast+
qed

lemma wrapped_inside: "0 \<le> k \<Longrightarrow> k < n \<Longrightarrow> wrapped l n k = k"
  by (simp add: wrapped_def)

lemma wanted_recall:
  assumes w: "walkable s"
  obtains c where "wanted_v (Num a) (grid_index s) s = Num c"
    "verticals (doc s) (getHorizontalSlides s ! nat (wrapped (cfg_loop (cfg s)) (int (length (getHorizontalSlides s))) a)) \<noteq> []
      \<Longrightarrow> c = recall (grid_of s) (walker_of s) a"
proof -
  let ?hs = "getHorizontalSlides s"
  have l: "live s" and st: "states_ok s" using w by (simp_all add: walkable_def live_def deck_ok_def)
  obtain j where j: "indexv s = Num j" using l by (auto simp: live_def elim: on_slide_cases)
  show ?thesis
  proof (cases "cfg_navigationMode (cfg s) = ''grid'' \<or> overviewActive s")
    case True
    then show ?thesis using that [of j] j
      by (auto simp: wanted_v_def resume_vertical_def grid_index_def recall_def or_undef_def)
  next
    case False
    then have wv: "wanted_v (Num a) (grid_index s) s = or_undef (getPreviousVerticalIndex (doc s) (arr_get ?hs (Num a))) (indexv s)"
      by (simp add: wanted_v_def resume_vertical_def grid_index_def)
    show ?thesis
    proof (cases "0 \<le> a \<and> a < int (length ?hs)")
      case out: False
      then have "arr_get ?hs (Num a) = None" by (simp add: arr_get_def)
      then show ?thesis using that [of 0] wv out False by (simp add: getPreviousVerticalIndex_def or_undef_def recall_def)
    next
      case inside: True
      then have x: "arr_get ?hs (Num a) = Some (?hs ! nat a)" "?hs ! nat a \<in> set ?hs" by (simp_all add: nat_less_iff)
      have "?hs ! nat a \<in> set (sections (doc s))" by (rule horizontal_sections [OF x(2)])
      then obtain k where k: "getPreviousVerticalIndex (doc s) (Some (?hs ! nat a)) = Num k"
        using previous_index_number [OF st, of "Some (?hs ! nat a)"] by auto
      have "memory (walker_of s) ! nat a = left_at (doc s) (?hs ! nat a)" using inside by (simp add: nat_less_iff)
      then show ?thesis using that [of k] wv inside False x k
        by (simp add: or_undef_def recall_def left_at_def wrapped_inside)
    qed
  qed
qed

lemma step_settles:
  assumes w: "walkable s"
  shows "\<exists>t. slide (Num a) (grid_index s) Undef Undef s = Returned t \<and> walkable t \<and> grid_of t = grid_of s \<and>
      walker_of t = settle (grid_of s) a (recall (grid_of s) (walker_of s) a) (walker_of s)"
    and "\<exists>t. slide (Num a) (Num b) Undef Undef s = Returned t \<and> walkable t \<and> grid_of t = grid_of s \<and>
      walker_of t = settle (grid_of s) a b (walker_of s)"
proof -
  obtain c where c: "wanted_v (Num a) (grid_index s) s = Num c"
    "verticals (doc s) (getHorizontalSlides s ! nat (wrapped (cfg_loop (cfg s)) (int (length (getHorizontalSlides s))) a)) \<noteq> []
      \<Longrightarrow> c = recall (grid_of s) (walker_of s) a"
    using wanted_recall [OF w] by blast
  show "\<exists>t. slide (Num a) (grid_index s) Undef Undef s = Returned t \<and> walkable t \<and> grid_of t = grid_of s \<and>
      walker_of t = settle (grid_of s) a (recall (grid_of s) (walker_of s) a) (walker_of s)"
    by (rule slide_settles [OF w _ c]) (simp_all add: or_undef_def)
  show "\<exists>t. slide (Num a) (Num b) Undef Undef s = Returned t \<and> walkable t \<and> grid_of t = grid_of s \<and>
      walker_of t = settle (grid_of s) a b (walker_of s)"
    by (rule slide_settles [OF w, where c = b]) (simp_all add: or_undef_def wanted_v_def resume_vertical_def)
qed

lemma walkable_visited:
  "walkable (s\<lparr>hasNavigatedHorizontally := b\<rparr>) = walkable s" "walkable (s\<lparr>hasNavigatedVertically := b\<rparr>) = walkable s"
  "grid_of (s\<lparr>hasNavigatedHorizontally := b\<rparr>) = grid_of s" "grid_of (s\<lparr>hasNavigatedVertically := b\<rparr>) = grid_of s"
  "walker_of (s\<lparr>hasNavigatedHorizontally := b\<rparr>) = walker_of s" "walker_of (s\<lparr>hasNavigatedVertically := b\<rparr>) = walker_of s"
  by (simp_all add: walkable_def live_visited stacks_marked_def grid_of_def walker_of_def getHorizontalSlides_def)

lemma axis_refines:
  assumes w: "walkable s"
  shows "\<exists>t. slide_horizontally 1 r step True s = Returned t \<and> walkable t \<and> grid_of t = grid_of s \<and>
      walker_of t = (if r (availableRoutes False s) then settle (grid_of s) (at_h (walker_of s) + 1)
        (recall (grid_of s) (walker_of s) (at_h (walker_of s) + 1)) (walker_of s) else walker_of s)"
    and "\<exists>t. slide_horizontally (-1) r step True s = Returned t \<and> walkable t \<and> grid_of t = grid_of s \<and>
      walker_of t = (if r (availableRoutes False s) then settle (grid_of s) (at_h (walker_of s) - 1)
        (recall (grid_of s) (walker_of s) (at_h (walker_of s) - 1)) (walker_of s) else walker_of s)"
    and "\<exists>t. slide_vertically k r step True s = Returned t \<and> walkable t \<and> grid_of t = grid_of s \<and>
      walker_of t = (if r (availableRoutes False s) then settle (grid_of s) (at_h (walker_of s)) (at_v (walker_of s) + k) (walker_of s)
        else walker_of s)"
proof -
  have "on_slide s" using w by (simp add: walkable_def live_def)
  then obtain h v where ix: "indexh s = Num h" "indexv s = Num v" by (cases rule: on_slide_cases) blast
  show "\<exists>t. slide_horizontally 1 r step True s = Returned t \<and> walkable t \<and> grid_of t = grid_of s \<and>
      walker_of t = (if r (availableRoutes False s) then settle (grid_of s) (at_h (walker_of s) + 1)
        (recall (grid_of s) (walker_of s) (at_h (walker_of s) + 1)) (walker_of s) else walker_of s)"
    using step_settles(1) [OF w, of "h + 1"] w by (simp add: slide_horizontally_def Let_def ix)
  show "\<exists>t. slide_horizontally (-1) r step True s = Returned t \<and> walkable t \<and> grid_of t = grid_of s \<and>
      walker_of t = (if r (availableRoutes False s) then settle (grid_of s) (at_h (walker_of s) - 1)
        (recall (grid_of s) (walker_of s) (at_h (walker_of s) - 1)) (walker_of s) else walker_of s)"
    using step_settles(1) [OF w, of "h - 1"] w by (simp add: slide_horizontally_def Let_def ix)
  show "\<exists>t. slide_vertically k r step True s = Returned t \<and> walkable t \<and> grid_of t = grid_of s \<and>
      walker_of t = (if r (availableRoutes False s) then settle (grid_of s) (at_h (walker_of s)) (at_v (walker_of s) + k) (walker_of s)
        else walker_of s)"
    using step_settles(2) [OF w, of h "v + k"] w by (simp add: slide_vertically_def Let_def ix)
qed

text \<open>The contract of a move: it does to the deck what a step does to the walker.\<close>

locale walks =
  fixes go :: "reveal \<Rightarrow> outcome" and pace :: "grid \<Rightarrow> walker \<Rightarrow> walker"
  assumes refines: "walkable s \<Longrightarrow> \<exists>t. go s = Returned t \<and> walkable t \<and> grid_of t = grid_of s \<and>
    walker_of t = pace (grid_of s) (walker_of s)"
begin

lemma returns: "walkable s \<Longrightarrow> returned (go s) \<and> walkable (after (go s)) \<and> grid_of (after (go s)) = grid_of s"
  using refines [of s] by auto

lemma cell: "walkable s \<Longrightarrow> walker_of (after (go s)) = pace (grid_of s) (walker_of s)"
  using refines [of s] by auto

end

lemma walks_then:
  assumes "walks f p" and "walks g q"
  shows "walks (\<lambda>s. and_then (f s) g) (\<lambda>d w. q d (p d w))"
proof
  fix s assume "walkable s"
  then obtain t where t: "f s = Returned t" "walkable t" "grid_of t = grid_of s" "walker_of t = p (grid_of s) (walker_of s)"
    using walks.refines [OF assms(1)] by blast
  then show "\<exists>u. and_then (f s) g = Returned u \<and> walkable u \<and> grid_of u = grid_of s \<and>
      walker_of u = q (grid_of s) (p (grid_of s) (walker_of s))"
    using walks.refines [OF assms(2) t(2)] by simp
qed

interpretation go_to: walks "\<lambda>s. slide (Num a) (Num b) Undef Undef s" "\<lambda>g. settle g a b"
  by unfold_locales (rule step_settles(2))

interpretation walk_left: walks "navigateLeft True" "\<lambda>g. walk g LeftOne"
proof
  fix s assume "walkable s"
  then have w: "walkable (s\<lparr>hasNavigatedHorizontally := True\<rparr>)" by (simp add: walkable_visited)
  show "\<exists>t. navigateLeft True s = Returned t \<and> walkable t \<and> grid_of t = grid_of s \<and>
      walker_of t = walk (grid_of s) LeftOne (walker_of s)"
    using axis_refines(1) [OF w, of r_left fragments_next, unfolded walkable_visited]
      axis_refines(2) [OF w, of r_left fragments_prev, unfolded walkable_visited] routes_of(3) [OF w, unfolded walkable_visited]
    by (cases "cfg_rtl (cfg s)") (simp_all add: navigateLeft_def Let_def advance_def retreat_def)
qed

interpretation walk_right: walks "navigateRight True" "\<lambda>g. walk g RightOne"
proof
  fix s assume "walkable s"
  then have w: "walkable (s\<lparr>hasNavigatedHorizontally := True\<rparr>)" by (simp add: walkable_visited)
  show "\<exists>t. navigateRight True s = Returned t \<and> walkable t \<and> grid_of t = grid_of s \<and>
      walker_of t = walk (grid_of s) RightOne (walker_of s)"
    using axis_refines(2) [OF w, of r_right fragments_prev, unfolded walkable_visited]
      axis_refines(1) [OF w, of r_right fragments_next, unfolded walkable_visited] routes_of(4) [OF w, unfolded walkable_visited]
    by (cases "cfg_rtl (cfg s)") (simp_all add: navigateRight_def Let_def advance_def retreat_def)
qed

interpretation walk_up: walks "navigateUp True" "\<lambda>g. walk g UpOne"
proof
  fix s assume w: "walkable s"
  show "\<exists>t. navigateUp True s = Returned t \<and> walkable t \<and> grid_of t = grid_of s \<and>
      walker_of t = walk (grid_of s) UpOne (walker_of s)"
    using axis_refines(3) [OF w, of "-1" r_up fragments_prev] routes_of(1) [OF w]
    by (cases "can_ascend (grid_of s) (walker_of s)") (simp_all add: navigateUp_def)
qed

interpretation walk_down: walks "navigateDown True" "\<lambda>g. walk g DownOne"
proof
  fix s assume "walkable s"
  then have w: "walkable (s\<lparr>hasNavigatedVertically := True\<rparr>)" by (simp add: walkable_visited)
  show "\<exists>t. navigateDown True s = Returned t \<and> walkable t \<and> grid_of t = grid_of s \<and>
      walker_of t = walk (grid_of s) DownOne (walker_of s)"
    using axis_refines(3) [OF w, of 1 r_down fragments_next, unfolded walkable_visited] routes_of(2) [OF w, unfolded walkable_visited]
    by (cases "can_descend (grid_of s) (walker_of s)") (simp_all add: navigateDown_def)
qed

lemma step_walks: "walks (take_step x) (\<lambda>g. walk g x)"
proof (cases x)
  case (GoTo a b)
  then show ?thesis using go_to.walks_axioms [of a b] by (simp add: walks_def)
next
  case LeftOne
  then show ?thesis using walk_left.walks_axioms by (simp add: walks_def)
next
  case RightOne
  then show ?thesis using walk_right.walks_axioms by (simp add: walks_def)
next
  case UpOne
  then show ?thesis using walk_up.walks_axioms by (simp add: walks_def)
next
  case DownOne
  then show ?thesis using walk_down.walks_axioms by (simp add: walks_def)
qed

lemma steps_walk: "walks (take_steps xs) (\<lambda>g. fold (walk g) xs)"
proof (induction xs)
  case Nil
  show ?case by unfold_locales simp
next
  case (Cons x xs)
  show ?case using walks_then [OF step_walks Cons.IH, of x] by (simp add: walks_def)
qed

section \<open>The refinement\<close>

text \<open>C2: A deck refines the walk on its grid: through any sequence of moves, to a numbered slide or one
  step in a direction, no move throws, the grid stays, and the deck is at the cell the walk is at and
  remembers for each column where it was left, whatever its navigation mode, loop and direction.\<close>

theorem deck_walks:
  assumes "walkable s"
  shows "\<exists>t. take_steps xs s = Returned t \<and> walkable t \<and> grid_of t = grid_of s \<and>
    walker_of t = fold (walk (grid_of s)) xs (walker_of s)"
  by (rule walks.refines [OF steps_walk assms])

lemma walkable_sample: "walkable (sample_at 0 0 4)"
proof -
  have "has_class ''stack'' sample_dom 5" by (simp add: has_class_def sample_dom_def)
  then show ?thesis using live_sample(1) by (simp add: walkable_def stacks_marked_def sample_slides)
qed

lemma walks_sample:
  "grid_of (sample_at 0 0 4) = \<lparr>g_loop = False, g_linear = False, g_rtl = False, g_rowwise = False,
     g_columns = [0, 2, 0], g_fixed = [False, False, False]\<rparr>"
  "walker_of (sample_at 0 0 4) = \<lparr>at_h = 0, at_v = 0, memory = [0, 0, 0]\<rparr>"
proof -
  have "\<not> has_attr ''data-start-indexv'' sample_dom x" "get_attr ''data-previous-indexv'' sample_dom x = None" for x
    by (simp_all add: has_attr_def get_attr_def sample_dom_def)
  then show "grid_of (sample_at 0 0 4) = \<lparr>g_loop = False, g_linear = False, g_rtl = False, g_rowwise = False,
     g_columns = [0, 2, 0], g_fixed = [False, False, False]\<rparr>"
    "walker_of (sample_at 0 0 4) = \<lparr>at_h = 0, at_v = 0, memory = [0, 0, 0]\<rparr>"
    by (simp_all add: grid_of_def walker_of_def sample_slides default_config_def left_at_def
        getPreviousVerticalIndex_def has_attr_iff Let_def)
qed

text \<open>Going right, down, left and right again comes back to the lower of the two vertical slides.\<close>

theorem deck_walks_witness:
  "\<exists>t. take_steps [RightOne, DownOne, LeftOne, RightOne] (sample_at 0 0 4) = Returned t \<and>
    walker_of t = \<lparr>at_h = 1, at_v = 1, memory = [0, 1, 0]\<rparr>"
proof -
  have "fold (walk (grid_of (sample_at 0 0 4))) [RightOne, DownOne, LeftOne, RightOne] (walker_of (sample_at 0 0 4)) =
      \<lparr>at_h = 1, at_v = 1, memory = [0, 1, 0]\<rparr>"
    unfolding walks_sample by code_simp
  then show ?thesis using deck_walks [OF walkable_sample, of "[RightOne, DownOne, LeftOne, RightOne]"] by (simp only:) blast
qed

section \<open>A move to no cell\<close>

lemma target_pos_nan: "fst (snd (target_pos c False NaN vert i)) = False"
  by (simp add: target_pos_def Let_def)

lemma departed_frame [simp]:
  "indexh (departed h v origin s) = indexh s" "indexv (departed h v origin s) = indexv s"
  "currentSlide (departed h v origin s) = currentSlide s" "cfg (departed h v origin s) = cfg s"
  "host (departed h v origin s) = host s"
proof -
  let ?e = "EvSlide ''beforeslidechange'' (or_undef h (indexh s)) (or_undef v (indexv s)) None None origin"
  obtain w where w: "dispatchEvent ?e s = s\<lparr>world := w\<rparr>" using dispatchEvent_world by blast
  show "indexh (departed h v origin s) = indexh s" "indexv (departed h v origin s) = indexv s"
    "currentSlide (departed h v origin s) = currentSlide s" "cfg (departed h v origin s) = cfg s"
    "host (departed h v origin s) = host s"
    by (simp_all add: departed_def Let_def w remember_vertical_def split: option.split)
qed

lemma slide_nan:
  assumes ok: "deck_ok s" and np: "\<not> isPrintingPDF (host s)" and ne: "getHorizontalSlides s \<noteq> []"
    and nv: "\<not> vetoes (host s) ''beforeslidechange'' NaN (or_undef v (indexv s))"
  obtains t where "slide NaN v f origin s = Threw TypeError t" "moves s t"
    "indexh t = indexh s" "indexv t = indexv s" "currentSlide t = currentSlide s"
    "\<forall>x\<in>set (getHorizontalSlides s). \<not> has_class ''present'' (doc t) x"
proof -
  let ?hs = "getHorizontalSlides s"
  let ?e = "EvSlide ''beforeslidechange'' NaN (or_undef v (indexv s)) None None origin"
  obtain w where w: "dispatchEvent ?e s = s\<lparr>world := w\<rparr>" using dispatchEvent_world by blast
  let ?s2 = "(dispatchEvent ?e s)\<lparr>previousSlide := currentSlide (dispatchEvent ?e s)\<rparr>"
  let ?sR = "departed NaN v origin s" and ?v = "resume_vertical NaN v ?s2"
  let ?s0 = "?sR\<lparr>stateArr := []\<rparr>"
  let ?t = "?s0\<lparr>doc := positioned NaN ?hs ?s0 NaN\<rparr>"
  have un: "or_undef NaN x = NaN" for x by (simp add: or_undef_def)
  have hs: "getHorizontalSlides ?s2 = ?hs" by (simp add: w getHorizontalSlides_def)
  have sR: "remember_vertical ?s2 = ?sR" by (simp add: departed_def Let_def un)
  have mR: "moves s ?sR" by (rule moves_departed)
  have "getHorizontalSlides ?sR = ?hs"
    using slides_same_structure(1) [of s ?sR] movesD(2) [OF mR ok] ok by (simp add: same_deck_def deck_ok_def)
  then have sel: "select_slides Horizontal ?s0 = ?hs" by (simp add: getHorizontalSlides_def)
  have u: "updateSlides Horizontal NaN ?s0 = Inl (TypeError, ?t)"
    using updateSlides_no_number [of ?hs Horizontal ?s0 NaN] sel ne by auto
  then have e: "enter_slide ?hs NaN ?v ?sR = Inl (TypeError, ?t)" by (simp add: enter_slide_def un)
  have 1: "slide NaN v f origin s = Threw TypeError ?t"
    using e nv ne by (simp add: slide_def Let_def un hs sR)
  have 2: "moves s ?t" using moves_slide [of s NaN v f origin] 1 by simp
  have "distinct ?hs" using distinct_select [of s Horizontal] ok by (simp add: deck_ok_def)
  then have 3: "\<not> has_class ''present'' (doc ?t) x" if "x \<in> set ?hs" for x
    using that np by (simp add: present_pos positioned_def split_beta Let_def pos_position_slides target_pos_nan)
  show ?thesis by (rule that [OF 1 2]) (use 3 in simp_all)
qed

text \<open>C24: A move to an index that is not a number throws in the middle of positioning the slides: the deck
  keeps its indices and its current slide, but no horizontal slide is shown any more. The deck stays well
  formed, so that the next move to a numbered slide shows that slide.\<close>

theorem slide_nan_recovers:
  assumes "live s" and "\<And>h v. \<not> vetoes (host s) ''beforeslidechange'' h v"
  shows "\<exists>t u. slide NaN v f origin s = Threw TypeError t \<and> currentSlide t = currentSlide s \<and>
    indexh t = indexh s \<and> indexv t = indexv s \<and>
    (\<forall>x\<in>set (getHorizontalSlides s). \<not> has_class ''present'' (doc t) x) \<and>
    slide (Num a) (Num b) f origin t = Returned u \<and> live u \<and>
    indexh u = Num (wrapped (cfg_loop (cfg s)) (int (length (getHorizontalSlides s))) a)"
proof -
  have ok: "deck_ok s" and os: "on_slide s" and np: "\<not> isPrintingPDF (host s)" using assms(1) by (simp_all add: live_def)
  have ne: "getHorizontalSlides s \<noteq> []" using os by (auto elim: on_slide_cases)
  obtain t where t: "slide NaN v f origin s = Threw TypeError t" "moves s t" "indexh t = indexh s" "indexv t = indexv s"
    "currentSlide t = currentSlide s" "\<forall>x\<in>set (getHorizontalSlides s). \<not> has_class ''present'' (doc t) x"
    by (rule slide_nan [OF ok np ne assms(2)])
  have okt: "deck_ok t" by (rule movesD(1) [OF t(2) ok])
  have sd: "same_deck s t" by (rule movesD(2) [OF t(2) ok])
  then have ho: "host t = host s" "cfg t = cfg s" by (simp_all add: same_deck_def)
  have hs: "getHorizontalSlides t = getHorizontalSlides s" "verticals (doc t) x = verticals (doc s) x" for x
    using slides_same_structure [OF _ _ ho(1)] sd ok by (simp_all add: same_deck_def deck_ok_def)
  have leaf: "verticals (doc t) p = []" if "currentSlide t = Some p" for p
    using on_slide_leaf(1) [OF os] that t(5) assms(1) hs(2) by (simp add: live_def)
  have wv: "wanted_v (Num a) (Num b) t = Num b" by (simp add: wanted_v_def resume_vertical_def or_undef_def)
  have oa: "or_undef (Num a) (indexh t) = Num a" by (simp add: or_undef_def)
  obtain u where u: "slide (Num a) (Num b) f origin t = Returned u" "on_slide u"
    "indexh u = Num (wrapped (cfg_loop (cfg s)) (int (length (getHorizontalSlides s))) a)"
    using slide_lands_core [OF okt _ _ _ leaf oa wv refl disjI1 [OF refl] refl, of f origin] np ne assms(2)
    unfolding hs ho by blast
  have "deck_ok u" "host u = host t"
    using movesD [OF moves_slide [of t "Num a" "Num b" f origin] okt] u(1) by (simp_all add: same_deck_def)
  then have "live u" using u(2) np ho by (simp add: live_def)
  then show ?thesis using t u by blast
qed

theorem slide_nan_recovers_witness:
  "\<exists>t u. slide NaN Undef Undef Undef (sample_at 0 0 4) = Threw TypeError t \<and> \<not> has_class ''present'' (doc t) 4 \<and>
    slide (Num 2) (Num 0) Undef Undef t = Returned u \<and> indexh u = Num 2"
  using slide_nan_recovers [OF live_sample(1), of Undef Undef Undef 2 0]
  by (auto simp: sample_slides default_config_def wrapped_def)

end
