(* ===== verification/Reading.thy ===== *)
theory Reading
  imports Grid
begin

text \<open>
  Going through a presentation: who starts on the first slide and only asks for the next one is
  shown every slide, in the order in which they are written. The argument is about the walk on the
  grid; the refinement carries it over to the deck.
\<close>

section \<open>Walking on\<close>

definition onward :: "grid \<Rightarrow> walker \<Rightarrow> walker" where
  "onward g w = (if can_descend g w then settle g (at_h w) (at_v w + 1) w else advance g w)"

text \<open>How many cells the columns before a column hold, and the rank of a cell.\<close>

definition depth :: "grid \<Rightarrow> nat \<Rightarrow> nat" where
  "depth g k = max 1 (g_columns g ! k)"

definition cells_before :: "grid \<Rightarrow> nat \<Rightarrow> nat" where
  "cells_before g h = (\<Sum>k<h. depth g k)"

definition rank :: "grid \<Rightarrow> walker \<Rightarrow> nat" where
  "rank g w = cells_before g (nat (at_h w)) + nat (at_v w)"

text \<open>A walker who has not been ahead of where it is.\<close>

definition fresh :: "grid \<Rightarrow> walker \<Rightarrow> bool" where
  "fresh g w = (0 \<le> at_h w \<and> at_h w < width g \<and> 0 \<le> at_v w \<and> nat (at_v w) < depth g (nat (at_h w)) \<and>
     length (memory w) = length (g_columns g) \<and> (\<forall>k. at_h w < int k \<and> k < length (memory w) \<longrightarrow> memory w ! k = 0))"

lemma leave_length [simp]: "length (leave g w) = length (memory w)"
  by (simp add: leave_def)

lemma leave_ahead: "at_h w < int k \<Longrightarrow> 0 \<le> at_h w \<Longrightarrow> leave g w ! k = memory w ! k"
  by (simp add: leave_def)

lemma onward_rank:
  assumes f: "fresh g w" and l: "\<not> g_loop g" and r: "\<not> g_rowwise g"
  shows "fresh g (onward g w) \<and>
    rank g (onward g w) = (if Suc (rank g w) < cells_before g (length (g_columns g)) then Suc (rank g w) else rank g w)"
proof -
  let ?h = "nat (at_h w)" and ?n = "length (g_columns g)"
  have b: "0 \<le> at_h w" "?h < ?n" "0 \<le> at_v w" "nat (at_v w) < depth g ?h" "length (memory w) = ?n"
    using f by (auto simp: fresh_def width_def)
  have mono: "cells_before g (Suc k) \<le> cells_before g ?n" if "k < ?n" for k
    unfolding cells_before_def using that by (intro sum_mono2) auto
  have suc: "cells_before g (Suc k) = cells_before g k + depth g k" for k by (simp add: cells_before_def)
  show ?thesis
  proof (cases "can_descend g w")
    case True
    then have v: "at_v w + 1 < height g (at_h w)" using l by (auto simp: can_descend_def)
    then have s: "settle g (at_h w) (at_v w + 1) w = \<lparr>at_h = at_h w, at_v = at_v w + 1, memory = leave g w\<rparr>"
      using l b f by (simp add: settle_def wrapped_inside fresh_def)
    have d: "depth g ?h = nat (height g (at_h w))" using v b(3) by (simp add: depth_def height_def)
    have "fresh g (onward g w)" using f v True d leave_ahead [of w] b(1)
      by (simp add: fresh_def onward_def s nat_less_iff)
    moreover have "Suc (rank g w) < cells_before g ?n"
      using mono [OF b(2)] v b(3) d by (simp add: rank_def suc)
    ultimately show ?thesis using True b(3) by (simp add: onward_def s rank_def nat_add_distrib)
  next
    case False
    then have v: "Suc (nat (at_v w)) = depth g ?h" using b(3,4) l by (auto simp: can_descend_def depth_def height_def)
    have can: "can_advance g w \<longleftrightarrow> Suc ?h < ?n" using l False b(1) by (auto simp: can_advance_def width_def)
    have rk: "Suc (rank g w) = cells_before g (Suc ?h)" using v by (simp add: rank_def suc)
    show ?thesis
    proof (cases "Suc ?h < ?n")
      case True
      then have inside: "0 \<le> at_h w + 1" "at_h w + 1 < width g" using b by (simp_all add: width_def)
      have n: "nat (at_h w + 1) = Suc ?h" using b(1) by simp
      have "memory w ! Suc ?h = 0" using f True b by (simp add: fresh_def)
      then have rc: "recall g w (at_h w + 1) = 0" using inside r by (simp add: recall_def n)
      have "wrapped False (height g (at_h w + 1)) 0 = 0" if "height g (at_h w + 1) \<noteq> 0"
        using that by (simp add: wrapped_inside height_def)
      then have s: "settle g (at_h w + 1) (recall g w (at_h w + 1)) w = \<lparr>at_h = at_h w + 1, at_v = 0, memory = leave g w\<rparr>"
        using l inside by (simp add: settle_def wrapped_inside rc Let_def)
      have "fresh g (onward g w)" using f True inside leave_ahead [of w] b False can
        by (auto simp: fresh_def onward_def advance_def s n depth_def)
      moreover have "cells_before g (Suc ?h) < cells_before g ?n"
        using mono [OF True] suc [of "Suc ?h"] by (simp add: depth_def)
      ultimately show ?thesis using False can True rk by (simp add: onward_def advance_def s rank_def n)
    next
      case last: False
      then have "Suc ?h = ?n" using b(2) by simp
      then show ?thesis using last False can rk f by (simp add: onward_def advance_def)
    qed
  qed
qed

section \<open>The reading order\<close>

definition reading_order :: "reveal \<Rightarrow> node list" where
  "reading_order s =
     concat (map (\<lambda>x. if verticals (doc s) x = [] then [x] else verticals (doc s) x) (getHorizontalSlides s))"

lemma nth_concat_column:
  assumes "h < length xss" "v < length (xss ! h)"
  shows "concat xss ! ((\<Sum>k<h. length (xss ! k)) + v) = xss ! h ! v"
  using assms
proof (induction xss arbitrary: h)
  case (Cons xs xss)
  show ?case
  proof (cases h)
    case (Suc i)
    have "(\<Sum>k<Suc i. length ((xs # xss) ! k)) = length xs + (\<Sum>k<i. length (xss ! k))"
      by (simp add: sum.lessThan_Suc_shift del: sum.lessThan_Suc)
    then show ?thesis using Cons Suc by (simp add: nth_append add.assoc)
  qed (use Cons.prems in \<open>simp add: nth_append\<close>)
qed simp

lemma length_concat_columns: "length (concat xss) = (\<Sum>k<length xss. length (xss ! k))"
  by (induction xss) (simp_all add: sum.lessThan_Suc_shift del: sum.lessThan_Suc)

lemma reading_columns:
  fixes s :: reveal
  defines "xss \<equiv> map (\<lambda>x. if verticals (doc s) x = [] then [x] else verticals (doc s) x) (getHorizontalSlides s)"
  shows "length (reading_order s) = cells_before (grid_of s) (length (getHorizontalSlides s))"
    and "h < length (getHorizontalSlides s) \<Longrightarrow> v < depth (grid_of s) h \<Longrightarrow>
      reading_order s ! (cells_before (grid_of s) h + v) = slide_at (doc s) (getHorizontalSlides s ! h) (int v)"
proof -
  have d: "length (xss ! k) = depth (grid_of s) k" if "k < length (getHorizontalSlides s)" for k
    using that by (auto simp: xss_def depth_def grid_of_def Let_def length_greater_0_conv [symmetric] simp del: length_greater_0_conv)
  have ro: "reading_order s = concat xss" and len: "length xss = length (getHorizontalSlides s)"
    by (simp_all add: reading_order_def xss_def)
  show "length (reading_order s) = cells_before (grid_of s) (length (getHorizontalSlides s))"
    unfolding ro length_concat_columns cells_before_def len by (rule sum.cong) (simp_all add: d)
  assume h: "h < length (getHorizontalSlides s)" and v: "v < depth (grid_of s) h"
  have "cells_before (grid_of s) h = (\<Sum>k<h. length (xss ! k))"
    unfolding cells_before_def using h by (intro sum.cong) (simp_all add: d)
  then have "reading_order s ! (cells_before (grid_of s) h + v) = xss ! h ! v"
    using nth_concat_column [of h xss v] h v d len by (simp add: ro)
  then show "reading_order s ! (cells_before (grid_of s) h + v) = slide_at (doc s) (getHorizontalSlides s ! h) (int v)"
  proof (cases "verticals (doc s) (getHorizontalSlides s ! h) = []")
    case True
    then have "length (xss ! h) = 1" using h by (simp add: xss_def)
    then have "v = 0" using v d [OF h] by simp
    then show ?thesis using \<open>reading_order s ! _ = _\<close> True h by (simp add: xss_def slide_at_def)
  qed (use h in \<open>simp add: xss_def slide_at_def\<close>)
qed

section \<open>Asking for the next slide\<close>

lemma next_refines:
  assumes w: "walkable s" and l: "\<not> cfg_loop (cfg s)"
  shows "\<exists>t. navigateNext True s = Returned t \<and> walkable t \<and> grid_of t = grid_of s \<and>
    walker_of t = onward (grid_of s) (walker_of s)"
proof -
  let ?s1 = "s\<lparr>hasNavigatedHorizontally := True, hasNavigatedVertically := True\<rparr>"
  have w1: "walkable ?s1" and g: "grid_of ?s1 = grid_of s" "walker_of ?s1 = walker_of s"
    using w by (simp_all add: walkable_visited)
  have "next_routes ?s1 = availableRoutes False ?s1" using l by (simp add: next_routes_def Let_def)
  then have down: "r_down (next_routes ?s1) = can_descend (grid_of s) (walker_of s)" using routes_of(2) [OF w1] by (simp only: g)
  have e: "navigateNext True s = (if can_descend (grid_of s) (walker_of s) then navigateDown True ?s1
      else if cfg_rtl (cfg s) then navigateLeft True ?s1 else navigateRight True ?s1)"
    by (simp add: navigateNext_def Let_def down)
  show ?thesis
    using walk_down.refines [OF w1] walk_left.refines [OF w1] walk_right.refines [OF w1]
    unfolding e g onward_def by (auto split: if_splits)
qed

fun go_next :: "nat \<Rightarrow> reveal \<Rightarrow> outcome" where
  "go_next 0 s = Returned s"
| "go_next (Suc n) s = and_then (navigateNext True s) (go_next n)"

lemma go_next_rank:
  assumes "walkable s" "\<not> g_loop (grid_of s)" "\<not> g_rowwise (grid_of s)" "fresh (grid_of s) (walker_of s)"
  shows "\<exists>t. go_next n s = Returned t \<and> walkable t \<and> grid_of t = grid_of s \<and> fresh (grid_of s) (walker_of t) \<and>
    rank (grid_of s) (walker_of t) =
      (if rank (grid_of s) (walker_of s) + n < cells_before (grid_of s) (length (g_columns (grid_of s)))
       then rank (grid_of s) (walker_of s) + n
       else max (rank (grid_of s) (walker_of s)) (cells_before (grid_of s) (length (g_columns (grid_of s))) - 1))"
  using assms
proof (induction n arbitrary: s)
  case (Suc n)
  obtain t where t: "navigateNext True s = Returned t" "walkable t" "grid_of t = grid_of s"
    "walker_of t = onward (grid_of s) (walker_of s)"
    using next_refines [OF Suc.prems(1)] Suc.prems(2) by auto
  note o = onward_rank [OF Suc.prems(4,2,3), folded t(4)]
  obtain u where u: "go_next n t = Returned u" "walkable u" "grid_of u = grid_of s" "fresh (grid_of s) (walker_of u)"
    "rank (grid_of s) (walker_of u) =
      (if rank (grid_of s) (walker_of t) + n < cells_before (grid_of s) (length (g_columns (grid_of s)))
       then rank (grid_of s) (walker_of t) + n
       else max (rank (grid_of s) (walker_of t)) (cells_before (grid_of s) (length (g_columns (grid_of s))) - 1))"
    using Suc.IH [OF t(2)] Suc.prems o unfolding t(3) by blast
  show ?case using u o t(1) by (auto split: if_splits)
qed auto

lemma moves_go_next: "moves s (after (go_next n s))"
  by (induction n arbitrary: s) (simp_all add: after_and_then moves_navigateNext)

interpretation nexts: deck_move "go_next n"
  by unfold_locales (rule moves_go_next)

text \<open>The slide a walkable deck shows is the one at the rank of its cell.\<close>

lemma shown_slide:
  assumes w: "walkable s" and f: "fresh (grid_of s) (walker_of s)"
  shows "currentSlide s = Some (reading_order s ! rank (grid_of s) (walker_of s))"
    and "rank (grid_of s) (walker_of s) < length (reading_order s)"
proof -
  have "on_slide s" using w by (simp add: walkable_def live_def)
  then have "currentSlide s = Some (reading_order s ! rank (grid_of s) (walker_of s)) \<and>
    rank (grid_of s) (walker_of s) < length (reading_order s)"
  proof (cases rule: on_slide_cases)
    case (1 h v ch)
    have b: "nat h < length (getHorizontalSlides s)" "nat v < depth (grid_of s) (nat h)"
      using 1(1-4) f by (simp_all add: fresh_def)
    have "cells_before (grid_of s) (Suc (nat h)) \<le> cells_before (grid_of s) (length (getHorizontalSlides s))"
      unfolding cells_before_def using b(1) by (intro sum_mono2) auto
    then have "rank (grid_of s) (walker_of s) < length (reading_order s)"
      using b(2) 1(1,2) by (simp add: reading_columns(1) rank_def cells_before_def)
    moreover have "currentSlide s = Some (reading_order s ! rank (grid_of s) (walker_of s))"
      using 1(9) reading_columns(2) [OF b] by (simp add: rank_def 1(1,2,5,6))
    ultimately show ?thesis by simp
  qed
  then show "currentSlide s = Some (reading_order s ! rank (grid_of s) (walker_of s))"
    "rank (grid_of s) (walker_of s) < length (reading_order s)" by simp_all
qed

lemma start_fresh:
  assumes w: "walkable s" and z: "indexh s = Num 0" "indexv s = Num 0"
    and m: "\<forall>x\<in>set (getHorizontalSlides s). left_at (doc s) x = 0"
  shows "fresh (grid_of s) (walker_of s)" and "rank (grid_of s) (walker_of s) = 0"
proof -
  have "on_slide s" using w by (simp add: walkable_def live_def)
  then have "getHorizontalSlides s \<noteq> []" by (auto elim: on_slide_cases)
  then show "fresh (grid_of s) (walker_of s)" using m by (simp add: fresh_def z depth_def) (simp add: grid_of_def Let_def)
  show "rank (grid_of s) (walker_of s) = 0" by (simp add: rank_def z cells_before_def)
qed

text \<open>C5: Going through a presentation from its first slide with \<open>next\<close> (past the fragments), in a deck that
  does not loop, has not been entered elsewhere and is not navigated as a grid, shows its slides one by one in
  the order in which they are written: after \<open>n\<close> steps the \<open>n\<close>-th slide, and once the last one is reached it
  stays. No step throws.\<close>

theorem next_reads_all:
  assumes "walkable s" "\<not> cfg_loop (cfg s)" "cfg_navigationMode (cfg s) \<noteq> ''grid''" "\<not> overviewActive s"
    and "indexh s = Num 0" "indexv s = Num 0" "\<forall>x\<in>set (getHorizontalSlides s). left_at (doc s) x = 0"
  shows "\<exists>t. go_next n s = Returned t \<and>
    currentSlide t = Some (reading_order s ! min n (length (reading_order s) - 1))"
proof -
  note fr = start_fresh [OF assms(1,5-7)]
  have len: "length (reading_order s) = cells_before (grid_of s) (length (g_columns (grid_of s)))"
    by (simp add: reading_columns(1)) (simp add: grid_of_def Let_def)
  obtain t where t: "go_next n s = Returned t" "walkable t" "grid_of t = grid_of s" "fresh (grid_of s) (walker_of t)"
    "rank (grid_of s) (walker_of t) = (if n < length (reading_order s) then n else length (reading_order s) - 1)"
    using go_next_rank [OF assms(1) _ _ fr(1), of n] assms(2-4) fr(2) len by auto
  have "deck_ok s" using assms(1) by (simp add: walkable_def live_def)
  from nexts.keeps_slides [OF this, of n] have "reading_order t = reading_order s" by (simp add: reading_order_def t(1) cong: if_cong)
  then have "currentSlide t = Some (reading_order s ! rank (grid_of s) (walker_of t))"
    using shown_slide(1) [OF t(2)] t(3,4) by simp
  then show ?thesis using t(1,5) shown_slide(2) [OF assms(1) fr(1)] by (auto simp: min_def)
qed

theorem next_reads_all_witness:
  "\<exists>t. go_next 2 (sample_at 0 0 4) = Returned t \<and> currentSlide t = Some 7"
proof -
  have z: "\<forall>x\<in>set (getHorizontalSlides (sample_at 0 0 4)). left_at (doc (sample_at 0 0 4)) x = 0"
    using walks_sample(2) by (simp add: walker_of_def sample_slides)
  have "reading_order (sample_at 0 0 4) = [4, 6, 7, 8]" by (simp add: reading_order_def sample_slides)
  then show ?thesis
    using next_reads_all [OF walkable_sample _ _ _ _ _ z, of 2] by (simp add: default_config_def numeral_2_eq_2)
qed

end
