(* ===== verification/Print.thy ===== *)
theory Print
  imports Render AutoAnimate
begin

text \<open>
  \<open>controllers/print.js\<close>: the layout for the printer, which puts every slide on a sheet of its own and adds
  a copy of the sheet for every step of its fragments. The pauses until the next frame of the browser are
  where \<open>setupPDF\<close> is cut into stages. A sheet is detached until the last stage appends it to the deck.
\<close>

section \<open>Copies of elements\<close>

text \<open>A deep copy: new elements in the same order, the copy of the element itself without a parent. The
  properties that JavaScript code has added to an element are not copied.\<close>

definition copy_of :: "dom \<Rightarrow> node \<Rightarrow> node \<Rightarrow> node" where
  "copy_of d x y = nextNode d + length (takeWhile (\<lambda>z. z \<noteq> y) (subtree d x))"

definition copied :: "dom \<Rightarrow> node \<Rightarrow> (node \<Rightarrow> 'a) \<Rightarrow> 'a \<Rightarrow> node \<Rightarrow> 'a" where
  "copied d x f none z =
     (if z < nextNode d then f z
      else if z - nextNode d < length (subtree d x) then f (subtree d x ! (z - nextNode d)) else none)"

definition copied_path :: "dom \<Rightarrow> node \<Rightarrow> node \<Rightarrow> node list" where
  "copied_path d x z =
     (if z < nextNode d then path d z
      else if z - nextNode d < length (subtree d x) then
       (let y = subtree d x ! (z - nextNode d)
        in if y = x then [] else map (copy_of d x) (takeWhile (\<lambda>u. u \<noteq> x) (path d y) @ [x]))
      else [])"

definition cloneNode :: "node \<Rightarrow> dom \<Rightarrow> node \<times> dom" where
  "cloneNode x d =
     (copy_of d x x,
      d\<lparr>order := order d @ map (copy_of d x) (subtree d x), path := copied_path d x,
        tag := copied d x (tag d) [], cls := copied d x (cls d) {}, attr := copied d x (attr d) Map.empty,
        sty := copied d x (sty d) Map.empty, html := copied d x (html d) [],
        bgOf := (\<lambda>z. if z < nextNode d then bgOf d z else None),
        bgContentOf := (\<lambda>z. if z < nextNode d then bgContentOf d z else None),
        nextNode := nextNode d + length (subtree d x)\<rparr>)"

section \<open>Sizes\<close>

text \<open>The options of the printer; a limit of \<open>None\<close> is infinite.\<close>

record printer_options =
  pdfMaxPagesPerSlide :: "real option"
  pdfSeparateFragments :: bool
  pdfPageHeightOffset :: real

definition default_print :: printer_options where
  "default_print = \<lparr>pdfMaxPagesPerSlide = None, pdfSeparateFragments = True, pdfPageHeightOffset = -1\<rparr>"

record sheet_size =
  pageWidth :: real
  pageHeight :: real
  slideWidth :: real
  slideHeight :: real

definition sheet_size_of :: "reveal \<Rightarrow> sheet_size" where
  "sheet_size_of s =
     (let z = getComputedSlideSize (Some (innerWidth (host s))) (Some (innerHeight (host s))) s; m = 1 + cfg_margin (cfg s)
      in \<lparr>pageWidth = real_of_int \<lfloor>sz_width z * m\<rfloor>, pageHeight = real_of_int \<lfloor>sz_height z * m\<rfloor>,
          slideWidth = sz_width z, slideHeight = sz_height z\<rparr>)"

definition injects_numbers :: "config \<Rightarrow> bool" where
  "injects_numbers c = (truthy_sn (cfg_slideNumber c) \<and>
     (let t = map to_lower (cfg_showSlideNumber c) in contains_str ''all'' t \<or> contains_str ''print'' t))"

definition number_of_pages :: "printer_options \<Rightarrow> sheet_size \<Rightarrow> real \<Rightarrow> real" where
  "number_of_pages o1 z contentHeight =
     (let n = max (real_of_int \<lceil>contentHeight / pageHeight z\<rceil>) 1
      in case pdfMaxPagesPerSlide o1 of Some m \<Rightarrow> min n m | None \<Rightarrow> n)"

definition slide_top :: "config \<Rightarrow> sheet_size \<Rightarrow> bool \<Rightarrow> real \<Rightarrow> real \<Rightarrow> real" where
  "slide_top c z centred pages contentHeight =
     (if pages = 1 \<and> cfg_center c \<or> centred then max ((pageHeight z - contentHeight) / 2) 0
      else (pageHeight z - slideHeight z) / 2)"

section \<open>The first frame\<close>

text \<open>\<open>number_text\<close> is how the browser writes a number in a style sheet.\<close>

definition add_rules :: "string \<Rightarrow> dom \<Rightarrow> dom" where
  "add_rules rules d = (let (n, d1) = createStyleSheet d in set_html rules n d1)"

definition page_rules :: "(real \<Rightarrow> string) \<Rightarrow> sheet_size \<Rightarrow> string" where
  "page_rules number_text z =
     ''@page{size:'' @ number_text (pageWidth z) @ ''px '' @ number_text (pageHeight z) @ ''px; margin: 0px;}''"

definition content_rules :: "(real \<Rightarrow> string) \<Rightarrow> sheet_size \<Rightarrow> string" where
  "content_rules number_text z =
     ''.reveal section>img, .reveal section>video, .reveal section>iframe{max-width: '' @ number_text (slideWidth z) @
     ''px; max-height:'' @ number_text (slideHeight z) @ ''px}''"

text \<open>A document that is printed has a root and a body.\<close>

definition print_page :: "(real \<Rightarrow> string) \<Rightarrow> sheet_size \<Rightarrow> dom \<Rightarrow> dom" where
  "print_page number_text z d =
     (let d1 = add_rules (content_rules number_text z) (add_rules (page_rules number_text z) d);
          d2 = (case documentElement d1 of Some r \<Rightarrow> add_class ''print-pdf'' r d1 | None \<Rightarrow> d1)
      in case document_body d2 of
           Some b \<Rightarrow> set_style ''height'' (Px (pageHeight z)) b (set_style ''width'' (Px (pageWidth z)) b d2)
         | None \<Rightarrow> d2)"

definition presentation_background :: "(dom \<Rightarrow> node \<Rightarrow> string) \<Rightarrow> dom \<Rightarrow> string" where
  "presentation_background background_of d =
     (case documentElement d of
        Some r \<Rightarrow>
          (case first_opt (filter (\<lambda>x. in_subtree d r x \<and> has_class ''reveal-viewport'' d x) (order d)) of
             Some v \<Rightarrow> background_of d v | None \<Rightarrow> [])
      | None \<Rightarrow> [])"

section \<open>A sheet for every step\<close>

text \<open>The groups of fragments with their places in the array, which has a gap where no fragment has the index.\<close>

definition indexed_groups :: "dom \<Rightarrow> node list \<Rightarrow> (nat \<times> node list) list" where
  "indexed_groups d fragments =
     (let (ordered, unordered) = fold (group_step d) fragments ([], [])
      in ordered @ enumerate (if ordered = [] then 0 else Suc (fst (last ordered))) unordered)"

definition show_step :: "node list \<Rightarrow> node list \<Rightarrow> dom \<Rightarrow> dom" where
  "show_step previous fragments d =
     for_each (\<lambda>x d. add_class ''current-fragment'' x (add_class ''visible'' x d)) fragments
       (for_each (remove_class ''current-fragment'') previous d)"

definition number_copy :: "bool \<Rightarrow> nat \<Rightarrow> node \<Rightarrow> dom \<Rightarrow> dom" where
  "number_copy inject index c d =
     (if inject then
       (case querySel d c (has_class ''slide-number-pdf'' d) of
          Some n \<Rightarrow> set_html (html d n @ ''.'' @ show_nat (Suc index)) n d
        | None \<Rightarrow> d)
      else d)"

fun step_copies :: "bool \<Rightarrow> node \<Rightarrow> node list \<Rightarrow> (nat \<times> node list) list \<Rightarrow> dom \<Rightarrow> node list \<times> dom" where
  "step_copies inject x previous [] d = ([], d)"
| "step_copies inject x previous ((i, fragments) # groups) d =
     (let (c, d1) = cloneNode x (show_step previous fragments d);
          (cs, d2) = step_copies inject x fragments groups (number_copy inject i c d1)
      in (c # cs, d2))"

definition hide_steps :: "(nat \<times> node list) list \<Rightarrow> dom \<Rightarrow> dom" where
  "hide_steps groups d =
     for_each (\<lambda>x d. remove_class ''current-fragment'' x (remove_class ''visible'' x d)) (concat (map snd groups)) d"

definition separate_steps :: "bool \<Rightarrow> node \<Rightarrow> dom \<Rightarrow> node list \<times> dom" where
  "separate_steps inject x d =
     (let fs = queryAll d x (has_class ''fragment'' d); groups = indexed_groups d fs;
          (cs, d1) = step_copies inject x [] groups (snd (sort_fragments fs d))
      in (cs, hide_steps groups d1))"

definition show_all_steps :: "node \<Rightarrow> dom \<Rightarrow> dom" where
  "show_all_steps x d =
     for_each (add_class ''visible'')
       (queryAll d x (\<lambda>y. has_class ''fragment'' d y \<and> \<not> has_class ''fade-out'' d y)) d"

section \<open>A sheet for a slide\<close>

text \<open>The sheets so far, the number of the next slide and the page.\<close>

record press =
  sheets :: "node list"
  next_number :: nat
  paper :: page

definition new_sheet :: "printer_options \<Rightarrow> sheet_size \<Rightarrow> string \<Rightarrow> real \<Rightarrow> node \<Rightarrow> dom \<Rightarrow> node \<times> dom" where
  "new_sheet o1 z background pages sl d =
     (let (x, d1) = createElement ''div'' d;
          d2 = set_style ''height'' (Px ((pageHeight z + pdfPageHeightOffset o1) * pages)) x (d1\<lparr>cls := (cls d1)(x := {''pdf-page''})\<rparr>);
          d3 = (if background \<noteq> [] then set_style ''background'' (Css background) x d2 else d2)
      in (x, appendChild x sl d3))"

definition put_slide :: "config \<Rightarrow> sheet_size \<Rightarrow> real \<Rightarrow> real \<Rightarrow> node \<Rightarrow> dom \<Rightarrow> dom" where
  "put_slide c z pages contentHeight sl d =
     set_style ''width'' (Px (slideWidth z)) sl
      (set_style ''top'' (Px (slide_top c z (has_class ''center'' d sl) pages contentHeight)) sl
       (set_style ''left'' (Px ((pageWidth z - slideWidth z) / 2)) sl d))"

definition notes_sheet :: "string \<Rightarrow> string \<Rightarrow> dom \<Rightarrow> node \<times> dom" where
  "notes_sheet notesLayout notes d =
     (let (n, d1) = createElement ''div'' d
      in (n, set_html notes n (set_attr ''data-layout'' notesLayout n
            (add_class ''speaker-notes-pdf'' n (add_class ''speaker-notes'' n d1)))))"

text \<open>The notes of a slide: a sheet of their own, or at the foot of the sheet of the slide.\<close>

definition add_notes :: "config \<Rightarrow> sheet_size \<Rightarrow> node \<Rightarrow> node \<Rightarrow> dom \<Rightarrow> node list \<times> dom" where
  "add_notes c z sl x d =
     (let notes = getSlideNotes d sl in
      if truthy_bs (cfg_showNotes c) \<and> notes \<noteq> [] then
       (let notesLayout = (case cfg_showNotes c of SVal v \<Rightarrow> v | BVal _ \<Rightarrow> ''inline'');
            (n, d1) = notes_sheet notesLayout notes d
        in if notesLayout = ''separate-page'' then ([n], d1)
           else ([], appendChild x n (set_style ''width'' (Px (pageWidth z - 8 * 2)) n
                  (set_style ''bottom'' (Px 8) n (set_style ''left'' (Px 8) n d1)))))
      else ([], d))"

definition add_number :: "nat \<Rightarrow> node \<Rightarrow> dom \<Rightarrow> dom" where
  "add_number k x d =
     (let (n, d1) = createElement ''div'' d
      in appendChild x n (set_html (show_nat k) n (add_class ''slide-number-pdf'' n (add_class ''slide-number'' n d1))))"

definition print_slide :: "config \<Rightarrow> printer_options \<Rightarrow> sheet_size \<Rightarrow> string \<Rightarrow> node \<times> real \<Rightarrow> press \<Rightarrow> press" where
  "print_slide c o1 z background = (\<lambda>(sl, contentHeight) p.
     if has_class ''stack'' (fst (paper p)) sl then p
     else
      (let pages = number_of_pages o1 z contentHeight; inject = injects_numbers c;
           (x, d1) = new_sheet o1 z background pages sl (fst (paper p));
           (d2, wd) = slideContent_layout sl (put_slide c z pages contentHeight sl d1, snd (paper p));
           d3 = (case bgOf d2 sl of Some b \<Rightarrow> insertBefore x b sl d2 | None \<Rightarrow> d2);
           (notes, d4) = add_notes c z sl x d3;
           d5 = (if inject then add_number (next_number p) x d4 else d4);
           (copies, d6) = (if pdfSeparateFragments o1 then separate_steps inject x d5 else ([], show_all_steps x d5))
       in \<lparr>sheets = sheets p @ x # notes @ copies,
           next_number = (if inject then Suc (next_number p) else next_number p), paper = (d6, wd)\<rparr>))"

section \<open>The stages of setupPDF\<close>

text \<open>The heights are measured together, in the frame after the stretched elements have been laid out. A deck
  without slides makes the layout throw; that is \<open>None\<close>.\<close>

definition print_start :: "(real \<Rightarrow> string) \<Rightarrow> sheet_size \<Rightarrow> reveal \<Rightarrow> reveal" where
  "print_start number_text z s = s\<lparr>doc := print_page number_text z (doc s)\<rparr>"

definition print_stretch :: "sheet_size \<Rightarrow> reveal \<Rightarrow> reveal" where
  "print_stretch z s = layoutSlideContents (DNum (slideWidth z)) (DNum (slideHeight z)) s"

definition print_slides :: "printer_options \<Rightarrow> sheet_size \<Rightarrow> string \<Rightarrow> node list \<Rightarrow> reveal \<Rightarrow> (node list \<times> node option \<times> reveal) option" where
  "print_slides o1 z background slides s =
     (case slides of
        [] \<Rightarrow> None
      | sl # _ \<Rightarrow>
         (let heights = map (scrollHeight (host s) (doc s)) slides;
              p = fold (print_slide (cfg s) o1 z background) (zip slides heights)
                    \<lparr>sheets = [], next_number = 1, paper = (doc s, world s)\<rparr>
          in Some (sheets p, parentNode (doc s) sl, s\<lparr>doc := fst (paper p), world := snd (paper p)\<rparr>)))"

definition print_finish :: "node list \<Rightarrow> node option \<Rightarrow> reveal \<Rightarrow> reveal" where
  "print_finish pages container s =
     (let d1 = (case container of Some c \<Rightarrow> for_each (appendChild c) pages (doc s) | None \<Rightarrow> doc s);
          (d2, wd) = slideContent_layout (slidesEl (host s)) (d1, world s)
      in dispatchEvent (Ev ''pdf-ready'' (wrapper (host s))) (s\<lparr>doc := d2, world := wd\<rparr>))"

definition setupPDF :: "(real \<Rightarrow> string) \<Rightarrow> (dom \<Rightarrow> node \<Rightarrow> string) \<Rightarrow> printer_options \<Rightarrow> reveal \<Rightarrow> reveal option" where
  "setupPDF number_text background_of o1 s =
     (let slides = queryAll (doc s) (wrapper (host s)) (slides_sel (doc s)); z = sheet_size_of s;
          s1 = print_start number_text z s; background = presentation_background background_of (doc s1)
      in case print_slides o1 z background slides (print_stretch z s1) of
           None \<Rightarrow> None
         | Some (pages, container, s2) \<Rightarrow> Some (print_finish pages container s2))"


section \<open>What a copy is\<close>

definition chain_within :: "dom \<Rightarrow> node \<Rightarrow> node \<Rightarrow> node list" where
  "chain_within d x y = (if y = x then [] else takeWhile (\<lambda>u. u \<noteq> x) (path d y) @ [x])"

lemma takeWhile_index: "distinct xs \<Longrightarrow> i < length xs \<Longrightarrow> length (takeWhile (\<lambda>z. z \<noteq> xs ! i) xs) = i"
proof (induction xs arbitrary: i)
  case (Cons a xs)
  then show ?case by (cases i) (auto simp: nth_mem)
qed simp

lemma dropWhile_to: "x \<in> set xs \<Longrightarrow> x \<in> set (dropWhile (\<lambda>u. u \<noteq> x) xs)"
  by (induction xs) auto

lemma distinct_subtree: "rooted d \<Longrightarrow> distinct (subtree d x)"
  using wf_domD(1) [OF rootedD(1)] by (simp add: subtree_def)

lemma copy_of_nth: "rooted d \<Longrightarrow> i < length (subtree d x) \<Longrightarrow> copy_of d x (subtree d x ! i) = nextNode d + i"
  by (simp add: copy_of_def takeWhile_index distinct_subtree)

lemma copies_are: "rooted d \<Longrightarrow> map (copy_of d x) (subtree d x) = [nextNode d ..< nextNode d + length (subtree d x)]"
  by (rule nth_equalityI) (simp_all add: copy_of_nth)

lemma copied_old: "z < nextNode d \<Longrightarrow> copied d x f none z = f z" "z < nextNode d \<Longrightarrow> copied_path d x z = path d z"
  by (simp_all add: copied_def copied_path_def)

lemma copied_new:
  assumes "rooted d" "y \<in> set (subtree d x)"
  shows "copied d x f none (copy_of d x y) = f y"
    and "copied_path d x (copy_of d x y) = map (copy_of d x) (chain_within d x y)"
    and "nextNode d \<le> copy_of d x y" "copy_of d x y < nextNode d + length (subtree d x)"
proof -
  obtain i where i: "i < length (subtree d x)" "y = subtree d x ! i" using assms(2) by (auto simp: in_set_conv_nth)
  note c = copy_of_nth [OF assms(1) i(1)]
  show "copied d x f none (copy_of d x y) = f y" unfolding i(2) c using i(1) by (simp add: copied_def)
  show "copied_path d x (copy_of d x y) = map (copy_of d x) (chain_within d x y)"
    unfolding i(2) c using i(1) by (simp add: copied_path_def chain_within_def Let_def)
  show "nextNode d \<le> copy_of d x y" "copy_of d x y < nextNode d + length (subtree d x)" unfolding i(2) c using i(1) by simp_all
qed

lemma new_is_copy:
  assumes "rooted d" "nextNode d \<le> z" "z < nextNode d + length (subtree d x)"
  obtains y where "y \<in> set (subtree d x)" "z = copy_of d x y"
  using that [of "subtree d x ! (z - nextNode d)"] copy_of_nth [OF assms(1), of "z - nextNode d" x] assms(2,3)
  by (metis add_diff_inverse_nat add_less_cancel_left nth_mem not_less)

lemma chain_within_subtree:
  assumes d: "rooted d" and x: "x \<in> set (order d)" and y: "y \<in> set (subtree d x)"
  shows "set (chain_within d x y) \<subseteq> set (subtree d x)"
    and "chain_within d x y = p # ps \<Longrightarrow> chain_within d x p = ps"
proof -
  have yo: "y \<in> set (order d)" "y = x \<or> x \<in> set (path d y)" using y by (auto simp: subtree_def in_subtree_def)
  note yn = rootedD(2) [OF d yo(1)]
  have xs: "x \<in> set (subtree d x)" using x by (simp add: subtree_def in_subtree_def)
  show "set (chain_within d x y) \<subseteq> set (subtree d x)"
  proof
    fix u assume u: "u \<in> set (chain_within d x y)"
    show "u \<in> set (subtree d x)"
    proof (cases "u = x")
      case False
      then have t: "y \<noteq> x" "u \<in> set (takeWhile (\<lambda>u. u \<noteq> x) (path d y))" using u by (auto simp: chain_within_def split: if_splits)
      obtain us vs where v: "takeWhile (\<lambda>u. u \<noteq> x) (path d y) = us @ u # vs" using split_list [OF t(2)] by blast
      let ?r = "dropWhile (\<lambda>u. u \<noteq> x) (path d y)"
      have p: "path d y = us @ u # vs @ ?r" using takeWhile_dropWhile_id [of "\<lambda>u. u \<noteq> x" "path d y"] v by simp
      have "x \<in> set ?r" using yo(2) t(1) by (simp add: dropWhile_to)
      then have "x \<in> set (path d u)" using path_split [OF rootedD(1) [OF d] yn p] by simp
      moreover have "u \<in> set (order d)" using rootedD(3) [OF d yo(1)] set_takeWhileD [OF t(2)] by blast
      ultimately show ?thesis by (simp add: subtree_def in_subtree_def)
    qed (use xs in simp)
  qed
  assume c: "chain_within d x y = p # ps"
  then have yx: "y \<noteq> x" by (auto simp: chain_within_def)
  then obtain q qs where q: "path d y = q # qs" using yo(2) by (cases "path d y") auto
  have pq: "path d q = qs" by (rule wf_domD(4) [OF rootedD(1) [OF d] yn q])
  show "chain_within d x p = ps"
  proof (cases "q = x")
    case True
    then have "p = x" "ps = []" using c yx q by (simp_all add: chain_within_def)
    then show ?thesis by (simp add: chain_within_def)
  next
    case False
    then have "p = q" "ps = takeWhile (\<lambda>u. u \<noteq> x) qs @ [x]" using c yx q by (simp_all add: chain_within_def)
    then show ?thesis using False pq by (simp add: chain_within_def)
  qed
qed

lemma clone_fields:
  "cloneNode x d = (c, d1) \<Longrightarrow> c = copy_of d x x \<and> order d1 = order d @ map (copy_of d x) (subtree d x) \<and>
     path d1 = copied_path d x \<and> tag d1 = copied d x (tag d) [] \<and> cls d1 = copied d x (cls d) {} \<and>
     nextNode d1 = nextNode d + length (subtree d x) \<and>
     bgOf d1 = (\<lambda>z. if z < nextNode d then bgOf d z else None) \<and>
     bgContentOf d1 = (\<lambda>z. if z < nextNode d then bgContentOf d z else None)"
  by (auto simp: cloneNode_def)

lemma rooted_clone:
  assumes d: "rooted d" and x: "x \<in> set (order d)" and c: "cloneNode x d = (c, d1)"
  shows "rooted d1"
proof -
  note f = clone_fields [OF c]
  have n: "nextNode d1 = nextNode d + length (subtree d x)" using f by simp
  have old: "path d1 z = path d z" "tag d1 z = tag d z" if "z < nextNode d" for z using f that by (simp_all add: copied_old)
  have new: "path d1 (copy_of d x y) = map (copy_of d x) (chain_within d x y)" if "y \<in> set (subtree d x)" for y
    using f that copied_new(2) [OF d] by simp
  note wf = rootedD(1) [OF d]
  have o: "set (order d1) = set (order d) \<union> copy_of d x ` set (subtree d x)" using f by simp
  have b: "bgOf d1 z = Some y \<or> bgContentOf d1 z = Some y \<Longrightarrow> bg_node d1 y" for z y
  proof -
    assume "bgOf d1 z = Some y \<or> bgContentOf d1 z = Some y"
    moreover have "bgOf d1 z = (if z < nextNode d then bgOf d z else None)"
      "bgContentOf d1 z = (if z < nextNode d then bgContentOf d z else None)" using f by simp_all
    ultimately have "bgOf d z = Some y \<or> bgContentOf d z = Some y" by (metis option.distinct(1))
    then have "bg_node d y" using wf_domD(5,6) [OF wf] by blast
    then show "bg_node d1 y" using old by (simp add: bg_node_def is_section_def n)
  qed
  have p: "path d1 q = qs" if z: "z < nextNode d1" "path d1 z = q # qs" for z q qs
  proof (cases "z < nextNode d")
    case True
    then have pz: "path d z = q # qs" using z(2) old(1) [OF True] by simp
    have "q \<in> set (path d z)" by (simp add: pz)
    then have "q < nextNode d" by (rule wf_domD(3) [OF wf True])
    then show ?thesis using wf_domD(4) [OF wf True pz] old(1) by simp
  next
    case False
    then obtain y where y: "y \<in> set (subtree d x)" "z = copy_of d x y" using new_is_copy [OF d _ z(1) [unfolded n]] by auto
    obtain u us where u: "chain_within d x y = u # us" "q = copy_of d x u" "qs = map (copy_of d x) us"
      using z(2) new [OF y(1)] y(2) by (cases "chain_within d x y") auto
    have "u \<in> set (subtree d x)" using chain_within_subtree(1) [OF d x y(1)] u(1) by auto
    then show ?thesis using new chain_within_subtree(2) [OF d x y(1) u(1)] u by simp
  qed
  have q: "set (path d1 z) \<subseteq> set (order d1)" if z: "z \<in> set (order d1)" for z
  proof (cases "z \<in> set (order d)")
    case True
    have "path d1 z = path d z" by (rule old(1) [OF rootedD(2) [OF d True]])
    then show ?thesis unfolding o using rootedD(3) [OF d True] by auto
  next
    case False
    then obtain y where y: "y \<in> set (subtree d x)" "z = copy_of d x y" using z unfolding o by auto
    have "set (path d1 z) = copy_of d x ` set (chain_within d x y)" unfolding y(2) new [OF y(1)] by simp
    then have "set (path d1 z) \<subseteq> copy_of d x ` set (subtree d x)"
      using image_mono [OF chain_within_subtree(1) [OF d x y(1)]] by simp
    then show ?thesis unfolding o by (rule le_supI2)
  qed
  have below: "z < nextNode d1" if z: "z \<in> set (order d1)" for z
  proof (cases "z \<in> set (order d)")
    case True
    then show ?thesis using rootedD(2) [OF d True] n by simp
  next
    case False
    then obtain y where "y \<in> set (subtree d x)" "z = copy_of d x y" using z unfolding o by auto
    then show ?thesis using copied_new(4) [OF d] n by simp
  qed
  have r: "u < nextNode d1" if z: "z < nextNode d1" "u \<in> set (path d1 z)" for z u
  proof (cases "z < nextNode d")
    case True
    then have "u \<in> set (path d z)" using z(2) old(1) by simp
    then have "u < nextNode d" by (rule wf_domD(3) [OF wf True])
    then show ?thesis using n by simp
  next
    case False
    then obtain y where y: "y \<in> set (subtree d x)" "z = copy_of d x y" using new_is_copy [OF d _ z(1) [unfolded n]] by auto
    then obtain v where "v \<in> set (chain_within d x y)" "u = copy_of d x v" using z(2) new [OF y(1)] by auto
    then show ?thesis using chain_within_subtree(1) [OF d x y(1)] copied_new(4) [OF d] n by auto
  qed
  have "order d1 = order d @ [nextNode d ..< nextNode d + length (subtree d x)]" using f copies_are [OF d] by simp
  moreover have "set (order d) \<inter> {nextNode d ..< nextNode d + length (subtree d x)} = {}"
    using rootedD(2) [OF d] by (meson disjoint_iff atLeastLessThan_iff not_le set_upt)
  ultimately have dist: "distinct (order d1)" using wf_domD(1) [OF wf] by simp
  have "wf_dom d1" unfolding wf_dom_def
    by (intro conjI ballI allI impI; (rule dist | erule below | erule (1) r | erule (1) p | erule b))
  then show ?thesis using q by (simp add: rooted_def list_all_iff)
qed

section \<open>Documents that only grow\<close>

definition grows :: "dom \<Rightarrow> dom \<Rightarrow> bool" where
  "grows d e = (nextNode d \<le> nextNode e \<and> (\<forall>z<nextNode d. path e z = path d z) \<and>
     (\<exists>new. order e = order d @ new \<and> (\<forall>z\<in>set new. nextNode d \<le> z \<and> z < nextNode e \<and> (\<forall>u\<in>set (path e z). nextNode d \<le> u))))"

lemma grows_same: "order e = order d \<Longrightarrow> path e = path d \<Longrightarrow> nextNode e = nextNode d \<Longrightarrow> grows d e"
  by (simp add: grows_def)

lemma grows_trans [trans]: "grows d e \<Longrightarrow> grows e f \<Longrightarrow> grows d f"
  unfolding grows_def
proof (elim conjE exE, intro conjI exI)
  fix new1 new2
  assume 1: "nextNode d \<le> nextNode e" "\<forall>z<nextNode d. path e z = path d z" "order e = order d @ new1"
    "\<forall>z\<in>set new1. nextNode d \<le> z \<and> z < nextNode e \<and> (\<forall>u\<in>set (path e z). nextNode d \<le> u)"
    and 2: "nextNode e \<le> nextNode f" "\<forall>z<nextNode e. path f z = path e z" "order f = order e @ new2"
    "\<forall>z\<in>set new2. nextNode e \<le> z \<and> z < nextNode f \<and> (\<forall>u\<in>set (path f z). nextNode e \<le> u)"
  show "nextNode d \<le> nextNode f" "\<forall>z<nextNode d. path f z = path d z" "order f = order d @ new1 @ new2" using 1 2 by simp_all
  show "\<forall>z\<in>set (new1 @ new2). nextNode d \<le> z \<and> z < nextNode f \<and> (\<forall>u\<in>set (path f z). nextNode d \<le> u)"
  proof
    fix z assume "z \<in> set (new1 @ new2)"
    then consider "z \<in> set new1" | "z \<in> set new2" by auto
    then show "nextNode d \<le> z \<and> z < nextNode f \<and> (\<forall>u\<in>set (path f z). nextNode d \<le> u)"
    proof cases
      case 1
      then show ?thesis using \<open>\<forall>z\<in>set new1. _ z\<close> 2(1,2) by fastforce
    next
      case 2
      then show ?thesis using \<open>\<forall>z\<in>set new2. _ z\<close> \<open>nextNode d \<le> nextNode e\<close> by fastforce
    qed
  qed
qed

lemma grows_subtree:
  assumes "grows d e" "rooted d" "c < nextNode d"
  shows "subtree e c = subtree d c"
proof -
  obtain new where new: "order e = order d @ new" "\<forall>z\<in>set new. nextNode d \<le> z \<and> (\<forall>u\<in>set (path e z). nextNode d \<le> u)"
    and old: "\<forall>z<nextNode d. path e z = path d z" using assms(1) unfolding grows_def by blast
  have "filter (in_subtree e c) new = []" using new(2) assms(3) by (fastforce simp: filter_empty_conv in_subtree_def)
  moreover have "filter (in_subtree e c) (order d) = filter (in_subtree d c) (order d)"
    using old rootedD(2) [OF assms(2)] by (intro filter_cong) (simp_all add: in_subtree_def)
  ultimately show ?thesis by (simp add: subtree_def new(1))
qed

lemma grows_clone:
  assumes d: "rooted d" and x: "x \<in> set (order d)" and c: "cloneNode x d = (c, d1)"
  shows "grows d d1"
  unfolding grows_def
proof (intro conjI exI)
  note f = clone_fields [OF c]
  show "nextNode d \<le> nextNode d1" "order d1 = order d @ map (copy_of d x) (subtree d x)"
    "\<forall>z<nextNode d. path d1 z = path d z" using f by (simp_all add: copied_old)
  show "\<forall>z\<in>set (map (copy_of d x) (subtree d x)). nextNode d \<le> z \<and> z < nextNode d1 \<and> (\<forall>u\<in>set (path d1 z). nextNode d \<le> u)"
    using f copied_new [OF d] by (auto simp: copy_of_def)
qed

lemma clone_subtree:
  assumes d: "rooted d" and x: "x \<in> set (order d)" and c: "cloneNode x d = (c, d1)"
  shows "subtree d1 c = map (copy_of d x) (subtree d x)"
    and "y \<in> set (subtree d x) \<Longrightarrow> cls d1 (copy_of d x y) = cls d y"
    and "z < nextNode d \<Longrightarrow> cls d1 z = cls d z"
proof -
  note f = clone_fields [OF c]
  have xs: "x \<in> set (subtree d x)" using x by (simp add: subtree_def in_subtree_def)
  have cn: "nextNode d \<le> c" using f copied_new(3) [OF d xs] by simp
  have "\<not> in_subtree d1 c z" if "z \<in> set (order d)" for z
    using f that rootedD(2) [OF d] rootedD(3) [OF d that] cn by (fastforce simp: in_subtree_def copied_old)
  moreover have "in_subtree d1 c (copy_of d x y)" if "y \<in> set (subtree d x)" for y
    using f copied_new(2) [OF d that] by (simp add: in_subtree_def chain_within_def)
  ultimately show "subtree d1 c = map (copy_of d x) (subtree d x)"
    using f by (simp add: subtree_def filter_empty_conv filter_id_conv)
  show "y \<in> set (subtree d x) \<Longrightarrow> cls d1 (copy_of d x y) = cls d y" using f copied_new(1) [OF d] by simp
  show "z < nextNode d \<Longrightarrow> cls d1 z = cls d z" using f by (simp add: copied_old)
qed


section \<open>What the sheets of the steps show\<close>

lemma show_step_frame [simp]:
  "order (show_step a b d) = order d" "path (show_step a b d) = path d" "tag (show_step a b d) = tag d"
  "nextNode (show_step a b d) = nextNode d" "bgOf (show_step a b d) = bgOf d" "bgContentOf (show_step a b d) = bgContentOf d"
  by (simp_all add: show_step_def for_each_frame)

lemma number_copy_frame [simp]:
  "order (number_copy i k c d) = order d" "path (number_copy i k c d) = path d" "tag (number_copy i k c d) = tag d"
  "nextNode (number_copy i k c d) = nextNode d" "bgOf (number_copy i k c d) = bgOf d"
  "bgContentOf (number_copy i k c d) = bgContentOf d" "cls (number_copy i k c d) = cls d"
  by (simp_all add: number_copy_def split: option.split)

lemma rooted_cong:
  assumes "order e = order d" "path e = path d" "tag e = tag d" "nextNode e = nextNode d" "bgOf e = bgOf d"
    "bgContentOf e = bgContentOf d"
  shows "rooted e = rooted d"
  using wf_dom_cong [OF assms] assms by (simp add: rooted_def)

lemma subtree_cong: "order e = order d \<Longrightarrow> path e = path d \<Longrightarrow> subtree e x = subtree d x"
  unfolding subtree_def by (rule filter_cong) (simp_all add: in_subtree_def)

lemma has_class_loops:
  "has_class k (for_each (remove_class c) xs d) y \<longleftrightarrow> has_class k d y \<and> \<not> (k = c \<and> y \<in> set xs)"
  "has_class k (for_each (\<lambda>x d. add_class c x (add_class v x d)) xs d) y \<longleftrightarrow> (k \<in> {c, v} \<and> y \<in> set xs) \<or> has_class k d y"
  "has_class k (for_each (\<lambda>x d. remove_class c x (remove_class v x d)) xs d) y \<longleftrightarrow>
     has_class k d y \<and> \<not> (k \<in> {c, v} \<and> y \<in> set xs)"
  by (induction xs arbitrary: d) auto

lemma show_step_class:
  "has_class ''visible'' (show_step previous fs d) y \<longleftrightarrow> y \<in> set fs \<or> has_class ''visible'' d y"
  "has_class ''current-fragment'' (show_step previous fs d) y \<longleftrightarrow>
     y \<in> set fs \<or> (has_class ''current-fragment'' d y \<and> y \<notin> set previous)"
  by (auto simp: show_step_def has_class_loops)

lemma show_step_other: "y \<notin> set fs \<Longrightarrow> y \<notin> set previous \<Longrightarrow> cls (show_step previous fs d) y = cls d y"
proof -
  assume y: "y \<notin> set fs" "y \<notin> set previous"
  have "cls (for_each (remove_class k) xs d) y = cls d y" if "y \<notin> set xs" for k xs d
    using that by (induction xs arbitrary: d) (simp_all add: remove_class_def)
  moreover have "cls (for_each (\<lambda>x d. add_class k x (add_class l x d)) xs d) y = cls d y" if "y \<notin> set xs" for k l xs d
    using that by (induction xs arbitrary: d) (simp_all add: add_class_def)
  ultimately show ?thesis using y by (simp add: show_step_def)
qed

text \<open>The state after a sheet has been copied and numbered.\<close>

lemma step_copied:
  fixes inject :: bool and k :: nat
  assumes d: "rooted d" and x: "x \<in> set (order d)" and c: "cloneNode x (show_step previous fs d) = (c, d1)"
  defines "e \<equiv> number_copy inject k c d1"
  shows "rooted e" "grows d e" "x \<in> set (order e)" "subtree e x = subtree d x" "c < nextNode e"
    and "length (subtree e c) = length (subtree d x)"
    and "i < length (subtree d x) \<Longrightarrow> cls e (subtree e c ! i) = cls (show_step previous fs d) (subtree d x ! i)"
    and "z < nextNode d \<Longrightarrow> cls e z = cls (show_step previous fs d) z"
    and "set (subtree e c) \<subseteq> {nextNode d ..< nextNode e}"
proof -
  let ?s = "show_step previous fs d"
  have s: "rooted ?s" "x \<in> set (order ?s)" "subtree ?s x = subtree d x" "grows d ?s"
    using d x rooted_cong [of ?s d] subtree_cong [of ?s d] grows_same [of ?s d] by simp_all
  note cl = clone_subtree [OF s(1,2) c] and f = clone_fields [OF c]
  have e: "rooted e = rooted d1" "subtree e y = subtree d1 y" "grows d1 e" for y
    unfolding e_def by (rule rooted_cong subtree_cong grows_same; simp)+
  show "rooted e" unfolding e(1) by (rule rooted_clone [OF s(1,2) c])
  show g: "grows d e" by (rule grows_trans [OF grows_trans [OF s(4) grows_clone [OF s(1,2) c]] e(3)])
  show "x \<in> set (order e)" using x f by (simp add: e_def)
  have xn: "x < nextNode d" by (rule rootedD(2) [OF d x])
  show "subtree e x = subtree d x" by (rule grows_subtree [OF g d xn])
  show "length (subtree e c) = length (subtree d x)" unfolding e(2) cl(1) s(3) by simp
  have "x \<in> set (subtree ?s x)" using s(2) by (simp add: subtree_def in_subtree_def)
  then show "c < nextNode e" using f copied_new(4) [OF s(1)] by (simp add: e_def)
  show "cls e (subtree e c ! i) = cls ?s (subtree d x ! i)" if "i < length (subtree d x)"
    using that cl(2) [of "subtree d x ! i"] unfolding e(2) cl(1) s(3) by (simp add: e_def)
  show "cls e z = cls ?s z" if "z < nextNode d" using that cl(3) by (simp add: e_def)
  show "set (subtree e c) \<subseteq> {nextNode d ..< nextNode e}"
    unfolding e(2) cl(1) using copied_new(3,4) [OF s(1)] f by (auto simp: e_def)
qed

lemma steps_grow:
  assumes "rooted d" "x \<in> set (order d)" "set (concat (map snd gs)) \<union> set previous \<subseteq> {..<nextNode d}"
    "step_copies inject x previous gs d = (cs, d')"
  shows "grows d d' \<and> rooted d' \<and> length cs = length gs \<and>
    (\<forall>z<nextNode d. z \<notin> set (concat (map snd gs)) \<union> set previous \<longrightarrow> cls d' z = cls d z) \<and>
    (\<forall>z<nextNode d. has_class ''visible'' d' z \<longleftrightarrow> z \<in> set (concat (map snd gs)) \<or> has_class ''visible'' d z)"
  using assms
proof (induction gs arbitrary: d previous cs)
  case Nil
  then show ?case by (simp add: grows_same)
next
  case (Cons g gs)
  obtain i fs where g: "g = (i, fs)" by (cases g)
  obtain c d1 where c: "cloneNode x (show_step previous fs d) = (c, d1)" by (cases "cloneNode x (show_step previous fs d)")
  let ?e = "number_copy inject i c d1"
  obtain ds where ds: "step_copies inject x fs gs ?e = (ds, d')" "cs = c # ds"
    using Cons.prems(4) by (auto simp: g c split: prod.splits)
  note st = step_copied [OF Cons.prems(1,2) c, where inject = inject and k = i]
  have n: "nextNode d \<le> nextNode ?e" using st(2) by (simp add: grows_def)
  have b: "set (concat (map snd gs)) \<union> set fs \<subseteq> {..<nextNode ?e}" using Cons.prems(3) n by (fastforce simp: g)
  note IH = Cons.IH [OF st(1) st(3) b ds(1)]
  show ?case
  proof (intro conjI allI impI)
    show "grows d d'" using grows_trans [OF st(2)] IH by blast
    show "rooted d'" "length cs = length (g # gs)" using IH ds(2) by simp_all
    fix z assume z: "z < nextNode d"
    then have ze: "z < nextNode ?e" using n by simp
    show "cls d' z = cls d z" if "z \<notin> set (concat (map snd (g # gs))) \<union> set previous"
    proof -
      have "cls d' z = cls ?e z" using IH ze that by (simp add: g)
      also have "\<dots> = cls d z" unfolding st(8) [OF z] using that by (intro show_step_other) (simp_all add: g)
      finally show ?thesis .
    qed
    have "has_class ''visible'' ?e z = has_class ''visible'' (show_step previous fs d) z" using st(8) [OF z] by (simp add: has_class_def)
    then show "has_class ''visible'' d' z \<longleftrightarrow> z \<in> set (concat (map snd (g # gs))) \<or> has_class ''visible'' d z"
      using IH ze by (auto simp: g show_step_class)
  qed
qed


text \<open>The classes of a copied sheet do not change when the following sheets are copied.\<close>

definition step_visible :: "dom \<Rightarrow> node list list \<Rightarrow> nat \<Rightarrow> node \<Rightarrow> bool" where
  "step_visible d gs k y = (y \<in> set (concat (take (Suc k) gs)) \<or> has_class ''visible'' d y)"

definition step_current :: "dom \<Rightarrow> node list list \<Rightarrow> nat \<Rightarrow> node \<Rightarrow> bool" where
  "step_current d gs k y = (y \<in> set (gs ! k) \<or> has_class ''current-fragment'' d y \<and> y \<notin> set (concat (take k gs)))"

lemma steps_shown:
  assumes "rooted d" "x \<in> set (order d)" "set (concat (map snd gs)) \<union> set previous \<subseteq> {..<nextNode d}"
    "step_copies inject x previous gs d = (cs, d')" "k < length gs"
  shows "map (has_class ''visible'' d') (subtree d' (cs ! k)) = map (step_visible d (map snd gs) k) (subtree d x) \<and>
    map (has_class ''current-fragment'' d') (subtree d' (cs ! k)) =
      map (\<lambda>y. y \<in> set (snd (gs ! k)) \<or>
        has_class ''current-fragment'' d y \<and> y \<notin> set (concat (take k (map snd gs))) \<union> set previous) (subtree d x) \<and>
    (\<forall>z\<in>set (subtree d' (cs ! k)). nextNode d \<le> z)"
  using assms
proof (induction gs arbitrary: d previous cs k)
  case (Cons g gs)
  obtain i fs where g: "g = (i, fs)" by (cases g)
  let ?s = "show_step previous fs d"
  obtain c d1 where c: "cloneNode x ?s = (c, d1)" by (cases "cloneNode x ?s")
  let ?e = "number_copy inject i c d1"
  obtain ds where ds: "step_copies inject x fs gs ?e = (ds, d')" "cs = c # ds"
    using Cons.prems(4) by (auto simp: g c split: prod.splits)
  note st = step_copied [OF Cons.prems(1,2) c, where inject = inject and k = i]
  have n: "nextNode d \<le> nextNode ?e" using st(2) by (simp add: grows_def)
  have b: "set (concat (map snd gs)) \<union> set fs \<subseteq> {..<nextNode ?e}" using Cons.prems(3) n by (fastforce simp: g)
  have S: "y < nextNode d" if "y \<in> set (subtree d x)" for y
    using that rootedD(2) [OF Cons.prems(1)] by (simp add: subtree_def)
  show ?case
  proof (cases k)
    case 0
    note gr = steps_grow [OF st(1) st(3) b ds(1)]
    have sub: "subtree d' c = subtree ?e c" using gr st(1) st(5) by (intro grows_subtree) simp_all
    have old: "cls d' z = cls ?e z" if "z \<in> set (subtree ?e c)" for z
    proof -
      have z: "nextNode d \<le> z" "z < nextNode ?e" using subsetD [OF st(9) that] by simp_all
      have "set (concat (map snd gs)) \<union> set fs \<subseteq> {..<nextNode d}" using Cons.prems(3) by (simp add: g)
      then have "z \<notin> set (concat (map snd gs)) \<union> set fs" using z(1) by (meson lessThan_iff not_le subsetD)
      then show ?thesis using gr z(2) by blast
    qed
    have len: "length (subtree d' c) = length (subtree d x)" using sub st(6) by simp
    have h: "has_class q d' (subtree d' c ! j) = has_class q ?s (subtree d x ! j)" if "j < length (subtree d x)" for q j
      using that st(6,7) sub nth_mem [of j "subtree ?e c"] old by (simp add: has_class_def)
    have "\<forall>z\<in>set (subtree d' c). nextNode d \<le> z" using subsetD [OF st(9)] by (simp add: sub)
    then show ?thesis
      by (intro conjI nth_equalityI;
          simp add: 0 ds(2) len h step_visible_def show_step_class g)
  next
    case (Suc m)
    have m: "m < length gs" using Cons.prems(5) Suc by simp
    have e: "has_class q ?e y = has_class q ?s y" if "y \<in> set (subtree d x)" for q y
      using st(8) [OF S [OF that]] by (simp add: has_class_def)
    note IH = Cons.IH [OF st(1) st(3) b ds(1) m, unfolded st(4)]
    have "step_visible ?e (map snd gs) m y = step_visible d (map snd (g # gs)) k y" if "y \<in> set (subtree d x)" for y
      using e [OF that] by (simp add: step_visible_def show_step_class g Suc disj_ac)
    moreover have "(y \<in> set (snd (gs ! m)) \<or> has_class ''current-fragment'' ?e y \<and> y \<notin> set (concat (take m (map snd gs))) \<union> set fs) =
        (y \<in> set (snd ((g # gs) ! k)) \<or> has_class ''current-fragment'' d y \<and>
          y \<notin> set (concat (take k (map snd (g # gs)))) \<union> set previous)" if "y \<in> set (subtree d x)" for y
      using e [OF that] by (auto simp: show_step_class g Suc)
    moreover have "\<forall>z\<in>set (subtree d' (ds ! m)). nextNode d \<le> z" using IH n by (meson order_trans)
    ultimately show ?thesis using IH by (simp add: Suc ds(2) cong: map_cong)
  qed
qed simp


lemma indexed_groups_are: "map snd (indexed_groups d fs) = fragment_groups d fs"
  by (simp add: indexed_groups_def fragment_groups_def split_beta Let_def)

lemma sort_frame:
  "order (snd (sort_fragments fs d)) = order d" "path (snd (sort_fragments fs d)) = path d"
  "tag (snd (sort_fragments fs d)) = tag d" "cls (snd (sort_fragments fs d)) = cls d"
  "nextNode (snd (sort_fragments fs d)) = nextNode d" "bgOf (snd (sort_fragments fs d)) = bgOf d"
  "bgContentOf (snd (sort_fragments fs d)) = bgContentOf d"
  by (simp_all add: sort_fragments_def Let_def number_groups_frame)

text \<open>C20: Printed with a sheet for every step, a slide gets one copy of its sheet for each group of its
  fragments, in order: the k-th copy shows, element for element, the groups up to the k-th, and marks the
  k-th as the current one; on the sheet itself no fragment of a group is left visible.\<close>

theorem sheets_show_steps:
  assumes d: "rooted d" and x: "x \<in> set (order d)"
  shows "case separate_steps inject x d of (cs, d') \<Rightarrow>
    let gs = fragment_groups d (queryAll d x (has_class ''fragment'' d)) in
      length cs = length gs \<and>
      (\<forall>k<length gs. map (has_class ''visible'' d') (subtree d' (cs ! k)) = map (step_visible d gs k) (subtree d x) \<and>
        map (has_class ''current-fragment'' d') (subtree d' (cs ! k)) = map (step_current d gs k) (subtree d x)) \<and>
      map (has_class ''visible'' d') (subtree d x) = map (\<lambda>y. has_class ''visible'' d y \<and> y \<notin> set (concat gs)) (subtree d x)"
proof -
  let ?fs = "queryAll d x (has_class ''fragment'' d)"
  let ?is = "indexed_groups d ?fs" and ?gs = "fragment_groups d ?fs" and ?d = "snd (sort_fragments ?fs d)"
  obtain cs e where e: "step_copies inject x [] ?is ?d = (cs, e)" by (cases "step_copies inject x [] ?is ?d")
  let ?e = "hide_steps ?is e"
  have sep: "separate_steps inject x d = (cs, ?e)" by (simp add: separate_steps_def Let_def e)
  have r: "rooted ?d" "x \<in> set (order ?d)" using d x rooted_cong [of ?d d] by (simp_all add: sort_frame)
  have sub: "subtree ?d x = subtree d x" by (rule subtree_cong) (simp_all add: sort_frame)
  have gn: "set (concat ?gs) \<subseteq> set ?fs" unfolding set_fragment_groups by blast
  have b: "set (concat (map snd ?is)) \<union> set [] \<subseteq> {..<nextNode ?d}"
    using gn rootedD(2) [OF d] by (auto simp: indexed_groups_are sort_frame queryAll_def dest: subsetD)
  note gr = steps_grow [OF r b e]
  have h: "has_class q ?d = has_class q d" for q by (rule has_class_cong) (simp add: sort_frame)
  have hide: "has_class q ?e y \<longleftrightarrow> has_class q e y \<and> \<not> (q \<in> {''current-fragment'', ''visible''} \<and> y \<in> set (concat ?gs))" for q y
    by (simp add: hide_steps_def has_class_loops indexed_groups_are del: set_concat)
  have he: "order ?e = order e" "path ?e = path e" by (simp_all add: hide_steps_def for_each_frame)
  have old: "y < nextNode ?d" if "y \<in> set (subtree d x)" for y using that rootedD(2) [OF d] by (simp add: subtree_def sort_frame)
  have len: "length cs = length ?gs" using gr by (metis indexed_groups_are length_map)
  have copies: "map (has_class ''visible'' ?e) (subtree ?e (cs ! k)) = map (step_visible d ?gs k) (subtree d x)"
    "map (has_class ''current-fragment'' ?e) (subtree ?e (cs ! k)) = map (step_current d ?gs k) (subtree d x)"
    if k: "k < length ?gs" for k
  proof -
    have ki: "k < length ?is" using k by (metis indexed_groups_are length_map)
    note shown = steps_shown [OF r b e ki]
    have s: "subtree ?e (cs ! k) = subtree e (cs ! k)" by (rule subtree_cong [OF he])
    have "y \<notin> set (concat ?gs)" if y: "y \<in> set (subtree e (cs ! k))" for y
    proof
      assume "y \<in> set (concat ?gs)"
      then have "y < nextNode ?d" using subsetD [OF b, of y] unfolding indexed_groups_are by simp
      moreover have "nextNode ?d \<le> y" using shown y by blast
      ultimately show False by simp
    qed
    then have q: "map (has_class q ?e) (subtree ?e (cs ! k)) = map (has_class q e) (subtree e (cs ! k))" for q
      unfolding s by (intro map_cong refl) (simp only: hide, blast)
    have v: "step_visible ?d (map snd ?is) k y = step_visible d ?gs k y" for y by (simp add: step_visible_def indexed_groups_are h)
    have g: "snd (?is ! k) = ?gs ! k" using ki by (metis indexed_groups_are nth_map)
    show "map (has_class ''visible'' ?e) (subtree ?e (cs ! k)) = map (step_visible d ?gs k) (subtree d x)"
      unfolding q using shown by (simp add: v sub)
    show "map (has_class ''current-fragment'' ?e) (subtree ?e (cs ! k)) = map (step_current d ?gs k) (subtree d x)"
      unfolding q using shown by (simp add: step_current_def [abs_def] sub h g indexed_groups_are)
  qed
  have sheet: "map (has_class ''visible'' ?e) (subtree d x) = map (\<lambda>y. has_class ''visible'' d y \<and> y \<notin> set (concat ?gs)) (subtree d x)"
  proof (rule map_cong [OF refl])
    fix y assume y: "y \<in> set (subtree d x)"
    have "has_class ''visible'' e y \<longleftrightarrow> y \<in> set (concat ?gs) \<or> has_class ''visible'' d y"
      using gr old [OF y] by (simp add: indexed_groups_are h del: set_concat)
    then show "has_class ''visible'' ?e y = (has_class ''visible'' d y \<and> y \<notin> set (concat ?gs))" unfolding hide by blast
  qed
  show ?thesis unfolding sep prod.case Let_def by (intro conjI allI impI len copies sheet)
qed


theorem sheets_show_steps_witness:
  "case separate_steps True 8 sample_dom of (cs, d') \<Rightarrow>
    length cs = 3 \<and> map (has_class ''visible'' d') (subtree d' (cs ! 1)) = [False, True, False, True]"
proof -
  have "list_all (\<lambda>x. set (path sample_dom x) \<subseteq> set (order sample_dom)) (order sample_dom)" "8 \<in> set (order sample_dom)"
    by code_simp+
  then have r: "rooted sample_dom" "8 \<in> set (order sample_dom)" using sample_wf by (simp_all add: rooted_def)
  have g: "fragment_groups sample_dom (queryAll sample_dom 8 (has_class ''fragment'' sample_dom)) = [[11], [9], [10]]"
    "map (step_visible sample_dom [[11], [9], [10]] 1) (subtree sample_dom 8) = [False, True, False, True]"
    by code_simp+
  show ?thesis using sheets_show_steps [OF r, of True] unfolding g(1) by (auto simp: g(2) [unfolded One_nat_def] Let_def split: prod.splits)
qed

end
