(* ===== verification/CodeLines.thy ===== *)
theory CodeLines
  imports Prelude
begin

text \<open>
  \<open>plugin/highlight/plugin.js\<close>: which lines of a code block are highlighted at which step, the trimming
  of code, and scrolling the highlighted lines into view. What \<open>highlight.js\<close> does to the text of a
  block is not modelled. Scroll positions are real numbers.
\<close>

section \<open>Steps as text\<close>

text \<open>A highlight has a start and an end; either is a number or left out (\<open>Undef\<close>). A number that cannot
  be read is \<open>NaN\<close>, which is of type number as well.\<close>

record highlight =
  h_start :: jsnum
  h_end :: jsnum

definition line_number_text :: "string \<Rightarrow> bool" where
  "line_number_text t = (t \<noteq> [] \<and> list_all (\<lambda>c. is_digit c \<or> c = CHR ''-'') t)"

definition read_highlight :: "string \<Rightarrow> highlight" where
  "read_highlight t =
     (if line_number_text t then
       (let parts = split_on (CHR ''-'') t;
            lineStart = parseInt (hd parts);
            lineEnd = (case tl parts of [] \<Rightarrow> NaN | p # _ \<Rightarrow> parseInt p)
        in if lineEnd = NaN then \<lparr>h_start = lineStart, h_end = Undef\<rparr> else \<lparr>h_start = lineStart, h_end = lineEnd\<rparr>)
      else \<lparr>h_start = Undef, h_end = Undef\<rparr>)"

definition deserializeHighlightSteps :: "string \<Rightarrow> highlight list list" where
  "deserializeHighlightSteps t =
     map (\<lambda>highlights. map read_highlight (split_on (CHR '','') highlights))
       (split_on (CHR ''|'') (filter (\<lambda>c. \<not> is_space c) t))"

definition write_highlight :: "highlight \<Rightarrow> string" where
  "write_highlight h =
     (if is_number (h_end h) then show_num (h_start h) @ ''-'' @ show_num (h_end h)
      else if is_number (h_start h) then show_num (h_start h) else [])"

definition serializeHighlightSteps :: "highlight list list \<Rightarrow> string" where
  "serializeHighlightSteps steps =
     join_with ''|'' (map (\<lambda>highlights. join_with '','' (map write_highlight highlights)) steps)"

section \<open>Highlighted rows\<close>

text \<open>
  The rows of the table of lines are counted from one. A range selects by \<open>nth-child(n+a)\<close> and
  \<open>nth-child(-n+b)\<close>; with a bound that is not a number or is negative that is no selector, and the query
  throws. A single line selects by \<open>nth-child(a)\<close>, where only \<open>NaN\<close> is no selector.
\<close>

datatype selector_error = SyntaxError

fun rows_of :: "nat \<Rightarrow> highlight \<Rightarrow> selector_error + nat list" where
  "rows_of n \<lparr>h_start = a, h_end = b\<rparr> =
     (if is_number b then
       (case (a, b) of
          (Num x, Num y) \<Rightarrow>
            if x < 0 \<or> y < 0 then Inl SyntaxError else Inr (filter (\<lambda>k. x \<le> int k \<and> int k \<le> y) [1..<Suc n])
        | _ \<Rightarrow> Inl SyntaxError)
      else if is_number a then
       (case a of
          Num x \<Rightarrow> Inr (filter (\<lambda>k. int k = x) [1..<Suc n])
        | _ \<Rightarrow> Inl SyntaxError)
      else Inr [])"

text \<open>A block of code: whether there is any, its lines, the attributes and class that its steps write, and the rows lit so far.\<close>

record code_block =
  empty_code :: bool
  line_count :: nat
  lines_attr :: "string option"
  step_attr :: "string option"
  is_fragment :: bool
  lit :: "nat list"
  has_highlights :: bool

fun light_all :: "highlight list \<Rightarrow> code_block \<Rightarrow> selector_error option \<times> code_block" where
  "light_all [] b = (None, b)"
| "light_all (h # hs) b =
     (case rows_of (line_count b) h of
        Inl e \<Rightarrow> (Some e, b)
      | Inr rows \<Rightarrow>
          light_all hs (if rows \<noteq> [] then b\<lparr>lit := List.union (lit b) rows, has_highlights := True\<rparr> else b))"

text \<open>Only the first step of the text is lit.\<close>

definition highlightLines :: "string \<Rightarrow> code_block \<Rightarrow> selector_error option \<times> code_block" where
  "highlightLines linesToHighlight b =
     (case deserializeHighlightSteps
         (if linesToHighlight \<noteq> [] then linesToHighlight else (case lines_attr b of Some t \<Rightarrow> t | None \<Rightarrow> [])) of
        [] \<Rightarrow> (None, b)
      | step # _ \<Rightarrow> light_all step b)"

section \<open>Steps as fragments\<close>

text \<open>
  A clone of the block for a step: the block itself, and whose lines scroll into view when the clone
  becomes visible and when it is hidden. Blocks are numbered: the original is 0, the clones follow;
  \<open>lastChild\<close> is what the parent ends with before the first clone is appended.
\<close>

record step_clone =
  clone_block :: code_block
  on_visible :: nat
  on_hidden :: nat

definition fragment_number :: "code_block \<Rightarrow> int option" where
  "fragment_number b = (case step_attr b of
       None \<Rightarrow> None
     | Some t \<Rightarrow> (case parseInt t of Num k \<Rightarrow> Some k | _ \<Rightarrow> None))"

text \<open>When lighting its lines throws, a clone has been appended already, but it has no number of its own
  and no listeners yet; it is kept as the block left behind.\<close>

fun make_clones :: "code_block \<Rightarrow> int option \<Rightarrow> nat \<Rightarrow> nat \<Rightarrow> highlight list list \<Rightarrow>
    (selector_error \<times> code_block) option \<times> step_clone list" where
  "make_clones b ix i previous [] = (None, [])"
| "make_clones b ix i previous (step # steps) =
     (case highlightLines [] (b\<lparr>lines_attr := Some (serializeHighlightSteps [step]), is_fragment := True\<rparr>) of
        (Some e, c) \<Rightarrow> (Some (e, c), [])
      | (None, c) \<Rightarrow>
         (let c1 = c\<lparr>step_attr := map_option show_int ix\<rparr>;
              (e, cs) = make_clones b (map_option (\<lambda>k. k + 1) ix) (Suc i) i steps
          in (e, \<lparr>clone_block = c1, on_visible = i, on_hidden = previous\<rparr> # cs)))"

text \<open>The block after \<open>highlight.js\<close> has numbered its lines. Also reported: whether the first step scrolls into
  view the first time the slide is visible.\<close>

definition highlightBlock :: "nat \<Rightarrow> bool \<Rightarrow> code_block \<Rightarrow>
    (selector_error \<times> code_block) option \<times> code_block \<times> step_clone list \<times> bool" where
  "highlightBlock lastChild in_slide b =
     (if empty_code b \<or> lines_attr b = None then (None, b, [], False)
      else let steps = deserializeHighlightSteps (the (lines_attr b));
          (e, clones) = (if 1 < length steps then make_clones b (fragment_number b) 1 lastChild (tl steps) else (None, []))
      in if e \<noteq> None then (e, b, clones, False)
         else
          (let b1 = (if 1 < length steps
                     then b\<lparr>step_attr := None, lines_attr := Some (serializeHighlightSteps [hd steps])\<rparr> else b);
               (e1, b2) = highlightLines [] b1
           in (map_option (\<lambda>x. (x, b2)) e1, b2, clones, in_slide)))"

section \<open>Scrolling\<close>

text \<open>Time \<open>t\<close> runs from zero to one.\<close>

definition easeInOutQuart :: "real \<Rightarrow> real" where
  "easeInOutQuart t = (if t < 1/2 then 8 * t * t * t * t else 1 - 8 * (t - 1) * (t - 1) * (t - 1) * (t - 1))"

text \<open>What the browser measures of a block; the rows are the highlighted ones, with top and height.\<close>

record block_measures =
  offset_height :: real
  padding_top :: real
  padding_bottom :: real
  scroll_height :: real
  table_top :: "real option"
  lit_rows :: "(real \<times> real) list"

definition getHighlightedLineBounds :: "block_measures \<Rightarrow> real \<times> real" where
  "getHighlightedLineBounds m =
     (if lit_rows m = [] then (0, 0) else (fst (hd (lit_rows m)), fst (last (lit_rows m)) + snd (last (lit_rows m))))"

definition viewport_height :: "block_measures \<Rightarrow> real" where
  "viewport_height m = offset_height m - (padding_top m + padding_bottom m)"

text \<open>The position that centres the highlighted rows, kept inside what can be scrolled.\<close>

definition scroll_target :: "block_measures \<Rightarrow> real" where
  "scroll_target m =
     (let (first, past) = getHighlightedLineBounds m; vh = viewport_height m;
          t = first + (min (past - first) vh - vh) / 2;
          t1 = (case table_top m of Some o1 \<Rightarrow> t + (o1 - padding_top m) | None \<Rightarrow> t)
      in max (min t1 (scroll_height m - vh)) 0)"

text \<open>The positions the animation goes through, one for each frame.\<close>

function scroll_frames :: "real \<Rightarrow> real \<Rightarrow> real \<Rightarrow> real list" where
  "scroll_frames startTop targetTop time =
     (let t = min (time + 2/100) 1
      in (startTop + (targetTop - startTop) * easeInOutQuart t) #
         (if t < 1 then scroll_frames startTop targetTop t else []))"
  by pat_completeness auto
termination
proof (relation "measure (\<lambda>(_, _, t). nat \<lceil>(1 - t) * 50\<rceil>)")
  fix startTop targetTop time t :: real
  assume t: "t = min (time + 2/100) 1" "t < 1"
  then have "(1 - t) * 50 = (1 - time) * 50 - 1" "0 < (1 - t) * 50" by (simp_all add: min_def split: if_splits)
  then show "((startTop, targetTop, t), startTop, targetTop, time) \<in> measure (\<lambda>(_, _, t). nat \<lceil>(1 - t) * 50\<rceil>)"
    by simp linarith
qed simp

declare scroll_frames.simps [simp del]

text \<open>The scroll positions of the blocks, the block shown last, and the frames asked for.\<close>

record scroller =
  scroll_tops :: "nat \<Rightarrow> real"
  current_block :: "nat option"
  pending :: "(nat \<times> real) list"

definition scrollHighlightedLineIntoView :: "nat \<Rightarrow> block_measures \<Rightarrow> bool \<Rightarrow> scroller \<Rightarrow> scroller" where
  "scrollHighlightedLineIntoView block m skipAnimation sc =
     (let tops = (case current_block sc of
            Some c \<Rightarrow> (scroll_tops sc)(block := scroll_tops sc c)
          | None \<Rightarrow> scroll_tops sc);
          startTop = tops block; targetTop = scroll_target m;
          sc1 = sc\<lparr>scroll_tops := tops, current_block := Some block, pending := []\<rparr>
      in if skipAnimation \<or> startTop = targetTop then sc1\<lparr>scroll_tops := tops(block := targetTop)\<rparr>
         else if scroll_height m \<le> viewport_height m then sc1
         else (case scroll_frames startTop targetTop 0 of
                 [] \<Rightarrow> sc1
               | p # ps \<Rightarrow> sc1\<lparr>scroll_tops := tops(block := p), pending := map (Pair block) ps\<rparr>))"

definition scroll_frame :: "scroller \<Rightarrow> scroller" where
  "scroll_frame sc = (case pending sc of
       [] \<Rightarrow> sc
     | (b, p) # ps \<Rightarrow> sc\<lparr>scroll_tops := (scroll_tops sc)(b := p), pending := ps\<rparr>)"

section \<open>Trimming\<close>

definition blank :: "string \<Rightarrow> bool" where
  "blank l = list_all is_space l"

definition trimLineBreaks :: "string \<Rightarrow> string" where
  "trimLineBreaks t =
     join_with [char_of (10 :: nat)] (rev (dropWhile blank (rev (dropWhile blank (split_on (char_of (10 :: nat)) t)))))"

text \<open>The smallest indentation of the lines that are not blank; \<open>None\<close> is infinity.\<close>

definition less_pad :: "nat option \<Rightarrow> string \<Rightarrow> nat option" where
  "less_pad acc l =
     (let rest = dropWhile is_space l; n = length l - length rest
      in if rest \<noteq> [] \<and> (case acc of None \<Rightarrow> True | Some a \<Rightarrow> n < a) then Some n else acc)"

definition betterTrim :: "string \<Rightarrow> string" where
  "betterTrim t =
     (let lines = split_on (char_of (10 :: nat)) (trimLineBreaks t); pad = foldl less_pad None lines
      in join_with [char_of (10 :: nat)] (map (\<lambda>l. case pad of Some n \<Rightarrow> drop n l | None \<Rightarrow> []) lines))"

text \<open>What is done to the markup of a block before it is highlighted: a template inside it takes its place
  as text, and the block is trimmed and escaped as its attributes and the options say. The markup that is
  written is taken to be the markup that is read back.\<close>

record code_source =
  code_html :: string
  template_html :: "string option"
  data_trim :: bool
  data_noescape :: bool

definition escape_chars :: "char set \<Rightarrow> string \<Rightarrow> string" where
  "escape_chars which t = concat (map (\<lambda>c.
     if c \<notin> which then [c] else if c = CHR ''<'' then ''&lt;'' else if c = CHR ''>'' then ''&gt;''
     else if c = CHR ''&'' then ''&amp;'' else [c]) t)"

definition prepare_code :: "bool \<Rightarrow> code_source \<Rightarrow> string" where
  "prepare_code escapeHTML src =
     (let t0 = (case template_html src of Some t \<Rightarrow> escape_chars (set ''<>&'') t | None \<Rightarrow> code_html src);
          t1 = (if data_trim src then betterTrim t0 else t0)
      in if escapeHTML \<and> \<not> data_noescape src then escape_chars (set ''<>'') t1 else t1)"

section \<open>Reading back what was written\<close>

definition highlight_ok :: "highlight \<Rightarrow> bool" where
  "highlight_ok h = (case (h_start h, h_end h) of
       (Undef, Undef) \<Rightarrow> True
     | (Num a, Undef) \<Rightarrow> 0 \<le> a
     | (Num a, Num b) \<Rightarrow> 0 \<le> a \<and> 0 \<le> b
     | _ \<Rightarrow> False)"

lemma highlight_ok_cases:
  assumes "highlight_ok h"
  obtains "h = \<lparr>h_start = Undef, h_end = Undef\<rparr>"
  | a where "h = \<lparr>h_start = Num (int a), h_end = Undef\<rparr>"
  | a b where "h = \<lparr>h_start = Num (int a), h_end = Num (int b)\<rparr>"
proof (cases h)
  case (fields a b)
  then show ?thesis using that assms by (cases a; cases b) (auto simp: highlight_ok_def, (metis nonneg_int_cases)+)
qed

lemma split_on_join_with: "xs \<noteq> [] \<Longrightarrow> \<forall>x\<in>set xs. c \<notin> set x \<Longrightarrow> split_on c (join_with [c] xs) = xs"
proof (induction xs)
  case (Cons x xs)
  then show ?case by (cases xs) (simp_all add: split_on_append)
qed simp

lemma show_nat_chars: "c \<in> set (show_nat n) \<Longrightarrow> is_digit c \<and> c \<notin> {CHR ''-'', CHR '','', CHR ''|''} \<and> \<not> is_space c"
  using show_nat_digits [of c n] by (auto simp: is_digit_def is_space_def)

lemma show_int_nat [simp]: "show_int (int n) = show_nat n"
  by (simp add: show_int_def)

lemma read_write_highlight: "highlight_ok h \<Longrightarrow> read_highlight (write_highlight h) = h"
proof (erule highlight_ok_cases)
  assume "h = \<lparr>h_start = Undef, h_end = Undef\<rparr>"
  then show ?thesis by (simp add: write_highlight_def is_number_def read_highlight_def line_number_text_def)
next
  fix a assume h: "h = \<lparr>h_start = Num (int a), h_end = Undef\<rparr>"
  have "split_on (CHR ''-'') (show_nat a) = [show_nat a]" using show_nat_chars by (intro split_on_notin) blast
  moreover have "line_number_text (show_nat a)" using show_nat_chars by (auto simp: line_number_text_def list_all_iff)
  ultimately show ?thesis by (simp add: h write_highlight_def is_number_def read_highlight_def)
next
  fix a b assume h: "h = \<lparr>h_start = Num (int a), h_end = Num (int b)\<rparr>"
  have n: "CHR ''-'' \<notin> set (show_nat k)" for k using show_nat_chars by blast
  then have "split_on (CHR ''-'') (show_nat a @ ''-'' @ show_nat b) = [show_nat a, show_nat b]"
    by (simp add: split_on_append)
  moreover have "line_number_text (show_nat a @ ''-'' @ show_nat b)"
    using show_nat_chars by (auto simp: line_number_text_def list_all_iff)
  ultimately show ?thesis by (simp add: h write_highlight_def is_number_def read_highlight_def Let_def)
qed

lemma write_highlight_chars:
  assumes "highlight_ok h" "c \<in> set (write_highlight h)"
  shows "c \<noteq> CHR '',''" "c \<noteq> CHR ''|''" "\<not> is_space c"
proof -
  have "c \<noteq> CHR '','' \<and> c \<noteq> CHR ''|'' \<and> \<not> is_space c"
    using assms by (cases rule: highlight_ok_cases [OF assms(1)])
      (auto simp: write_highlight_def is_number_def is_space_def dest!: show_nat_chars)
  then show "c \<noteq> CHR '',''" "c \<noteq> CHR ''|''" "\<not> is_space c" by simp_all
qed

lemma delimiters_not_space [simp]: "\<not> is_space (CHR '','')" "\<not> is_space (CHR ''|'')"
  by (simp_all add: is_space_def)

lemma set_join_with: "c \<in> set (join_with sep xs) \<Longrightarrow> c \<in> set sep \<or> (\<exists>x\<in>set xs. c \<in> set x)"
  by (induction sep xs rule: join_with.induct) auto

lemma steps_read_back:
  assumes "steps \<noteq> []" "\<forall>hs\<in>set steps. hs \<noteq> [] \<and> (\<forall>h\<in>set hs. highlight_ok h)"
  shows "deserializeHighlightSteps (serializeHighlightSteps steps) = steps"
proof -
  let ?w = "\<lambda>hs. join_with '','' (map write_highlight hs)"
  have inner: "\<not> is_space c \<and> c \<noteq> CHR ''|''" if hs: "hs \<in> set steps" and c: "c \<in> set (?w hs)" for hs c
    using set_join_with [OF c]
  proof
    assume "\<exists>x\<in>set (map write_highlight hs). c \<in> set x"
    then obtain h where h: "h \<in> set hs" "c \<in> set (write_highlight h)" by auto
    then have "highlight_ok h" using assms(2) hs by blast
    then show ?thesis using write_highlight_chars(2,3) h(2) by blast
  qed simp
  have "\<not> is_space c" if c: "c \<in> set (serializeHighlightSteps steps)" for c
    using set_join_with [OF c [unfolded serializeHighlightSteps_def]]
  proof
    assume "\<exists>x\<in>set (map ?w steps). c \<in> set x"
    then show ?thesis using inner by auto
  qed simp
  then have f: "filter (\<lambda>c. \<not> is_space c) (serializeHighlightSteps steps) = serializeHighlightSteps steps"
    by (simp add: filter_id_conv)
  have "split_on (CHR ''|'') (serializeHighlightSteps steps) = map ?w steps"
    unfolding serializeHighlightSteps_def using assms(1) inner by (intro split_on_join_with) auto
  moreover have "map read_highlight (split_on (CHR '','') (?w hs)) = hs" if "hs \<in> set steps" for hs
  proof -
    have ok: "hs \<noteq> []" "\<forall>h\<in>set hs. highlight_ok h" using assms(2) that by auto
    then have "split_on (CHR '','') (?w hs) = map write_highlight hs"
      using write_highlight_chars by (intro split_on_join_with) auto
    moreover have "map (read_highlight \<circ> write_highlight) hs = hs"
      using ok by (intro map_idI) (simp add: read_write_highlight)
    ultimately show ?thesis by simp
  qed
  ultimately show ?thesis by (simp add: deserializeHighlightSteps_def f map_idI)
qed

text \<open>C30: Highlight steps written into the document are read back as they were: a sequence of steps, each of
  lines, ranges of lines and empty highlights.\<close>

theorem highlight_round_trip:
  assumes "steps \<noteq> []" "\<forall>hs\<in>set steps. hs \<noteq> [] \<and> (\<forall>h\<in>set hs. highlight_ok h)"
  shows "deserializeHighlightSteps (serializeHighlightSteps steps) = steps"
  by (rule steps_read_back [OF assms])

theorem highlight_round_trip_witness:
  "deserializeHighlightSteps (serializeHighlightSteps [[\<lparr>h_start = Num 3, h_end = Undef\<rparr>, \<lparr>h_start = Num 5, h_end = Num 10\<rparr>],
     [\<lparr>h_start = Undef, h_end = Undef\<rparr>]]) =
   [[\<lparr>h_start = Num 3, h_end = Undef\<rparr>, \<lparr>h_start = Num 5, h_end = Num 10\<rparr>], [\<lparr>h_start = Undef, h_end = Undef\<rparr>]]"
  by (rule highlight_round_trip) (simp_all add: highlight_ok_def)

section \<open>Scrolling comes to rest\<close>

lemma ease_end [simp]: "easeInOutQuart 1 = 1"
  by (simp add: easeInOutQuart_def)

lemma ease_bounds:
  assumes "0 \<le> t" "t \<le> 1"
  shows "0 \<le> easeInOutQuart t" "easeInOutQuart t \<le> 1"
proof -
  have q: "8 * x * x * x * x \<le> 1/2" if "0 \<le> x" "x \<le> 1/2" for x :: real
  proof -
    have "x * x \<le> 1/2 * (1/2)" using that by (intro mult_mono) simp_all
    then have "(x * x) * (x * x) \<le> 1/4 * (1/4)" by (intro mult_mono) simp_all
    then show ?thesis by simp
  qed
  have "8 * (t - 1) * (t - 1) * (t - 1) * (t - 1) = 8 * (1 - t) * (1 - t) * (1 - t) * (1 - t)" by algebra
  moreover have "0 \<le> 8 * (1 - t) * (1 - t) * (1 - t) * (1 - t)" using assms(2) by simp
  moreover have "t < 1/2 \<Longrightarrow> 8 * t * t * t * t \<le> 1" "\<not> t < 1/2 \<Longrightarrow> 8 * (1 - t) * (1 - t) * (1 - t) * (1 - t) \<le> 1"
    using assms q [of t] q [of "1 - t"] by linarith+
  ultimately show "0 \<le> easeInOutQuart t" "easeInOutQuart t \<le> 1"
    using assms(1) by (simp_all only: easeInOutQuart_def split: if_split) simp_all
qed

lemma scroll_frames_between:
  "p \<in> set (scroll_frames a b time) \<Longrightarrow> 0 \<le> time \<Longrightarrow> min a b \<le> p \<and> p \<le> max a b"
proof (induction a b time rule: scroll_frames.induct)
  case (1 a b time)
  let ?t = "min (time + 2/100) 1"
  have t: "0 \<le> ?t" "?t \<le> 1" using "1.prems"(2) by simp_all
  have "min a b \<le> a + (b - a) * easeInOutQuart ?t \<and> a + (b - a) * easeInOutQuart ?t \<le> max a b"
  proof (cases "a \<le> b")
    case True
    then have "0 \<le> (b - a) * easeInOutQuart ?t" "(b - a) * easeInOutQuart ?t \<le> b - a"
      using ease_bounds [OF t] by (simp_all add: mult_left_le)
    then show ?thesis using True by (simp add: min_def max_def)
  next
    case False
    then have "0 \<le> (a - b) * easeInOutQuart ?t" "(a - b) * easeInOutQuart ?t \<le> a - b"
      using ease_bounds [OF t] by (simp_all add: mult_left_le)
    then show ?thesis using False by (simp add: min_def max_def algebra_simps)
  qed
  then show ?case using "1.prems" "1.IH" [OF refl] t(1) by (subst (asm) scroll_frames.simps) (auto simp: Let_def split: if_splits)
qed

lemma scroll_frames_steps:
  "k < 50 \<Longrightarrow> length (scroll_frames a b (k / 50)) = 50 - k \<and> last (scroll_frames a b (k / 50)) = b"
proof (induction "49 - k" arbitrary: k)
  case 0
  then have "k = 49" by simp
  then show ?case by (subst (1 2) scroll_frames.simps) simp
next
  case (Suc n)
  have e: "min (real k / 50 + 2 / 100) 1 = real (Suc k) / 50" using Suc by (simp add: field_simps)
  have "length (scroll_frames a b (real (Suc k) / 50)) = 50 - Suc k \<and> last (scroll_frames a b (real (Suc k) / 50)) = b"
    using Suc by (intro Suc.hyps(1)) simp_all
  moreover have "real (Suc k) / 50 < 1" using Suc by simp
  moreover have "scroll_frames a b (real k / 50) = (a + (b - a) * easeInOutQuart (real (Suc k) / 50)) # scroll_frames a b (real (Suc k) / 50)"
    using calculation(2) by (subst scroll_frames.simps) (simp only: e Let_def if_True)
  ultimately show ?case using Suc by auto
qed

lemma frames_run:
  "pending sc = map (Pair b) ps \<Longrightarrow> length ps \<le> n \<Longrightarrow>
    pending ((scroll_frame ^^ n) sc) = [] \<and> scroll_tops ((scroll_frame ^^ n) sc) b = last (scroll_tops sc b # ps)"
proof (induction n arbitrary: sc ps)
  case (Suc n)
  show ?case
  proof (cases ps)
    case Nil
    then have "scroll_frame sc = sc" using Suc.prems by (simp add: scroll_frame_def)
    then show ?thesis using Suc.IH [of sc ps] Suc.prems Nil by (simp add: funpow_Suc_right del: funpow.simps)
  next
    case (Cons p qs)
    then have "pending (scroll_frame sc) = map (Pair b) qs" "scroll_tops (scroll_frame sc) b = p"
      using Suc.prems by (simp_all add: scroll_frame_def)
    then show ?thesis using Suc.IH [of "scroll_frame sc" qs] Suc.prems Cons by (simp add: funpow_Suc_right del: funpow.simps)
  qed
qed simp



section \<open>What trimming does\<close>

abbreviation newline :: char where
  "newline \<equiv> char_of (10 :: nat)"

definition indentation :: "string \<Rightarrow> nat" where
  "indentation l = length (takeWhile is_space l)"

lemma less_pad_eq: "less_pad acc l =
    (if blank l then acc else Some (case acc of None \<Rightarrow> indentation l | Some a \<Rightarrow> min a (indentation l)))"
proof -
  have "length l - length (dropWhile is_space l) = indentation l"
    unfolding indentation_def by (metis add_diff_cancel_right' length_append takeWhile_dropWhile_id)
  moreover have "dropWhile is_space l = [] \<longleftrightarrow> blank l" by (simp add: blank_def list_all_iff dropWhile_eq_Nil_conv)
  ultimately show ?thesis by (auto simp: less_pad_def Let_def min_def split: option.split)
qed

lemma pad_le:
  "foldl less_pad acc ls = Some n \<Longrightarrow> (\<forall>l\<in>set ls. \<not> blank l \<longrightarrow> n \<le> indentation l) \<and> (\<forall>a. acc = Some a \<longrightarrow> n \<le> a)"
proof (induction ls arbitrary: acc)
  case (Cons l ls)
  then have "foldl less_pad (less_pad acc l) ls = Some n" by simp
  from Cons.IH [OF this] show ?case by (cases "blank l"; cases acc) (auto simp: less_pad_eq)
qed simp

lemma pad_reached:
  "foldl less_pad acc ls = Some n \<Longrightarrow> acc = Some n \<or> (\<exists>l\<in>set ls. \<not> blank l \<and> indentation l = n)"
proof (induction ls arbitrary: acc)
  case (Cons l ls)
  then have "less_pad acc l = Some n \<or> (\<exists>l\<in>set ls. \<not> blank l \<and> indentation l = n)" by simp
  then show ?case by (auto simp: less_pad_eq min_def split: if_splits option.splits)
qed simp

lemma pad_Some: "acc \<noteq> None \<or> (\<exists>l\<in>set ls. \<not> blank l) \<Longrightarrow> foldl less_pad acc ls \<noteq> None"
proof (induction ls arbitrary: acc)
  case (Cons l ls)
  have "less_pad acc l \<noteq> None \<or> (\<exists>l\<in>set ls. \<not> blank l)" using Cons.prems by (auto simp: less_pad_eq)
  then show ?case using Cons.IH by simp
qed simp

lemma split_on_pieces: "x \<in> set (split_on c s) \<Longrightarrow> c \<notin> set x"
proof (induction s arbitrary: x)
  case (Cons a s)
  then show ?case by (auto split: if_splits list.splits)
qed simp

lemma take_indent: "n \<le> indentation l \<Longrightarrow> list_all is_space (take n l)"
proof -
  assume "n \<le> indentation l"
  then have "take n l = take n (takeWhile is_space l)"
    by (metis indentation_def min.absorb1 take_take takeWhile_eq_take)
  then show ?thesis by (auto simp: list_all_iff dest: in_set_takeD set_takeWhileD)
qed

lemma drop_indent: "\<not> blank l \<Longrightarrow> drop (indentation l) l \<noteq> [] \<and> \<not> is_space (hd (drop (indentation l) l))"
proof -
  assume "\<not> blank l"
  then have "dropWhile is_space l \<noteq> []" by (simp add: blank_def list_all_iff dropWhile_eq_Nil_conv)
  then show ?thesis using hd_dropWhile [of is_space l] by (simp add: indentation_def dropWhile_eq_drop)
qed

lemma trimmed_lines:
  fixes L :: "string list"
  assumes "\<exists>l\<in>set L. \<not> blank l"
  defines "ls \<equiv> rev (dropWhile blank (rev (dropWhile blank L)))"
  shows "ls \<noteq> []" "\<not> blank (hd ls)" "\<not> blank (last ls)" "set ls \<subseteq> set L"
    and "\<exists>us vs. L = us @ ls @ vs \<and> list_all blank (us @ vs)"
proof -
  let ?M = "dropWhile blank L"
  have ne: "?M \<noteq> []" using assms(1) by (auto simp: dropWhile_eq_Nil_conv)
  note M = ne hd_dropWhile [OF ne]
  have "\<exists>l\<in>set (rev ?M). \<not> blank l" by (rule bexI [where x = "hd ?M"]) (simp_all add: M(2) hd_in_set [OF ne] del: set_dropWhileD)
  then have ne': "dropWhile blank (rev ?M) \<noteq> []" unfolding dropWhile_eq_Nil_conv by blast
  note R = ne' hd_dropWhile [OF ne']
  show "ls \<noteq> []" "\<not> blank (last ls)" using R by (simp_all add: ls_def last_rev)
  have mv: "?M = ls @ rev (takeWhile blank (rev ?M))"
    by (simp add: ls_def flip: rev_append)
  then show "\<not> blank (hd ls)" using M(2) \<open>ls \<noteq> []\<close> by (metis hd_append2)
  have L: "L = takeWhile blank L @ ls @ rev (takeWhile blank (rev ?M))" using mv takeWhile_dropWhile_id [of blank L] by simp
  then show "set ls \<subseteq> set L" by (metis Un_iff set_append subsetI)
  show "\<exists>us vs. L = us @ ls @ vs \<and> list_all blank (us @ vs)"
    using L by (intro exI conjI) (auto simp: list_all_iff dest: set_takeWhileD)
qed

text \<open>C32: Trimming a code block takes off the blank lines around it and from every line the same
  indentation: of the lines that are not blank only white space is lost, and one of them starts at the
  margin afterwards.\<close>

theorem better_trim_unindents:
  assumes "\<exists>l\<in>set (split_on newline t). \<not> blank l"
  shows "\<exists>n us ls vs. split_on newline t = us @ ls @ vs \<and> list_all blank (us @ vs) \<and>
    split_on newline (betterTrim t) = map (drop n) ls \<and> \<not> blank (hd ls) \<and> \<not> blank (last ls) \<and>
    (\<forall>l\<in>set ls. \<not> blank l \<longrightarrow> list_all is_space (take n l)) \<and>
    (\<exists>l\<in>set ls. drop n l \<noteq> [] \<and> \<not> is_space (hd (drop n l)))"
proof -
  let ?L = "split_on newline t"
  let ?ls = "rev (dropWhile blank (rev (dropWhile blank ?L)))"
  note tr = trimmed_lines [OF assms]
  have pieces: "\<forall>l\<in>set ?ls. newline \<notin> set l" using tr(4) split_on_pieces by blast
  then have lines: "split_on newline (trimLineBreaks t) = ?ls"
    unfolding trimLineBreaks_def using tr(1) by (intro split_on_join_with) auto
  obtain l where l: "l \<in> set ?ls" "\<not> blank l" using tr(1,2) hd_in_set by blast
  then obtain n where n: "foldl less_pad None ?ls = Some n" using pad_Some [of None ?ls] by blast
  have b: "betterTrim t = join_with [newline] (map (drop n) ?ls)" by (simp add: betterTrim_def Let_def lines n)
  have "split_on newline (betterTrim t) = map (drop n) ?ls"
    unfolding b using tr(1) pieces by (intro split_on_join_with) (auto dest: in_set_dropD)
  moreover have "\<forall>l\<in>set ?ls. \<not> blank l \<longrightarrow> list_all is_space (take n l)"
    using pad_le [OF n] take_indent by blast
  moreover have "\<exists>l\<in>set ?ls. drop n l \<noteq> [] \<and> \<not> is_space (hd (drop n l))"
    using pad_reached [OF n] drop_indent by blast
  ultimately show ?thesis using tr(2,3,5) by blast
qed

theorem better_trim_unindents_witness:
  "\<exists>n us ls vs. split_on newline (newline # ''  if x'' @ newline # ''    y'') = us @ ls @ vs \<and>
    list_all blank (us @ vs) \<and> \<not> blank (hd ls)"
proof -
  have "split_on newline (newline # ''  if x'' @ newline # ''    y'') = [[], ''  if x'', ''    y'']" by (simp add: char_of_def)
  then have "\<exists>l\<in>set (split_on newline (newline # ''  if x'' @ newline # ''    y'')). \<not> blank l"
    by (simp add: blank_def is_space_def)
  from better_trim_unindents [OF this] show ?thesis by blast
qed

section \<open>The lines of a step\<close>

definition covers :: "highlight \<Rightarrow> nat \<Rightarrow> bool" where
  "covers h k = (case (h_start h, h_end h) of
       (Num a, Num b) \<Rightarrow> a \<le> int k \<and> int k \<le> b
     | (Num a, Undef) \<Rightarrow> int k = a
     | _ \<Rightarrow> False)"

definition step_rows :: "nat \<Rightarrow> highlight list \<Rightarrow> nat set" where
  "step_rows n hs = {k. 1 \<le> k \<and> k \<le> n \<and> (\<exists>h\<in>set hs. covers h k)}"

lemma rows_of_ok:
  assumes "highlight_ok h"
  shows "\<exists>rows. rows_of n h = Inr rows \<and> set rows = {k. 1 \<le> k \<and> k \<le> n \<and> covers h k}"
  by (cases rule: highlight_ok_cases [OF assms]) (auto simp: is_number_def covers_def)

lemma light_all_ok:
  assumes "\<forall>h\<in>set hs. highlight_ok h"
  shows "\<exists>c. light_all hs b = (None, c) \<and> set (lit c) = set (lit b) \<union> step_rows (line_count b) hs \<and>
    lines_attr c = lines_attr b \<and> step_attr c = step_attr b \<and> is_fragment c = is_fragment b \<and> line_count c = line_count b"
  using assms
proof (induction hs arbitrary: b)
  case (Cons h hs)
  obtain rows where r: "rows_of (line_count b) h = Inr rows" "set rows = {k. 1 \<le> k \<and> k \<le> line_count b \<and> covers h k}"
    using rows_of_ok Cons.prems by (meson list.set_intros(1))
  let ?b = "if rows \<noteq> [] then b\<lparr>lit := List.union (lit b) rows, has_highlights := True\<rparr> else b"
  have b: "set (lit ?b) = set (lit b) \<union> set rows" "lines_attr ?b = lines_attr b" "step_attr ?b = step_attr b"
    "is_fragment ?b = is_fragment b" "line_count ?b = line_count b" by simp_all
  obtain c where "light_all hs ?b = (None, c)" "set (lit c) = set (lit ?b) \<union> step_rows (line_count ?b) hs"
    "lines_attr c = lines_attr ?b" "step_attr c = step_attr ?b" "is_fragment c = is_fragment ?b" "line_count c = line_count ?b"
    using Cons.IH [of ?b] Cons.prems by auto
  moreover have "step_rows n (h # hs) = {k. 1 \<le> k \<and> k \<le> n \<and> covers h k} \<union> step_rows n hs" for n
    by (auto simp: step_rows_def)
  ultimately show ?case using r b by (simp add: Un_assoc)
qed (simp add: step_rows_def)

definition step_ok :: "highlight list \<Rightarrow> bool" where
  "step_ok hs = (hs \<noteq> [] \<and> list_all highlight_ok hs)"

lemma step_round_trip:
  "step_ok hs \<Longrightarrow> deserializeHighlightSteps (serializeHighlightSteps [hs]) = [hs]"
  "steps \<noteq> [] \<Longrightarrow> list_all step_ok steps \<Longrightarrow> deserializeHighlightSteps (serializeHighlightSteps steps) = steps"
  by (rule steps_read_back; simp add: step_ok_def list_all_iff)+

lemma light_step:
  assumes "step_ok hs" "lines_attr b = Some (serializeHighlightSteps [hs])" "lit b = []"
  obtains c where "highlightLines [] b = (None, c)" "set (lit c) = step_rows (line_count b) hs"
    "lines_attr c = lines_attr b" "step_attr c = step_attr b" "is_fragment c = is_fragment b"
proof -
  have "highlightLines [] b = light_all hs b" using assms(1,2) by (simp add: highlightLines_def step_round_trip)
  then show ?thesis using that light_all_ok [of hs b] assms(1,3) by (auto simp: step_ok_def list_all_iff)
qed

lemma clones_ok:
  assumes "list_all step_ok steps" "lit b = []"
  shows "\<exists>cs. make_clones b ix i previous steps = (None, cs) \<and> length cs = length steps \<and>
    (\<forall>j<length steps. let c = cs ! j; d = clone_block c in
       set (lit d) = step_rows (line_count b) (steps ! j) \<and> is_fragment d \<and>
       step_attr d = map_option (\<lambda>k. show_int (k + int j)) ix \<and>
       on_visible c = i + j \<and> on_hidden c = (if j = 0 then previous else i + j - 1))"
  using assms(1)
proof (induction steps arbitrary: ix i previous)
  case (Cons step steps)
  obtain c where c: "highlightLines [] (b\<lparr>lines_attr := Some (serializeHighlightSteps [step]), is_fragment := True\<rparr>) = (None, c)"
    "set (lit c) = step_rows (line_count b) step" "is_fragment c"
    using light_step [of step "b\<lparr>lines_attr := Some (serializeHighlightSteps [step]), is_fragment := True\<rparr>"] Cons.prems assms(2)
    by auto
  obtain cs where cs: "make_clones b (map_option (\<lambda>k. k + 1) ix) (Suc i) i steps = (None, cs)" "length cs = length steps"
    "\<forall>j<length steps. let c = cs ! j; d = clone_block c in
       set (lit d) = step_rows (line_count b) (steps ! j) \<and> is_fragment d \<and>
       step_attr d = map_option (\<lambda>k. show_int (k + int j)) (map_option (\<lambda>k. k + 1) ix) \<and>
       on_visible c = Suc i + j \<and> on_hidden c = (if j = 0 then i else Suc i + j - 1)"
    using Cons.IH [of "map_option (\<lambda>k. k + 1) ix" "Suc i" i] Cons.prems by auto
  show ?case
  proof (intro exI conjI allI impI)
    show "make_clones b ix i previous (step # steps) =
        (None, \<lparr>clone_block = c\<lparr>step_attr := map_option show_int ix\<rparr>, on_visible = i, on_hidden = previous\<rparr> # cs)"
      by (simp add: c cs(1))
    fix j assume "j < length (step # steps)"
    then show "let c = (\<lparr>clone_block = c\<lparr>step_attr := map_option show_int ix\<rparr>, on_visible = i, on_hidden = previous\<rparr> # cs) ! j; d = clone_block c in
       set (lit d) = step_rows (line_count b) ((step # steps) ! j) \<and> is_fragment d \<and>
       step_attr d = map_option (\<lambda>k. show_int (k + int j)) ix \<and>
       on_visible c = i + j \<and> on_hidden c = (if j = 0 then previous else i + j - 1)"
    proof (cases j)
      case 0
      then show ?thesis by (simp add: c)
    next
      case (Suc m)
      then have "m < length steps" using \<open>j < _\<close> by simp
      from cs(3) [rule_format, OF this] show ?thesis
        by (cases ix) (simp_all add: Suc Let_def algebra_simps)
    qed
  qed (simp add: cs(2))
qed simp

text \<open>C21: A code block with several highlight steps becomes one block for each: the block itself lights the
  lines of the first step, and the fragment made for each further step lights exactly the lines of that
  step, numbered on from the block's own fragment index. Stepping back scrolls to the block before it.\<close>

theorem steps_become_fragments:
  assumes "list_all step_ok steps" "1 < length steps" "lit b = []" "\<not> empty_code b"
    "lines_attr b = Some (serializeHighlightSteps steps)"
  shows "\<exists>b' cs. highlightBlock 0 s b = (None, b', cs, s) \<and>
    set (lit b') = step_rows (line_count b) (hd steps) \<and> length cs = length steps - 1 \<and>
    (\<forall>j<length cs. set (lit (clone_block (cs ! j))) = step_rows (line_count b) (steps ! Suc j) \<and>
       is_fragment (clone_block (cs ! j)) \<and>
       step_attr (clone_block (cs ! j)) = map_option (\<lambda>k. show_int (k + int j)) (fragment_number b) \<and>
       on_visible (cs ! j) = Suc j \<and> on_hidden (cs ! j) = j)"
proof -
  obtain x xs where st: "steps = x # xs" "xs \<noteq> []" using assms(2) by (cases steps) auto
  have d: "deserializeHighlightSteps (serializeHighlightSteps steps) = steps"
    using step_round_trip(2) assms(1) st by blast
  obtain cs where cs: "make_clones b (fragment_number b) 1 0 xs = (None, cs)" "length cs = length xs"
    "\<forall>j<length xs. let c = cs ! j; d = clone_block c in
       set (lit d) = step_rows (line_count b) (xs ! j) \<and> is_fragment d \<and>
       step_attr d = map_option (\<lambda>k. show_int (k + int j)) (fragment_number b) \<and>
       on_visible c = 1 + j \<and> on_hidden c = (if j = 0 then 0 else 1 + j - 1)"
    using clones_ok [of xs b "fragment_number b" 1 0] assms st by auto
  let ?b1 = "b\<lparr>step_attr := None, lines_attr := Some (serializeHighlightSteps [x])\<rparr>"
  obtain b' where b': "highlightLines [] ?b1 = (None, b')" "set (lit b') = step_rows (line_count b) x"
    using light_step [of x ?b1] assms(1,3) st by auto
  have "highlightBlock 0 s b = (None, b', cs, s)"
    unfolding highlightBlock_def assms(5) option.sel d using st assms(4) by (simp add: Let_def cs(1) [unfolded One_nat_def] b'(1))
  then show ?thesis using cs(2,3) b'(2) st by (auto simp: Let_def)
qed

theorem steps_become_fragments_witness:
  "\<exists>b' cs. highlightBlock 0 True \<lparr>empty_code = False, line_count = 4,
      lines_attr = Some (serializeHighlightSteps [[\<lparr>h_start = Num 1, h_end = Undef\<rparr>], [\<lparr>h_start = Num 2, h_end = Num 3\<rparr>]]),
      step_attr = Some ''5'', is_fragment = False, lit = [], has_highlights = False\<rparr> = (None, b', cs, True) \<and> length cs = 1"
proof -
  have "list_all step_ok [[\<lparr>h_start = Num 1, h_end = Undef\<rparr>], [\<lparr>h_start = Num 2, h_end = Num 3\<rparr>]]"
    by (simp add: step_ok_def highlight_ok_def)
  from steps_become_fragments [OF this, of "\<lparr>empty_code = False, line_count = 4,
      lines_attr = Some (serializeHighlightSteps [[\<lparr>h_start = Num 1, h_end = Undef\<rparr>], [\<lparr>h_start = Num 2, h_end = Num 3\<rparr>]]),
      step_attr = Some ''5'', is_fragment = False, lit = [], has_highlights = False\<rparr>" True]
  show ?thesis by auto
qed

end
