(* ===== verification/Markdown.thy ===== *)
theory Markdown
  imports Uri
begin

text \<open>
  \<open>plugin/markdown/plugin.js\<close>: splitting a Markdown document into slides. The separators are regular
  expressions of the author, so the matching is a parameter: \<open>exec\<close> gives, for the position to search from,
  where the next match starts and where it ends. \<open>marked\<close>, which turns Markdown into HTML, is a parameter
  as well. The matcher of the default separator is written out.
\<close>

section \<open>Markdown and attributes of a section\<close>

text \<open>A global replacement of an optional line break and \<open>n\<close> times a character by a line break.\<close>

function unindent :: "char \<Rightarrow> nat \<Rightarrow> string \<Rightarrow> string" where
  "unindent c n [] = []"
| "unindent c n (x # xs) =
     (if n \<noteq> 0 \<and> starts_with (CHR 0x0A # replicate n c) (x # xs) then CHR 0x0A # unindent c n (drop n xs)
      else if n \<noteq> 0 \<and> starts_with (replicate n c) (x # xs) then CHR 0x0A # unindent c n (drop (n - 1) xs)
      else x # unindent c n xs)"
  by pat_completeness auto
termination by (relation "measure (\<lambda>(_, _, s). length s)") auto

definition leading :: "(char \<Rightarrow> bool) \<Rightarrow> string \<Rightarrow> nat" where
  "leading p t = length (takeWhile p (case t of c # cs \<Rightarrow> if c = CHR 0x0A then cs else t | [] \<Rightarrow> []))"

fun replace_all :: "string \<Rightarrow> string \<Rightarrow> string \<Rightarrow> string" where
  "replace_all pat new [] = []"
| "replace_all pat new (c # cs) =
     (if pat \<noteq> [] \<and> starts_with pat (c # cs) then new @ replace_all pat new (drop (length pat - 1) cs)
      else c # replace_all pat new cs)"

definition getMarkdownFromSlide :: "string \<Rightarrow> string" where
  "getMarkdownFromSlide content =
     (let text = replace_all ''__SCRIPT_END__'' ''</script>'' content;
          leadingWs = leading is_space text; leadingTabs = leading (\<lambda>c. c = CHR 0x09) text
      in if 0 < leadingTabs then unindent (CHR 0x09) leadingTabs text
         else if 1 < leadingWs then unindent (CHR '' '') leadingWs text
         else text)"

definition markdown_attribute :: "string \<Rightarrow> bool" where
  "markdown_attribute name = list_ex (\<lambda>w. contains_str (''data-'' @ w) (map to_lower name))
     [''markdown'', ''separator'', ''vertical'', ''notes'']"

definition getForwardedAttributes :: "(string \<times> string) list \<Rightarrow> string" where
  "getForwardedAttributes attributes =
     join_with '' '' (map (\<lambda>(name, v). if v \<noteq> [] then name @ ''='' @ [CHR 0x22] @ v @ [CHR 0x22] else name)
       (filter (\<lambda>(name, v). \<not> markdown_attribute name) attributes))"

section \<open>Splitting into slides\<close>

text \<open>What is stacked up: a slide, or a vertical stack of slides.\<close>

datatype entry = Single string | Vertical "string list"

fun push_last :: "string \<Rightarrow> entry list \<Rightarrow> entry list option" where
  "push_last c [] = None"
| "push_last c [Single t] = None"
| "push_last c [Vertical ts] = Some [Vertical (ts @ [c])]"
| "push_last c (e # f # es) = map_option ((#) e) (push_last c (f # es))"

text \<open>
  The loop over the matches; \<open>None\<close> is a loop that does not end, and the left of a result is the
  exception that pushing onto a slide would raise. A match that is empty does not move the search on.
\<close>

datatype push_error = NoStack

partial_function (option) stack_up ::
    "(nat \<Rightarrow> (nat \<times> nat) option) \<Rightarrow> (string \<Rightarrow> bool) \<Rightarrow> string \<Rightarrow> nat \<Rightarrow> bool \<Rightarrow> entry list \<Rightarrow>
      (push_error + entry list) option" where
  "stack_up exec horizontal markdown lastIndex wasHorizontal sectionStack =
     (case exec lastIndex of
        None \<Rightarrow>
          (let rest = drop lastIndex markdown
           in if wasHorizontal then Some (Inr (sectionStack @ [Single rest]))
              else (case push_last rest sectionStack of None \<Rightarrow> Some (Inl NoStack) | Some st \<Rightarrow> Some (Inr st)))
      | Some (index, next) \<Rightarrow>
          (let isHorizontal = horizontal (take (next - index) (drop index markdown));
               st0 = (if \<not> isHorizontal \<and> wasHorizontal then sectionStack @ [Vertical []] else sectionStack);
               content = take (index - lastIndex) (drop lastIndex markdown);
               st1 = (if isHorizontal \<and> wasHorizontal then Some (st0 @ [Single content]) else push_last content st0)
           in case st1 of
                None \<Rightarrow> Some (Inl NoStack)
              | Some st \<Rightarrow> stack_up exec horizontal markdown next isHorizontal st))"

section \<open>Writing the sections\<close>

record slidify_options =
  so_attributes :: string
  so_notes :: "string \<Rightarrow> string list"
  so_marked :: "string \<Rightarrow> string"

definition createMarkdownSlide :: "slidify_options \<Rightarrow> string \<Rightarrow> string" where
  "createMarkdownSlide options content =
     (let c = (case so_notes options content of
            [body, notes] \<Rightarrow> body @ ''<aside class='' @ [CHR 0x22] @ ''notes'' @ [CHR 0x22] @ ''>'' @
              so_marked options (trim notes) @ ''</aside>''
          | _ \<Rightarrow> content)
      in ''<script type='' @ [CHR 0x22] @ ''text/template'' @ [CHR 0x22] @ ''>'' @
         replace_all ''</script>'' ''__SCRIPT_END__'' c @ ''</script>'')"

fun write_entry :: "slidify_options \<Rightarrow> entry \<Rightarrow> string" where
  "write_entry options (Vertical ts) =
     ''<section '' @ so_attributes options @ ''>'' @
     concat (map (\<lambda>t. ''<section data-markdown>'' @ createMarkdownSlide options t @ ''</section>'') ts) @ ''</section>''"
| "write_entry options (Single t) =
     ''<section '' @ so_attributes options @ '' data-markdown>'' @ createMarkdownSlide options t @ ''</section>''"

definition slidify :: "(nat \<Rightarrow> (nat \<times> nat) option) \<Rightarrow> (string \<Rightarrow> bool) \<Rightarrow> slidify_options \<Rightarrow> string \<Rightarrow>
    (push_error + string) option" where
  "slidify exec horizontal options markdown =
     map_option (map_sum id (\<lambda>es. concat (map (write_entry options) es))) (stack_up exec horizontal markdown 0 True [])"

section \<open>The default separator\<close>

text \<open>A line of three dashes with the line breaks around it, each with an optional carriage return.\<close>

definition line_break :: "string \<Rightarrow> nat option" where
  "line_break s = (if starts_with [CHR 0x0D, CHR 0x0A] s then Some 2 else if starts_with [CHR 0x0A] s then Some 1 else None)"

definition default_match :: "string \<Rightarrow> nat option" where
  "default_match s =
     (case line_break s of
        None \<Rightarrow> None
      | Some a \<Rightarrow>
          if starts_with ''---'' (drop a s) then map_option (\<lambda>b. a + 3 + b) (line_break (drop (a + 3) s)) else None)"

definition default_exec :: "string \<Rightarrow> nat \<Rightarrow> (nat \<times> nat) option" where
  "default_exec markdown from = (if from \<le> length markdown then search_from default_match from (drop from markdown) else None)"

definition default_horizontal :: "string \<Rightarrow> bool" where
  "default_horizontal t = (search_from default_match 0 t \<noteq> None)"

section \<open>Code blocks\<close>

definition escapeForHTML :: "string \<Rightarrow> string" where
  "escapeForHTML input = concat (map (\<lambda>c.
     if c = CHR ''&'' then ''&amp;'' else if c = CHR ''<'' then ''&lt;'' else if c = CHR ''>'' then ''&gt;''
     else if c = CHR 0x22 then ''&quot;'' else if c = CHR 0x27 then ''&#39;'' else [c]) input)"

text \<open>The line numbers of a code block: a bracket with nothing in it but digits, commas, bars, dashes and
  white space, wherever it is in the name of the language; what is before and after it is the name.\<close>

definition line_number_char :: "char \<Rightarrow> bool" where
  "line_number_char c = (is_space c \<or> is_digit c \<or> c \<in> set '',|-'')"

fun bracketed :: "string \<Rightarrow> (string \<times> string \<times> string) option" where
  "bracketed [] = None"
| "bracketed (c # cs) =
     (case (c = CHR ''['', dropWhile line_number_char cs) of
        (True, CHR '']'' # rest) \<Rightarrow> Some ([], takeWhile line_number_char cs, rest)
      | _ \<Rightarrow> map_option (\<lambda>(before, inside, rest). (c # before, inside, rest)) (bracketed cs))"

definition render_code :: "string \<Rightarrow> string \<Rightarrow> string" where
  "render_code code language =
     (let (lineNumbers, name) = (case bracketed language of
            Some (before, inside, rest) \<Rightarrow>
              (''data-line-numbers='' @ [CHR 0x22] @ trim inside @ [CHR 0x22], trim (before @ rest))
          | None \<Rightarrow> ([], language))
      in ''<pre><code '' @ lineNumbers @ '' class='' @ [CHR 0x22] @ name @ [CHR 0x22] @ ''>'' @ escapeForHTML code @ ''</code></pre>'')"

lemma escaped_chars: "c \<in> set (escapeForHTML t) \<Longrightarrow> c \<noteq> CHR ''<'' \<and> c \<noteq> CHR ''>'' \<and> c \<noteq> CHR 0x22 \<and> c \<noteq> CHR 0x27"
  by (auto simp: escapeForHTML_def split: if_splits)

text \<open>The indentation is looked for everywhere, not only at the start of lines: two spaces within a line
  become a line break when the text is indented by two.\<close>

lemma unindent_breaks_lines: "getMarkdownFromSlide ''  a  b'' = [CHR 0x0A, CHR ''a'', CHR 0x0A, CHR ''b'']"
  by code_simp

section \<open>Which slides end up in a stack\<close>

text \<open>The document as contents and the separators between them, and what a search has to find.\<close>

fun weave :: "string list \<Rightarrow> string list \<Rightarrow> string" where
  "weave (c # d # cs) (s # ss) = c @ s @ weave (d # cs) ss"
| "weave (c # cs) ss = c"
| "weave [] ss = []"

fun finds :: "(nat \<Rightarrow> (nat \<times> nat) option) \<Rightarrow> nat \<Rightarrow> string list \<Rightarrow> string list \<Rightarrow> bool" where
  "finds exec p [c] [] = (exec p = None)"
| "finds exec p (c # d # cs) (s # ss) =
     (exec p = Some (p + length c, p + length c + length s) \<and> finds exec (p + length c + length s) (d # cs) ss)"
| "finds exec p cs ss = False"

text \<open>Contents joined by vertical separators belong together.\<close>

fun runs :: "string list \<Rightarrow> bool list \<Rightarrow> string list list" where
  "runs (c # d # cs) (v # vs) =
     (if v then (c # hd (runs (d # cs) vs)) # tl (runs (d # cs) vs) else [c] # runs (d # cs) vs)"
| "runs (c # cs) vs = [[c]]"
| "runs [] vs = []"

definition entry_of :: "string list \<Rightarrow> entry" where
  "entry_of ts = (if length ts = 1 then Single (hd ts) else Vertical ts)"

lemma runs_nonempty: "cs \<noteq> [] \<Longrightarrow> runs cs vs \<noteq> [] \<and> hd (runs cs vs) \<noteq> []"
  by (induction cs vs rule: runs.induct) auto

lemma push_last_stack: "push_last c (es @ [Vertical ts]) = Some (es @ [Vertical (ts @ [c])])"
proof (induction es)
  case (Cons e es)
  then show ?case by (cases "es @ [Vertical ts]") simp_all
qed simp

lemma stack_up_runs:
  fixes horizontal :: "string \<Rightarrow> bool"
  assumes "finds exec (length pre) cs ss"
  defines "vs \<equiv> map (\<lambda>s. \<not> horizontal s) ss"
  shows "stack_up exec horizontal (pre @ weave cs ss) (length pre) True acc = Some (Inr (acc @ map entry_of (runs cs vs))) \<and>
    (g \<noteq> [] \<longrightarrow> stack_up exec horizontal (pre @ weave cs ss) (length pre) False (acc @ [Vertical g]) =
      Some (Inr (acc @ Vertical (g @ hd (runs cs vs)) # map entry_of (tl (runs cs vs)))))"
  using assms(1) unfolding vs_def
proof (induction cs ss arbitrary: pre acc g rule: weave.induct [case_names woven only stray none])
  case (woven c d cs s ss)
  let ?p = "length pre" and ?md = "pre @ c @ s @ weave (d # cs) ss" and ?vs = "map (\<lambda>s. \<not> horizontal s) ss"
  have e: "exec ?p = Some (?p + length c, ?p + length c + length s)" and f: "finds exec (length (pre @ c @ s)) (d # cs) ss"
    using woven.prems by (simp_all add: add.assoc)
  have t: "take (length s) (drop (length pre + length c) ?md) = s" "take (length c) (drop ?p ?md) = c" by simp_all
  note IH = woven.IH [OF f]
  have md: "(pre @ c @ s) @ weave (d # cs) ss = ?md" "length (pre @ c @ s) = ?p + length c + length s" by simp_all
  note IH' = IH [unfolded md]
  have ne: "hd (runs (d # cs) ?vs) \<noteq> []" "runs (d # cs) ?vs \<noteq> []" using runs_nonempty [of "d # cs" ?vs] by simp_all
  show ?case
  proof (cases "horizontal s")
    case True
    have a: "stack_up exec horizontal ?md ?p True acc = stack_up exec horizontal ?md (?p + length c + length s) True (acc @ [Single c])" for acc
      by (subst stack_up.simps) (simp add: e True Let_def)
    have b: "stack_up exec horizontal ?md ?p False (acc @ [Vertical g]) =
        stack_up exec horizontal ?md (?p + length c + length s) True (acc @ [Vertical (g @ [c])])" for acc g
      by (subst stack_up.simps) (simp add: e True Let_def push_last_stack)
    show ?thesis using IH' [of "acc @ [Single c]"] IH' [of "acc @ [Vertical (g @ [c])]"]
      by (simp add: a b True entry_of_def)
  next
    case False
    have a: "stack_up exec horizontal ?md ?p True acc =
        stack_up exec horizontal ?md (?p + length c + length s) False (acc @ [Vertical [c]])" for acc
      by (subst stack_up.simps) (simp add: e False Let_def push_last_stack)
    have b: "stack_up exec horizontal ?md ?p False (acc @ [Vertical g]) =
        stack_up exec horizontal ?md (?p + length c + length s) False (acc @ [Vertical (g @ [c])])" for acc g
      by (subst stack_up.simps) (simp add: e False Let_def push_last_stack)
    show ?thesis using IH' [of acc "[c]"] IH' [of acc "g @ [c]"] ne
      by (simp add: a b False entry_of_def)
  qed
next
  case (only c ss)
  then have "ss = []" "exec (length pre) = None" by (cases ss; simp)+
  then show ?case by (simp add: stack_up.simps push_last_stack entry_of_def Let_def)
next
  case (stray c cs)
  then have "cs = []" "exec (length pre) = None" by (cases cs; simp)+
  then show ?case by (simp add: stack_up.simps push_last_stack entry_of_def Let_def)
next
  case (none ss)
  then show ?case by simp
qed

text \<open>C22: Splitting a document ends, whatever the separators are, when the search finds them one after the other:
  the contents between them become the slides, none lost and none twice, and those that vertical separators
  join become one stack, in their order.\<close>

theorem slides_by_separators:
  assumes "finds exec 0 cs ss"
  shows "slidify exec horizontal options (weave cs ss) =
    Some (Inr (concat (map (\<lambda>g. write_entry options (entry_of g)) (runs cs (map (\<lambda>s. \<not> horizontal s) ss)))))"
  using stack_up_runs [of exec "[]" cs ss horizontal "[]" "[]"] assms by (simp add: slidify_def comp_def)

text \<open>With a separator that matches nothing at all the loop does not end.\<close>

lemma empty_separator_hangs:
  assumes "\<And>p. exec p = Some (p, p)" and "horizontal []"
  shows "stack_up exec horizontal markdown p True st = None"
proof -
  have False if "stack_up exec horizontal markdown p True st = Some r" for r
  proof -
    have "(\<forall>p. exec p = Some (p, p)) \<and> horizontal [] \<and> True \<longrightarrow> False"
    proof (rule stack_up.raw_induct [where P = "\<lambda>e h m p w st r. (\<forall>p. e p = Some (p, p)) \<and> h [] \<and> w \<longrightarrow> False", OF _ that])
      fix f e h m p w st r
      assume IH: "\<And>e h m p w st r. f e h m p w st = Some r \<Longrightarrow> (\<forall>p. e p = Some (p, p)) \<and> h [] \<and> w \<longrightarrow> False"
        and eq: "(case e p of
          None \<Rightarrow> let rest = drop p m
            in if w then Some (Inr (st @ [Single rest]))
               else (case push_last rest st of None \<Rightarrow> Some (Inl NoStack) | Some st \<Rightarrow> Some (Inr st))
        | Some (index, next) \<Rightarrow>
            let isHorizontal = h (take (next - index) (drop index m));
                st0 = if \<not> isHorizontal \<and> w then st @ [Vertical []] else st;
                content = take (index - p) (drop p m);
                st1 = if isHorizontal \<and> w then Some (st0 @ [Single content]) else push_last content st0
            in case st1 of None \<Rightarrow> Some (Inl NoStack) | Some st \<Rightarrow> f e h m next isHorizontal st) = Some r"
      show "(\<forall>p. e p = Some (p, p)) \<and> h [] \<and> w \<longrightarrow> False"
      proof
        assume a: "(\<forall>p. e p = Some (p, p)) \<and> h [] \<and> w"
        then have "f e h m p True (st @ [Single []]) = Some r" using eq by simp
        from IH [OF this] a show False by simp
      qed
    qed
    then show False using assms by simp
  qed
  then show ?thesis by (cases "stack_up exec horizontal markdown p True st") auto
qed

text \<open>Two slides joined by a line of two dashes, and one more after a line of three.\<close>

theorem slides_by_separators_witness:
  "slidify (\<lambda>p. search_from (\<lambda>s. if starts_with ''|=|'' s then Some 3 else if starts_with ''|-|'' s then Some 3 else None) p
      (drop p ''a|-|b|=|c'')) (\<lambda>s. s = ''|=|'') \<lparr>so_attributes = [], so_notes = \<lambda>t. [t], so_marked = id\<rparr> ''a|-|b|=|c'' =
   Some (Inr (write_entry \<lparr>so_attributes = [], so_notes = \<lambda>t. [t], so_marked = id\<rparr> (Vertical [''a'', ''b'']) @
     write_entry \<lparr>so_attributes = [], so_notes = \<lambda>t. [t], so_marked = id\<rparr> (Single ''c'')))"
proof -
  have "finds (\<lambda>p. search_from (\<lambda>s. if starts_with ''|=|'' s then Some 3 else if starts_with ''|-|'' s then Some 3 else None) p
      (drop p ''a|-|b|=|c'')) 0 [''a'', ''b'', ''c''] [''|-|'', ''|=|'']"
    by (simp add: starts_with_def)
  from slides_by_separators [OF this, of "\<lambda>s. s = ''|=|''" "\<lparr>so_attributes = [], so_notes = \<lambda>t. [t], so_marked = id\<rparr>"]
  show ?thesis by (simp add: entry_of_def)
qed

end
