(* ===== verification/MarkdownSlides.thy ===== *)
theory MarkdownSlides
  imports Markdown Util
begin

text \<open>
  \<open>plugin/markdown/plugin.js\<close>: what the plugin does to the sections of the deck. Regular expressions are
  written by the author of the slides, so the engine that runs them is a parameter, and so are \<open>marked\<close>, the
  browser's parser and the responses of the server. In an HTML document \<open>nodeName\<close> is upper case, so the test
  \<open>childElement.nodeName == "section"\<close> of \<open>addAttributes\<close> never holds and its branch is left out.
\<close>

section \<open>Options and text of a section\<close>

text \<open>A search (flags m and g) gives start, end and first group of the next match; a test has no flags; a split
  has the flags m, g and i.\<close>

record engine =
  re_exec :: "string \<Rightarrow> string \<Rightarrow> nat \<Rightarrow> (nat \<times> nat \<times> string) option"
  re_test :: "string \<Rightarrow> string \<Rightarrow> bool"
  re_split :: "string \<Rightarrow> string \<Rightarrow> string list"

record source_options =
  separator :: "string option"
  verticalSeparator :: "string option"
  notesSeparator :: "string option"
  attributes :: string

definition or_default :: "string option \<Rightarrow> string \<Rightarrow> string" where
  "or_default v t = (case v of Some (c # cs) \<Rightarrow> c # cs | _ \<Rightarrow> t)"

definition default_separator :: string where
  "default_separator = [CHR 0x0D, CHR ''?'', CHR 0x0A] @ ''---'' @ [CHR 0x0D, CHR ''?'', CHR 0x0A]"

definition getSlidifyOptions :: "source_options \<Rightarrow> source_options" where
  "getSlidifyOptions options = options\<lparr>
     separator := Some (or_default (separator options) default_separator),
     notesSeparator := Some (or_default (notesSeparator options) ''notes?:'')\<rparr>"

definition slidify_text :: "engine \<Rightarrow> (string \<Rightarrow> string) \<Rightarrow> source_options \<Rightarrow> string \<Rightarrow> (push_error + string) option" where
  "slidify_text re marked options markdown =
     (let o1 = getSlidifyOptions options; sep = the (separator o1);
          pattern = (case verticalSeparator o1 of Some (c # cs) \<Rightarrow> sep @ ''|'' @ c # cs | _ \<Rightarrow> sep)
      in slidify (\<lambda>p. map_option (\<lambda>(a, b, _). (a, b)) (re_exec re pattern markdown p)) (re_test re sep)
           \<lparr>so_attributes = attributes o1, so_notes = re_split re (the (notesSeparator o1)), so_marked = marked\<rparr> markdown)"

definition text_content :: "dom \<Rightarrow> node \<Rightarrow> string" where
  "text_content d x = concat (map (html d) (filter (\<lambda>y. is_desc d x y \<and> tag d y = ''#text'') (order d)))"

definition section_markdown :: "dom \<Rightarrow> node \<Rightarrow> string" where
  "section_markdown d x =
     (let template = (case querySel d x (has_attr ''data-template'' d) of
            Some t \<Rightarrow> Some t | None \<Rightarrow> querySel d x (\<lambda>y. tag d y = ''script''))
      in getMarkdownFromSlide (text_content d (case template of Some t \<Rightarrow> t | None \<Rightarrow> x)))"

section \<open>Sections become slides\<close>

text \<open>What a section is replaced by: the slides of its text, or those of a document that is fetched. A document
  that cannot be asked for counts as empty, a status that is no success shows an error.\<close>

datatype response = Response int string | NotSent

datatype processed = Replaced "(push_error + string) option" | Requested string "string option"

definition section_options :: "(node \<Rightarrow> (string \<times> string) list) \<Rightarrow> dom \<Rightarrow> node \<Rightarrow> source_options" where
  "section_options attributes_of d x =
     \<lparr>separator = get_attr ''data-separator'' d x, verticalSeparator = get_attr ''data-separator-vertical'' d x,
      notesSeparator = get_attr ''data-separator-notes'' d x, attributes = getForwardedAttributes (attributes_of x)\<rparr>"

definition process_section :: "engine \<Rightarrow> (string \<Rightarrow> string) \<Rightarrow> (node \<Rightarrow> (string \<times> string) list) \<Rightarrow> dom \<Rightarrow> node \<Rightarrow> processed" where
  "process_section re marked attributes_of d x =
     (case get_attr ''data-markdown'' d x of
        Some (c # url) \<Rightarrow> Requested (c # url)
          (case get_attr ''data-charset'' d x of Some (k # ks) \<Rightarrow> Some (k # ks) | _ \<Rightarrow> None)
      | _ \<Rightarrow> Replaced (slidify_text re marked (section_options attributes_of d x) (section_markdown d x)))"

definition processSlides :: "engine \<Rightarrow> (string \<Rightarrow> string) \<Rightarrow> (node \<Rightarrow> (string \<times> string) list) \<Rightarrow> dom \<Rightarrow> node \<Rightarrow>
    (node \<times> processed) list" where
  "processSlides re marked attributes_of d scope =
     map (\<lambda>x. (x, process_section re marked attributes_of d x))
       (queryAll d scope (\<lambda>x. is_section d x \<and> has_attr ''data-markdown'' d x \<and> \<not> has_attr ''data-markdown-parsed'' d x))"

text \<open>A promise passes on one value only, so the address in the message is always undefined.\<close>

definition fetch_error :: "int \<Rightarrow> string" where
  "fetch_error status = ''<section data-state='' @ [CHR 0x22] @ ''alert'' @ [CHR 0x22] @ ''>'' @
     ''ERROR: The attempt to fetch undefined failed with HTTP status '' @ show_int status @ ''.'' @
     ''Check your browser'' @ [CHR 0x27] @ ''s JavaScript console for more details.'' @
     ''<p>Remember that you need to serve the presentation HTML from a HTTP server.</p></section>''"

definition fetched :: "int \<Rightarrow> bool" where
  "fetched status = (200 \<le> status \<and> status < 300 \<or> status = 0)"

fun loadExternalMarkdown :: "engine \<Rightarrow> (string \<Rightarrow> string) \<Rightarrow> source_options \<Rightarrow> response \<Rightarrow> (push_error + string) option" where
  "loadExternalMarkdown re marked options NotSent = slidify_text re marked options []"
| "loadExternalMarkdown re marked options (Response status body) =
     (if fetched status then slidify_text re marked options body else Some (Inr (fetch_error status)))"

section \<open>Attributes in comments\<close>

text \<open>A name, an equals sign and a quoted value, or the bare name of a data attribute before a space or quote.\<close>

definition name_char :: "char \<Rightarrow> bool" where
  "name_char c = (c \<noteq> CHR 0x22 \<and> c \<noteq> CHR ''='' \<and> c \<noteq> CHR '' '')"

definition match_pair :: "string \<Rightarrow> ((string \<times> string) \<times> string) option" where
  "match_pair s =
     (let run = takeWhile name_char s; rest = dropWhile name_char s;
          v = takeWhile (\<lambda>c. c \<noteq> CHR 0x22) (drop 2 rest)
      in if run \<noteq> [] \<and> starts_with [CHR ''='', CHR 0x22] rest \<and> v \<noteq> [] \<and> length v < length (drop 2 rest)
         then Some ((run, v), drop (length v + 3) rest)
         else if starts_with ''data-'' run \<and> 5 < length run \<and> rest \<noteq> [] \<and> hd rest \<in> {CHR 0x22, CHR '' ''}
         then Some ((run, []), rest)
         else None)"

lemma match_pair_shorter: "match_pair s = Some (p, rest) \<Longrightarrow> length rest < length s"
proof -
  assume m: "match_pair s = Some (p, rest)"
  have s: "length s = length (takeWhile name_char s) + length (dropWhile name_char s)"
    by (metis length_append takeWhile_dropWhile_id)
  show ?thesis using m s by (auto simp: match_pair_def Let_def split: if_splits)
qed

function attribute_pairs :: "string \<Rightarrow> (string \<times> string) list" where
  "attribute_pairs [] = []"
| "attribute_pairs (c # cs) =
     (case match_pair (c # cs) of Some (p, rest) \<Rightarrow> p # attribute_pairs rest | None \<Rightarrow> attribute_pairs cs)"
  by pat_completeness auto
termination by (relation "measure length") (auto dest: match_pair_shorter)

text \<open>The writes of a comment: its value without the match, and the attributes it names.\<close>

datatype node_write = SetValue node string | SetAttribute node string string

definition addAttributeInElement :: "engine \<Rightarrow> dom \<Rightarrow> node \<Rightarrow> node \<Rightarrow> string \<Rightarrow> node_write list option" where
  "addAttributeInElement re d x elementTarget pattern =
     (case re_exec re pattern (html d x) 0 of
        None \<Rightarrow> None
      | Some (index, next, classes) \<Rightarrow>
          Some (SetValue x (take index (html d x) @ drop next (html d x)) #
                map (\<lambda>(a, v). SetAttribute elementTarget (map to_lower a) v) (attribute_pairs classes)))"

text \<open>The attributes go to the nearest element before the comment that is no line break, or to its parent.\<close>

definition target_before :: "dom \<Rightarrow> node \<Rightarrow> node list \<Rightarrow> node" where
  "target_before d x before =
     (case filter (\<lambda>y. is_element d y \<and> tag d y \<noteq> ''br'') (rev before) of y # _ \<Rightarrow> y | [] \<Rightarrow> x)"

fun with_before :: "'a list \<Rightarrow> 'a list \<Rightarrow> ('a list \<times> 'a) list" where
  "with_before before [] = []"
| "with_before before (x # xs) = (before, x) # with_before (before @ [x]) xs"

lemma in_with_before: "(b, x) \<in> set (with_before before xs) \<Longrightarrow> x \<in> set xs \<and> set b \<subseteq> set before \<union> set xs"
proof (induction xs arbitrary: before)
  case (Cons y ys)
  then show ?case using Cons.IH [of "before @ [y]"] by auto
qed simp

definition own_attributes :: "engine \<Rightarrow> dom \<Rightarrow> node \<Rightarrow> node \<Rightarrow> node \<Rightarrow> string \<Rightarrow> string \<Rightarrow> node_write list" where
  "own_attributes re d sect x previous elementSep sectionSep =
     (if tag d x = ''#comment'' then
       (case addAttributeInElement re d x previous elementSep of
          Some ws \<Rightarrow> ws
        | None \<Rightarrow> (case addAttributeInElement re d x sect sectionSep of Some ws \<Rightarrow> ws | None \<Rightarrow> []))
      else [])"

text \<open>The elements do not change while the comments are read, and a comment is read once: the walk lists the
  writes, which are carried out afterwards.\<close>

definition nesting_depth :: "dom \<Rightarrow> node \<Rightarrow> nat" where
  "nesting_depth d x = Suc (Max (insert 0 ((length \<circ> path d) ` set (order d)))) - length (path d x)"

lemma nesting_depth_child: "y \<in> set (childNodes d x) \<Longrightarrow> nesting_depth d y < nesting_depth d x"
proof -
  assume y: "y \<in> set (childNodes d x)"
  then have "length (path d y) = Suc (length (path d x))" "y \<in> set (order d)" by (auto simp: childNodes_def)
  moreover have "length (path d y) \<le> Max (insert 0 ((length \<circ> path d) ` set (order d)))"
    by (rule Max_ge) (auto simp: calculation(2))
  ultimately show ?thesis by (simp add: nesting_depth_def)
qed

function addAttributes :: "engine \<Rightarrow> dom \<Rightarrow> node \<Rightarrow> string \<Rightarrow> string \<Rightarrow> node \<Rightarrow> node \<Rightarrow> node_write list" where
  "addAttributes re d sect elementSep sectionSep x previous =
     concat (map (\<lambda>(before, c).
         if is_element d c \<or> tag d c = ''#comment''
         then addAttributes re d sect elementSep sectionSep c (target_before d x before) else [])
       (with_before [] (childNodes d x))) @
     own_attributes re d sect x previous elementSep sectionSep"
  by pat_completeness auto
termination
  by (relation "measure (\<lambda>(re, d, sect, es, ss, x, p). nesting_depth d x)")
    (auto dest!: in_with_before intro: nesting_depth_child)

declare addAttributes.simps [simp del]

fun write_node :: "node_write \<Rightarrow> dom \<Rightarrow> dom" where
  "write_node (SetValue x v) d = set_html v x d"
| "write_node (SetAttribute x a v) d = set_attr a v x d"

section \<open>Slides become HTML\<close>

text \<open>\<open>parse x t d\<close> is the browser giving \<open>x\<close> the children that \<open>t\<close> describes. \<open>None\<close> is the exception of
  asking the parent of a section that is no longer in the document.\<close>

definition comment_pattern :: "string \<Rightarrow> string \<Rightarrow> dom \<Rightarrow> node \<Rightarrow> string option" where
  "comment_pattern a t d x =
     (case get_attr a d x of
        Some (c # cs) \<Rightarrow> Some (c # cs)
      | _ \<Rightarrow> map_option (\<lambda>p. or_default (get_attr a d p) t) (parentNode d x))"

definition bsl :: char where
  "bsl = CHR 0x5C"

definition element_pattern :: string where
  "element_pattern = [bsl] @ ''.element'' @ [bsl] @ ''s*?(.+?)$''"

definition slide_pattern :: string where
  "slide_pattern = [bsl] @ ''.slide:'' @ [bsl] @ ''s*?('' @ [bsl] @ ''S.+?)$''"

definition convert_slide :: "engine \<Rightarrow> (string \<Rightarrow> string) \<Rightarrow> (node \<Rightarrow> string \<Rightarrow> dom \<Rightarrow> dom) \<Rightarrow> node \<Rightarrow> dom \<Rightarrow> dom option" where
  "convert_slide re marked parse x d =
     (let d1 = set_attr ''data-markdown-parsed'' ''true'' x d;
          notes = querySel d1 x (\<lambda>y. tag d1 y = ''aside'' \<and> has_class ''notes'' d1 y);
          d2 = parse x (marked (section_markdown d1 x)) d1
      in case (comment_pattern ''data-element-attributes'' element_pattern d2 x,
               comment_pattern ''data-attributes'' slide_pattern d2 x) of
           (Some elementSep, Some sectionSep) \<Rightarrow>
             (let d3 = fold write_node (addAttributes re d2 x elementSep sectionSep x x) d2
              in Some (case notes of Some n \<Rightarrow> appendChild x n d3 | None \<Rightarrow> d3))
         | _ \<Rightarrow> None)"

fun convert_all :: "engine \<Rightarrow> (string \<Rightarrow> string) \<Rightarrow> (node \<Rightarrow> string \<Rightarrow> dom \<Rightarrow> dom) \<Rightarrow> node list \<Rightarrow> dom \<Rightarrow> dom option" where
  "convert_all re marked parse [] d = Some d"
| "convert_all re marked parse (x # xs) d =
     (case convert_slide re marked parse x d of None \<Rightarrow> None | Some d1 \<Rightarrow> convert_all re marked parse xs d1)"

definition convertSlides :: "engine \<Rightarrow> (string \<Rightarrow> string) \<Rightarrow> (node \<Rightarrow> string \<Rightarrow> dom \<Rightarrow> dom) \<Rightarrow> node \<Rightarrow> dom \<Rightarrow> dom option" where
  "convertSlides re marked parse scope d =
     convert_all re marked parse
       (queryAll d scope (\<lambda>x. has_attr ''data-markdown'' d x \<and> \<not> has_attr ''data-markdown-parsed'' d x)) d"

section \<open>Attributes read back\<close>

definition pair_ok :: "string \<times> string \<Rightarrow> bool" where
  "pair_ok p = (fst p \<noteq> [] \<and> list_all name_char (fst p) \<and> CHR 0x22 \<notin> set (snd p) \<and>
     (snd p = [] \<longrightarrow> starts_with ''data-'' (fst p) \<and> 5 < length (fst p)))"

definition write_pair :: "string \<times> string \<Rightarrow> string" where
  "write_pair p = (if snd p = [] then fst p else fst p @ [CHR ''='', CHR 0x22] @ snd p @ [CHR 0x22]) @ '' ''"

lemma run_of_name: "list_all name_char n \<Longrightarrow> \<not> name_char c \<Longrightarrow>
    takeWhile name_char (n @ c # t) = n \<and> dropWhile name_char (n @ c # t) = c # t"
  by (induction n) auto

lemma not_name_char [simp]: "\<not> name_char (CHR '' '')" "\<not> name_char (CHR ''='')"
  by (simp_all add: name_char_def)

lemma match_pair_write:
  assumes "pair_ok p"
  shows "match_pair (write_pair p @ t) = Some (p, '' '' @ t)"
proof -
  obtain n v where p: "p = (n, v)" by (cases p)
  have n: "n \<noteq> []" "list_all name_char n" "CHR 0x22 \<notin> set v" using assms by (simp_all add: p pair_ok_def)
  show ?thesis
  proof (cases "v = []")
    case True
    then show ?thesis using assms run_of_name [OF n(2), of "CHR '' ''" t]
      by (simp add: p write_pair_def match_pair_def pair_ok_def starts_with_def)
  next
    case False
    have v: "takeWhile (\<lambda>c. c \<noteq> CHR 0x22) (v @ CHR 0x22 # CHR '' '' # t) = v"
      using n(3) by (auto simp: takeWhile_append)
    have dr: "drop (length v + 3) (CHR ''='' # CHR 0x22 # v @ CHR 0x22 # CHR '' '' # t) = CHR '' '' # t"
      by (simp add: numeral_3_eq_3)
    show ?thesis using run_of_name [OF n(2), of "CHR ''=''" "CHR 0x22 # v @ CHR 0x22 # CHR '' '' # t"] False n(1) v dr
      by (simp add: p write_pair_def match_pair_def starts_with_def)
  qed
qed

lemma attribute_pairs_space: "attribute_pairs (CHR '' '' # t) = attribute_pairs t"
  by (simp add: match_pair_def starts_with_def)

lemma attribute_pairs_write: "pair_ok p \<Longrightarrow> attribute_pairs (write_pair p @ t) = p # attribute_pairs t"
proof -
  assume p: "pair_ok p"
  obtain c cs where c: "write_pair p @ t = c # cs" by (cases "write_pair p @ t") (simp_all add: write_pair_def)
  show ?thesis using match_pair_write [OF p, of t] attribute_pairs_space [of t] unfolding c by simp
qed

text \<open>C33: The attributes written in a comment, each name with its quoted value or a bare data attribute, with
  a space after each, are exactly the attributes that are set, in their order.\<close>

theorem attributes_read_back:
  assumes "\<forall>p\<in>set ps. pair_ok p"
  shows "attribute_pairs (concat (map write_pair ps)) = ps"
  using assms by (induction ps) (simp_all add: attribute_pairs_write)

theorem attributes_read_back_witness:
  "attribute_pairs (concat (map write_pair [(''id'', ''two words''), (''data-auto-animate'', [])])) =
     [(''id'', ''two words''), (''data-auto-animate'', [])]"
  by (rule attributes_read_back) (simp add: pair_ok_def name_char_def starts_with_def)

text \<open>Without the space a bare attribute at the end is lost.\<close>

lemma bare_attribute_lost: "attribute_pairs ''data-auto-animate'' = []"
  by code_simp

section \<open>Where attributes go\<close>

definition write_target :: "node_write \<Rightarrow> node" where
  "write_target w = (case w of SetValue x _ \<Rightarrow> x | SetAttribute x _ _ \<Rightarrow> x)"

definition sets_attribute :: "node_write \<Rightarrow> bool" where
  "sets_attribute w = (case w of SetAttribute _ _ _ \<Rightarrow> True | _ \<Rightarrow> False)"

lemma own_attributes_targets:
  "w \<in> set (own_attributes re d sect x previous es ss) \<Longrightarrow>
    (sets_attribute w \<and> write_target w \<in> {previous, sect}) \<or> (\<not> sets_attribute w \<and> write_target w = x \<and> tag d x = ''#comment'')"
  by (auto simp: own_attributes_def addAttributeInElement_def sets_attribute_def write_target_def
      split: if_splits option.splits)

lemma target_before_cases:
  "target_before d x before = x \<or>
    (target_before d x before \<in> set before \<and> is_element d (target_before d x before) \<and> tag d (target_before d x before) \<noteq> ''br'')"
proof (cases "filter (\<lambda>y. is_element d y \<and> tag d y \<noteq> ''br'') (rev before)")
  case (Cons y ys)
  then have "y \<in> set (filter (\<lambda>y. is_element d y \<and> tag d y \<noteq> ''br'') (rev before))"
    by (metis list.set_intros(1))
  then have "y \<in> set before \<and> is_element d y \<and> tag d y \<noteq> ''br''" unfolding set_filter by simp
  then show ?thesis by (simp add: target_before_def Cons)
qed (simp add: target_before_def)

definition below :: "dom \<Rightarrow> node \<Rightarrow> node \<Rightarrow> bool" where
  "below d r y = (y = r \<or> (is_desc d r y \<and> y \<in> set (order d)))"

lemma below_child: "below d r x \<Longrightarrow> y \<in> set (childNodes d x) \<Longrightarrow> below d r y"
  by (auto simp: below_def childNodes_def is_desc_def)

lemma add_attributes_targets:
  assumes "below d sect x" "below d sect previous" "is_element d previous"
    "is_element d sect" "is_element d x \<or> childNodes d x = []"
    "\<forall>c. tag d c = ''#comment'' \<longrightarrow> childNodes d c = []" "w \<in> set (addAttributes re d sect es ss x previous)"
  shows "below d sect (write_target w) \<and>
    (if sets_attribute w then is_element d (write_target w) else tag d (write_target w) = ''#comment'')"
  using assms
proof (induction re d sect es ss x previous rule: addAttributes.induct)
  case (1 re d sect es ss x previous)
  from "1.prems"(7) consider
    (child) b c where "(b, c) \<in> set (with_before [] (childNodes d x))" "is_element d c \<or> tag d c = ''#comment''"
      "w \<in> set (addAttributes re d sect es ss c (target_before d x b))"
    | (own) "w \<in> set (own_attributes re d sect x previous es ss)"
    by (subst (asm) addAttributes.simps) (auto split: if_splits)
  then show ?case
  proof cases
    case child
    have c: "c \<in> set (childNodes d x)" "set b \<subseteq> set (childNodes d x)" using in_with_before [OF child(1)] by simp_all
    have x: "is_element d x" using c(1) "1.prems"(5) by auto
    have c': "is_element d c \<or> childNodes d c = []" using child(2) "1.prems"(6) by blast
    have "below d sect (target_before d x b) \<and> is_element d (target_before d x b)"
      using target_before_cases [of d x b] c(2) below_child [OF "1.prems"(1)] "1.prems"(1) x by auto
    then show ?thesis
      using "1.IH" [OF child(1) refl child(2) below_child [OF "1.prems"(1) c(1)]] "1.prems"(4,6) c' child(3) by blast
  next
    case own
    have "below d sect sect" by (simp add: below_def)
    then show ?thesis using own_attributes_targets [OF own] "1.prems"(1-4) by auto
  qed
qed

text \<open>Attributes are set on the slide and on elements inside it only, whatever the comments say.\<close>

lemmas attributes_stay_in_slide = add_attributes_targets [where x = sect and previous = sect for sect]

end
