(* ===== verification/Zoom.thy ===== *)
theory Zoom
  imports Prelude
begin

text \<open>
  \<open>plugin/zoom/plugin.js\<close>: zooming into a point, an element or a rectangle, zooming out, and panning while the
  pointer is near an edge. Lengths are real numbers. The browser's limits of scrolling are a parameter.
\<close>

section \<open>State\<close>

text \<open>What is written to the style of the body: a transform with its origin (moved by, scaled by), or, in a
  browser without transforms, a box (left, top, size in percent, zoom).\<close>

record body_style =
  transformOrigin :: "(real \<times> real) option"
  transform :: "(real \<times> real \<times> real) option"
  box :: "(real \<times> real \<times> real \<times> real) option"

text \<open>\<open>engaging\<close> is the pending timeout of the panning, \<open>panning\<close> its pending interval.\<close>

record zoomer =
  level :: real
  mouseX :: real
  mouseY :: real
  engaging :: bool
  panning :: bool
  zoom_style :: body_style
  zoomed :: bool
  scrolled :: "real \<times> real"

record zoom_view =
  view_width :: real
  view_height :: real
  supportsTransforms :: bool
  scroll_limit :: "real \<times> real \<Rightarrow> real \<times> real"

definition new_zoomer :: zoomer where
  "new_zoomer = \<lparr>level = 1, mouseX = 0, mouseY = 0, engaging = False, panning = False,
     zoom_style = \<lparr>transformOrigin = None, transform = None, box = None\<rparr>, zoomed = False, scrolled = (0, 0)\<rparr>"

text \<open>A rectangle to zoom to; the bounds of an element are left, top, width and height. \<open>None\<close> is an option
  left out, for which \<open>zo_x\<close> and \<open>zo_y\<close> are zero.\<close>

record zoom_options =
  zo_x :: real
  zo_y :: real
  zo_width :: "real option"
  zo_height :: "real option"
  zo_element :: "(real \<times> real \<times> real \<times> real) option"
  zo_scale :: "real option"
  zo_pan :: bool

section \<open>Zooming\<close>

definition or_one :: "real option \<Rightarrow> real" where
  "or_one w = (case w of Some x \<Rightarrow> if x = 0 then 1 else x | None \<Rightarrow> 1)"

definition magnify :: "zoom_view \<Rightarrow> zoom_options \<Rightarrow> real \<Rightarrow> zoomer \<Rightarrow> zoomer" where
  "magnify v rect scale z =
     (let (sx, sy) = scrolled z;
          x = zo_x rect - (view_width v - or_one (zo_width rect) * scale) / 2;
          y = zo_y rect - (view_height v - or_one (zo_height rect) * scale) / 2;
          st = zoom_style z;
          st' = (if supportsTransforms v then
                   (if scale = 1 then st\<lparr>transform := None\<rparr>
                    else st\<lparr>transformOrigin := Some (sx, sy), transform := Some (- x, - y, scale)\<rparr>)
                 else if scale = 1 then st\<lparr>box := None\<rparr>
                 else st\<lparr>box := Some (- (sx + x) / scale, - (sy + y) / scale, scale * 100, scale)\<rparr>)
      in z\<lparr>zoom_style := st', level := scale, zoomed := (scale \<noteq> 1)\<rparr>)"

definition no_rect :: zoom_options where
  "no_rect = \<lparr>zo_x = 0, zo_y = 0, zo_width = None, zo_height = None, zo_element = None, zo_scale = None, zo_pan = True\<rparr>"

definition zoom_out :: "zoom_view \<Rightarrow> zoomer \<Rightarrow> zoomer" where
  "zoom_out v z = (magnify v no_rect 1 (z\<lparr>engaging := False, panning := False\<rparr>))\<lparr>level := 1\<rparr>"

text \<open>An element is shown with a margin of twenty pixels around it.\<close>

definition around_element :: "zoom_options \<Rightarrow> zoom_options" where
  "around_element opts = (case zo_element opts of
       Some (left, up, width, height) \<Rightarrow>
         opts\<lparr>zo_x := left - 20, zo_y := up - 20, zo_width := Some (width + 20 * 2), zo_height := Some (height + 20 * 2)\<rparr>
     | None \<Rightarrow> opts)"

definition fit_scale :: "zoom_view \<Rightarrow> zoom_options \<Rightarrow> zoom_options" where
  "fit_scale v opts = (case (zo_width opts, zo_height opts) of
       (Some w, Some h) \<Rightarrow> opts\<lparr>zo_scale := Some (max (min (view_width v / w) (view_height v / h)) 1)\<rparr>
     | _ \<Rightarrow> opts)"

definition zoom_to :: "zoom_view \<Rightarrow> zoom_options \<Rightarrow> zoomer \<Rightarrow> zoomer" where
  "zoom_to v opts z =
     (if level z \<noteq> 1 then zoom_out v z
      else let o1 = fit_scale v (around_element opts) in
        case zo_scale o1 of
          None \<Rightarrow> z
        | Some scale \<Rightarrow>
            if scale > 1 then
              (let z1 = magnify v (o1\<lparr>zo_x := zo_x o1 * scale, zo_y := zo_y o1 * scale\<rparr>) scale z
               in if zo_pan o1 then z1\<lparr>engaging := True\<rparr> else z1)
            else z)"

section \<open>Panning\<close>

definition scroll_to :: "zoom_view \<Rightarrow> real \<Rightarrow> real \<Rightarrow> zoomer \<Rightarrow> zoomer" where
  "scroll_to v x y z = z\<lparr>scrolled := scroll_limit v (x, y)\<rparr>"

definition pan :: "zoom_view \<Rightarrow> zoomer \<Rightarrow> zoomer" where
  "pan v z =
     (let rangeX = view_width v * (12 / 100); rangeY = view_height v * (12 / 100); (sx, sy) = scrolled z; k = 14 / level z;
          z1 = (if mouseY z < rangeY then scroll_to v sx (sy - (1 - mouseY z / rangeY) * k) z
                else if mouseY z > view_height v - rangeY
                then scroll_to v sx (sy + (1 - (view_height v - mouseY z) / rangeY) * k) z else z)
      in if mouseX z < rangeX then scroll_to v (sx - (1 - mouseX z / rangeX) * k) sy z1
         else if mouseX z > view_width v - rangeX
         then scroll_to v (sx + (1 - (view_width v - mouseX z) / rangeX) * k) sy z1 else z1)"

section \<open>Events\<close>

text \<open>A mouse button goes down (with or without the modifier key, while the overview is shown or not) where the
  deck zooms by \<open>zoomLevel\<close>; the timers fire only while they are pending.\<close>

datatype zoom_event = MouseDown real real bool bool | KeyUp int | MouseMove real real | Engage | PanTick
  | To zoom_options | Out | Scroll "real \<times> real"

fun zoom_step :: "zoom_view \<Rightarrow> real \<Rightarrow> zoom_event \<Rightarrow> zoomer \<Rightarrow> zoomer" where
  "zoom_step v zoomLevel (MouseDown x y modifier overview) z =
     (if modifier \<and> \<not> overview
      then zoom_to v (no_rect\<lparr>zo_x := x, zo_y := y, zo_scale := Some (if zoomLevel = 0 then 2 else zoomLevel), zo_pan := False\<rparr>) z
      else z)"
| "zoom_step v zoomLevel (KeyUp code) z = (if level z \<noteq> 1 \<and> code = 27 then zoom_out v z else z)"
| "zoom_step v zoomLevel (MouseMove x y) z = (if level z \<noteq> 1 then z\<lparr>mouseX := x, mouseY := y\<rparr> else z)"
| "zoom_step v zoomLevel Engage z = (if engaging z then z\<lparr>engaging := False, panning := True\<rparr> else z)"
| "zoom_step v zoomLevel PanTick z = (if panning z then pan v z else z)"
| "zoom_step v zoomLevel (To opts) z = zoom_to v opts z"
| "zoom_step v zoomLevel Out z = zoom_out v z"
| "zoom_step v zoomLevel (Scroll p) z = z\<lparr>scrolled := p\<rparr>"

definition zoom_run :: "zoom_view \<Rightarrow> real \<Rightarrow> zoom_event list \<Rightarrow> zoomer \<Rightarrow> zoomer" where
  "zoom_run v zoomLevel es z = fold (zoom_step v zoomLevel) es z"

section \<open>Zoomed or not\<close>

text \<open>What is kept: the level is at least one, the class of the document and the style of the body say whether it is
  more, and timers are pending only then, never both.\<close>

definition zoom_ok :: "zoomer \<Rightarrow> bool" where
  "zoom_ok z = (1 \<le> level z \<and> zoomed z = (level z \<noteq> 1) \<and>
     (level z = 1 \<longrightarrow> transform (zoom_style z) = None \<and> box (zoom_style z) = None \<and> \<not> engaging z \<and> \<not> panning z) \<and>
     \<not> (engaging z \<and> panning z))"

lemma magnify_simps [simp]:
  "level (magnify v r k z) = k" "zoomed (magnify v r k z) = (k \<noteq> 1)" "engaging (magnify v r k z) = engaging z"
  "panning (magnify v r k z) = panning z" "mouseX (magnify v r k z) = mouseX z" "scrolled (magnify v r k z) = scrolled z"
  by (simp_all add: magnify_def Let_def split_beta)

definition one_style :: "zoom_view \<Rightarrow> zoomer \<Rightarrow> bool" where
  "one_style v z = (if supportsTransforms v then box (zoom_style z) = None else transform (zoom_style z) = None)"

lemma magnify_style:
  "one_style v z \<Longrightarrow> one_style v (magnify v r k z)"
  "one_style v z \<Longrightarrow> transform (zoom_style (magnify v r 1 z)) = None \<and> box (zoom_style (magnify v r 1 z)) = None"
  by (simp_all add: one_style_def magnify_def Let_def split_beta)

lemma out_ok: "one_style v z \<Longrightarrow> zoom_ok (zoom_out v z) \<and> one_style v (zoom_out v z)"
proof -
  assume a: "one_style v z"
  then have b: "one_style v (z\<lparr>engaging := False, panning := False\<rparr>)" by (simp add: one_style_def)
  show ?thesis using magnify_style [OF b, of no_rect] by (simp add: zoom_ok_def zoom_out_def one_style_def)
qed

lemma to_ok: "zoom_ok z \<Longrightarrow> one_style v z \<Longrightarrow> zoom_ok (zoom_to v opts z) \<and> one_style v (zoom_to v opts z)"
proof (cases "level z = 1 \<and> (\<exists>k. zo_scale (fit_scale v (around_element opts)) = Some k \<and> k > 1)")
  case True
  assume z: "zoom_ok z" "one_style v z"
  obtain k where k: "level z = 1" "zo_scale (fit_scale v (around_element opts)) = Some k" "k > 1" using True by blast
  let ?o = "fit_scale v (around_element opts)"
  have "one_style v (magnify v (?o\<lparr>zo_x := zo_x ?o * k, zo_y := zo_y ?o * k\<rparr>) k z)" by (rule magnify_style(1) [OF z(2)])
  then show ?thesis using k z(1) by (simp add: zoom_to_def Let_def zoom_ok_def one_style_def)
next
  case False
  assume z: "zoom_ok z" "one_style v z"
  show ?thesis
  proof (cases "level z = 1")
    case True
    then have "zoom_to v opts z = z" using False by (auto simp: zoom_to_def Let_def split: option.split)
    then show ?thesis using z by simp
  qed (simp add: zoom_to_def out_ok z(2))
qed

lemma pan_frame [simp]:
  "level (pan v z) = level z" "zoomed (pan v z) = zoomed z" "engaging (pan v z) = engaging z"
  "panning (pan v z) = panning z" "zoom_style (pan v z) = zoom_style z"
  by (simp_all add: pan_def scroll_to_def Let_def split_beta)

lemma step_ok: "zoom_ok z \<Longrightarrow> one_style v z \<Longrightarrow> zoom_ok (zoom_step v k e z) \<and> one_style v (zoom_step v k e z)"
proof (cases e)
  case (MouseDown x y m ov)
  assume "zoom_ok z" "one_style v z"
  then show ?thesis by (simp add: MouseDown to_ok)
qed (simp_all add: to_ok out_ok, auto simp: zoom_ok_def one_style_def)


text \<open>In a corner the second scroll starts from the position before the first and undoes it: the document moves
  sideways only.\<close>

lemma corner_pans_sideways:
  assumes "mouseX z < view_width v * (12 / 100)" "mouseY z < view_height v * (12 / 100)" "scroll_limit v = id"
  shows "snd (scrolled (pan v z)) = snd (scrolled z)"
  using assms by (simp add: pan_def scroll_to_def Let_def split_beta)

end
