(* ===== verification/Search.thy ===== *)
theory Search
  imports Navigation
begin

text \<open>
  \<open>plugin/search/plugin.js\<close>: finding a text in the slides, marking it and going from slide to slide. The content
  of the page is a tree of text and elements of its own, since the deck engine never looks at text. Words are
  matched in lower case, which for ASCII is what the flag i does.
\<close>

section \<open>Words\<close>

definition word_char :: "char \<Rightarrow> bool" where
  "word_char c = (is_alnum c \<or> c = CHR ''_'')"

definition trim_marks :: "string \<Rightarrow> string" where
  "trim_marks t = rev (dropWhile (\<lambda>c. \<not> word_char c) (rev (dropWhile (\<lambda>c. \<not> word_char c) t)))"

definition inner_char :: "char \<Rightarrow> bool" where
  "inner_char c = (word_char c \<or> c = CHR 0x27 \<or> c = CHR ''-'')"

text \<open>What is no part of a word separates the alternatives of the pattern.\<close>

function words_of :: "string \<Rightarrow> string list" where
  "words_of t =
     (let w = takeWhile inner_char t; rest = dropWhile inner_char t
      in if rest = [] then [w] else w # words_of (dropWhile (\<lambda>c. \<not> inner_char c) rest))"
  by pat_completeness auto
termination
proof (relation "measure length")
  fix t w rest :: string
  assume r: "rest = dropWhile inner_char t" "rest \<noteq> []"
  then have "\<not> inner_char (hd rest)" using hd_dropWhile by metis
  then have "length (dropWhile (\<lambda>c. \<not> inner_char c) rest) < length rest"
    using r(2) by (cases rest) (simp_all add: length_dropWhile_le le_imp_less_Suc)
  moreover have "length rest \<le> length t" using r(1) by (simp add: length_dropWhile_le)
  ultimately show "(dropWhile (\<lambda>c. \<not> inner_char c) rest, t) \<in> measure length" by simp
qed simp

declare words_of.simps [simp del]

definition setRegex :: "string \<Rightarrow> string list" where
  "setRegex input = words_of (trim_marks input)"

definition lower :: "string \<Rightarrow> string" where
  "lower t = map to_lower t"

fun match_word :: "string list \<Rightarrow> string \<Rightarrow> nat option" where
  "match_word [] t = None"
| "match_word (w # ws) t = (if starts_with (lower w) (lower t) then Some (length w) else match_word ws t)"

section \<open>Marking\<close>

text \<open>Elements have the upper-case names of HTML; the marks that are made are \<open>EM\<close> elements with a colour.\<close>

datatype markup = Text string | Elem "node option" string "string option" "markup list"

datatype hilite_error = RangeError | NoChild

text \<open>The colours are kept in an array that is used as a dictionary: \<open>length\<close> cannot be set to a colour, and the
  names of methods are found there already, which are no colours.\<close>

record hilitor =
  wordColor :: "(string \<times> string) list"
  colorIdx :: nat
  matchingSlides :: "indices list"

definition new_hilitor :: hilitor where
  "new_hilitor = \<lparr>wordColor = [], colorIdx = 0, matchingSlides = []\<rparr>"

definition colors :: "string list" where
  "colors = [''#ff6'', ''#a0ffff'', ''#9f9'', ''#f99'', ''#f6f'']"

definition array_names :: "string list" where
  "array_names = [''at'', ''concat'', ''constructor'', ''entries'', ''every'', ''fill'', ''filter'', ''find'', ''flat'',
     ''includes'', ''join'', ''keys'', ''map'', ''pop'', ''push'', ''reduce'', ''reverse'', ''shift'', ''slice'', ''some'',
     ''sort'', ''splice'', ''unshift'', ''values'', ''with'', ''__proto__'']"

definition color_of :: "string \<Rightarrow> hilitor \<Rightarrow> hilite_error + (string option \<times> hilitor)" where
  "color_of k st =
     (if k = ''length'' then Inl RangeError
      else if k \<in> set array_names then Inr (None, st)
      else (case map_of (wordColor st) k of
          Some c \<Rightarrow> Inr (Some c, st)
        | None \<Rightarrow>
            (let c = colors ! (colorIdx st mod length colors)
             in Inr (Some c, st\<lparr>wordColor := (k, c) # wordColor st, colorIdx := Suc (colorIdx st)\<rparr>))))"

definition same_slide :: "indices \<Rightarrow> indices \<Rightarrow> bool" where
  "same_slide a b = (js_seq (ix_h a) (ix_h b) \<and> js_seq (ix_v a) (ix_v b))"

definition note_slide :: "indices \<Rightarrow> hilitor \<Rightarrow> hilitor" where
  "note_slide i st = (if list_ex (\<lambda>a. same_slide a i) (matchingSlides st) then st
     else st\<lparr>matchingSlides := matchingSlides st @ [i]\<rparr>)"

text \<open>A text is split at its first match, and what comes after the match is visited next. \<open>None\<close> is a loop that
  does not end.\<close>

partial_function (option) hilite_text ::
    "string list \<Rightarrow> indices \<Rightarrow> string \<Rightarrow> hilitor \<Rightarrow> (hilite_error + markup list \<times> hilitor) option" where
  "hilite_text ws i t st =
     (case (if t = [] then None else search_from (match_word ws) 0 t) of
        None \<Rightarrow> Some (Inr ([Text t], st))
      | Some (index, next) \<Rightarrow>
         (let m = take (next - index) (drop index t) in
          case color_of (lower m) (note_slide i st) of
            Inl e \<Rightarrow> Some (Inl e)
          | Inr (c, st1) \<Rightarrow>
              Option.bind (hilite_text ws i (drop next t) st1) (\<lambda>r. Some
                (case r of
                   Inl e \<Rightarrow> Inl e
                 | Inr (rest, st2) \<Rightarrow> Inr (Text (take index t) # Elem None ''EM'' c [Text m] # rest, st2)))))"

declare hilite_text.simps [code]

definition skipped :: "string \<Rightarrow> bool" where
  "skipped name = (name \<in> {''EM'', ''SCRIPT'', ''FORM''})"

text \<open>The slide of a text is the nearest section around it; without one the deck gives its current indices.\<close>

fun hiliteWords :: "string list \<Rightarrow> reveal \<Rightarrow> node option \<Rightarrow> markup \<Rightarrow> hilitor \<Rightarrow> (hilite_error + markup list \<times> hilitor) option"
and hilite_list :: "string list \<Rightarrow> reveal \<Rightarrow> node option \<Rightarrow> markup list \<Rightarrow> hilitor \<Rightarrow> (hilite_error + markup list \<times> hilitor) option"
where
  "hiliteWords ws s sect (Text t) st = hilite_text ws (getIndices s sect) t st"
| "hiliteWords ws s sect (Elem x name c kids) st =
     (if skipped name then Some (Inr ([Elem x name c kids], st))
      else (case hilite_list ws s (if name = ''SECTION'' then x else sect) kids st of
          Some (Inr (ks, st1)) \<Rightarrow> Some (Inr ([Elem x name c ks], st1))
        | r \<Rightarrow> r))"
| "hilite_list ws s sect [] st = Some (Inr ([], st))"
| "hilite_list ws s sect (k # kids) st =
     (case hiliteWords ws s sect k st of
        Some (Inr (ks, st1)) \<Rightarrow>
          (case hilite_list ws s sect kids st1 of
             Some (Inr (rest, st2)) \<Rightarrow> Some (Inr (ks @ rest, st2))
           | r \<Rightarrow> r)
      | r \<Rightarrow> r)"

text \<open>Removing the marks takes every \<open>EM\<close> element of the document for one, and its first child for its text.\<close>

fun unmark :: "markup \<Rightarrow> hilite_error + markup" and unmark_list :: "markup list \<Rightarrow> hilite_error + markup list" where
  "unmark (Text t) = Inr (Text t)"
| "unmark (Elem x name c kids) =
     (if name = ''EM'' then (case kids of [] \<Rightarrow> Inl NoChild | k # _ \<Rightarrow> unmark k)
      else (case unmark_list kids of Inl e \<Rightarrow> Inl e | Inr ks \<Rightarrow> Inr (Elem x name c ks)))"
| "unmark_list [] = Inr []"
| "unmark_list (k # kids) =
     (case unmark k of Inl e \<Rightarrow> Inl e
      | Inr k1 \<Rightarrow> (case unmark_list kids of Inl e \<Rightarrow> Inl e | Inr ks \<Rightarrow> Inr (k1 # ks)))"

section \<open>The search box\<close>

record searcher =
  shown :: bool
  searchValue :: string
  searchboxDirty :: bool
  matchedSlides :: "indices list option"
  currentMatchedIndex :: nat
  hilitor_made :: bool
  body_markup :: markup

text \<open>What a search comes to: a loop, an exception of the marking, or the state and what the move came to.\<close>

datatype found = Hangs | Fails hilite_error | Found searcher "outcome"

definition removeMarks :: "searcher \<Rightarrow> hilite_error + searcher" where
  "removeMarks q = (case unmark (body_markup q) of Inl e \<Rightarrow> Inl e | Inr b \<Rightarrow> Inr (q\<lparr>body_markup := b\<rparr>))"

definition apply_hilitor :: "string \<Rightarrow> reveal \<Rightarrow> searcher \<Rightarrow> (hilite_error + searcher) option" where
  "apply_hilitor input s q =
     (case removeMarks (q\<lparr>hilitor_made := True\<rparr>) of
        Inl e \<Rightarrow> Some (Inl e)
      | Inr q1 \<Rightarrow>
          (case hiliteWords (setRegex input) s None (body_markup q1) new_hilitor of
             None \<Rightarrow> None
           | Some (Inl e) \<Rightarrow> Some (Inl e)
           | Some (Inr (ks, st)) \<Rightarrow>
               Some (Inr (q1\<lparr>body_markup := (case ks of k # _ \<Rightarrow> k | [] \<Rightarrow> body_markup q1),
                             matchedSlides := Some (matchingSlides st), currentMatchedIndex := 0\<rparr>))))"

text \<open>The match to go to next, wrapping around after the last.\<close>

definition next_match :: "searcher \<Rightarrow> indices option \<times> searcher" where
  "next_match q = (case matchedSlides q of
       None \<Rightarrow> (None, q)
     | Some ms \<Rightarrow>
        (let i = (if ms \<noteq> [] \<and> length ms \<le> currentMatchedIndex q then 0 else currentMatchedIndex q)
         in if i < length ms then (Some (ms ! i), q\<lparr>currentMatchedIndex := Suc i\<rparr>)
            else (None, q\<lparr>currentMatchedIndex := i\<rparr>)))"

definition fresh_search :: "reveal \<Rightarrow> searcher \<Rightarrow> (hilite_error + searcher) option" where
  "fresh_search s q =
     (if \<not> searchboxDirty q then Some (Inr q)
      else if searchValue q = [] then
        Some (case (if hilitor_made q then removeMarks q else Inr q) of
          Inl e \<Rightarrow> Inl e | Inr q1 \<Rightarrow> Inr (q1\<lparr>matchedSlides := None\<rparr>))
      else apply_hilitor (searchValue q) s q)"

definition doSearch :: "searcher \<Rightarrow> reveal \<Rightarrow> found" where
  "doSearch q s =
     (case fresh_search s q of
        None \<Rightarrow> Hangs
      | Some (Inl e) \<Rightarrow> Fails e
      | Some (Inr q1) \<Rightarrow>
         (case next_match q1 of
            (None, q2) \<Rightarrow> Found q2 (Returned s)
          | (Some i, q2) \<Rightarrow> Found q2 (slide (ix_h i) (ix_v i) Undef Undef s)))"

text \<open>A key in the box: enter searches and the box is clean afterwards; any other key makes it dirty. The
  search box is there from the first use on.\<close>

definition search_key :: "int \<Rightarrow> string \<Rightarrow> searcher \<Rightarrow> reveal \<Rightarrow> found" where
  "search_key code v q s =
     (let q0 = q\<lparr>searchValue := v\<rparr> in
      if code = 13 then
        (case doSearch q0 s of
           Found q1 r \<Rightarrow> Found (case r of Returned _ \<Rightarrow> q1\<lparr>searchboxDirty := False\<rparr> | Threw _ _ \<Rightarrow> q1) r
         | f \<Rightarrow> f)
      else Found (q0\<lparr>searchboxDirty := True\<rparr>) (Returned s))"

definition closeSearch :: "searcher \<Rightarrow> hilite_error + searcher" where
  "closeSearch q = (let q1 = q\<lparr>shown := False\<rparr> in if hilitor_made q1 then removeMarks q1 else Inr q1)"

definition toggleSearch :: "searcher \<Rightarrow> hilite_error + searcher" where
  "toggleSearch q = (if shown q then closeSearch q else Inr (q\<lparr>shown := True\<rparr>))"

section \<open>Marking keeps the text\<close>

fun text_of :: "markup \<Rightarrow> string" where
  "text_of (Text t) = t"
| "text_of (Elem x name c kids) = concat (map text_of kids)"

lemma search_from_bounds:
  "search_from m i t = Some (a, b) \<Longrightarrow> \<exists>k. a = i + k \<and> k \<le> length t \<and> (\<exists>n. m (drop k t) = Some n \<and> b = a + n)"
proof (induction m i t arbitrary: a b rule: search_from.induct)
  case (2 m i c cs)
  show ?case
  proof (cases "m (c # cs)")
    case None
    then obtain k n where "a = Suc i + k" "k \<le> length cs" "m (drop k cs) = Some n" "b = a + n" using 2 by fastforce
    then show ?thesis by (intro exI [of _ "Suc k"]) simp
  next
    case (Some n)
    then show ?thesis using 2(2) by (intro exI [of _ 0]) simp
  qed
qed auto

lemma match_word_length:
  "match_word ws t = Some n \<Longrightarrow> \<exists>w\<in>set ws. n = length w \<and> lower (take n t) = lower w \<and> n \<le> length t"
proof (induction ws)
  case (Cons w ws)
  show ?case
  proof (cases "starts_with (lower w) (lower t)")
    case True
    then have "take (length w) (lower t) = lower w" "n = length w" using Cons.prems by (simp_all add: starts_with_def lower_def)
    moreover from this have "length w \<le> length t" by (metis lower_def length_map length_take min.absorb_iff2 min.commute)
    ultimately show ?thesis by (simp add: lower_def take_map)
  qed (use Cons in auto)
qed simp

lemma hilite_text_ends:
  assumes "\<forall>w\<in>set ws. w \<noteq> []"
  shows "\<exists>r. hilite_text ws i t st = Some r \<and> (\<forall>ks st'. r = Inr (ks, st') \<longrightarrow> concat (map text_of ks) = t)"
proof (induction t arbitrary: st rule: length_induct)
  case (1 t)
  show ?case
  proof (cases "if t = [] then None else search_from (match_word ws) 0 t")
    case None
    then show ?thesis by (subst hilite_text.simps) simp
  next
    case (Some p)
    obtain a b where p: "p = (a, b)" by (cases p)
    have f: "search_from (match_word ws) 0 t = Some (a, b)" using Some p by (simp split: if_splits)
    obtain n where n: "a \<le> length t" "match_word ws (drop a t) = Some n" "b = a + n" using search_from_bounds [OF f] by auto
    obtain w where w: "w \<in> set ws" "n = length w" "n \<le> length (drop a t)" using match_word_length [OF n(2)] by blast
    have n0: "n \<noteq> 0" using w(1,2) assms by auto
    show ?thesis
    proof (cases "color_of (lower (take n (drop a t))) (note_slide i st)")
      case (Inl e)
      then show ?thesis using n(3) by (subst hilite_text.simps) (simp add: Some p Let_def)
    next
      case (Inr cs)
      obtain c st1 where cs: "cs = (c, st1)" by (cases cs)
      have "length (drop b t) < length t" using n(1,3) n0 w(3) by simp
      then obtain r where r: "hilite_text ws i (drop b t) st1 = Some r"
        "\<And>ks st'. r = Inr (ks, st') \<Longrightarrow> concat (map text_of ks) = drop b t" using 1 by blast
      have "take a t @ take n (drop a t) @ drop b t = t" using n(3) by (metis append_take_drop_id drop_drop add.commute)
      then show ?thesis using r n(3)
        by (subst hilite_text.simps) (auto simp: Some p Let_def Inr cs split: sum.split)
    qed
  qed
qed

lemma last_dropWhile: "dropWhile P xs \<noteq> [] \<Longrightarrow> last (dropWhile P xs) = last xs"
  by (induction xs) auto

lemma words_nonempty:
  "t \<noteq> [] \<Longrightarrow> inner_char (hd t) \<Longrightarrow> inner_char (last t) \<Longrightarrow> w \<in> set (words_of t) \<Longrightarrow> w \<noteq> []"
proof (induction t arbitrary: w rule: words_of.induct)
  case (1 t)
  let ?w = "takeWhile inner_char t" and ?rest = "dropWhile inner_char t"
  have w: "?w \<noteq> []" using 1(2,3) by (cases t) auto
  show ?case
  proof (cases "?rest = []")
    case True
    then show ?thesis using 1(5) w by (subst (asm) words_of.simps) (simp add: Let_def)
  next
    case False
    let ?next = "dropWhile (\<lambda>c. \<not> inner_char c) ?rest"
    have l: "last ?rest = last t" by (rule last_dropWhile [OF False])
    have "last ?rest \<in> set ?rest" using False by simp
    then have n: "?next \<noteq> []" using 1(4) l by (auto simp: dropWhile_eq_Nil_conv)
    have "inner_char (hd ?next)" using hd_dropWhile [OF n] by simp
    moreover have "inner_char (last ?next)" using last_dropWhile [OF n] l 1(4) by simp
    moreover have "w = ?w \<or> w \<in> set (words_of ?next)" using 1(5) False by (subst (asm) words_of.simps) (auto simp: Let_def split: if_splits)
    ultimately show ?thesis using 1(1) [OF refl refl False n] w by (elim disjE) simp_all
  qed
qed

lemma setRegex_nonempty:
  assumes "c \<in> set input" "word_char c" "w \<in> set (setRegex input)"
  shows "w \<noteq> []"
proof -
  let ?P = "\<lambda>c. \<not> word_char c"
  let ?a = "dropWhile ?P input"
  have a: "?a \<noteq> []" using assms(1,2) by (auto simp: dropWhile_eq_Nil_conv)
  have "word_char (hd ?a)" using hd_dropWhile [OF a] by simp
  moreover have "hd ?a \<in> set (rev ?a)" using a by simp
  ultimately have b: "dropWhile ?P (rev ?a) \<noteq> []" unfolding dropWhile_eq_Nil_conv by blast
  have t: "trim_marks input = rev (dropWhile ?P (rev ?a))" by (simp add: trim_marks_def)
  have "word_char (last (trim_marks input))" unfolding t using hd_dropWhile [OF b] b by (simp add: last_rev)
  moreover have "word_char (hd (trim_marks input))"
    unfolding t using last_dropWhile [OF b] b a \<open>word_char (hd ?a)\<close> by (simp add: hd_rev last_rev)
  ultimately show ?thesis using words_nonempty [of "trim_marks input" w] assms(3) b t
    by (simp add: setRegex_def inner_char_def)
qed

text \<open>C23: Searching for anything that has a letter, a digit or an underscore in it ends: the marking terminates,
  and when it does not fail it changes no text of the page, wherever the marks are put.\<close>

theorem marking_keeps_text:
  assumes "\<exists>c\<in>set input. word_char c"
  shows "\<exists>r. hiliteWords (setRegex input) s sect x st = Some r \<and>
    (\<forall>ks st'. r = Inr (ks, st') \<longrightarrow> concat (map text_of ks) = text_of x)"
proof -
  let ?ws = "setRegex input"
  have ws: "\<forall>w\<in>set ?ws. w \<noteq> []" using setRegex_nonempty assms by blast
  have "(\<exists>r. hiliteWords ?ws s sect x st = Some r \<and> (\<forall>ks st'. r = Inr (ks, st') \<longrightarrow> concat (map text_of ks) = text_of x))"
    "(\<exists>r. hilite_list ?ws s sect xs st = Some r \<and> (\<forall>ks st'. r = Inr (ks, st') \<longrightarrow> concat (map text_of ks) = concat (map text_of xs)))"
    for xs
  proof (induction ?ws s sect x st and ?ws s sect xs st rule: hiliteWords_hilite_list.induct)
    case (1 s sect t st)
    then show ?case using hilite_text_ends [OF ws] by simp
  next
    case (2 s sect x name c kids st)
    show ?case
    proof (cases "skipped name")
      case False
      let ?r = "hilite_list ?ws s (if name = ''SECTION'' then x else sect) kids st"
      obtain r where r: "?r = Some r" "\<forall>ks st'. r = Inr (ks, st') \<longrightarrow> concat (map text_of ks) = concat (map text_of kids)"
        using 2 [OF False] by blast
      then show ?thesis using False by (cases r) (auto simp del: if_split_asm simp: r(1) split: sum.split)
    qed simp
  next
    case (4 s sect k kids st)
    then show ?case by (fastforce split: option.splits sum.splits)
  qed simp
  then show ?thesis by blast
qed

theorem marking_keeps_text_witness:
  "\<exists>r. hiliteWords (setRegex ''(deck)'') sample None (Elem None ''P'' None [Text ''A deck.'']) new_hilitor = Some r"
  using marking_keeps_text [of "''(deck)''" sample None "Elem None ''P'' None [Text ''A deck.'']" new_hilitor]
  by (auto simp: word_char_def is_alnum_def)

text \<open>Without any such character the pattern is empty: it matches before every text, the text is split off again
  and again, and the page hangs.\<close>

lemma marks_only_hang:
  assumes "\<forall>c\<in>set input. \<not> word_char c" "t \<noteq> []"
  shows "hilite_text (setRegex input) i t st = None"
proof -
  have "dropWhile (\<lambda>c. \<not> word_char c) input = []" using assms(1) by (simp add: dropWhile_eq_Nil_conv)
  then have "trim_marks input = []" by (simp only: trim_marks_def rev.simps dropWhile.simps)
  then have ws: "setRegex input = [[]]" by (simp add: setRegex_def words_of.simps)
  have p: "(if t = [] then None else search_from (match_word [[]]) 0 t) = Some (0, 0)" if "t \<noteq> []" for t :: string
    using that by (cases t) (simp_all add: starts_with_def lower_def)
  have c: "\<exists>c st1. color_of (lower (take (0 - 0) (drop 0 t))) st = Inr (c, st1)" for t :: string and st
    by (simp add: color_of_def lower_def array_names_def Let_def split: option.split)
  have False if "hilite_text ws' i' t' st' = Some r" "ws' = [[]]" "t' \<noteq> []" for ws' i' t' st' r
  proof -
    have "ws' = [[]] \<and> t' \<noteq> [] \<longrightarrow> False"
    proof (rule hilite_text.raw_induct [where P = "\<lambda>ws i t st r. ws = [[]] \<and> t \<noteq> [] \<longrightarrow> False", OF _ that(1)])
      fix f ws i t st r
      assume IH: "\<And>ws i t st r. f ws i t st = Some r \<Longrightarrow> ws = [[]] \<and> t \<noteq> [] \<longrightarrow> False"
        and eq: "(case if t = [] then None else search_from (match_word ws) 0 t of
            None \<Rightarrow> Some (Inr ([Text t], st))
          | Some (index, next) \<Rightarrow>
              let m = take (next - index) (drop index t)
              in case color_of (lower m) (note_slide i st) of
                   Inl e \<Rightarrow> Some (Inl e)
                 | Inr (c, st1) \<Rightarrow>
                     Option.bind (f ws i (drop next t) st1) (\<lambda>r. Some
                       (case r of
                          Inl e \<Rightarrow> Inl e
                        | Inr (rest, st2) \<Rightarrow> Inr (Text (take index t) # Elem None ''EM'' c [Text m] # rest, st2)))) = Some r"
      show "ws = [[]] \<and> t \<noteq> [] \<longrightarrow> False"
      proof
        assume a: "ws = [[]] \<and> t \<noteq> []"
        then obtain c st1 where "color_of (lower (take (0 - 0) (drop 0 t))) (note_slide i st) = Inr (c, st1)" using c by blast
        then have "\<exists>r1. f ws i t st1 = Some r1" using eq a p [of t] by (auto simp: Let_def Option.bind_eq_Some_conv)
        then show False using IH a by blast
      qed
    qed
    then show False using that(2,3) by blast
  qed
  then show ?thesis unfolding ws using assms(2) by (metis option.exhaust)
qed

section \<open>Going through the matches\<close>

fun presses :: "nat \<Rightarrow> searcher \<Rightarrow> indices option list" where
  "presses 0 q = []"
| "presses (Suc n) q = (let (i, q') = next_match q in i # presses n q')"

lemma presses_from:
  assumes "matchedSlides q = Some ms" "ms \<noteq> []" "currentMatchedIndex q \<le> length ms"
  shows "presses n q = map (\<lambda>k. Some (ms ! ((currentMatchedIndex q + k) mod length ms))) [0..<n]"
  using assms
proof (induction n arbitrary: q)
  case (Suc n)
  let ?c = "currentMatchedIndex q" and ?i = "currentMatchedIndex q mod length ms"
  have i: "(if length ms \<le> ?c then 0 else ?c) = ?i" "?i < length ms" using Suc.prems by auto
  have nm: "next_match q = (Some (ms ! ?i), q\<lparr>currentMatchedIndex := Suc ?i\<rparr>)"
    using Suc.prems i by (simp add: next_match_def Let_def)
  have "presses n (q\<lparr>currentMatchedIndex := Suc ?i\<rparr>) = map (\<lambda>k. Some (ms ! ((Suc ?i + k) mod length ms))) [0..<n]"
    using Suc.IH [of "q\<lparr>currentMatchedIndex := Suc ?i\<rparr>"] Suc.prems i(2) by simp
  also have "\<dots> = map (\<lambda>k. Some (ms ! ((?c + Suc k) mod length ms))) [0..<n]"
    by (rule map_cong) (simp_all, metis mod_Suc_eq mod_add_left_eq)
  finally show ?case by (simp add: nm map_upt_Suc del: upt_Suc)
qed simp



text \<open>The word length cannot be searched for: its colour would be the length of the array of colours.\<close>

lemma length_fails: "hilite_text [''length''] i ''length'' st = Some (Inl RangeError)"
  by (subst hilite_text.simps)
    (simp add: starts_with_def lower_def to_lower_def color_of_def)

text \<open>A second search does not see a word that the first one has split: the pieces of text stay apart.\<close>

lemma pieces_stay_apart:
  "unmark (Elem None ''P'' None [Text ''c'', Elem None ''EM'' (Some ''#ff6'') [Text ''a''], Text ''t'']) =
     Inr (Elem None ''P'' None [Text ''c'', Text ''a'', Text ''t''])"
  by simp

text \<open>Emphasis that the author of the slides has written is taken for a mark, and all but its first child is lost.\<close>

lemma emphasis_lost:
  "unmark (Elem (Some x) ''EM'' None [Text ''very'', Elem (Some y) ''B'' None [Text ''much'']]) = Inr (Text ''very'')"
  by simp

end
