(* ===== verification/Speaker.thy ===== *)
theory Speaker
  imports Navigation
begin

text \<open>
  \<open>plugin/notes/plugin.js\<close>: the window with the notes for the speaker. The window is opened or found again,
  answers the pings of the deck, and is then sent the notes of the current slide whenever the deck changes.
  What a message asks the deck to do is a parameter, \<open>call\<close>; other windows are numbers.
\<close>

section \<open>The notes of a slide\<close>

record notes_message =
  nm_notes :: string
  nm_markdown :: bool
  nm_whitespace :: string
  nm_state :: pstate

definition notes_in :: "dom \<Rightarrow> node \<Rightarrow> node list" where
  "notes_in d x = queryAll d x (notes_element d)"

definition inner_markdown :: "dom \<Rightarrow> node \<Rightarrow> bool" where
  "inner_markdown d x = has_attr ''data-markdown'' d x"

text \<open>The notes of the current fragment, if it has any: in an element inside it, or in its attribute.\<close>

definition fragment_notes :: "dom \<Rightarrow> node \<Rightarrow> notes_message \<Rightarrow> notes_message option" where
  "fragment_notes d slideElement m =
     (case querySel d slideElement (has_class ''current-fragment'' d) of
        None \<Rightarrow> None
      | Some f \<Rightarrow>
         (case notes_in d f of
            n # _ \<Rightarrow> Some (m\<lparr>nm_notes := html d n, nm_markdown := inner_markdown d n\<rparr>)
          | [] \<Rightarrow> (case get_attr ''data-notes'' d f of
               Some t \<Rightarrow> Some (m\<lparr>nm_notes := t, nm_whitespace := ''pre-wrap''\<rparr>)
             | None \<Rightarrow> None)))"

text \<open>Without them the elements of the slide are taken; the first is read whether or not there is one.\<close>

definition post_message :: "reveal \<Rightarrow> error + notes_message" where
  "post_message s =
     (let d = doc s in
      case currentSlide s of
        None \<Rightarrow> Inl TypeError
      | Some slideElement \<Rightarrow>
         (let m0 = \<lparr>nm_notes = [], nm_markdown = False, nm_whitespace = ''normal'', nm_state = getState s\<rparr>;
              m1 = (case get_attr ''data-notes'' d slideElement of
                      Some t \<Rightarrow> m0\<lparr>nm_notes := t, nm_whitespace := ''pre-wrap''\<rparr> | None \<Rightarrow> m0)
          in case fragment_notes d slideElement m1 of
               Some m \<Rightarrow> Inr m
             | None \<Rightarrow>
                (case notes_in d slideElement of
                   [] \<Rightarrow> Inl TypeError
                 | n # ns \<Rightarrow> Inr (m1\<lparr>nm_notes := join_with [CHR 0x0A] (map (html d) (n # ns)), nm_markdown := inner_markdown d n\<rparr>))))"

section \<open>The window\<close>

datatype notes_sent = Ping pstate string | State notes_message | Result string string

text \<open>The window with its number and whether it has been closed, the intervals that are running and the last of
  them, whether messages are listened to, the events of the deck that post, and what has been sent to which window.\<close>

record speaker =
  speakerWindow :: "(nat \<times> bool) option"
  intervals :: "nat set"
  connectInterval :: "nat option"
  next_interval :: nat
  answers :: bool
  monitored :: "string set"
  sent :: "(nat \<times> notes_sent) list"

definition new_speaker :: speaker where
  "new_speaker = \<lparr>speakerWindow = None, intervals = {}, connectInterval = None, next_interval = 1, answers = False,
     monitored = {}, sent = []\<rparr>"

definition send :: "notes_sent \<Rightarrow> speaker \<Rightarrow> error option \<times> speaker" where
  "send m p = (case speakerWindow p of
       Some (w, _) \<Rightarrow> (None, p\<lparr>sent := sent p @ [(w, m)]\<rparr>)
     | None \<Rightarrow> (Some TypeError, p))"

definition post_notes :: "reveal \<Rightarrow> speaker \<Rightarrow> error option \<times> speaker" where
  "post_notes s p = (case post_message s of Inl e \<Rightarrow> (Some e, p) | Inr m \<Rightarrow> send (State m) p)"

definition monitored_events :: "string set" where
  "monitored_events = {''slidechanged'', ''fragmentshown'', ''fragmenthidden'', ''overviewhidden'', ''overviewshown'',
     ''paused'', ''resumed''}"

definition onConnected :: "reveal \<Rightarrow> speaker \<Rightarrow> error option \<times> speaker" where
  "onConnected s p = post_notes s (p\<lparr>monitored := monitored p \<union> monitored_events\<rparr>)"

definition window_open :: "speaker \<Rightarrow> bool" where
  "window_open p = (case speakerWindow p of Some (_, shut) \<Rightarrow> \<not> shut | None \<Rightarrow> False)"

definition connect :: "speaker \<Rightarrow> speaker" where
  "connect p = p\<lparr>intervals := insert (next_interval p) (intervals p), connectInterval := Some (next_interval p),
     next_interval := Suc (next_interval p), answers := True\<rparr>"

text \<open>A window that the browser does not open is \<open>None\<close>: it is written to before it is tested.\<close>

definition openSpeakerWindow :: "nat option \<Rightarrow> speaker \<Rightarrow> error option \<times> speaker" where
  "openSpeakerWindow opened p =
     (if window_open p then (None, p)
      else (case opened of
          None \<Rightarrow> (Some TypeError, p\<lparr>speakerWindow := None\<rparr>)
        | Some w \<Rightarrow> (None, connect (p\<lparr>speakerWindow := Some (w, False)\<rparr>))))"

definition reconnectSpeakerWindow :: "nat \<Rightarrow> reveal \<Rightarrow> speaker \<Rightarrow> error option \<times> speaker" where
  "reconnectSpeakerWindow w s p =
     (if window_open p then (None, p)
      else onConnected s (p\<lparr>speakerWindow := Some (w, False), answers := True\<rparr>))"

section \<open>Messages\<close>

text \<open>What comes in a message: the three kinds the plugin knows, something else, or no JSON.\<close>

datatype notes_received = Connected | Call string string | Heartbeat | Unknown | NoJson

definition callRevealApi :: "(string \<Rightarrow> reveal \<Rightarrow> error + string \<times> reveal) \<Rightarrow> string \<Rightarrow> string \<Rightarrow> reveal \<Rightarrow> speaker \<Rightarrow>
    error option \<times> speaker \<times> reveal" where
  "callRevealApi call name callId s p =
     (case call name s of
        Inl e \<Rightarrow> (Some e, p, s)
      | Inr (r, s1) \<Rightarrow> (let (e, p1) = send (Result r callId) p in (e, p1, s1)))"

definition stopped :: "speaker \<Rightarrow> speaker" where
  "stopped p = p\<lparr>intervals := (case connectInterval p of Some i \<Rightarrow> intervals p - {i} | None \<Rightarrow> intervals p)\<rparr>"

definition onNotesMessage :: "(string \<Rightarrow> reveal \<Rightarrow> error + string \<times> reveal) \<Rightarrow> bool \<Rightarrow> notes_received \<Rightarrow> reveal \<Rightarrow> speaker \<Rightarrow>
    error option \<times> speaker \<times> reveal" where
  "onNotesMessage call sameOrigin m s p =
     (if \<not> sameOrigin then (None, p, s)
      else (case m of
          NoJson \<Rightarrow> (Some SyntaxError, p, s)
        | Connected \<Rightarrow> (let (e, p1) = onConnected s (stopped p) in (e, p1, s))
        | Call name callId \<Rightarrow> callRevealApi call name callId s p
        | _ \<Rightarrow> (None, p, s)))"

definition onHeartbeat :: "nat \<Rightarrow> notes_received \<Rightarrow> reveal \<Rightarrow> speaker \<Rightarrow> error option \<times> speaker" where
  "onHeartbeat w m s p = (if speakerWindow p = None \<and> m = Heartbeat then reconnectSpeakerWindow w s p else (None, p))"

section \<open>Events\<close>

datatype speaker_event = OpenKey "nat option" | Closed | Tick nat string | Received nat bool notes_received | Deck string

text \<open>The listener for heartbeats is the older one and hears a message first.\<close>

fun speaker_step :: "(string \<Rightarrow> reveal \<Rightarrow> error + string \<times> reveal) \<Rightarrow> speaker_event \<Rightarrow> reveal \<Rightarrow> speaker \<Rightarrow>
    error option \<times> speaker \<times> reveal" where
  "speaker_step call (OpenKey w) s p = (let (e, p1) = openSpeakerWindow w p in (e, p1, s))"
| "speaker_step call Closed s p = (None, p\<lparr>speakerWindow := map_option (\<lambda>(w, _). (w, True)) (speakerWindow p)\<rparr>, s)"
| "speaker_step call (Tick i url) s p =
     (if i \<in> intervals p then (let (e, p1) = send (Ping (getState s) url) p in (e, p1, s)) else (None, p, s))"
| "speaker_step call (Received w sameOrigin m) s p =
     (let (e, p1) = onHeartbeat w m s p;
          (e2, p2, s2) = (if answers p then onNotesMessage call sameOrigin m s p1 else (None, p1, s))
      in (if e = None then e2 else e, p2, s2))"
| "speaker_step call (Deck ev) s p =
     (if ev \<in> monitored p then (let (e, p1) = post_notes s p in (e, p1, s)) else (None, p, s))"

section \<open>When posting fails\<close>

definition has_fragment_notes :: "dom \<Rightarrow> node \<Rightarrow> bool" where
  "has_fragment_notes d x = (case querySel d x (has_class ''current-fragment'' d) of
       Some f \<Rightarrow> notes_in d f \<noteq> [] \<or> has_attr ''data-notes'' d f | None \<Rightarrow> False)"

lemma fragment_notes_None: "fragment_notes d x m = None \<longleftrightarrow> \<not> has_fragment_notes d x"
  by (auto simp: fragment_notes_def has_fragment_notes_def has_attr_iff split: option.splits list.splits)

text \<open>C25: Posting the notes of a slide fails exactly when neither the slide has an element with notes nor its
  current fragment has notes of any kind: on every slide without notes, and on one with notes in its
  attribute only, which is never what is posted.\<close>

theorem posting_fails:
  assumes "currentSlide s = Some x"
  shows "post_message s = Inl TypeError \<longleftrightarrow> notes_in (doc s) x = [] \<and> \<not> has_fragment_notes (doc s) x"
proof (cases "has_fragment_notes (doc s) x")
  case True
  then have "(case fragment_notes (doc s) x m of Some n \<Rightarrow> Inr n | None \<Rightarrow> e) \<noteq> Inl TypeError" for m e
    using fragment_notes_None [of "doc s" x m] by (cases "fragment_notes (doc s) x m") simp_all
  then show ?thesis using True assms by (simp add: post_message_def Let_def)
next
  case False
  then have "fragment_notes (doc s) x m = None" for m by (simp add: fragment_notes_None)
  then show ?thesis using False assms by (simp add: post_message_def Let_def split: list.split)
qed

theorem posting_fails_witness: "post_message (sample_at 0 0 4) = Inl TypeError"
proof -
  have "notes_in (doc (sample_at 0 0 4)) 4 = []" "\<not> has_fragment_notes (doc (sample_at 0 0 4)) 4" by code_simp+
  then show ?thesis using posting_fails [of "sample_at 0 0 4" 4] by (simp add: sample_at_def)
qed

text \<open>A heartbeat is answered whatever the origin of the message: the window that sent it is sent the notes.\<close>

lemma heartbeat_unchecked:
  assumes "post_message s = Inr m"
  shows "sent (fst (snd (speaker_step call (Received w False Heartbeat) s new_speaker))) = [(w, State m)]"
  using assms by (simp add: onHeartbeat_def reconnectSpeakerWindow_def window_open_def new_speaker_def onConnected_def
      post_notes_def send_def)

text \<open>A window that is closed before it has answered leaves its interval running: only the last one is cleared.\<close>

lemma interval_left_running:
  "intervals (stopped (snd (openSpeakerWindow (Some 2) (fst (snd (speaker_step call Closed s
     (snd (openSpeakerWindow (Some 1) new_speaker)))))))) = {1}"
  by (auto simp: openSpeakerWindow_def window_open_def connect_def stopped_def new_speaker_def)

text \<open>A message from another origin never reaches the deck; it changes nothing while there is a window.\<close>

lemma foreign_messages:
  "snd (snd (speaker_step call (Received w False m) s p)) = s"
  "speakerWindow p \<noteq> None \<Longrightarrow> speaker_step call (Received w False m) s p = (None, p, s)"
  by (simp_all add: onHeartbeat_def onNotesMessage_def split_beta Let_def) auto

end
