(* ===== verification/Spec2Isabelle.thy ===== *)
theory Spec2Isabelle
  imports KeyBindings Configure Reading Print CodeLines MarkdownSlides Zoom Search Speaker
begin

text \<open>
  A verification development for the deck engine of reveal.js 4.3.1 and its own plugins, the JavaScript
  program with which the slides of this repository are shown. Its sources are under
  \<open>src/reports/dagster_pricai_slides/revealjs\<close>, the engine in \<open>js\<close> and the plugins in \<open>plugin\<close> (the copy
  under \<open>dagster_tutorials_youtube\<close> has the same files). File names below are relative to \<open>js\<close>.

  The program. \<open>reveal.js\<close> owns the state of a deck (indices, current and previous slide, auto-slide
  timer, overlay, options) and the operations on it; \<open>controllers/\<close> has one class for each concern
  (fragments, backgrounds, overview, keyboard, \<dots>) that reads the deck through its API and writes to the
  page. What changes a deck is a handler: a key, a swipe, the wheel, a click, a message, a change of the
  hash, or a timer. Most handlers end in \<open>slide\<close>, which positions the slides of both axes, writes
  classes and attributes, tells every controller and announces the change.

  How it is modelled. The document is a value (\<open>Dom\<close>): a forest of nodes with tags, classes,
  attributes, styles and content, in which every node has the chain of its ancestors. A deck is a record
  (\<open>State\<close>) of its variables, its options, the document, what the page tells it (\<open>host\<close>, \<open>refs\<close>) and what
  it does to the world (events, pending timers, listeners, effects, URL). Operations are functions from
  record to record in the order of the code, with every guard and early return. What may throw has the
  result type \<open>outcome\<close>, which keeps the state in which the exception left the deck. A JavaScript number
  that is used as an index is a \<open>jsnum\<close>, with \<open>undefined\<close> and \<open>NaN\<close> as values; lengths and times are real
  numbers or integers, since nothing in the program depends on their width. A promise or an animation
  frame that is waited for is a step of a transition relation.

  Foundations.
  \<^item> \<open>Prelude\<close>: numbers, strings, options, lists, and the collections of rewrite rules.
  \<^item> \<open>Dom\<close>, \<open>Paths\<close>: the document and its ancestor chains.
  \<^item> \<open>State\<close>, \<open>Sample\<close>: the records of a deck, and a small deck on which the properties are tried.
  \<^item> \<open>Util\<close>, \<open>Color\<close>, \<open>Uri\<close>, \<open>Objects\<close>: \<open>utils/util.js\<close>, \<open>utils/color.js\<close>, and what the code uses of the
    language (URI coding, objects as tables).

  Contracts. They are what keeps the proofs apart from each other, as locales and relations.
  \<^item> \<open>Frame\<close>: a quiet operation may write to the page but leaves alone what navigation reads, and the
    auto-slide timers. Locale \<open>page_op\<close>; every controller's update interprets it.
  \<^item> \<open>DeckOk\<close>: the invariant \<open>deck_ok\<close> of a deck, and \<open>moves\<close>: an operation keeps it and stays in the same
    deck. Locale \<open>deck_move\<close>; \<open>slide\<close>, the six directions and \<open>readURL\<close> interpret it.
  \<^item> \<open>Position\<close>: \<open>on_slide\<close>, what being on a slide means, and locale \<open>navigator\<close>, a \<open>deck_move\<close> that returns
    in such a position.
  \<^item> \<open>Modes\<close>: \<open>healthy\<close> decks and \<open>safe\<close> handlers (locale \<open>handler\<close>), which do not throw there and leave a
    healthy deck with the same slides. \<open>Keyboard\<close> has \<open>safe_api\<close>, the contract of an API that keys may call.
  \<^item> \<open>Grid\<close>: the abstract specification of the moves, a walk on a grid of cells, and locale \<open>walks\<close>, the
    refinement contract, which \<open>slide\<close> and the four directions interpret.
  \<^item> \<open>Configure\<close>: \<open>stays\<close>, what applying options keeps.

  Components, each with its operations and their lemmas.
  \<^item> \<open>Deck\<close> (queries of \<open>reveal.js\<close>), \<open>Slides\<close> (\<open>updateSlides\<close>, visibility, resets), \<open>Layout\<close> (size and
    scale), \<open>AutoSlide\<close> (timer and pausing), \<open>Navigation\<close> (\<open>slide\<close>, directions, \<open>readURL\<close>), \<open>Overlay\<close>
    (previews and help), \<open>Handlers\<close> (clicks, messages, saved states, timers, page events).
  \<^item> \<open>FragmentSort\<close>, \<open>Fragments\<close>, \<open>FragmentSteps\<close> (\<open>controllers/fragments.js\<close>); \<open>SlideContent\<close>;
    \<open>Backgrounds\<close> and \<open>Backdrop\<close> (\<open>controllers/backgrounds.js\<close>, following and creating them);
    \<open>Controls\<close>; \<open>Progress\<close>; \<open>SlideNumber\<close>; \<open>Notes\<close>; \<open>Location\<close>; \<open>Overview\<close>; \<open>Pointer\<close> (with
    \<open>focus.js\<close>); \<open>Touch\<close>; \<open>Keyboard\<close>.
  \<^item> \<open>AnimateMatch\<close>, \<open>AutoAnimate\<close> (\<open>controllers/autoanimate.js\<close>): the pairs of elements, and the styles
    that carry one into the other.
  \<^item> \<open>Plugins\<close> (\<open>controllers/plugins.js\<close>, \<open>utils/loader.js\<close>) and \<open>Playback\<close> (\<open>components/playback.js\<close>) as
    transition relations.
  \<^item> \<open>Render\<close>, \<open>Listeners\<close>, \<open>Sync\<close>, \<open>Setup\<close> (\<open>initialize\<close>, \<open>start\<close>, \<open>configure\<close>, \<open>shuffle\<close>, \<open>destroy\<close>).
  \<^item> \<open>Print\<close> (\<open>controllers/print.js\<close>): the sheets of a printed deck, with deep copies of the document.

  Plugins. They use the deck through its API only, so each is a theory of its own.
  \<^item> \<open>CodeLines\<close> (\<open>plugin/highlight/plugin.js\<close>): the steps of a code block, the fragments made of them, and
    scrolling. What \<open>highlight.js\<close> does to the text of the block is left out.
  \<^item> \<open>Markdown\<close>, \<open>MarkdownSlides\<close> (\<open>plugin/markdown/plugin.js\<close>): a document as slides, and the slides as HTML.
    The engine of regular expressions, \<open>marked\<close> and the server are parameters.
  \<^item> \<open>Zoom\<close> (\<open>plugin/zoom/plugin.js\<close>): the zoom as a state machine of calls, events and timers.
  \<^item> \<open>Speaker\<close> (\<open>plugin/notes/plugin.js\<close>): the notes that are posted, and the window of the speaker as a state
    machine of keys, intervals and messages.
  \<^item> \<open>Search\<close> (\<open>plugin/search/plugin.js\<close>): marking the matches in a tree of text, and going through them.

  Compositions.
  \<^item> \<open>Session\<close>: anything a user, the page, other windows and the timers can do, in any order; this theory
    states what holds throughout.
  \<^item> \<open>Grid\<close>, \<open>Reading\<close>: sequences of moves, and going through a presentation with \<open>next\<close>.
  \<^item> \<open>SavedState\<close>: \<open>getState\<close> and \<open>setState\<close>; \<open>KeyBindings\<close>: bindings added at run time, and pausing by key.
  \<^item> \<open>Configure\<close>: options applied to a running deck.

  What is shown. A deck that starts healthy stays healthy, on one of its slides, with one auto-slide timer
  at most, and no handler throws, whatever happens to it. Each move lands where its indices, the loop
  option and the remembered vertical indices say. Fragments are sorted stably and stepped through one group
  at a time; hashes and saved states are read back as they were written; plugins are initialised once, in
  order, and loading ends; auto-animation pairs elements by position and animates none twice; what is bound
  can be unbound; a printed sheet shows exactly the steps up to its own; the steps of a code block become
  fragments that light their own lines; splitting a Markdown document loses nothing; marking matches ends
  and keeps the text; the zoom leaves nothing behind. The claims that fail are lemmas as well:
  \<open>slide_nan_recovers\<close>, \<open>shuffle_loses_position\<close>, \<open>two_animations\<close>, \<open>late_plugin_forgotten\<close>,
  \<open>unchanged_is_scaled\<close>, \<open>marks_only_hang\<close>, \<open>length_fails\<close>, \<open>empty_separator_hangs\<close>, \<open>corner_pans_sideways\<close>.

  Hypotheses. A well-formed deck nests its sections at most two deep, its containers are not sections,
  the states its slides ask for are class names the engine does not use itself, and remembered vertical
  indices can be read. A listener that vetoes \<open>beforeslidechange\<close> is a predicate of the host. All are met
  by the sample deck, on which every property with hypotheses has a witness.

  Bounds. All functions are total, but for two loops that may not end: \<open>stack_up\<close> in \<open>Markdown\<close> and
  \<open>hilite_text\<close> in \<open>Search\<close> are partial functions with \<open>None\<close> for a loop, and when they end is proved. Recursion through the document is bounded by \<open>depth_bound\<close>, the length
  of the longest chain of ancestors, which a descent into children cannot exceed; loading ends by a measure
  that counts the scripts, promises and plugins outstanding.

  Not modelled. The browser: rendering, layout of text, media playback, the parsing of HTML and JSON,
  random numbers and the clock are parameters, values of the host, or effects in the log.
  \<open>setupScrollPrevention\<close> scrolls an element back every second. Of the plugins, \<open>math\<close> only loads
  scripts; the others are extensions by another author around bundled libraries. The
  solver of the repository, its generators and its benchmarks are C++ and Python.
\<close>

section \<open>Sessions\<close>

text \<open>The API with which the sessions below are run, on a browser with one of the kinds of touch events.\<close>

abbreviation full_api :: "pointer_support \<Rightarrow> api" where
  "full_api p \<equiv> deck_api (upkeep_api p)"


lemma sample_session: "session (full_api PointerEvents) (sample_at 0 0 4) (after (react (full_api PointerEvents) (Arrow ARight) (sample_at 0 0 4)))"
  by (rule session.step [OF session.start deck_step.input])


text \<open>C3: Throughout such a session the deck has the slides it started with and is on one of them: the
  indices are in range, the current slide is the one they name, and it alone is marked present.\<close>

theorem session_on_a_slide:
  assumes "healthy s0" and "session (full_api p) s0 s"
  shows "getHorizontalSlides s = getHorizontalSlides s0 \<and> on_slide s"
  using upkeep.session_slides(1) [OF assms(2,1)] upkeep.session_healthy [OF assms(2,1)] healthyD(5) by simp

theorem session_on_a_slide_witness:
  "on_slide (after (react (full_api PointerEvents) (Arrow ARight) (sample_at 0 0 4)))"
  using session_on_a_slide [OF healthy_sample(1) sample_session] by simp

text \<open>C6: At no point of such a session are two auto-slide timers pending, and none is while the deck is
  paused, auto-sliding is paused or the overview is open.\<close>

theorem session_one_timer:
  assumes "healthy s0" and "session (full_api p) s0 s"
  shows "length (timers_of TAutoSlide (world s)) \<le> (if halted s then 0 else 1)"
proof -
  have ok: "auto_ok s" using upkeep.session_healthy [OF assms(2,1)] healthyD(4) by blast
  then have "distinct (map tid (timers_of TAutoSlide (world s)))"
    by (auto simp: auto_ok_def timers_ok_def wf_timers_def timers_of_def distinct_map intro: inj_on_subset)
  moreover have "set (map tid (timers_of TAutoSlide (world s))) \<subseteq> {autoSlideTimeout s}"
    using ok by (auto simp: auto_ok_def)
  ultimately have "length (map tid (timers_of TAutoSlide (world s))) \<le> card {autoSlideTimeout s}"
    by (metis card_mono distinct_card finite.emptyI finite.insertI)
  then show ?thesis using ok by (auto simp: auto_ok_def)
qed

theorem session_one_timer_witness:
  "length (timers_of TAutoSlide (world (after (react (full_api PointerEvents) (Arrow ARight) (sample_at 0 0 4))))) \<le> 1"
  using session_one_timer [OF healthy_sample(1) sample_session] by (simp split: if_splits)

end
